(* ===== verification/Prelude.thy ===== *)
theory Prelude
  imports "HOL-Library.AList" Complex_Main
begin

text \<open>
  Shared material of the development: the insertion-ordered maps and sets of JavaScript
  (\<open>Map\<close>, \<open>Set\<close>) as lists, the laws their clients use as a locale, results of fallible
  code as sums, and the list lemmas that several components need.
\<close>

section \<open>Fact collections\<close>

named_theorems js_map_simps \<open>rewrite rules for insertion-ordered maps\<close>
named_theorems job_frame \<open>fields of the model state an operation leaves alone\<close>

section \<open>Results of fallible code\<close>

text \<open>
  Code that may throw returns \<open>Inl e\<close> for the thrown error and \<open>Inr v\<close> for a value. Running
  \<open>f\<close> over a list in order stops at the first error, as a loop around a throwing call does.
\<close>

definition andThen :: "'e + 'a \<Rightarrow> ('a \<Rightarrow> 'e + 'b) \<Rightarrow> 'e + 'b" where
  "andThen r f = (case r of Inl e \<Rightarrow> Inl e | Inr x \<Rightarrow> f x)"

lemma andThen_simps [simp]:
  "andThen (Inl e) f = Inl e"
  "andThen (Inr x) f = f x"
  by (simp_all add: andThen_def)

lemma andThen_Inr_iff: "andThen r f = Inr y \<longleftrightarrow> (\<exists>x. r = Inr x \<and> f x = Inr y)"
  by (cases r) auto

lemma andThen_Inl_iff:
  "andThen r f = Inl e \<longleftrightarrow> r = Inl e \<or> (\<exists>x. r = Inr x \<and> f x = Inl e)"
  by (cases r) auto

fun fold_res :: "('a \<Rightarrow> 's \<Rightarrow> 'e + 's) \<Rightarrow> 'a list \<Rightarrow> 's \<Rightarrow> 'e + 's" where
  "fold_res f [] s = Inr s"
| "fold_res f (x # xs) s = andThen (f x s) (fold_res f xs)"

lemma fold_res_append:
  "fold_res f (xs @ ys) s = andThen (fold_res f xs s) (fold_res f ys)"
  by (induction xs arbitrary: s) (auto simp: andThen_def split: sum.splits)

lemma fold_res_invariant:
  assumes "fold_res f xs s = Inr t" and "I s"
    and "\<And>x s s'. x \<in> set xs \<Longrightarrow> I s \<Longrightarrow> f x s = Inr s' \<Longrightarrow> I s'"
  shows "I t"
  using assms by (induction xs arbitrary: s) (auto simp: andThen_Inr_iff)

text \<open>A check that throws \<open>e\<close> unless its condition holds.\<close>

definition ensure :: "bool \<Rightarrow> 'e \<Rightarrow> 'e + unit" where
  "ensure b e = (if b then Inr () else Inl e)"

lemma ensure_simps [simp]:
  "ensure True e = Inr ()"
  "ensure False e = Inl e"
  by (simp_all add: ensure_def)

lemma ensure_Inr_iff [simp]: "ensure b e = Inr u \<longleftrightarrow> b"
  by (cases b) auto

lemma ensure_Inl_iff [simp]: "ensure b e = Inl e' \<longleftrightarrow> \<not> b \<and> e' = e"
  by (cases b) auto

section \<open>Insertion-ordered maps and sets\<close>

text \<open>
  A JavaScript \<open>Map\<close> iterates in insertion order: \<open>set\<close> on a present key keeps its place,
  on a new key appends, \<open>delete\<close> removes the entry. That is an association list with the
  library's \<open>AList.update\<close> and \<open>AList.delete\<close>, distinct keys being the invariant.
\<close>

type_synonym ('k, 'v) jsmap = "('k \<times> 'v) list"

abbreviation jm_get :: "('k, 'v) jsmap \<Rightarrow> 'k \<Rightarrow> 'v option" where
  "jm_get \<equiv> map_of"

abbreviation jm_set :: "'k \<Rightarrow> 'v \<Rightarrow> ('k, 'v) jsmap \<Rightarrow> ('k, 'v) jsmap" where
  "jm_set \<equiv> AList.update"

abbreviation jm_delete :: "'k \<Rightarrow> ('k, 'v) jsmap \<Rightarrow> ('k, 'v) jsmap" where
  "jm_delete \<equiv> AList.delete"

abbreviation jm_keys :: "('k, 'v) jsmap \<Rightarrow> 'k list" where
  "jm_keys m \<equiv> map fst m"

abbreviation jm_wf :: "('k, 'v) jsmap \<Rightarrow> bool" where
  "jm_wf m \<equiv> distinct (map fst m)"

definition jm_has :: "('k, 'v) jsmap \<Rightarrow> 'k \<Rightarrow> bool" where
  "jm_has m k = (case map_of m k of None \<Rightarrow> False | Some _ \<Rightarrow> True)"

lemma jm_has_iff: "jm_has m k \<longleftrightarrow> k \<in> fst ` set m"
  using map_of_eq_None_iff [of m k] by (cases "map_of m k") (auto simp: jm_has_def)

lemma jm_has_get: "jm_has m k \<longleftrightarrow> (\<exists>v. jm_get m k = Some v)"
  by (auto simp: jm_has_def split: option.splits)

lemma jm_get_set [js_map_simps]: "jm_get (jm_set k v m) k' = (if k' = k then Some v else jm_get m k')"
  by (simp add: update_conv')

lemma jm_get_delete [js_map_simps]: "jm_get (jm_delete k m) k' = (if k' = k then None else jm_get m k')"
  by (simp add: delete_conv')

lemma jm_keys_set_new: "k \<notin> set (jm_keys m) \<Longrightarrow> jm_set k v m = m @ [(k, v)]"
  by (induction m) auto

lemma jm_keys_set_old: "k \<in> set (jm_keys m) \<Longrightarrow> jm_keys (jm_set k v m) = jm_keys m"
  by (induction m) auto

lemma jm_keys_set: "set (jm_keys (jm_set k v m)) = insert k (set (jm_keys m))"
  by (induction m) auto

lemma jm_keys_delete: "jm_keys (jm_delete k m) = removeAll k (jm_keys m)"
  by (simp add: AList.delete_eq removeAll_filter_not_eq filter_map o_def eq_commute split_def)

lemma jm_wf_set: "jm_wf m \<Longrightarrow> jm_wf (jm_set k v m)"
  by (rule distinct_update)

lemma jm_wf_delete: "jm_wf m \<Longrightarrow> jm_wf (jm_delete k m)"
  by (rule distinct_delete)

lemma jm_mem_get: "jm_wf m \<Longrightarrow> (k, v) \<in> set m \<longleftrightarrow> jm_get m k = Some v"
  by simp

lemma jm_length_set:
  "length (jm_set k v m) = (if k \<in> set (jm_keys m) then length m else Suc (length m))"
  by (induction m) auto

text \<open>The laws a client of an ordered map relies on, whatever the representation.\<close>

locale ordered_map =
  fixes get :: "'m \<Rightarrow> 'k \<Rightarrow> 'v option"
    and put :: "'k \<Rightarrow> 'v \<Rightarrow> 'm \<Rightarrow> 'm"
    and del :: "'k \<Rightarrow> 'm \<Rightarrow> 'm"
    and keys :: "'m \<Rightarrow> 'k list"
    and wf :: "'m \<Rightarrow> bool"
  assumes get_put: "get (put k v m) k' = (if k' = k then Some v else get m k')"
    and get_del: "get (del k m) k' = (if k' = k then None else get m k')"
    and keys_get: "set (keys m) = {k. get m k \<noteq> None}"
    and keys_put: "keys (put k v m) = (if get m k = None then keys m @ [k] else keys m)"
    and keys_del: "keys (del k m) = removeAll k (keys m)"
    and wf_put: "wf m \<Longrightarrow> wf (put k v m)"
    and wf_del: "wf m \<Longrightarrow> wf (del k m)"
begin

lemma put_put_get: "get (put k v (put k w m)) k' = get (put k v m) k'"
  by (simp add: get_put)

lemma del_put_get: "get (del k (put k v m)) k' = get (del k m) k'"
  by (simp add: get_put get_del)

lemma put_put_keys: "keys (put k v (put k w m)) = keys (put k w m)"
  by (simp add: keys_put get_put)

lemma del_absent_keys: "get m k = None \<Longrightarrow> keys (del k m) = keys m"
  using keys_get [of m] by (simp add: keys_del)

lemma del_put_fresh_keys: "get m k = None \<Longrightarrow> keys (del k (put k v m)) = keys m"
  using keys_get [of m] by (simp add: keys_del keys_put)

text \<open>Re-inserting a key after deleting it moves it to the end of the iteration order.\<close>

lemma put_del_keys: "keys (put k v (del k m)) = removeAll k (keys m) @ [k]"
  by (simp add: keys_put keys_del get_del)

end

interpretation js_map: ordered_map jm_get jm_set jm_delete jm_keys jm_wf
proof
  fix m :: "('k, 'v) jsmap" and k :: 'k and v :: 'v
  show "set (jm_keys m) = {k. jm_get m k \<noteq> None}"
    by (simp add: map_of_eq_None_iff)
  show "jm_keys (jm_set k v m) = (if jm_get m k = None then jm_keys m @ [k] else jm_keys m)"
  proof (cases "k \<in> set (jm_keys m)")
    case True
    then have "jm_get m k \<noteq> None" by (simp add: map_of_eq_None_iff)
    then show ?thesis using jm_keys_set_old [OF True] by simp
  next
    case False
    then have "jm_get m k = None" by (simp add: map_of_eq_None_iff)
    then show ?thesis using jm_keys_set_new [OF False] by simp
  qed
qed (auto simp: js_map_simps jm_keys_delete jm_wf_set distinct_removeAll)

text \<open>A JavaScript \<open>Set\<close>: \<open>add\<close> appends an element that is not there yet.\<close>

definition js_add :: "'a \<Rightarrow> 'a list \<Rightarrow> 'a list" where
  "js_add x xs = (if x \<in> set xs then xs else xs @ [x])"

lemma set_js_add [simp]: "set (js_add x xs) = insert x (set xs)"
  by (auto simp: js_add_def)

lemma distinct_js_add [simp]: "distinct (js_add x xs) = distinct xs"
  by (auto simp: js_add_def)

section \<open>Lists\<close>

lemma filter_neq_removeAll: "filter (\<lambda>y. y \<noteq> x) xs = removeAll x xs"
  by (simp add: removeAll_filter_not_eq eq_commute)

lemma find_Some_iff_sorted:
  "List.find P xs = Some x \<Longrightarrow> x \<in> set xs \<and> P x"
  by (auto simp: find_Some_iff)

text \<open>In a sorted list, \<open>find (> n)\<close> is the least element above \<open>n\<close>.\<close>

lemma find_greater_sorted:
  assumes "sorted xs" and "List.find (\<lambda>m. n < m) xs = Some x"
  shows "x \<in> set xs \<and> n < x \<and> (\<forall>y \<in> set xs. n < y \<longrightarrow> x \<le> y)"
  using assms
proof (induction xs)
  case Nil
  then show ?case by simp
next
  case (Cons a xs)
  then show ?case by (cases "n < a") auto
qed

lemma find_greater_None:
  "List.find (\<lambda>m. n < m) xs = None \<longleftrightarrow> (\<forall>y \<in> set xs. \<not> n < y)"
  by (induction xs) auto

end
