(* ===== verification/Numbers.thy ===== *)
theory Numbers
  imports Prelude "HOL-Library.Word" "HOL-Library.Log_Nat"
begin

text \<open>
  JavaScript numbers as the code tests them: a number is NaN, an infinity or a finite value.
  Finite values are exact rationals; where the rounding of a 64-bit float matters (the
  priority scores) \<open>to_double\<close> rounds an integer to 53 significant bits, ties to even.
  Strings whose length in bytes matters are lists of UTF-16 code units.
\<close>

section \<open>Numbers\<close>

datatype jsnum = NaN | PInf | NInf | Num rat

text \<open>The order of numbers: every comparison with NaN is false.\<close>

instantiation jsnum :: ord
begin

fun less_jsnum :: "jsnum \<Rightarrow> jsnum \<Rightarrow> bool" where
  "less_jsnum NaN _ = False"
| "less_jsnum _ NaN = False"
| "less_jsnum NInf NInf = False"
| "less_jsnum NInf _ = True"
| "less_jsnum _ NInf = False"
| "less_jsnum PInf _ = False"
| "less_jsnum (Num _) PInf = True"
| "less_jsnum (Num a) (Num b) = (a < b)"

definition less_eq_jsnum :: "jsnum \<Rightarrow> jsnum \<Rightarrow> bool" where
  "less_eq_jsnum a b \<longleftrightarrow> a < b \<or> (a = b \<and> a \<noteq> NaN)"

instance ..

end

lemma jsnum_le_simps [simp]:
  "Num a \<le> Num b \<longleftrightarrow> a \<le> b"
  "\<not> NaN \<le> x"
  "\<not> x \<le> NaN"
  "NInf \<le> Num a"
  "Num a \<le> PInf"
  "\<not> PInf \<le> Num a"
  "\<not> Num a \<le> NInf"
  by (cases x; auto simp: less_eq_jsnum_def)+

definition is_finite :: "jsnum \<Rightarrow> bool" where
  "is_finite x = (case x of Num _ \<Rightarrow> True | _ \<Rightarrow> False)"

definition is_integral :: "rat \<Rightarrow> bool" where
  "is_integral q \<longleftrightarrow> of_int \<lfloor>q\<rfloor> = q"

definition is_integer :: "jsnum \<Rightarrow> bool" where
  "is_integer x = (case x of Num q \<Rightarrow> is_integral q | _ \<Rightarrow> False)"

definition max_safe_integer :: int where
  "max_safe_integer = 9007199254740991"

definition is_safe_integer :: "jsnum \<Rightarrow> bool" where
  "is_safe_integer x = (case x of Num q \<Rightarrow> is_integral q \<and> \<bar>q\<bar> \<le> of_int max_safe_integer | _ \<Rightarrow> False)"

lemma is_finite_simps [simp]:
  "is_finite (Num q)" "\<not> is_finite NaN" "\<not> is_finite PInf" "\<not> is_finite NInf"
  by (simp_all add: is_finite_def)

lemma is_finite_iff: "is_finite x \<longleftrightarrow> (\<exists>q. x = Num q)"
  by (cases x) auto

lemma is_integer_simps [simp]:
  "is_integer (Num q) = is_integral q"
  "\<not> is_integer NaN" "\<not> is_integer PInf" "\<not> is_integer NInf"
  by (simp_all add: is_integer_def)

lemma is_integral_of_int [simp]: "is_integral (of_int n)"
  by (simp add: is_integral_def)

lemma is_integral_numeral [simp]: "is_integral (numeral n)" "is_integral 0" "is_integral 1"
  using is_integral_of_int [of "numeral n"] is_integral_of_int [of 0] is_integral_of_int [of 1]
  by simp_all

lemma is_integral_iff: "is_integral q \<longleftrightarrow> (\<exists>n::int. q = of_int n)"
  by (auto simp: is_integral_def)

lemma is_integer_finite: "is_integer x \<Longrightarrow> is_finite x"
  by (cases x) auto

text \<open>The value of an optional number that is known to be finite, \<open>x ?? d\<close>.\<close>

definition num_or :: "rat \<Rightarrow> jsnum option \<Rightarrow> rat" where
  "num_or d x = (case x of Some (Num q) \<Rightarrow> q | _ \<Rightarrow> d)"

lemma num_or_simps [simp]:
  "num_or d None = d"
  "num_or d (Some (Num q)) = q"
  by (simp_all add: num_or_def)

section \<open>Math\<close>

definition js_round :: "rat \<Rightarrow> int" where
  "js_round q = \<lfloor>q + 1 / 2\<rfloor>"

definition js_trunc :: "rat \<Rightarrow> int" where
  "js_trunc q = (if q \<ge> 0 then \<lfloor>q\<rfloor> else \<lceil>q\<rceil>)"

lemma js_round_bounds: "q - 1 / 2 < of_int (js_round q) \<and> of_int (js_round q) \<le> q + 1 / 2"
proof -
  have "of_int \<lfloor>q + 1 / 2\<rfloor> \<le> q + 1 / 2" by simp
  moreover have "q + 1 / 2 < of_int \<lfloor>q + 1 / 2\<rfloor> + 1" by linarith
  ultimately show ?thesis by (simp add: js_round_def)
qed

lemma js_round_of_int [simp]: "js_round (of_int n) = n"
proof -
  have "\<lfloor>of_int n + (1 / 2 :: rat)\<rfloor> = n" by linarith
  then show ?thesis by (simp add: js_round_def)
qed

lemma js_round_mono: "p \<le> q \<Longrightarrow> js_round p \<le> js_round q"
  by (simp add: js_round_def floor_mono)

lemma js_trunc_nonneg: "0 \<le> q \<Longrightarrow> js_trunc q = \<lfloor>q\<rfloor>"
  by (simp add: js_trunc_def)

text \<open>
  Rounding a natural number to a 64-bit float: 53 significant bits, half to even. \<open>to_double\<close>
  is exact up to \<open>2 ^ 53\<close>; between \<open>2 ^ 53\<close> and \<open>2 ^ 54\<close> only even values exist.
\<close>

definition round_half_even :: "nat \<Rightarrow> nat \<Rightarrow> nat" where
  "round_half_even n m =
     (let q = n div m; r = n mod m in
      if 2 * r < m then q * m
      else if 2 * r > m then Suc q * m
      else if even q then q * m else Suc q * m)"

definition to_double :: "nat \<Rightarrow> nat" where
  "to_double n = (if n < 2 ^ 53 then n else round_half_even n (2 ^ (floorlog 2 n - 53)))"

lemma to_double_exact: "n < 2 ^ 53 \<Longrightarrow> to_double n = n"
  by (simp add: to_double_def)

lemma floorlog_53: "2 ^ 53 \<le> n \<Longrightarrow> n < 2 ^ 54 \<Longrightarrow> floorlog 2 n = 54"
  by (rule antisym) (auto intro: floorlog_leI floorlog_geI)

lemma to_double_even:
  assumes "2 ^ 53 \<le> n" and "n < 2 ^ 54" and "even n"
  shows "to_double n = n"
  using assms by (simp add: to_double_def floorlog_53 round_half_even_def Let_def)

lemma to_double_odd:
  assumes "2 ^ 53 \<le> n" and "n < 2 ^ 54" and "odd n"
  shows "to_double n = (if even (n div 2) then n - 1 else n + 1)"
proof -
  have m: "n mod 2 = 1" using assms(3) by presburger
  have d: "n div 2 * 2 = n - 1" using assms(3) by presburger
  show ?thesis using assms m d
    by (simp add: to_double_def floorlog_53 round_half_even_def Let_def)
qed

section \<open>Text as UTF-16 code units\<close>

type_synonym utf16 = "16 word list"

definition is_high_surrogate :: "16 word \<Rightarrow> bool" where
  "is_high_surrogate u \<longleftrightarrow> 0xD800 \<le> u \<and> u \<le> 0xDBFF"

definition is_low_surrogate :: "16 word \<Rightarrow> bool" where
  "is_low_surrogate u \<longleftrightarrow> 0xDC00 \<le> u \<and> u \<le> 0xDFFF"

text \<open>
  \<open>Buffer.byteLength(s, 'utf8')\<close>: a surrogate pair takes four bytes, a lone surrogate is
  replaced by U+FFFD and takes three.
\<close>

fun byte_length :: "utf16 \<Rightarrow> nat" where
  "byte_length [] = 0"
| "byte_length [u] = (if u < 0x80 then 1 else if u < 0x800 then 2 else 3)"
| "byte_length (u # v # us) =
     (if u < 0x80 then 1 + byte_length (v # us)
      else if u < 0x800 then 2 + byte_length (v # us)
      else if is_high_surrogate u \<and> is_low_surrogate v then 4 + byte_length us
      else 3 + byte_length (v # us))"

lemma byte_length_le: "byte_length s \<le> 3 * length s"
  by (induction s rule: byte_length.induct) auto

lemma byte_length_ascii: "\<forall>u \<in> set s. u < 0x80 \<Longrightarrow> byte_length s = length s"
  by (induction s rule: byte_length.induct) auto

definition utf16_of :: "string \<Rightarrow> utf16" where
  "utf16_of s = map (\<lambda>c. of_nat (of_char c)) s"

lemma length_utf16_of [simp]: "length (utf16_of s) = length s"
  by (simp add: utf16_of_def)

end
