(* ===== verification/Validation.thy ===== *)
theory Validation
  imports Numbers
begin

text \<open>
  The option and payload validation of \<open>src/utils.ts\<close> (\<open>validateJobPriority\<close> to
  \<open>validateQueueName\<close>, the scheduler validators) over the option types of \<open>src/types.ts\<close>.
  Each throwing check is a value of \<open>validation_error\<close>; the order of the checks is the
  source's order.
\<close>

section \<open>Option types\<close>

record token_bucket =
  capacity :: jsnum
  refillRate :: jsnum

record rate_limit_config =
  rl_max :: jsnum
  rl_duration :: jsnum

record ordering_opts =
  ord_key :: "string option"
  ord_concurrency :: "jsnum option"
  ord_rateLimit :: "rate_limit_config option"
  ord_tokenBucket :: "token_bucket option"

record backoff_opts =
  bo_type :: string
  bo_delay :: "jsnum option"
  bo_jitter :: "jsnum option"

datatype dedup_mode = Simple | Throttle | Debounce

record dedup_opts =
  dd_id :: string
  dd_ttl :: "jsnum option"
  dd_mode :: "dedup_mode option"

text \<open>\<open>removeOnComplete\<close> / \<open>removeOnFail\<close>: absent or false, true, a number, or age and count.\<close>

datatype retention = Keep | Remove | KeepCount rat | KeepAge (keep_age: "rat option") (keep_count: "rat option")

record parent_ref =
  pr_queue :: string
  pr_id :: string

record fallback =
  fb_model :: string
  fb_provider :: "string option"

record job_options =
  jobId :: "string option"
  delay :: "jsnum option"
  priority :: "jsnum option"
  lifo :: bool
  ordering :: "ordering_opts option"
  cost :: "jsnum option"
  attempts :: "jsnum option"
  backoff :: "backoff_opts option"
  timeout :: "jsnum option"
  lockDuration :: "jsnum option"
  removeOnComplete :: retention
  removeOnFail :: retention
  deduplication :: "dedup_opts option"
  parent :: "parent_ref option"
  ttl :: "jsnum option"
  fallbacks :: "fallback list option"

definition default_opts :: job_options where
  "default_opts = \<lparr>jobId = None, delay = None, priority = None, lifo = False, ordering = None,
     cost = None, attempts = None, backoff = None, timeout = None, lockDuration = None,
     removeOnComplete = Keep, removeOnFail = Keep, deduplication = None, parent = None,
     ttl = None, fallbacks = None\<rparr>"

datatype validation_error =
    PriorityTooHigh
  | PriorityNotInteger
  | OrderingKeyTooLong nat
  | OrderingKeyReserved
  | BadDelay
  | BadAttempts
  | BadBackoffDelay
  | BadBackoffJitter
  | BadBucketCapacity
  | BadBucketRefillRate
  | BadCost
  | LifoWithOrderingKey
  | JobIdTooLong
  | JobIdBadCharacter
  | BadTtl
  | BadLockDuration
  | DataTooLarge nat
  | CostExceedsCapacity
  | JobIdNotSupported
  | FieldNotSupported string
  | SerializeFailed
  | SchedulerTemplateError validation_error
  | QueueNameEmpty
  | QueueNameTooLong
  | QueueNameBadCharacter
  | BadEvery
  | BadScheduleDate string
  | StartAfterEnd
  | BadLimit

type_synonym check = "validation_error + unit"

section \<open>Job options\<close>

definition MAX_JOB_DATA_SIZE :: nat where "MAX_JOB_DATA_SIZE = 1048576"
definition MAX_ORDERING_KEY_LENGTH :: nat where "MAX_ORDERING_KEY_LENGTH = 256"
definition MAX_JOB_PRIORITY :: int where "MAX_JOB_PRIORITY = 2048"
definition MIN_JOB_LOCK_DURATION_MS :: rat where "MIN_JOB_LOCK_DURATION_MS = 1000"
definition MAX_JOB_LOCK_DURATION_MS :: rat where "MAX_JOB_LOCK_DURATION_MS = 86400000"

definition validateJobPriority :: "jsnum \<Rightarrow> check" where
  "validateJobPriority p =
     (if p > Num (of_int MAX_JOB_PRIORITY) then Inl PriorityTooHigh
      else if \<not> is_integer p \<or> p < Num 0 then Inl PriorityNotInteger
      else Inr ())"

definition validateOrderingKey :: "string \<Rightarrow> check" where
  "validateOrderingKey k =
     (if length k > MAX_ORDERING_KEY_LENGTH then Inl (OrderingKeyTooLong (length k))
      else if k = ''__'' then Inl OrderingKeyReserved
      else Inr ())"

text \<open>The recurring test \<open>x != null && (!Number.isFinite(x) || x < 0)\<close>.\<close>

definition bad_nonneg :: "jsnum option \<Rightarrow> bool" where
  "bad_nonneg x = (case x of None \<Rightarrow> False | Some v \<Rightarrow> \<not> is_finite v \<or> v < Num 0)"

definition validateJobScheduleOptions :: "job_options \<Rightarrow> check" where
  "validateJobScheduleOptions o' =
     andThen (case priority o' of None \<Rightarrow> Inr () | Some p \<Rightarrow> validateJobPriority p) (\<lambda>_.
     if bad_nonneg (delay o') then Inl BadDelay
     else if (case attempts o' of None \<Rightarrow> False | Some a \<Rightarrow> \<not> is_integer a \<or> a < Num 0) then Inl BadAttempts
     else (case backoff o' of None \<Rightarrow> Inr ()
           | Some b \<Rightarrow>
               if bad_nonneg (bo_delay b) then Inl BadBackoffDelay
               else if bad_nonneg (bo_jitter b) then Inl BadBackoffJitter
               else Inr ()))"

text \<open>\<open>INVALID_JOB_ID_CHARS\<close>: control characters, DEL, braces and the colon.\<close>

definition bad_job_id_char :: "char \<Rightarrow> bool" where
  "bad_job_id_char c \<longleftrightarrow>
     (of_char c :: nat) < 32 \<or> (of_char c :: nat) = 127 \<or> c = CHR ''{'' \<or> c = CHR ''}'' \<or> c = CHR '':''"

definition validateJobId :: "string \<Rightarrow> check" where
  "validateJobId i =
     (if length i > 256 then Inl JobIdTooLong
      else if list_ex bad_job_id_char i then Inl JobIdBadCharacter
      else Inr ())"

definition order_key :: "job_options \<Rightarrow> string" where
  "order_key o' = (case ordering o' of None \<Rightarrow> [] | Some r \<Rightarrow> (case ord_key r of None \<Rightarrow> [] | Some k \<Rightarrow> k))"

definition token_bucket_of :: "job_options \<Rightarrow> token_bucket option" where
  "token_bucket_of o' = (case ordering o' of None \<Rightarrow> None | Some r \<Rightarrow> ord_tokenBucket r)"

definition validateTokenBucket :: "token_bucket option \<Rightarrow> check" where
  "validateTokenBucket t =
     (case t of None \<Rightarrow> Inr ()
      | Some tb \<Rightarrow>
          if \<not> is_finite (capacity tb) \<or> capacity tb \<le> Num 0 then Inl BadBucketCapacity
          else if \<not> is_finite (refillRate tb) \<or> refillRate tb \<le> Num 0 then Inl BadBucketRefillRate
          else Inr ())"

definition bad_lock_duration :: "jsnum option \<Rightarrow> bool" where
  "bad_lock_duration x =
     (case x of None \<Rightarrow> False
      | Some v \<Rightarrow> \<not> is_finite v \<or> v < Num MIN_JOB_LOCK_DURATION_MS \<or> v > Num MAX_JOB_LOCK_DURATION_MS)"

definition validateJobOptions :: "job_options \<Rightarrow> check" where
  "validateJobOptions o' =
     andThen (validateJobScheduleOptions o') (\<lambda>_.
     andThen (validateTokenBucket (token_bucket_of o')) (\<lambda>_.
     if bad_nonneg (cost o') then Inl BadCost
     else andThen (validateOrderingKey (order_key o')) (\<lambda>_.
     if lifo o' \<and> order_key o' \<noteq> [] then Inl LifoWithOrderingKey
     else andThen (case jobId o' of None \<Rightarrow> Inr ()
                   | Some i \<Rightarrow> if i \<noteq> [] then validateJobId i else Inr ()) (\<lambda>_.
     if bad_nonneg (ttl o') then Inl BadTtl
     else if bad_lock_duration (lockDuration o') then Inl BadLockDuration
     else Inr ()))))"

section \<open>Payloads, templates and names\<close>

definition validateJobDataSize :: "utf16 \<Rightarrow> check" where
  "validateJobDataSize s =
     (if real (length s) > real MAX_JOB_DATA_SIZE / 4
      then (if byte_length s > MAX_JOB_DATA_SIZE then Inl (DataTooLarge (byte_length s)) else Inr ())
      else Inr ())"

definition validateSchedulerTemplateOpts :: "job_options \<Rightarrow> check" where
  "validateSchedulerTemplateOpts o' =
     andThen (validateJobOptions o') (\<lambda>_.
     andThen (case priority o' of None \<Rightarrow> Inr () | Some p \<Rightarrow> validateJobPriority p) (\<lambda>_.
     case token_bucket_of o' of None \<Rightarrow> Inr ()
     | Some tb \<Rightarrow>
         if order_key o' = [] then Inr ()
         else let c = (if num_or 0 (cost o') \<noteq> 0 then js_round (num_or 0 (cost o') * 1000) else 1000)
              in if c > js_round (num_or 0 (Some (capacity tb)) * 1000) then Inl CostExceedsCapacity
                 else Inr ()))"

text \<open>A serializer either returns text or throws (\<open>None\<close>).\<close>

record 'd serializer =
  serialize :: "'d \<Rightarrow> utf16 option"
  deserialize :: "utf16 \<Rightarrow> 'd option"

record 'd job_template =
  t_name :: "string option"
  t_data :: "'d option"
  t_opts :: "job_options option"

definition serializeSchedulerTemplateData :: "'d job_template \<Rightarrow> 'd serializer \<Rightarrow> validation_error + utf16" where
  "serializeSchedulerTemplateData t s =
     andThen (case t_data t of None \<Rightarrow> Inr (utf16_of ''{}'')
              | Some d \<Rightarrow> (case serialize s d of None \<Rightarrow> Inl SerializeFailed | Some x \<Rightarrow> Inr x)) (\<lambda>data.
     andThen (validateJobDataSize data) (\<lambda>_. Inr data))"

definition template_checks :: "'d job_template \<Rightarrow> 'd serializer \<Rightarrow> check" where
  "template_checks t s =
     andThen (case t_opts t of None \<Rightarrow> Inr ()
       | Some o' \<Rightarrow>
           if jobId o' \<noteq> None then Inl JobIdNotSupported
           else if delay o' \<noteq> None then Inl (FieldNotSupported ''delay'')
           else if deduplication o' \<noteq> None then Inl (FieldNotSupported ''deduplication'')
           else if parent o' \<noteq> None then Inl (FieldNotSupported ''parent'')
           else validateSchedulerTemplateOpts o') (\<lambda>_.
     andThen (serializeSchedulerTemplateData t s) (\<lambda>_. Inr ()))"

definition validateSchedulerTemplate :: "'d job_template option \<Rightarrow> 'd serializer \<Rightarrow> check" where
  "validateSchedulerTemplate t s =
     (case t of None \<Rightarrow> Inr ()
      | Some t' \<Rightarrow> (case template_checks t' s of Inr u \<Rightarrow> Inr u | Inl e \<Rightarrow> Inl (SchedulerTemplateError e)))"

definition prepareSchedulerTemplateData :: "'d job_template \<Rightarrow> 'd serializer \<Rightarrow> validation_error + utf16" where
  "prepareSchedulerTemplateData t s =
     andThen (case t_opts t of None \<Rightarrow> Inr ()
              | Some o' \<Rightarrow> validateSchedulerTemplateOpts (o'\<lparr>jobId := None\<rparr>)) (\<lambda>_.
     serializeSchedulerTemplateData t s)"

definition bad_queue_name_char :: "char \<Rightarrow> bool" where
  "bad_queue_name_char c \<longleftrightarrow> c = CHR ''{'' \<or> c = CHR ''}'' \<or> c = CHR '':''"

definition validateQueueName :: "string \<Rightarrow> check" where
  "validateQueueName n =
     (if n = [] then Inl QueueNameEmpty
      else if length n > 256 then Inl QueueNameTooLong
      else if list_ex bad_queue_name_char n then Inl QueueNameBadCharacter
      else Inr ())"

section \<open>Schedule bounds\<close>

definition isValidSchedulerEvery :: "jsnum option \<Rightarrow> bool" where
  "isValidSchedulerEvery e = (case e of None \<Rightarrow> False | Some v \<Rightarrow> is_safe_integer v \<and> v > Num 0)"

definition validateSchedulerEvery :: "jsnum option \<Rightarrow> check" where
  "validateSchedulerEvery e =
     (if e = None then Inr () else if \<not> isValidSchedulerEvery e then Inl BadEvery else Inr ())"

definition normalizeScheduleDate :: "jsnum option \<Rightarrow> string \<Rightarrow> validation_error + rat option" where
  "normalizeScheduleDate v field =
     (case v of None \<Rightarrow> Inr None
      | Some (Num q) \<Rightarrow> Inr (Some q)
      | Some _ \<Rightarrow> Inl (BadScheduleDate field))"

definition validateSchedulerBounds :: "rat option \<Rightarrow> rat option \<Rightarrow> jsnum option \<Rightarrow> check" where
  "validateSchedulerBounds sd ed lm =
     (if (case (sd, ed) of (Some a, Some b) \<Rightarrow> a > b | _ \<Rightarrow> False) then Inl StartAfterEnd
      else if (case lm of None \<Rightarrow> False | Some l \<Rightarrow> \<not> is_integer l \<or> l \<le> Num 0) then Inl BadLimit
      else Inr ())"

section \<open>What the checks accept\<close>

text \<open>The conditions a set of options must meet, stated field by field.\<close>

definition nonneg_num :: "jsnum option \<Rightarrow> bool" where
  "nonneg_num x \<longleftrightarrow> (\<forall>v. x = Some v \<longrightarrow> (\<exists>q \<ge> 0. v = Num q))"

definition nonneg_int_num :: "jsnum option \<Rightarrow> bool" where
  "nonneg_int_num x \<longleftrightarrow> (\<forall>v. x = Some v \<longrightarrow> (\<exists>n::int. 0 \<le> n \<and> v = Num (of_int n)))"

definition priority_num :: "jsnum option \<Rightarrow> bool" where
  "priority_num x \<longleftrightarrow> (\<forall>v. x = Some v \<longrightarrow> (\<exists>n::int. 0 \<le> n \<and> n \<le> 2048 \<and> v = Num (of_int n)))"

definition positive_num :: "jsnum \<Rightarrow> bool" where
  "positive_num v \<longleftrightarrow> (\<exists>q > 0. v = Num q)"

definition valid_job_id :: "string \<Rightarrow> bool" where
  "valid_job_id i \<longleftrightarrow> length i \<le> 256 \<and> (\<forall>c \<in> set i. \<not> bad_job_id_char c)"

definition valid_options :: "job_options \<Rightarrow> bool" where
  "valid_options o' \<longleftrightarrow>
     priority_num (priority o') \<and> nonneg_num (delay o') \<and> nonneg_int_num (attempts o') \<and>
     (\<forall>b. backoff o' = Some b \<longrightarrow> nonneg_num (bo_delay b) \<and> nonneg_num (bo_jitter b)) \<and>
     (\<forall>tb. token_bucket_of o' = Some tb \<longrightarrow> positive_num (capacity tb) \<and> positive_num (refillRate tb)) \<and>
     nonneg_num (cost o') \<and>
     length (order_key o') \<le> 256 \<and> order_key o' \<noteq> ''__'' \<and> (lifo o' \<longrightarrow> order_key o' = []) \<and>
     (\<forall>i. jobId o' = Some i \<longrightarrow> valid_job_id i) \<and>
     nonneg_num (ttl o') \<and>
     (\<forall>v. lockDuration o' = Some v \<longrightarrow> (\<exists>q. v = Num q \<and> 1000 \<le> q \<and> q \<le> 86400000))"

lemma bad_nonneg_iff: "\<not> bad_nonneg x \<longleftrightarrow> nonneg_num x"
proof (cases x)
  case (Some v)
  then show ?thesis by (cases v) (auto simp: bad_nonneg_def nonneg_num_def)
qed (simp add: bad_nonneg_def nonneg_num_def)

lemma validateJobPriority_iff:
  "validateJobPriority p = Inr () \<longleftrightarrow> (\<exists>n::int. 0 \<le> n \<and> n \<le> 2048 \<and> p = Num (of_int n))"
proof (cases p)
  case (Num q)
  show ?thesis
  proof (cases "is_integral q")
    case True
    then obtain n where "q = of_int n" by (auto simp: is_integral_iff)
    then show ?thesis using Num
      by (auto simp: validateJobPriority_def MAX_JOB_PRIORITY_def of_int_less_iff)
  next
    case False
    then show ?thesis using Num
      by (auto simp: validateJobPriority_def MAX_JOB_PRIORITY_def)
  qed
qed (auto simp: validateJobPriority_def MAX_JOB_PRIORITY_def)

lemma validateJobId_iff: "validateJobId i = Inr () \<longleftrightarrow> valid_job_id i"
  by (auto simp: validateJobId_def valid_job_id_def list_ex_iff)

lemma validateOrderingKey_iff: "validateOrderingKey k = Inr () \<longleftrightarrow> length k \<le> 256 \<and> k \<noteq> ''__''"
  by (auto simp: validateOrderingKey_def MAX_ORDERING_KEY_LENGTH_def)

lemma positive_num_iff: "positive_num v \<longleftrightarrow> is_finite v \<and> \<not> v \<le> Num 0"
  by (cases v) (auto simp: positive_num_def)

lemma validateTokenBucket_iff:
  "validateTokenBucket t = Inr () \<longleftrightarrow>
     (\<forall>tb. t = Some tb \<longrightarrow> positive_num (capacity tb) \<and> positive_num (refillRate tb))"
  by (cases t) (auto simp: validateTokenBucket_def positive_num_iff)

lemma bad_lock_duration_iff:
  "\<not> bad_lock_duration x \<longleftrightarrow> (\<forall>v. x = Some v \<longrightarrow> (\<exists>q. v = Num q \<and> 1000 \<le> q \<and> q \<le> 86400000))"
proof (cases x)
  case (Some v)
  then show ?thesis
    by (cases v) (auto simp: bad_lock_duration_def MIN_JOB_LOCK_DURATION_MS_def MAX_JOB_LOCK_DURATION_MS_def)
qed (simp add: bad_lock_duration_def)

lemma bad_attempts_iff:
  "\<not> (case x of None \<Rightarrow> False | Some a \<Rightarrow> \<not> is_integer a \<or> a < Num 0) \<longleftrightarrow> nonneg_int_num x"
proof (cases x)
  case (Some v)
  then show ?thesis
    by (cases v) (auto simp: nonneg_int_num_def is_integral_iff)
qed (simp add: nonneg_int_num_def)

lemma validateJobScheduleOptions_iff:
  "validateJobScheduleOptions o' = Inr () \<longleftrightarrow>
     priority_num (priority o') \<and> nonneg_num (delay o') \<and> nonneg_int_num (attempts o') \<and>
     (\<forall>b. backoff o' = Some b \<longrightarrow> nonneg_num (bo_delay b) \<and> nonneg_num (bo_jitter b))"
proof -
  have p: "(case priority o' of None \<Rightarrow> Inr () | Some p \<Rightarrow> validateJobPriority p) = Inr ()
      \<longleftrightarrow> priority_num (priority o')"
    by (cases "priority o'") (auto simp: priority_num_def validateJobPriority_iff)
  show ?thesis
    using p bad_nonneg_iff [of "delay o'"] bad_attempts_iff [of "attempts o'"]
    by (cases "backoff o'")
       (auto simp: validateJobScheduleOptions_def andThen_Inr_iff bad_nonneg_iff [symmetric]
             simp del: validateJobPriority_iff)
qed

lemma validateJobOptions_iff_aux:
  "validateJobOptions o' = Inr () \<longleftrightarrow>
     validateJobScheduleOptions o' = Inr () \<and> validateTokenBucket (token_bucket_of o') = Inr () \<and>
     nonneg_num (cost o') \<and> validateOrderingKey (order_key o') = Inr () \<and>
     (lifo o' \<longrightarrow> order_key o' = []) \<and> (\<forall>i. jobId o' = Some i \<longrightarrow> valid_job_id i) \<and>
     nonneg_num (ttl o') \<and> \<not> bad_lock_duration (lockDuration o')"
proof -
  have i: "(case jobId o' of None \<Rightarrow> Inr () | Some i \<Rightarrow> if i \<noteq> [] then validateJobId i else Inr ()) = Inr ()
      \<longleftrightarrow> (\<forall>i. jobId o' = Some i \<longrightarrow> valid_job_id i)"
  proof (cases "jobId o'")
    case (Some i)
    then show ?thesis by (cases "i = []") (auto simp: validateJobId_iff valid_job_id_def)
  qed simp
  show ?thesis
    by (auto simp: validateJobOptions_def andThen_Inr_iff i bad_nonneg_iff [symmetric])
qed

text \<open>
  C29: \<open>validateJobOptions\<close> accepts exactly the options whose fields all meet their documented
  conditions: an integer priority in 0..2048, non-negative finite delay, cost, ttl and backoff
  numbers, non-negative integer attempts, positive finite token bucket parameters, an ordering
  key of at most 256 characters that is not the sentinel and not combined with lifo, a
  well-formed job id and a lock duration between one second and one day.
\<close>

theorem validateJobOptions_accepts: "validateJobOptions o' = Inr () \<longleftrightarrow> valid_options o'"
  unfolding validateJobOptions_iff_aux validateJobScheduleOptions_iff validateTokenBucket_iff
    validateOrderingKey_iff bad_lock_duration_iff valid_options_def
  by auto

lemma validateJobDataSize_eq:
  "validateJobDataSize s =
     (if byte_length s > MAX_JOB_DATA_SIZE then Inl (DataTooLarge (byte_length s)) else Inr ())"
proof (cases "real (length s) > real MAX_JOB_DATA_SIZE / 4")
  case True
  then show ?thesis by (simp add: validateJobDataSize_def)
next
  case False
  then have "4 * length s \<le> MAX_JOB_DATA_SIZE" by linarith
  moreover have "byte_length s \<le> 3 * length s" by (rule byte_length_le)
  ultimately have "byte_length s \<le> MAX_JOB_DATA_SIZE" by linarith
  with False show ?thesis by (simp add: validateJobDataSize_def)
qed

text \<open>
  C30: the fast path of \<open>validateJobDataSize\<close> (no byte count for text of at most a quarter of
  the limit) never changes the answer: the check rejects exactly the payloads whose UTF-8
  encoding is longer than one mebibyte, reporting that length.
\<close>

theorem validateJobDataSize_exact:
  "validateJobDataSize s =
     (if byte_length s > 1048576 then Inl (DataTooLarge (byte_length s)) else Inr ())"
  using validateJobDataSize_eq [of s] by (simp add: MAX_JOB_DATA_SIZE_def)

lemma template_checks_Inr:
  assumes "template_checks t s = Inr ()"
  shows "\<exists>d. serializeSchedulerTemplateData t s = Inr d"
    and "\<forall>o'. t_opts t = Some o' \<longrightarrow> jobId o' = None \<and> validateSchedulerTemplateOpts o' = Inr ()"
  using assms
  by (cases "t_opts t"; auto simp: template_checks_def andThen_Inr_iff split: if_splits)+

lemma no_job_id_update: "jobId o' = None \<Longrightarrow> o'\<lparr>jobId := None\<rparr> = o'"
  by (cases o') simp

lemma serializeSchedulerTemplateData_size:
  "serializeSchedulerTemplateData t s = Inr d \<Longrightarrow> byte_length d \<le> MAX_JOB_DATA_SIZE"
  by (auto simp: serializeSchedulerTemplateData_def andThen_Inr_iff validateJobDataSize_eq split: if_splits)

text \<open>
  A scheduler template accepted when the scheduler is upserted never fails at a tick:
  the tick-time check of the same template with the same serializer returns a payload, and
  the payload fits the size limit.
\<close>

lemma upserted_template_runs:
  assumes "validateSchedulerTemplate (Some t) s = Inr ()"
  shows "\<exists>d. prepareSchedulerTemplateData t s = Inr d \<and> byte_length d \<le> MAX_JOB_DATA_SIZE"
proof -
  have ok: "template_checks t s = Inr ()"
    using assms by (auto simp: validateSchedulerTemplate_def split: sum.splits)
  obtain d where d: "serializeSchedulerTemplateData t s = Inr d"
    using template_checks_Inr(1) [OF ok] by blast
  have "(case t_opts t of None \<Rightarrow> Inr ()
         | Some o' \<Rightarrow> validateSchedulerTemplateOpts (o'\<lparr>jobId := None\<rparr>)) = Inr ()"
    using template_checks_Inr(2) [OF ok] by (cases "t_opts t") (auto simp: no_job_id_update)
  with d show ?thesis
    by (auto simp: prepareSchedulerTemplateData_def serializeSchedulerTemplateData_size)
qed

definition sample_serializer :: "nat serializer" where
  "sample_serializer = \<lparr>serialize = (\<lambda>n. Some (replicate n 0x61)), deserialize = (\<lambda>s. Some (length s))\<rparr>"

definition sample_template :: "nat job_template" where
  "sample_template = \<lparr>t_name = Some ''report'', t_data = Some 2,
     t_opts = Some (default_opts\<lparr>priority := Some (Num 3), attempts := Some (Num 2)\<rparr>)\<rparr>"

lemma sample_template_ok: "validateSchedulerTemplate (Some sample_template) sample_serializer = Inr ()"
  by (simp add: validateSchedulerTemplate_def template_checks_def sample_template_def default_opts_def
      validateSchedulerTemplateOpts_def validateJobOptions_def validateJobScheduleOptions_def
      validateJobPriority_def MAX_JOB_PRIORITY_def bad_nonneg_def validateTokenBucket_def
      token_bucket_of_def order_key_def validateOrderingKey_def nonneg_num_def bad_lock_duration_def
      serializeSchedulerTemplateData_def sample_serializer_def validateJobDataSize_def
      MAX_JOB_DATA_SIZE_def numeral_2_eq_2)

end
