(* ===== verification/Scores.thy ===== *)
theory Scores
  imports Validation
begin

text \<open>
  The numeric helpers of \<open>src/utils.ts\<close>: the sorted-set score that packs priority and due
  time, retry backoff, reconnect delay, usage buckets and usage totals. Scores are 64-bit
  floats, so \<open>encodeScore\<close> rounds with \<open>to_double\<close>; the other results are exact rationals.
\<close>

section \<open>Priority scores\<close>

definition PRIORITY_SHIFT :: nat where "PRIORITY_SHIFT = 2 ^ 42"

definition encodeScore :: "jsnum \<Rightarrow> nat \<Rightarrow> validation_error + nat" where
  "encodeScore p ts =
     andThen (validateJobPriority p) (\<lambda>_.
     Inr (to_double (nat \<lfloor>num_or 0 (Some p)\<rfloor> * PRIORITY_SHIFT + ts)))"

definition decodeScore :: "nat \<Rightarrow> nat \<times> nat" where
  "decodeScore score = (score div PRIORITY_SHIFT, score mod PRIORITY_SHIFT)"

lemma encodeScore_int:
  assumes "p \<le> 2048"
  shows "encodeScore (Num (of_nat p)) ts = Inr (to_double (p * PRIORITY_SHIFT + ts))"
proof -
  have "validateJobPriority (Num (of_nat p)) = Inr ()"
    unfolding validateJobPriority_iff using assms
    by (intro exI [of _ "int p"]) auto
  then show ?thesis by (simp add: encodeScore_def)
qed

lemma score_exact:
  assumes "p < 2048" and "ts < PRIORITY_SHIFT"
  shows "to_double (p * PRIORITY_SHIFT + ts) = p * PRIORITY_SHIFT + ts"
proof -
  have "p * PRIORITY_SHIFT + ts < (p + 1) * PRIORITY_SHIFT" using assms(2) by simp
  also have "\<dots> \<le> 2048 * PRIORITY_SHIFT" using assms(1) by (intro mult_le_mono1) simp
  also have "\<dots> = 2 ^ 53" by (simp add: PRIORITY_SHIFT_def)
  finally show ?thesis by (rule to_double_exact)
qed





text \<open>
  The highest accepted priority, 2048, is outside the exact range of a 64-bit float: for it
  a score decodes to an odd due time only after rounding, so two jobs due one millisecond
  apart can get the same score.
\<close>

lemma score_top_priority_rounds:
  "encodeScore (Num (of_nat 2048)) 1700000000001 = encodeScore (Num (of_nat 2048)) 1700000000000 \<and>
   encodeScore (Num (of_nat 2048)) 1700000000000 = Inr (2 ^ 53 + 1700000000000)"
proof -
  have n: "2048 * PRIORITY_SHIFT = 2 ^ 53" by (simp add: PRIORITY_SHIFT_def)
  have "to_double (2 ^ 53 + 1700000000000) = 2 ^ 53 + 1700000000000"
    by (rule to_double_even) simp_all
  moreover have "to_double (2 ^ 53 + 1700000000001) = 2 ^ 53 + 1700000000000"
    by (subst to_double_odd) simp_all
  ultimately show ?thesis by (simp only: encodeScore_int n order_refl simp_thms)
qed

section \<open>Backoff and buckets\<close>

text \<open>\<open>rnd\<close> is the value of \<open>Math.random()\<close>, in \<open>[0, 1)\<close>; a missing jitter is 0.\<close>

definition calculateBackoff :: "string \<Rightarrow> rat \<Rightarrow> int \<Rightarrow> rat \<Rightarrow> rat \<Rightarrow> int" where
  "calculateBackoff type d attemptsMade jitter rnd =
     (let ms = (if type = ''exponential'' then 2 powi (attemptsMade - 1) * d else d);
          ms' = (if jitter > 0 then ms + rnd * jitter * ms else ms)
      in js_round ms')"

definition nextReconnectDelay :: "nat \<Rightarrow> nat \<Rightarrow> nat" where
  "nextReconnectDelay currentDelay maxMs =
     (if currentDelay = 0 then 1000 else min (currentDelay * 2) maxMs)"

definition USAGE_BUCKET_MS :: int where "USAGE_BUCKET_MS = 60000"
definition USAGE_RETENTION_MS :: int where "USAGE_RETENTION_MS = 30 * 24 * 60 * 60 * 1000"

definition floorUsageBucket :: "rat \<Rightarrow> int" where
  "floorUsageBucket ts = \<lfloor>ts / of_int USAGE_BUCKET_MS\<rfloor> * USAGE_BUCKET_MS"

lemma floorUsageBucket_bounds:
  "of_int (floorUsageBucket ts) \<le> ts \<and> ts < of_int (floorUsageBucket ts) + 60000"
proof -
  let ?f = "of_int \<lfloor>ts / 60000\<rfloor> :: rat"
  have "?f \<le> ts / 60000" by (rule of_int_floor_le)
  then have "?f * 60000 \<le> ts" by linarith
  moreover have "ts / 60000 < ?f + 1" by linarith
  then have "ts < ?f * 60000 + 60000" by linarith
  ultimately show ?thesis by (simp add: floorUsageBucket_def USAGE_BUCKET_MS_def)
qed

lemma floorUsageBucket_mono: "s \<le> t \<Longrightarrow> floorUsageBucket s \<le> floorUsageBucket t"
  by (simp add: floorUsageBucket_def USAGE_BUCKET_MS_def floor_mono divide_right_mono)

text \<open>The delays of \<open>n\<close> failed reconnects in a row, starting from no delay.\<close>

fun reconnect_delays :: "nat \<Rightarrow> nat \<Rightarrow> nat \<Rightarrow> nat list" where
  "reconnect_delays 0 d m = []"
| "reconnect_delays (Suc n) d m = (let d' = nextReconnectDelay d m in d' # reconnect_delays n d' m)"

lemma reconnect_delays_nth:
  assumes "0 < d" and "d \<le> m" and "k < n"
  shows "reconnect_delays n d m ! k = min (d * 2 ^ Suc k) m"
  using assms
proof (induction n arbitrary: d k)
  case 0
  then show ?case by simp
next
  case (Suc n)
  let ?d = "min (d * 2) m"
  show ?case
  proof (cases k)
    case 0
    then show ?thesis using Suc.prems by (simp add: nextReconnectDelay_def Let_def)
  next
    case (Suc j)
    have "reconnect_delays n ?d m ! j = min (?d * 2 ^ Suc j) m"
      using Suc.prems Suc by (intro Suc.IH) auto
    also have "\<dots> = min (d * 2 ^ Suc k) m"
    proof (cases "d * 2 \<le> m")
      case False
      have "m \<le> d * 2 * 2 ^ Suc j"
        using False mult_le_mono [of m "d * 2" 1 "2 ^ Suc j"] by simp
      moreover have "m \<le> m * 2 ^ Suc j" by simp
      ultimately show ?thesis using False Suc by (simp add: min_absorb2 mult.assoc)
    qed (simp add: Suc mult.assoc)
    finally show ?thesis using Suc.prems Suc by (simp add: nextReconnectDelay_def Let_def)
  qed
qed

text \<open>
  The delays of consecutive failed reconnects are 1 s, 2 s, 4 s, ... capped at the maximum.
\<close>

lemma reconnect_sequence:
  assumes "1000 \<le> m" and "k < n"
  shows "reconnect_delays n 0 m ! k = min (1000 * 2 ^ k) m"
proof (cases n)
  case (Suc n')
  show ?thesis
  proof (cases k)
    case 0
    then show ?thesis using Suc assms by (simp add: nextReconnectDelay_def Let_def)
  next
    case (Suc j)
    then show ?thesis using \<open>n = Suc n'\<close> assms reconnect_delays_nth [of 1000 m j n']
      by (simp add: nextReconnectDelay_def Let_def)
  qed
qed (use assms in simp)

lemma powi_pos_nat: "0 < n \<Longrightarrow> (2::rat) powi (int n - 1) = 2 ^ (n - 1)"
  by (simp add: power_int_def nat_diff_distrib)

text \<open>
  The retry delay after attempt \<open>n\<close> is between the base delay (doubled \<open>n - 1\<close> times for
  exponential backoff) and that value grown by the jitter factor, up to rounding to a whole
  millisecond.
\<close>

lemma backoff_bounds:
  assumes "0 \<le> d" and "0 < n" and "0 \<le> jitter" and "0 \<le> rnd" and "rnd < 1"
  shows "let base = (if type = ''exponential'' then 2 ^ (n - 1) * d else d) in
         js_round base \<le> calculateBackoff type d (int n) jitter rnd \<and>
         calculateBackoff type d (int n) jitter rnd \<le> js_round ((1 + jitter) * base)"
proof -
  define base where "base = (if type = ''exponential'' then 2 ^ (n - 1) * d else d)"
  have base: "0 \<le> base" using assms(1) by (simp add: base_def)
  have rj: "rnd * jitter \<le> jitter"
    using mult_right_mono [of rnd 1 jitter] assms by simp
  then have up: "rnd * jitter * base \<le> jitter * base" by (rule mult_right_mono [OF _ base])
  have lo: "0 \<le> rnd * jitter * base" using assms base by simp
  have eq: "calculateBackoff type d (int n) jitter rnd =
      js_round (if jitter > 0 then base + rnd * jitter * base else base)"
    using assms(2) by (simp add: calculateBackoff_def base_def powi_pos_nat Let_def)
  have "js_round base \<le> calculateBackoff type d (int n) jitter rnd"
    unfolding eq using lo by (intro js_round_mono) simp
  moreover have "calculateBackoff type d (int n) jitter rnd \<le> js_round ((1 + jitter) * base)"
    unfolding eq using up assms(3) by (intro js_round_mono) (simp add: algebra_simps)
  ultimately show ?thesis by (simp add: base_def Let_def)
qed

end
