(* ===== verification/Usage.thy ===== *)
theory Usage
  imports Scores
begin

text \<open>
  AI usage metadata: the checks and totals of \<open>validateAndResolveUsage\<close> and the weighted total
  of \<open>computeWeightedTotal\<close> (\<open>src/utils.ts\<close>), the query window and the aggregation of
  \<open>src/testing.ts\<close>. A JavaScript record with string keys is an insertion-ordered map.
\<close>

section \<open>Reported usage\<close>

record job_usage =
  u_model :: "string option"
  u_provider :: "string option"
  u_tokens :: "(string, jsnum) jsmap option"
  u_totalTokens :: "jsnum option"
  u_costs :: "(string, jsnum) jsmap option"
  u_totalCost :: "jsnum option"
  u_costUnit :: "string option"
  u_latencyMs :: "jsnum option"
  u_cached :: "bool option"

datatype usage_error =
    TokenCountInvalid string
  | TotalTokensInvalid
  | CostInvalid string
  | TotalCostInvalid
  | EndTimeInvalid
  | WindowInvalid
  | StartTimeInvalid
  | WindowReversed

definition bad_amount :: "jsnum \<Rightarrow> bool" where
  "bad_amount v \<longleftrightarrow> \<not> is_finite v \<or> v < Num 0"

lemma bad_amount_iff: "\<not> bad_amount v \<longleftrightarrow> (\<exists>q \<ge> 0. v = Num q)"
  by (cases v) (auto simp: bad_amount_def)

fun check_amounts :: "(string \<Rightarrow> usage_error) \<Rightarrow> (string, jsnum) jsmap \<Rightarrow> usage_error + unit" where
  "check_amounts err [] = Inr ()"
| "check_amounts err ((k, v) # kvs) = (if bad_amount v then Inl (err k) else check_amounts err kvs)"

fun sum_amounts :: "(string, jsnum) jsmap \<Rightarrow> rat" where
  "sum_amounts [] = 0"
| "sum_amounts ((k, v) # kvs) = num_or 0 (Some v) + sum_amounts kvs"

definition resolve_total :: "jsnum option \<Rightarrow> (string, jsnum) jsmap option \<Rightarrow> jsnum option" where
  "resolve_total given parts =
     (case (given, parts) of
        (None, Some kvs) \<Rightarrow> if kvs \<noteq> [] then Some (Num (sum_amounts kvs)) else None
      | _ \<Rightarrow> given)"

definition validateAndResolveUsage :: "job_usage \<Rightarrow> usage_error + job_usage" where
  "validateAndResolveUsage u =
     andThen (case u_tokens u of None \<Rightarrow> Inr () | Some kvs \<Rightarrow> check_amounts TokenCountInvalid kvs) (\<lambda>_.
     if (case u_totalTokens u of None \<Rightarrow> False | Some v \<Rightarrow> bad_amount v) then Inl TotalTokensInvalid
     else andThen (case u_costs u of None \<Rightarrow> Inr () | Some kvs \<Rightarrow> check_amounts CostInvalid kvs) (\<lambda>_.
     if (case u_totalCost u of None \<Rightarrow> False | Some v \<Rightarrow> bad_amount v) then Inl TotalCostInvalid
     else Inr (u\<lparr>u_totalTokens := resolve_total (u_totalTokens u) (u_tokens u),
                 u_totalCost := resolve_total (u_totalCost u) (u_costs u)\<rparr>)))"

lemma check_amounts_Inr:
  "check_amounts err kvs = Inr () \<longleftrightarrow> (\<forall>(k, v) \<in> set kvs. \<exists>q \<ge> 0. v = Num q)"
  by (induction err kvs rule: check_amounts.induct) (auto simp: bad_amount_iff [symmetric])

lemma sum_amounts_nonneg:
  "check_amounts err kvs = Inr () \<Longrightarrow> 0 \<le> sum_amounts kvs"
  by (induction err kvs rule: check_amounts.induct) (auto simp: bad_amount_iff split: if_splits)

lemma resolve_total_idem: "resolve_total (resolve_total t p) p = resolve_total t p"
  by (auto simp: resolve_total_def split: option.splits)

lemma resolve_total_ok:
  assumes "case p of None \<Rightarrow> True | Some kvs \<Rightarrow> check_amounts err kvs = Inr ()"
    and "\<not> (case t of None \<Rightarrow> False | Some v \<Rightarrow> bad_amount v)"
  shows "\<not> (case resolve_total t p of None \<Rightarrow> False | Some v \<Rightarrow> bad_amount v)"
  using assms
  by (auto simp: resolve_total_def bad_amount_def dest: sum_amounts_nonneg split: option.splits)

lemma validateAndResolveUsage_Inr:
  "validateAndResolveUsage u = Inr r \<longleftrightarrow>
     (case u_tokens u of None \<Rightarrow> True | Some kvs \<Rightarrow> check_amounts TokenCountInvalid kvs = Inr ()) \<and>
     \<not> (case u_totalTokens u of None \<Rightarrow> False | Some v \<Rightarrow> bad_amount v) \<and>
     (case u_costs u of None \<Rightarrow> True | Some kvs \<Rightarrow> check_amounts CostInvalid kvs = Inr ()) \<and>
     \<not> (case u_totalCost u of None \<Rightarrow> False | Some v \<Rightarrow> bad_amount v) \<and>
     r = u\<lparr>u_totalTokens := resolve_total (u_totalTokens u) (u_tokens u),
           u_totalCost := resolve_total (u_totalCost u) (u_costs u)\<rparr>"
  by (cases "u_tokens u"; cases "u_costs u")
     (auto simp: validateAndResolveUsage_def andThen_Inr_iff split: if_splits)

lemma usage_resolution_fixed:
  assumes "validateAndResolveUsage u = Inr r"
  shows "validateAndResolveUsage r = Inr r"
proof -
  note ok = assms [unfolded validateAndResolveUsage_Inr]
  have r: "r = u\<lparr>u_totalTokens := resolve_total (u_totalTokens u) (u_tokens u),
                 u_totalCost := resolve_total (u_totalCost u) (u_costs u)\<rparr>"
    using ok by blast
  show ?thesis
    unfolding validateAndResolveUsage_Inr
    using ok resolve_total_ok [where err = TokenCountInvalid and p = "u_tokens u" and t = "u_totalTokens u"]
      resolve_total_ok [where err = CostInvalid and p = "u_costs u" and t = "u_totalCost u"]
    by (simp add: r resolve_total_idem)
qed


definition no_usage :: job_usage where
  "no_usage = \<lparr>u_model = None, u_provider = None, u_tokens = None, u_totalTokens = None,
     u_costs = None, u_totalCost = None, u_costUnit = None, u_latencyMs = None, u_cached = None\<rparr>"

definition sample_usage :: job_usage where
  "sample_usage = no_usage\<lparr>u_tokens := Some [(''input'', Num 50), (''output'', Num 200)]\<rparr>"


section \<open>Weighted totals\<close>

definition token_weight :: "(string, jsnum) jsmap \<Rightarrow> string \<Rightarrow> rat" where
  "token_weight weights cat =
     (case jm_get weights cat of None \<Rightarrow> 1
      | Some w \<Rightarrow> if is_finite w \<and> Num 0 \<le> w then num_or 1 (Some w) else 1)"

fun weighted_sum :: "(string, jsnum) jsmap \<Rightarrow> (string, rat) jsmap \<Rightarrow> rat" where
  "weighted_sum weights [] = 0"
| "weighted_sum weights ((cat, val) # kvs) = val * token_weight weights cat + weighted_sum weights kvs"

definition computeWeightedTotal :: "(string, rat) jsmap \<Rightarrow> (string, jsnum) jsmap \<Rightarrow> rat \<Rightarrow> rat" where
  "computeWeightedTotal tokens weights rawTotal =
     (let weighted = weighted_sum weights tokens in
      if weighted = 0 \<and> rawTotal > 0 then rawTotal else weighted)"

lemma token_weight_nonneg: "0 \<le> token_weight weights cat"
proof (cases "jm_get weights cat")
  case (Some w)
  then show ?thesis by (cases w) (auto simp: token_weight_def)
qed (simp add: token_weight_def)

lemma weighted_sum_nonneg: "\<forall>(k, v) \<in> set kvs. 0 \<le> v \<Longrightarrow> 0 \<le> weighted_sum weights kvs"
  by (induction weights kvs rule: weighted_sum.induct) (auto simp: token_weight_nonneg)

lemma computeWeightedTotal_nonneg:
  "\<forall>(k, v) \<in> set tokens. 0 \<le> v \<Longrightarrow> 0 \<le> computeWeightedTotal tokens weights rawTotal"
  by (auto simp: computeWeightedTotal_def Let_def weighted_sum_nonneg)

section \<open>Aggregation\<close>

record usage_totals =
  s_jobCount :: nat
  s_tokens :: "(string, rat) jsmap"
  s_totalTokens :: rat
  s_costs :: "(string, rat) jsmap"
  s_totalCost :: rat
  s_costUnit :: "string option"
  s_models :: "(string, nat) jsmap"

definition createUsageQueueSummary :: usage_totals where
  "createUsageQueueSummary = \<lparr>s_jobCount = 0, s_tokens = [], s_totalTokens = 0, s_costs = [],
     s_totalCost = 0, s_costUnit = None, s_models = []\<rparr>"

text \<open>\<open>m[k] = (m[k] || 0) + v\<close>\<close>

definition add_at :: "string \<Rightarrow> 'n::{zero,plus} \<Rightarrow> (string, 'n) jsmap \<Rightarrow> (string, 'n) jsmap" where
  "add_at k v m = jm_set k ((case jm_get m k of None \<Rightarrow> 0 | Some w \<Rightarrow> w) + v) m"

fun add_all :: "(string, jsnum) jsmap \<Rightarrow> (string, rat) jsmap \<Rightarrow> (string, rat) jsmap" where
  "add_all [] m = m"
| "add_all ((k, v) # kvs) m = add_all kvs (case v of Num q \<Rightarrow> add_at k q m | _ \<Rightarrow> m)"

definition nonempty_str :: "string option \<Rightarrow> string option" where
  "nonempty_str s = (case s of None \<Rightarrow> None | Some x \<Rightarrow> if x = [] then None else Some x)"

definition mergeUsage :: "job_usage \<Rightarrow> usage_totals \<Rightarrow> usage_totals" where
  "mergeUsage u t = t\<lparr>
     s_jobCount := s_jobCount t + 1,
     s_totalTokens := s_totalTokens t + num_or 0 (u_totalTokens u),
     s_totalCost := s_totalCost t + num_or 0 (u_totalCost u),
     s_costUnit := (case nonempty_str (s_costUnit t) of
        None \<Rightarrow> (case nonempty_str (u_costUnit u) of None \<Rightarrow> s_costUnit t | Some c \<Rightarrow> Some c)
      | Some _ \<Rightarrow> s_costUnit t),
     s_models := (case nonempty_str (u_model u) of None \<Rightarrow> s_models t | Some m \<Rightarrow> add_at m 1 (s_models t)),
     s_tokens := (case u_tokens u of None \<Rightarrow> s_tokens t | Some kvs \<Rightarrow> add_all kvs (s_tokens t)),
     s_costs := (case u_costs u of None \<Rightarrow> s_costs t | Some kvs \<Rightarrow> add_all kvs (s_costs t))\<rparr>"

definition at_or_0 :: "(string, rat) jsmap \<Rightarrow> string \<Rightarrow> rat" where
  "at_or_0 m k = (case jm_get m k of None \<Rightarrow> 0 | Some w \<Rightarrow> w)"

fun category_sum :: "string \<Rightarrow> (string, jsnum) jsmap \<Rightarrow> rat" where
  "category_sum k [] = 0"
| "category_sum k ((k', v) # kvs) = (if k' = k then num_or 0 (Some v) else 0) + category_sum k kvs"

lemma at_or_0_add_at: "at_or_0 (add_at k v m) k' = at_or_0 m k' + (if k' = k then v else 0)"
  by (simp add: at_or_0_def add_at_def js_map_simps)

lemma at_or_0_add_all: "at_or_0 (add_all kvs m) k = at_or_0 m k + category_sum k kvs"
proof (induction kvs m rule: add_all.induct)
  case (2 k' v kvs m)
  then show ?case by (cases v) (auto simp: at_or_0_add_at num_or_def)
qed simp

definition usage_category :: "string \<Rightarrow> job_usage \<Rightarrow> rat" where
  "usage_category k u = (case u_tokens u of None \<Rightarrow> 0 | Some kvs \<Rightarrow> category_sum k kvs)"

lemma mergeUsage_totals [simp]:
  "s_jobCount (mergeUsage u t) = s_jobCount t + 1"
  "s_totalTokens (mergeUsage u t) = s_totalTokens t + num_or 0 (u_totalTokens u)"
  "s_totalCost (mergeUsage u t) = s_totalCost t + num_or 0 (u_totalCost u)"
  "at_or_0 (s_tokens (mergeUsage u t)) k = at_or_0 (s_tokens t) k + usage_category k u"
  by (auto simp: mergeUsage_def usage_category_def at_or_0_add_all split: option.splits)

lemma fold_mergeUsage:
  "s_jobCount (fold mergeUsage us t) = s_jobCount t + length us"
  "s_totalTokens (fold mergeUsage us t) = s_totalTokens t + (\<Sum>u\<leftarrow>us. num_or 0 (u_totalTokens u))"
  "s_totalCost (fold mergeUsage us t) = s_totalCost t + (\<Sum>u\<leftarrow>us. num_or 0 (u_totalCost u))"
  "at_or_0 (s_tokens (fold mergeUsage us t)) k = at_or_0 (s_tokens t) k + (\<Sum>u\<leftarrow>us. usage_category k u)"
  by (induction us arbitrary: t) simp_all

section \<open>The query window\<close>

record usage_query =
  q_startTime :: "jsnum option"
  q_endTime :: "jsnum option"
  q_windowMs :: "jsnum option"
  q_queues :: "string list option"

definition DEFAULT_USAGE_WINDOW_MS :: rat where "DEFAULT_USAGE_WINDOW_MS = 60 * 60 * 1000"

definition resolveUsageWindow :: "usage_query \<Rightarrow> rat \<Rightarrow> usage_error + rat \<times> rat" where
  "resolveUsageWindow q now =
     (case (case q_endTime q of None \<Rightarrow> Num now | Some v \<Rightarrow> v) of
        Num endTime \<Rightarrow>
          if endTime < 0 then Inl EndTimeInvalid
          else (case (case q_windowMs q of None \<Rightarrow> Num DEFAULT_USAGE_WINDOW_MS | Some v \<Rightarrow> v) of
             Num windowMs \<Rightarrow>
               if windowMs \<le> 0 then Inl WindowInvalid
               else (case (case q_startTime q of None \<Rightarrow> Num (max 0 (endTime - windowMs)) | Some v \<Rightarrow> v) of
                  Num requested \<Rightarrow>
                    if requested < 0 then Inl StartTimeInvalid
                    else if requested > endTime then Inl WindowReversed
                    else Inr (max (max 0 (endTime - of_int USAGE_RETENTION_MS)) requested, endTime)
                | _ \<Rightarrow> Inl StartTimeInvalid)
           | _ \<Rightarrow> Inl WindowInvalid)
      | _ \<Rightarrow> Inl EndTimeInvalid)"

text \<open>
  A usage query window that is accepted is a window inside the retention period: it starts
  at or after 0, does not end before it starts, and is at most 30 days long.
\<close>

lemma usage_window_bounds:
  assumes "resolveUsageWindow q now = Inr (s, e)"
  shows "0 \<le> s \<and> s \<le> e \<and> e - s \<le> 30 * 24 * 60 * 60 * 1000"
  using assms
  by (auto simp: resolveUsageWindow_def USAGE_RETENTION_MS_def Let_def
      split: option.splits jsnum.splits if_splits)

end
