(* ===== verification/Subject.thy ===== *)
theory Subject
  imports Strings
begin

text \<open>
  Subject filtering of the broadcast worker: \<open>matchSubject\<close> and \<open>compileSubjectMatcher\<close> of
  \<open>src/utils.ts\<close>, against a declarative reading of the pattern language.
\<close>

section \<open>The matcher\<close>

datatype subject_error = WildcardNotLast

text \<open>
  The loop over the pattern tokens, on the suffixes the index \<open>i\<close> has not passed. The test
  \<open>i < subParts.length\<close> is that the rest of the subject is not empty.
\<close>

fun match_parts :: "string list \<Rightarrow> string list \<Rightarrow> subject_error + bool" where
  "match_parts [] subs = Inr (subs = [])"
| "match_parts (token # pats) subs =
     (if token = ''>'' then (if pats \<noteq> [] then Inl WildcardNotLast else Inr (subs \<noteq> []))
      else (case subs of
          [] \<Rightarrow> Inr False
        | s # subs' \<Rightarrow> if token \<noteq> ''*'' \<and> token \<noteq> s then Inr False else match_parts pats subs'))"

definition matchSubject :: "string \<Rightarrow> string \<Rightarrow> subject_error + bool" where
  "matchSubject pattern subject = match_parts (split_on CHR ''.'' pattern) (split_on CHR ''.'' subject)"

text \<open>\<open>patterns.some(p => matchSubject(p, subject))\<close>: stops at the first match, throws when reached.\<close>

fun some_match :: "string list \<Rightarrow> string \<Rightarrow> subject_error + bool" where
  "some_match [] subject = Inr False"
| "some_match (p # ps) subject =
     andThen (matchSubject p subject) (\<lambda>b. if b then Inr True else some_match ps subject)"

definition compileSubjectMatcher :: "string list option \<Rightarrow> (string \<Rightarrow> subject_error + bool) option" where
  "compileSubjectMatcher patterns =
     (case patterns of
        None \<Rightarrow> None
      | Some ps \<Rightarrow>
          (case ps of
             [] \<Rightarrow> None
           | [p] \<Rightarrow> Some (\<lambda>subject. matchSubject p subject)
           | _ \<Rightarrow> Some (\<lambda>subject. some_match ps subject)))"

section \<open>The pattern language\<close>

inductive subject_matches :: "string list \<Rightarrow> string list \<Rightarrow> bool" where
  sm_end: "subject_matches [] []"
| sm_any: "token \<noteq> ''>'' \<Longrightarrow> token = ''*'' \<or> token = s \<Longrightarrow> subject_matches ps ss \<Longrightarrow>
     subject_matches (token # ps) (s # ss)"
| sm_rest: "ss \<noteq> [] \<Longrightarrow> subject_matches [''>''] ss"

inductive_simps sm_Nil_iff: "subject_matches [] ss"
inductive_simps sm_Cons_iff: "subject_matches (p # ps) ss"
inductive_cases sm_ConsE: "subject_matches (p # ps) ss"

definition wf_pattern :: "string \<Rightarrow> bool" where
  "wf_pattern pattern \<longleftrightarrow> ''>'' \<notin> set (butlast (split_on CHR ''.'' pattern))"

definition matches :: "string \<Rightarrow> string \<Rightarrow> bool" where
  "matches pattern subject \<longleftrightarrow>
     subject_matches (split_on CHR ''.'' pattern) (split_on CHR ''.'' subject)"

lemma match_parts_sound: "match_parts ps ss = Inr b \<Longrightarrow> b \<longleftrightarrow> subject_matches ps ss"
proof (induction ps ss rule: match_parts.induct)
  case (2 token pats subs)
  then show ?case
    by (cases subs) (auto simp: sm_Cons_iff sm_Nil_iff split: if_splits)
qed (simp add: sm_Nil_iff)

lemma match_parts_total: "''>'' \<notin> set (butlast ps) \<Longrightarrow> \<exists>b. match_parts ps ss = Inr b"
proof (induction ps ss rule: match_parts.induct)
  case (2 token pats subs)
  then show ?case by (cases subs; cases "pats = []") auto
qed simp

lemma matchSubject_wf: "wf_pattern p \<Longrightarrow> matchSubject p s = Inr (matches p s)"
  using match_parts_total [of "split_on CHR ''.'' p" "split_on CHR ''.'' s"] match_parts_sound
  unfolding wf_pattern_def matchSubject_def matches_def by blast

text \<open>
  C32: on a pattern whose \<open>>\<close> stands last, \<open>matchSubject\<close> decides the pattern language: literal
  tokens match themselves, \<open>*\<close> any one segment, a final \<open>>\<close> one or more segments. It never
  throws on such a pattern.
\<close>

theorem matchSubject_decides:
  assumes "wf_pattern p"
  shows "matchSubject p s = Inr (matches p s)"
  using matchSubject_wf [OF assms] .

theorem matchSubject_decides_witness:
  "wf_pattern ''orders.*.>'' \<and> matchSubject ''orders.*.>'' ''orders.eu.new.paid'' = Inr True \<and>
   matches ''orders.*.>'' ''orders.eu.new.paid''"
proof -
  have wf: "wf_pattern ''orders.*.>''" by (simp add: wf_pattern_def)
  have "matchSubject ''orders.*.>'' ''orders.eu.new.paid'' = Inr True" by (simp add: matchSubject_def)
  with matchSubject_decides [OF wf, of "''orders.eu.new.paid''"] wf show ?thesis by simp
qed

lemma some_match_wf:
  "\<forall>p \<in> set ps. wf_pattern p \<Longrightarrow> some_match ps s = Inr (\<exists>p \<in> set ps. matches p s)"
  by (induction ps) (auto simp: matchSubject_wf)

text \<open>
  A compiled matcher exists exactly when there is a pattern, and on well-formed patterns it
  accepts a subject exactly when one of the patterns matches; the special case for a single
  pattern agrees with the general one.
\<close>

lemma compileSubjectMatcher_any:
  assumes "\<forall>p \<in> set ps. wf_pattern p" and "ps \<noteq> []"
  shows "\<exists>f. compileSubjectMatcher (Some ps) = Some f \<and> (\<forall>s. f s = Inr (\<exists>p \<in> set ps. matches p s))"
  using assms
  by (cases ps rule: remdups_adj.cases)
     (simp_all add: compileSubjectMatcher_def matchSubject_wf some_match_wf del: some_match.simps)


end
