(* ===== verification/Calendar.thy ===== *)
theory Calendar
  imports Prelude
begin

text \<open>
  The part of JavaScript's \<open>Date\<close> the cron code uses: day numbers of the proleptic Gregorian
  calendar, \<open>Date.UTC\<close> with its month and day overflow, the UTC getters, and on top of them
  \<open>daysInMonth\<close>, \<open>utcToWall\<close>, \<open>wallToNaiveUtc\<close> and \<open>wallPlusOneSecond\<close> of \<open>src/utils.ts\<close>.
  Instants are whole milliseconds since 1970-01-01T00:00Z.
\<close>

section \<open>Days and years\<close>

definition is_leap :: "int \<Rightarrow> bool" where
  "is_leap y \<longleftrightarrow> (y mod 4 = 0 \<and> y mod 100 \<noteq> 0) \<or> y mod 400 = 0"

text \<open>The day number of January 1 of a year (ECMAScript \<open>DayFromYear\<close>).\<close>

definition day_from_year :: "int \<Rightarrow> int" where
  "day_from_year y = 365 * (y - 1970) + (y - 1969) div 4 - (y - 1901) div 100 + (y - 1601) div 400"

definition year_length :: "int \<Rightarrow> int" where
  "year_length y = (if is_leap y then 366 else 365)"

lemma int_div_plus1:
  fixes a k :: int
  assumes "0 < k"
  shows "(a + 1) div k = a div k + (if (a + 1) mod k = 0 then 1 else 0)"
proof -
  have a: "a = k * (a div k) + a mod k" by simp
  have r: "0 \<le> a mod k" "a mod k < k" using assms by simp_all
  show ?thesis
  proof (cases "a mod k = k - 1")
    case True
    then have "a + 1 = k * (a div k + 1) + 0" unfolding distrib_left using a True by linarith
    then have "(a + 1) div k = a div k + 1" "(a + 1) mod k = 0"
      using assms by (auto intro: int_div_pos_eq int_mod_pos_eq)
    then show ?thesis by simp
  next
    case False
    have e: "a + 1 = k * (a div k) + (a mod k + 1)" using a by linarith
    have b: "0 \<le> a mod k + 1" "a mod k + 1 < k" using False r by linarith+
    have "(a + 1) div k = a div k" "(a + 1) mod k = a mod k + 1"
      using int_div_pos_eq [OF e b] int_mod_pos_eq [OF e b] .
    then show ?thesis using r by simp
  qed
qed

lemma div_bounds:
  fixes a k :: int
  assumes "0 < k"
  shows "k * (a div k) \<le> a" and "a < k * (a div k) + k"
proof -
  have "a = k * (a div k) + a mod k" by simp
  moreover have "0 \<le> a mod k" "a mod k < k" using assms by simp_all
  ultimately show "k * (a div k) \<le> a" and "a < k * (a div k) + k" by linarith+
qed

lemma leap_chain:
  fixes y :: int
  shows "y mod 400 = 0 \<Longrightarrow> y mod 100 = 0" and "y mod 100 = 0 \<Longrightarrow> y mod 4 = 0"
  using mod_mod_cancel [of 100 400 y] mod_mod_cancel [of 4 100 y] by simp_all

lemma leap_days_Suc:
  fixes y :: int
  shows "(y + 1 - 1969) div 4 = (y - 1969) div 4 + (if y mod 4 = 0 then 1 else 0)"
    and "(y + 1 - 1901) div 100 = (y - 1901) div 100 + (if y mod 100 = 0 then 1 else 0)"
    and "(y + 1 - 1601) div 400 = (y - 1601) div 400 + (if y mod 400 = 0 then 1 else 0)"
proof -
  have "(y - 1969 + 1) mod 4 = y mod 4" using mod_mult_self1 [of "y - 1968" 492 4] by simp
  then show "(y + 1 - 1969) div 4 = (y - 1969) div 4 + (if y mod 4 = 0 then 1 else 0)"
    using int_div_plus1 [of 4 "y - 1969"] by simp
  have "(y - 1901 + 1) mod 100 = y mod 100" using mod_mult_self1 [of "y - 1900" 19 100] by simp
  then show "(y + 1 - 1901) div 100 = (y - 1901) div 100 + (if y mod 100 = 0 then 1 else 0)"
    using int_div_plus1 [of 100 "y - 1901"] by simp
  have "(y - 1601 + 1) mod 400 = y mod 400" using mod_mult_self1 [of "y - 1600" 4 400] by simp
  then show "(y + 1 - 1601) div 400 = (y - 1601) div 400 + (if y mod 400 = 0 then 1 else 0)"
    using int_div_plus1 [of 400 "y - 1601"] by simp
qed

lemma year_length_sum:
  "(if y mod 4 = 0 then 1 else 0) - (if y mod 100 = 0 then 1 else 0) + (if y mod 400 = 0 then 1 else 0)
     = year_length y - 365"
  using leap_chain [of y] by (auto simp: year_length_def is_leap_def)

lemma day_from_year_Suc: "day_from_year (y + 1) = day_from_year y + year_length y"
proof -
  have eq: "365 * (y + 1 - 1970) + (A + a) - (B + b) + (C + c) = 365 * (y - 1970) + A - B + C + L"
    if "a - b + c = L - 365" for A B C a b c L :: int
    using that by (simp add: algebra_simps)
  show ?thesis
    unfolding day_from_year_def leap_days_Suc by (rule eq [OF year_length_sum])
qed

lemma year_length_bounds: "365 \<le> year_length y \<and> year_length y \<le> 366"
  by (simp add: year_length_def)

lemma day_from_year_add:
  "day_from_year y + 365 * int n \<le> day_from_year (y + int n)"
proof (induction n)
  case (Suc n)
  then show ?case
    using day_from_year_Suc [of "y + int n"] year_length_bounds [of "y + int n"]
    by (simp add: algebra_simps)
qed simp

lemma day_from_year_mono: "x \<le> y \<Longrightarrow> day_from_year x + 365 * (y - x) \<le> day_from_year y"
  using day_from_year_add [of x "nat (y - x)"] by simp

lemma day_from_year_less: "x < y \<Longrightarrow> day_from_year x + year_length x \<le> day_from_year y"
  using day_from_year_mono [of "x + 1" y] by (simp add: day_from_year_Suc)

text \<open>
  \<open>YearFromTime\<close> is the largest year that starts on or before the day. The search starts at a
  year that does and moves up while the next year does too.
\<close>

function year_search :: "int \<Rightarrow> int \<Rightarrow> int" where
  "year_search d y = (if day_from_year (y + 1) \<le> d then year_search d (y + 1) else y)"
  by pat_completeness auto
termination
proof (relation "measure (\<lambda>(d, y). nat (d - day_from_year y))")
  fix d y :: int
  assume "day_from_year (y + 1) \<le> d"
  then show "((d, y + 1), d, y) \<in> measure (\<lambda>(d, y). nat (d - day_from_year y))"
    using day_from_year_Suc [of y] year_length_bounds [of y] by simp
qed simp

declare year_search.simps [simp del]

definition year_from_day :: "int \<Rightarrow> int" where
  "year_from_day d = year_search d (if d \<ge> 0 then 1970 + d div 366 else 1969 + d div 365)"

lemma year_search_correct:
  "day_from_year y \<le> d \<Longrightarrow>
   day_from_year (year_search d y) \<le> d \<and> d < day_from_year (year_search d y + 1)"
proof (induction d y rule: year_search.induct)
  case (1 d y)
  then show ?case by (cases "day_from_year (y + 1) \<le> d") (simp_all add: year_search.simps [of d y])
qed

lemma day_from_year_start:
  "day_from_year (if d \<ge> 0 then 1970 + d div 366 else 1969 + d div 365) \<le> d"
proof (cases "d \<ge> 0")
  case True
  define n where "n = d div 366"
  have n: "0 \<le> n" "366 * n \<le> d" using True div_bounds(1) [of 366 d] by (auto simp: n_def)
  have "(n + 1) div 4 - (n + 69) div 100 + (n + 369) div 400 \<le> n"
  proof (cases "n \<le> 1")
    case True
    then have "n = 0 \<or> n = 1" using n(1) by auto
    then show ?thesis by auto
  next
    case False
    then show ?thesis
      using div_bounds [of 4 "n + 1"] div_bounds [of 100 "n + 69"] div_bounds [of 400 "n + 369"]
      by linarith
  qed
  then show ?thesis using True n
    by (simp add: day_from_year_def n_def [symmetric] algebra_simps)
next
  case False
  define n where "n = d div 365"
  have n: "365 * n \<le> d" "n < 0" using False div_bounds(1) [of 365 d] by (auto simp: n_def)
  have "n div 4 - (n + 68) div 100 + (n + 368) div 400 \<le> 365"
    using n(2) div_bounds [of 4 n] div_bounds [of 100 "n + 68"] div_bounds [of 400 "n + 368"]
    by linarith
  then show ?thesis using False n
    by (simp add: day_from_year_def n_def [symmetric] algebra_simps)
qed

lemma year_from_day_bounds:
  "day_from_year (year_from_day d) \<le> d \<and> d < day_from_year (year_from_day d) + year_length (year_from_day d)"
  unfolding year_from_day_def
  using year_search_correct [OF day_from_year_start [of d]] by (simp add: day_from_year_Suc)

lemma year_from_day_unique:
  assumes "day_from_year y \<le> d" and "d < day_from_year y + year_length y"
  shows "year_from_day d = y"
proof (cases "year_from_day d" y rule: linorder_cases)
  case less
  then show ?thesis using day_from_year_less [OF less] year_from_day_bounds [of d] assms by linarith
next
  case greater
  then show ?thesis using day_from_year_less [OF greater] year_from_day_bounds [of d] assms by linarith
qed

section \<open>Months\<close>

text \<open>Days of the months of a year, 1-based, and the days before a month.\<close>

definition month_length :: "int \<Rightarrow> int \<Rightarrow> int" where
  "month_length y m =
     (if m = 2 then (if is_leap y then 29 else 28)
      else if m = 4 \<or> m = 6 \<or> m = 9 \<or> m = 11 then 30 else 31)"

definition days_before :: "int \<Rightarrow> int \<Rightarrow> int" where
  "days_before y m = sum_list (map (month_length y) [1..m - 1])"

lemma upto_12: "[1..12] = [1,2,3,4,5,6,7,8,9,10,11,12::int]" by code_simp

lemma days_before_Suc: "1 \<le> m \<Longrightarrow> days_before y (m + 1) = days_before y m + month_length y m"
  by (simp add: days_before_def upto_rec2)

lemma days_before_1 [simp]: "days_before y 1 = 0"
  by (simp add: days_before_def)

lemma days_before_13: "days_before y 13 = year_length y"
  by (simp add: days_before_def upto_12 month_length_def year_length_def)

lemma month_length_bounds: "28 \<le> month_length y m \<and> month_length y m \<le> 31"
  by (simp add: month_length_def)

lemma days_before_mono:
  assumes "1 \<le> m" and "m \<le> n"
  shows "days_before y m + 28 * (n - m) \<le> days_before y n"
proof -
  have "days_before y m + 28 * int k \<le> days_before y (m + int k)" for k
  proof (induction k)
    case (Suc k)
    then show ?case
      using days_before_Suc [of "m + int k" y] month_length_bounds [of y "m + int k"] assms(1)
      by (simp add: algebra_simps)
  qed simp
  from this [of "nat (n - m)"] assms show ?thesis by simp
qed

lemma days_before_less:
  assumes "1 \<le> m" and "m < n"
  shows "days_before y m + month_length y m \<le> days_before y n"
  using days_before_mono [of "m + 1" n y] assms by (simp add: days_before_Suc)

text \<open>The month of day \<open>k\<close> of year \<open>y\<close> (0-based): the last one that starts on or before it.\<close>

fun month_search :: "int \<Rightarrow> int \<Rightarrow> nat \<Rightarrow> int" where
  "month_search y k 0 = 1"
| "month_search y k (Suc n) = (if days_before y (int (Suc n)) \<le> k then int (Suc n) else month_search y k n)"

definition month_of :: "int \<Rightarrow> int \<Rightarrow> int" where
  "month_of y k = month_search y k 12"

lemma month_search_correct:
  assumes "0 \<le> k" and "k < days_before y (int n + 1)" and "1 \<le> n"
  shows "1 \<le> month_search y k n \<and> month_search y k n \<le> int n \<and>
    days_before y (month_search y k n) \<le> k \<and>
    k < days_before y (month_search y k n) + month_length y (month_search y k n)"
  using assms
proof (induction n)
  case (Suc n)
  show ?case
  proof (cases "days_before y (int (Suc n)) \<le> k")
    case True
    then show ?thesis using Suc.prems(2) days_before_Suc [of "int (Suc n)" y] by (simp add: add.commute)
  next
    case False
    have "n \<noteq> 0"
    proof
      assume "n = 0"
      then have "days_before y (int (Suc n)) = 0" by simp
      with False Suc.prems(1) show False by simp
    qed
    with False Suc show ?thesis by (simp add: add.commute)
  qed
qed simp

lemma month_of_correct:
  assumes "0 \<le> k" and "k < year_length y"
  shows "1 \<le> month_of y k \<and> month_of y k \<le> 12 \<and>
    days_before y (month_of y k) \<le> k \<and> k < days_before y (month_of y k) + month_length y (month_of y k)"
  using month_search_correct [of k y 12] assms by (simp add: month_of_def days_before_13)

lemma month_of_unique:
  assumes "1 \<le> m" and "m \<le> 12" and "days_before y m \<le> k" and "k < days_before y m + month_length y m"
  shows "month_of y k = m"
proof -
  have "0 \<le> days_before y m" using days_before_mono [of 1 m y] assms(1) by simp
  moreover have "days_before y m + month_length y m \<le> days_before y 13"
    using days_before_less [of m 13 y] assms by simp
  ultimately have k: "0 \<le> k" "k < year_length y" using assms(3,4) by (auto simp: days_before_13)
  note mo = month_of_correct [OF k]
  show ?thesis
  proof (cases "month_of y k" m rule: linorder_cases)
    case less
    then show ?thesis using days_before_less [of "month_of y k" m y] mo assms by linarith
  next
    case greater
    then show ?thesis using days_before_less [of m "month_of y k" y] mo assms by linarith
  qed
qed

section \<open>Dates\<close>

record wall =
  year :: int
  month :: int
  day :: int
  hour :: int
  minute :: int
  second :: int

definition day_number :: "int \<Rightarrow> int \<Rightarrow> int \<Rightarrow> int" where
  "day_number y m d = day_from_year y + days_before y m + d - 1"

text \<open>
  \<open>Date.UTC\<close>: years 0 to 99 mean 1900 to 1999, months (0-based) outside 0..11 carry into the
  year, and days, hours, minutes and seconds add up.
\<close>

definition date_utc :: "int \<Rightarrow> int \<Rightarrow> int \<Rightarrow> int \<Rightarrow> int \<Rightarrow> int \<Rightarrow> int" where
  "date_utc y m d h mi s =
     (let y' = (if 0 \<le> y \<and> y \<le> 99 then 1900 + y else y)
      in (day_number (y' + m div 12) (m mod 12 + 1) d) * 86400000 + h * 3600000 + mi * 60000 + s * 1000)"

definition utc_year :: "int \<Rightarrow> int" where
  "utc_year ms = year_from_day (ms div 86400000)"

definition utc_month :: "int \<Rightarrow> int" where
  "utc_month ms = month_of (utc_year ms) (ms div 86400000 - day_from_year (utc_year ms))"

definition utc_date :: "int \<Rightarrow> int" where
  "utc_date ms = ms div 86400000 - day_from_year (utc_year ms) - days_before (utc_year ms) (utc_month ms) + 1"

definition utc_day :: "int \<Rightarrow> int" where
  "utc_day ms = (ms div 86400000 + 4) mod 7"

definition utcToWall :: "int \<Rightarrow> wall" where
  "utcToWall ms = \<lparr>year = utc_year ms, month = utc_month ms, day = utc_date ms,
     hour = ms div 3600000 mod 24, minute = ms div 60000 mod 60, second = ms div 1000 mod 60\<rparr>"

definition wallToNaiveUtc :: "wall \<Rightarrow> int" where
  "wallToNaiveUtc w = date_utc (year w) (month w - 1) (day w) (hour w) (minute w) (second w)"

definition wallPlusOneSecond :: "wall \<Rightarrow> wall" where
  "wallPlusOneSecond w = utcToWall (wallToNaiveUtc w + 1000)"

definition daysInMonth :: "int \<Rightarrow> int \<Rightarrow> int" where
  "daysInMonth y m = utc_date (date_utc y m 0 0 0 0)"

definition day_of_week :: "int \<Rightarrow> int \<Rightarrow> int \<Rightarrow> int" where
  "day_of_week y m d = utc_day (date_utc y (m - 1) d 0 0 0)"

section \<open>Correctness of the date arithmetic\<close>

definition valid_date :: "int \<Rightarrow> int \<Rightarrow> int \<Rightarrow> bool" where
  "valid_date y m d \<longleftrightarrow> 1 \<le> m \<and> m \<le> 12 \<and> 1 \<le> d \<and> d \<le> month_length y m"

definition valid_wall :: "wall \<Rightarrow> bool" where
  "valid_wall w \<longleftrightarrow> valid_date (year w) (month w) (day w) \<and> 0 \<le> hour w \<and> hour w < 24 \<and>
     0 \<le> minute w \<and> minute w < 60 \<and> 0 \<le> second w \<and> second w < 60"

lemma day_number_in_year:
  assumes "valid_date y m d"
  shows "day_from_year y \<le> day_number y m d \<and> day_number y m d < day_from_year y + year_length y"
proof -
  have "0 \<le> days_before y m" using days_before_mono [of 1 m y] assms by (simp add: valid_date_def)
  moreover have "days_before y m + month_length y m \<le> year_length y"
    using days_before_less [of m 13 y] assms by (simp add: valid_date_def days_before_13)
  ultimately show ?thesis using assms by (simp add: day_number_def valid_date_def)
qed

lemma utc_of_day_number:
  assumes "valid_date y m d" and "ms div 86400000 = day_number y m d"
  shows "utc_year ms = y" and "utc_month ms = m" and "utc_date ms = d"
proof -
  show y: "utc_year ms = y"
    using day_number_in_year [OF assms(1)] assms(2) by (simp add: utc_year_def year_from_day_unique)
  show m: "utc_month ms = m"
    unfolding utc_month_def y using assms
    by (intro month_of_unique) (auto simp: day_number_def valid_date_def)
  show "utc_date ms = d"
    unfolding utc_date_def y m using assms(2) by (simp add: day_number_def)
qed

lemma valid_utc_date: "valid_date (utc_year ms) (utc_month ms) (utc_date ms)"
  and day_number_utc: "day_number (utc_year ms) (utc_month ms) (utc_date ms) = ms div 86400000"
proof -
  let ?k = "ms div 86400000 - day_from_year (utc_year ms)"
  have "0 \<le> ?k" "?k < year_length (utc_year ms)"
    using year_from_day_bounds [of "ms div 86400000"] by (simp_all add: utc_year_def)
  note mo = month_of_correct [OF this]
  show "valid_date (utc_year ms) (utc_month ms) (utc_date ms)"
    using mo by (simp add: valid_date_def utc_date_def utc_month_def)
  show "day_number (utc_year ms) (utc_month ms) (utc_date ms) = ms div 86400000"
    by (simp add: day_number_def utc_date_def)
qed

lemma valid_utcToWall: "valid_wall (utcToWall ms)"
  using valid_utc_date [of ms] by (simp add: valid_wall_def utcToWall_def)

definition naive :: "wall \<Rightarrow> int" where
  "naive w = day_number (year w) (month w) (day w) * 86400000 + hour w * 3600000 + minute w * 60000 + second w * 1000"

lemma wallToNaiveUtc_naive:
  assumes "valid_wall w" and "100 \<le> year w"
  shows "wallToNaiveUtc w = naive w"
  using assms
  by (simp add: wallToNaiveUtc_def date_utc_def naive_def valid_wall_def valid_date_def)

lemma div_chain:
  fixes ms :: int
  shows "ms div 60000 = ms div 1000 div 60" "ms div 3600000 = ms div 1000 div 60 div 60"
    "ms div 86400000 = ms div 1000 div 60 div 60 div 24"
  by (simp_all add: zdiv_zmult2_eq [symmetric])

lemma naive_utcToWall: "naive (utcToWall ms) = ms - ms mod 1000"
proof -
  define s mi h where "s = ms div 1000" and "mi = s div 60" and "h = mi div 60"
  have f: "h div 24 * 24 + h mod 24 = h" "h * 60 + mi mod 60 = mi" "mi * 60 + s mod 60 = s"
    "s * 1000 = ms - ms mod 1000"
    by (simp_all add: s_def mi_def h_def minus_mod_eq_div_mult)
  have "naive (utcToWall ms) =
      h div 24 * 86400000 + h mod 24 * 3600000 + mi mod 60 * 60000 + s mod 60 * 1000"
    by (simp add: naive_def utcToWall_def day_number_utc div_chain s_def mi_def h_def)
  with f show ?thesis by linarith
qed

lemma div_mod_digit:
  fixes q r k :: int
  assumes "0 \<le> r" and "r < k"
  shows "(q * k + r) div k = q" and "(q * k + r) mod k = r"
  using assms by (auto intro: int_div_pos_eq int_mod_pos_eq)

lemma utcToWall_naive:
  assumes "valid_wall w"
  shows "utcToWall (naive w) = w"
proof -
  let ?d = "day_number (year w) (month w) (day w)"
  have n: "naive w = ((((?d * 24 + hour w) * 60 + minute w) * 60 + second w) * 1000 + 0)"
    by (simp add: naive_def)
  have 1: "naive w div 1000 = ((?d * 24 + hour w) * 60 + minute w) * 60 + second w"
    unfolding n by (rule div_mod_digit) simp_all
  have t: "0 \<le> hour w" "hour w < 24" "0 \<le> minute w" "minute w < 60" "0 \<le> second w" "second w < 60"
    and v: "valid_date (year w) (month w) (day w)"
    using assms by (auto simp: valid_wall_def)
  have 2: "(((?d * 24 + hour w) * 60 + minute w) * 60 + second w) div 60 = (?d * 24 + hour w) * 60 + minute w"
    "(((?d * 24 + hour w) * 60 + minute w) * 60 + second w) mod 60 = second w"
    "((?d * 24 + hour w) * 60 + minute w) div 60 = ?d * 24 + hour w"
    "((?d * 24 + hour w) * 60 + minute w) mod 60 = minute w"
    "(?d * 24 + hour w) div 24 = ?d" "(?d * 24 + hour w) mod 24 = hour w"
    by (rule div_mod_digit; use t in simp)+
  have "utcToWall (naive w) = \<lparr>year = utc_year (naive w), month = utc_month (naive w),
      day = utc_date (naive w), hour = hour w, minute = minute w, second = second w\<rparr>"
    unfolding utcToWall_def div_chain 1 2 ..
  moreover have "naive w div 86400000 = ?d"
    unfolding div_chain 1 2 ..
  ultimately show ?thesis by (simp add: utc_of_day_number [OF v])
qed

lemma daysInMonth_eq:
  assumes "1 \<le> m" and "m \<le> 12" and "100 \<le> y"
  shows "daysInMonth y m = month_length y m"
proof -
  have "day_number (y + m div 12) (m mod 12 + 1) 0 = day_number y m (month_length y m)"
  proof (cases "m = 12")
    case True
    then show ?thesis
      using days_before_Suc [of 12 y] days_before_13 [of y]
      by (simp add: day_number_def day_from_year_Suc)
  next
    case False
    then have "m div 12 = 0" "m mod 12 = m" using assms by auto
    then show ?thesis using assms by (simp add: day_number_def days_before_Suc)
  qed
  then have "date_utc y m 0 0 0 0 div 86400000 = day_number y m (month_length y m)"
    using assms by (simp add: date_utc_def)
  moreover have "valid_date y m (month_length y m)"
    using assms month_length_bounds [of y m] by (simp add: valid_date_def)
  ultimately show ?thesis by (simp add: daysInMonth_def utc_of_day_number)
qed

lemma day_of_week_eq:
  "1 \<le> m \<Longrightarrow> m \<le> 12 \<Longrightarrow> 100 \<le> y \<Longrightarrow> day_of_week y m d = (day_number y m d + 4) mod 7"
  by (simp add: day_of_week_def utc_day_def date_utc_def)

text \<open>
  C26: \<open>utcToWall\<close> and \<open>wallToNaiveUtc\<close> are inverse to each other: every instant from year 100 on
  has a valid wall clock reading that converts back to the start of its second, and every
  valid wall time of such a year reads back unchanged.
\<close>

theorem wall_utc_roundtrip:
  assumes "100 \<le> utc_year ms" and "valid_wall w" and "100 \<le> year w"
  shows "wallToNaiveUtc (utcToWall ms) = ms - ms mod 1000 \<and> utcToWall (wallToNaiveUtc w) = w"
proof -
  have "100 \<le> year (utcToWall ms)" using assms(1) by (simp add: utcToWall_def)
  then show ?thesis
    using assms by (simp add: wallToNaiveUtc_naive valid_utcToWall naive_utcToWall utcToWall_naive)
qed

theorem wall_utc_roundtrip_witness:
  "wallToNaiveUtc (utcToWall 951782400000) = 951782400000 \<and>
   utcToWall (wallToNaiveUtc (utcToWall 0)) = utcToWall 0"
proof -
  have "100 \<le> utc_year 951782400000" "100 \<le> year (utcToWall 0)" by code_simp+
  then show ?thesis
    using wall_utc_roundtrip [of 951782400000 "utcToWall 0"] valid_utcToWall by simp
qed

end
