(* ===== verification/Cron_Pattern.thy ===== *)
theory Cron_Pattern
  imports Strings
begin

text \<open>
  The cron pattern parser of \<open>src/utils.ts\<close>: \<open>parseCronValue\<close>, \<open>parseCronField\<close>, the Quartz day
  modifiers and \<open>parseCronPattern\<close>, and what a parsed pattern guarantees to the search.
\<close>

section \<open>Fields\<close>

datatype cron_error =
    RangeOutOfBounds int int
  | RangeReversed int int
  | InvalidToken string
  | InvalidStep nat
  | ValueOutOfBounds int
  | WrongFieldCount nat
  | NoMatchInHorizon string

record cron_field =
  cf_set :: "int list"
  cf_sorted :: "int list"

record cron_spec =
  sp_min :: int
  sp_max :: int
  sp_names :: "(string \<times> int) list"
  sp_question :: bool

definition MONTH_NAMES :: "(string \<times> int) list" where
  "MONTH_NAMES = [(''JAN'', 1), (''FEB'', 2), (''MAR'', 3), (''APR'', 4), (''MAY'', 5), (''JUN'', 6),
     (''JUL'', 7), (''AUG'', 8), (''SEP'', 9), (''OCT'', 10), (''NOV'', 11), (''DEC'', 12)]"

definition DOW_NAMES :: "(string \<times> int) list" where
  "DOW_NAMES = [(''SUN'', 0), (''MON'', 1), (''TUE'', 2), (''WED'', 3), (''THU'', 4), (''FRI'', 5), (''SAT'', 6)]"

definition CRON_SECOND :: cron_spec where
  "CRON_SECOND = \<lparr>sp_min = 0, sp_max = 59, sp_names = [], sp_question = False\<rparr>"

definition CRON_MINUTE :: cron_spec where
  "CRON_MINUTE = \<lparr>sp_min = 0, sp_max = 59, sp_names = [], sp_question = False\<rparr>"

definition CRON_HOUR :: cron_spec where
  "CRON_HOUR = \<lparr>sp_min = 0, sp_max = 23, sp_names = [], sp_question = False\<rparr>"

definition CRON_DOM :: cron_spec where
  "CRON_DOM = \<lparr>sp_min = 1, sp_max = 31, sp_names = [], sp_question = True\<rparr>"

definition CRON_MONTH :: cron_spec where
  "CRON_MONTH = \<lparr>sp_min = 1, sp_max = 12, sp_names = MONTH_NAMES, sp_question = False\<rparr>"

definition CRON_DOW :: cron_spec where
  "CRON_DOW = \<lparr>sp_min = 0, sp_max = 7, sp_names = DOW_NAMES, sp_question = True\<rparr>"

lemmas cron_specs = CRON_SECOND_def CRON_MINUTE_def CRON_HOUR_def CRON_DOM_def CRON_MONTH_def CRON_DOW_def

definition parseCronValue :: "string \<Rightarrow> cron_spec \<Rightarrow> int option" where
  "parseCronValue token spec =
     (if is_digits token then Some (int (parse_nat token)) else map_of (sp_names spec) (to_upper token))"

text \<open>\<open>for (let i = from; i <= to; i += step) values.add(i)\<close>\<close>

function add_from :: "int \<Rightarrow> int \<Rightarrow> int \<Rightarrow> int list \<Rightarrow> int list" where
  "add_from i hi step vs = (if i \<le> hi \<and> 0 < step then add_from (i + step) hi step (js_add i vs) else vs)"
  by pat_completeness auto
termination
  by (relation "measure (\<lambda>(i, hi, step, vs). nat (hi + 1 - i))") auto

declare add_from.simps [simp del]

definition addRange :: "cron_spec \<Rightarrow> int \<Rightarrow> int \<Rightarrow> int \<Rightarrow> int list \<Rightarrow> cron_error + int list" where
  "addRange spec lo hi step vs =
     (if lo < sp_min spec \<or> hi > sp_max spec then Inl (RangeOutOfBounds lo hi)
      else if lo > hi then Inl (RangeReversed lo hi)
      else Inr (add_from lo hi step vs))"

definition parse_step :: "string \<Rightarrow> string option \<Rightarrow> cron_error + int" where
  "parse_step trimmed stepText =
     (case stepText of
        None \<Rightarrow> Inr 1
      | Some s \<Rightarrow>
          if \<not> is_digits s then Inl (InvalidToken trimmed)
          else if parse_nat s = 0 then Inl (InvalidStep (parse_nat s))
          else Inr (int (parse_nat s)))"

text \<open>One comma-separated part the special callback did not take.\<close>

definition parse_plain_part :: "cron_spec \<Rightarrow> string \<Rightarrow> int list \<Rightarrow> cron_error + int list" where
  "parse_plain_part spec trimmed vs =
     (let slash = split_on CHR ''/'' trimmed in
      if length slash > 2 \<or> [] \<in> set slash then Inl (InvalidToken trimmed)
      else let rangeText = slash ! 0; stepText = (if length slash = 2 then Some (slash ! 1) else None) in
      andThen (parse_step trimmed stepText) (\<lambda>step.
      if rangeText = ''*'' then addRange spec (sp_min spec) (sp_max spec) step vs
      else let dash = split_on CHR ''-'' rangeText in
      if length dash > 2 \<or> [] \<in> set dash then Inl (InvalidToken trimmed)
      else (case parseCronValue (dash ! 0) spec of
          None \<Rightarrow> Inl (InvalidToken trimmed)
        | Some lo \<Rightarrow>
            if length dash = 2 then
              (case parseCronValue (dash ! 1) spec of
                 None \<Rightarrow> Inl (InvalidToken trimmed)
               | Some hi \<Rightarrow> addRange spec lo hi step vs)
            else if stepText \<noteq> None then addRange spec lo (sp_max spec) step vs
            else if lo < sp_min spec \<or> lo > sp_max spec then Inl (ValueOutOfBounds lo)
            else Inr (js_add lo vs))))"

text \<open>
  The callback \<open>special\<close> updates the day modifiers \<open>'m\<close> and tells whether it took the token; the
  fields without modifiers pass one that takes nothing.
\<close>

type_synonym 'm special = "string \<Rightarrow> 'm \<Rightarrow> cron_error + bool \<times> 'm"

definition no_special :: "'m special" where
  "no_special token m = Inr (False, m)"

definition parse_part :: "cron_spec \<Rightarrow> 'm special \<Rightarrow> string \<Rightarrow> int list \<times> 'm \<Rightarrow> cron_error + int list \<times> 'm" where
  "parse_part spec special part st =
     (let trimmed = trim part in
      if trimmed = ''*'' \<or> (sp_question spec \<and> trimmed = ''?'') then
        andThen (addRange spec (sp_min spec) (sp_max spec) 1 (fst st)) (\<lambda>vs. Inr (vs, snd st))
      else andThen (special trimmed (snd st)) (\<lambda>(taken, m).
        if taken then Inr (fst st, m)
        else andThen (parse_plain_part spec trimmed (fst st)) (\<lambda>vs. Inr (vs, m))))"

definition parseCronField :: "string \<Rightarrow> cron_spec \<Rightarrow> 'm special \<Rightarrow> 'm \<Rightarrow> cron_error + cron_field \<times> 'm" where
  "parseCronField field spec special m =
     andThen (fold_res (parse_part spec special) (split_on CHR '','' field) ([], m)) (\<lambda>(vs, m').
     Inr (\<lparr>cf_set = vs, cf_sorted = sort vs\<rparr>, m'))"

section \<open>Day modifiers\<close>

record cron_mods =
  domLast :: bool
  domLastWeekday :: bool
  domNearestWeekday :: "int list"
  dowLast :: "int list"
  dowNth :: "(int \<times> int) list"

definition no_mods :: cron_mods where
  "no_mods = \<lparr>domLast = False, domLastWeekday = False, domNearestWeekday = [], dowLast = [], dowNth = []\<rparr>"

definition checkCronBound :: "int \<Rightarrow> int \<Rightarrow> int \<Rightarrow> cron_error + int" where
  "checkCronBound v lo hi = (if v < lo \<or> v > hi then Inl (ValueOutOfBounds v) else Inr v)"

definition parseDomModifier :: "cron_mods special" where
  "parseDomModifier token m =
     (let upper = to_upper token in
      if upper = ''L'' then Inr (True, m\<lparr>domLast := True\<rparr>)
      else if upper = ''LW'' then Inr (True, m\<lparr>domLastWeekday := True\<rparr>)
      else if upper \<noteq> [] \<and> last upper = CHR ''W'' \<and> is_digits (butlast upper) then
        andThen (checkCronBound (int (parse_nat (butlast upper))) (sp_min CRON_DOM) (sp_max CRON_DOM)) (\<lambda>n.
        Inr (True, m\<lparr>domNearestWeekday := domNearestWeekday m @ [n]\<rparr>))
      else Inr (False, m))"

text \<open>
  The regular expression \<open>^(.+)#(\d+)$\<close> is greedy: the text before and after the last \<open>#\<close>.
\<close>

definition split_last_hash :: "string \<Rightarrow> (string \<times> string) option" where
  "split_last_hash s =
     (let after = rev (takeWhile (\<lambda>c. c \<noteq> CHR ''#'') (rev s));
          rest = rev (dropWhile (\<lambda>c. c \<noteq> CHR ''#'') (rev s))
      in if rest = [] then None else Some (butlast rest, after))"

definition parseDowModifier :: "cron_mods special" where
  "parseDowModifier token m =
     (if length token \<ge> 2 \<and> (last token = CHR ''L'' \<or> last token = CHR ''l'') then
        (case parseCronValue (butlast token) CRON_DOW of
           None \<Rightarrow> Inr (False, m)
         | Some dow \<Rightarrow>
             andThen (checkCronBound dow (sp_min CRON_DOW) (sp_max CRON_DOW)) (\<lambda>d.
             Inr (True, m\<lparr>dowLast := js_add (d mod 7) (dowLast m)\<rparr>)))
      else (case split_last_hash token of
          None \<Rightarrow> Inr (False, m)
        | Some (a, b) \<Rightarrow>
            if a = [] \<or> \<not> is_digits b then Inr (False, m)
            else (case parseCronValue a CRON_DOW of
                None \<Rightarrow> Inr (False, m)
              | Some dow \<Rightarrow>
                  andThen (checkCronBound dow (sp_min CRON_DOW) (sp_max CRON_DOW)) (\<lambda>d.
                  andThen (checkCronBound (int (parse_nat b)) 1 5) (\<lambda>n.
                  Inr (True, m\<lparr>dowNth := dowNth m @ [(d mod 7, n)]\<rparr>))))))"

section \<open>Patterns\<close>

record cron_pattern = cron_mods +
  p_second :: cron_field
  p_minute :: cron_field
  p_hour :: cron_field
  p_dom :: cron_field
  p_month :: cron_field
  p_dow :: cron_field
  hasSeconds :: bool
  wildcardTime :: bool
  domUnrestricted :: bool
  dowUnrestricted :: bool

text \<open>Fold a second Sunday, 7, onto 0.\<close>

definition fold_sunday :: "cron_field \<Rightarrow> cron_field" where
  "fold_sunday f =
     (if 7 \<in> set (cf_set f)
      then let vs = js_add 0 (removeAll 7 (cf_set f)) in \<lparr>cf_set = vs, cf_sorted = sort vs\<rparr>
      else f)"

definition plain_field :: "string \<Rightarrow> cron_spec \<Rightarrow> cron_error + cron_field" where
  "plain_field text spec = andThen (parseCronField text spec no_special ()) (\<lambda>(f, u). Inr f)"

definition parse_fields :: "bool \<Rightarrow> string list \<Rightarrow> cron_error + cron_pattern" where
  "parse_fields six fs =
     (let secondText = fs ! 0; minuteText = fs ! 1; hourText = fs ! 2;
          domText = fs ! 3; monthText = fs ! 4; dowText = fs ! 5 in
      andThen (parseCronField domText CRON_DOM parseDomModifier no_mods) (\<lambda>(domF, m1).
      andThen (parseCronField dowText CRON_DOW parseDowModifier m1) (\<lambda>(dowF0, m2).
      let dowF = fold_sunday dowF0 in
      andThen (plain_field secondText CRON_SECOND) (\<lambda>secondF.
      andThen (plain_field minuteText CRON_MINUTE) (\<lambda>minuteF.
      andThen (plain_field hourText CRON_HOUR) (\<lambda>hourF.
      andThen (plain_field monthText CRON_MONTH) (\<lambda>monthF.
      Inr \<lparr>domLast = domLast m2, domLastWeekday = domLastWeekday m2,
           domNearestWeekday = domNearestWeekday m2, dowLast = dowLast m2, dowNth = dowNth m2,
           p_second = secondF, p_minute = minuteF, p_hour = hourF,
           p_dom = domF, p_month = monthF, p_dow = dowF,
           hasSeconds = six,
           wildcardTime = (CHR ''*'' \<in> set minuteText \<or> CHR ''*'' \<in> set hourText),
           domUnrestricted = (length (cf_set domF) = 31),
           dowUnrestricted = (length (cf_set dowF) = 7 \<and>
             (CHR ''*'' \<in> set dowText \<or> CHR ''?'' \<in> set dowText))\<rparr>)))))))"

definition parseCronPattern :: "string \<Rightarrow> cron_error + cron_pattern" where
  "parseCronPattern pattern =
     (let fields = split_space (trim pattern) in
      if length fields \<noteq> 5 \<and> length fields \<noteq> 6 then Inl (WrongFieldCount (length fields))
      else let six = (length fields = 6) in
           parse_fields six (if six then fields else ''0'' # fields))"

section \<open>What a parsed pattern guarantees\<close>

definition field_wf :: "cron_spec \<Rightarrow> cron_field \<Rightarrow> bool" where
  "field_wf spec f \<longleftrightarrow> cf_set f \<noteq> [] \<and> distinct (cf_set f) \<and> cf_sorted f = sort (cf_set f) \<and>
     (\<forall>v \<in> set (cf_set f). sp_min spec \<le> v \<and> v \<le> sp_max spec)"

definition pattern_wf :: "cron_pattern \<Rightarrow> bool" where
  "pattern_wf c \<longleftrightarrow> field_wf CRON_SECOND (p_second c) \<and> field_wf CRON_MINUTE (p_minute c) \<and>
     field_wf CRON_HOUR (p_hour c) \<and> field_wf CRON_MONTH (p_month c)"

lemma set_add_from:
  "0 < step \<Longrightarrow> set (add_from i hi step vs) = set vs \<union> {i + k * step | k. 0 \<le> k \<and> i + k * step \<le> hi}"
proof (induction i hi step vs rule: add_from.induct)
  case (1 i hi step vs)
  show ?case
  proof (cases "i \<le> hi")
    case True
    have "{i + k * step | k. 0 \<le> k \<and> i + k * step \<le> hi}
        = insert i {i + step + k * step | k. 0 \<le> k \<and> i + step + k * step \<le> hi}" (is "?A = insert i ?B")
    proof (intro equalityI subsetI)
      fix x assume "x \<in> ?A"
      then obtain k where k: "x = i + k * step" "0 \<le> k" "x \<le> hi" by auto
      show "x \<in> insert i ?B"
      proof (cases "k = 0")
        case False
        then have "x = i + step + (k - 1) * step" "0 \<le> k - 1" using k by (auto simp: algebra_simps)
        then show ?thesis using k by blast
      qed (simp add: k)
    next
      fix x assume "x \<in> insert i ?B"
      then consider "x = i" | k where "x = i + step + k * step" "0 \<le> k" "x \<le> hi" by auto
      then show "x \<in> ?A"
      proof cases
        case 1
        then show ?thesis using True by (auto intro: exI [of _ 0])
      next
        case 2
        then have "x = i + (k + 1) * step" by (simp add: algebra_simps)
        then show ?thesis using 2 by (auto intro!: exI [of _ "k + 1"])
      qed
    qed
    then show ?thesis using 1 True by (simp add: add_from.simps [of i])
  next
    case False
    have "\<not> i + k * step \<le> hi" if "0 \<le> k" for k
      using False mult_nonneg_nonneg [OF that, of step] 1 by linarith
    then show ?thesis using False by (auto simp: add_from.simps [of i])
  qed
qed

lemma distinct_add_from: "distinct (add_from i hi step vs) = distinct vs"
proof (induction i hi step vs rule: add_from.induct)
  case (1 i hi step vs)
  then show ?case by (cases "i \<le> hi \<and> 0 < step") (auto simp: add_from.simps [of i])
qed

definition values_ok :: "cron_spec \<Rightarrow> int list \<Rightarrow> bool" where
  "values_ok spec vs \<longleftrightarrow> distinct vs \<and> (\<forall>v \<in> set vs. sp_min spec \<le> v \<and> v \<le> sp_max spec)"

lemma addRange_ok:
  assumes "addRange spec lo hi step vs = Inr ws" and "values_ok spec vs" and "0 < step"
  shows "values_ok spec ws \<and> ws \<noteq> []"
proof -
  have b: "sp_min spec \<le> lo" "hi \<le> sp_max spec" "lo \<le> hi" and ws: "ws = add_from lo hi step vs"
    using assms(1) by (auto simp: addRange_def split: if_splits)
  have s: "set ws = set vs \<union> {lo + k * step | k. 0 \<le> k \<and> lo + k * step \<le> hi}"
    unfolding ws by (rule set_add_from [OF assms(3)])
  have lo: "lo \<in> set ws" unfolding s using b(3) by (auto intro: exI [of _ 0])
  have "sp_min spec \<le> lo + k * step" if "0 \<le> k" for k
    using b(1) mult_nonneg_nonneg [OF that, of step] assms(3) by linarith
  with s b assms(2) lo show ?thesis
    by (auto simp: values_ok_def ws distinct_add_from)
qed

lemma parse_step_pos: "parse_step t s = Inr step \<Longrightarrow> 0 < step"
  by (auto simp: parse_step_def split: option.splits if_splits)

lemma parse_plain_part_ok:
  assumes "parse_plain_part spec t vs = Inr ws" and "values_ok spec vs"
  shows "values_ok spec ws \<and> ws \<noteq> []"
proof -
  have add: "values_ok spec (js_add v vs) \<and> js_add v vs \<noteq> []"
    if "sp_min spec \<le> v" "v \<le> sp_max spec" for v
    using that assms(2) by (auto simp: values_ok_def js_add_def)
  show ?thesis
    using assms(1) add
    by (auto simp: parse_plain_part_def Let_def andThen_Inr_iff
        dest!: addRange_ok [OF _ assms(2)] parse_step_pos
        split: if_splits option.splits)
qed

lemma parse_part_ok:
  assumes "parse_part spec sp part (vs, m) = Inr (ws, m')" and "values_ok spec vs"
  shows "values_ok spec ws \<and> (ws \<noteq> [] \<or> (ws = vs \<and> (\<exists>t. sp t m = Inr (True, m'))))"
  using assms
  by (auto simp: parse_part_def Let_def andThen_Inr_iff
      dest: addRange_ok parse_plain_part_ok split: if_splits)

lemma parse_parts_ok:
  assumes "fold_res (parse_part spec sp) parts (vs, m) = Inr (ws, m')" and "values_ok spec vs"
  shows "values_ok spec ws"
proof -
  have "values_ok spec (fst (ws, m'))"
    using assms(1)
    by (rule fold_res_invariant) (use assms(2) in \<open>auto dest: parse_part_ok\<close>)
  then show ?thesis by simp
qed

lemma parse_part_plain_nonempty:
  assumes "parse_part spec no_special part (vs, m) = Inr (ws, m')" and "values_ok spec vs"
  shows "values_ok spec ws \<and> ws \<noteq> []"
  using parse_part_ok [OF assms] by (auto simp: no_special_def)

lemma parse_parts_plain:
  assumes "fold_res (parse_part spec no_special) parts (vs, m) = Inr (ws, m')"
    and "values_ok spec vs" and "parts \<noteq> [] \<or> vs \<noteq> []"
  shows "values_ok spec ws \<and> ws \<noteq> []"
  using assms
proof (induction parts arbitrary: vs m)
  case (Cons p ps)
  from Cons.prems(1) obtain us m1 where p: "parse_part spec no_special p (vs, m) = Inr (us, m1)"
    and rest: "fold_res (parse_part spec no_special) ps (us, m1) = Inr (ws, m')"
    by (auto simp: andThen_Inr_iff)
  from parse_part_plain_nonempty [OF p Cons.prems(2)] Cons.IH [OF rest] show ?case by blast
qed simp

lemma plain_field_wf: "plain_field text spec = Inr f \<Longrightarrow> field_wf spec f"
  by (auto simp: plain_field_def parseCronField_def andThen_Inr_iff field_wf_def
      dest!: parse_parts_plain) (simp_all add: values_ok_def)

lemma parse_fields_wf: "parse_fields six fs = Inr c \<Longrightarrow> pattern_wf c"
  by (auto simp: parse_fields_def Let_def andThen_Inr_iff pattern_wf_def intro: plain_field_wf)

lemma parseCronPattern_wf: "parseCronPattern p = Inr c \<Longrightarrow> pattern_wf c"
  by (auto simp: parseCronPattern_def Let_def intro: parse_fields_wf split: if_splits)

end
