(* ===== verification/Cron_Search.thy ===== *)
theory Cron_Search
  imports Cron_Pattern Calendar
begin

text \<open>
  Matching a wall clock time against a parsed pattern and the field-by-field walk of
  \<open>searchCronWall\<close> (\<open>src/utils.ts\<close>), with the UTC search on top. The walk is one step function
  per loop iteration and a loop bounded by the source's year horizon and step guard.
\<close>

section \<open>Day rules\<close>

definition nearestWeekday :: "int \<Rightarrow> int \<Rightarrow> int \<Rightarrow> int" where
  "nearestWeekday n dowOfN monthLength =
     (if 1 \<le> dowOfN \<and> dowOfN \<le> 5 then n
      else if dowOfN = 6 then (if n > 1 then n - 1 else n + 2)
      else (if n < monthLength then n + 1 else n - 2))"

definition cronDomMatches :: "cron_pattern \<Rightarrow> int \<Rightarrow> int \<Rightarrow> int \<Rightarrow> bool" where
  "cronDomMatches cron d dow monthLength =
     (if d \<in> set (cf_set (p_dom cron)) then True
      else if domLast cron \<and> d = monthLength then True
      else let dowOf = (\<lambda>n. (dow + n - d) mod 7) in
        if domLastWeekday cron \<and> d = nearestWeekday monthLength (dowOf monthLength) monthLength then True
        else list_ex (\<lambda>n. n \<le> monthLength \<and> nearestWeekday n (dowOf n) monthLength = d)
               (domNearestWeekday cron))"

definition cronDowMatches :: "cron_pattern \<Rightarrow> int \<Rightarrow> int \<Rightarrow> int \<Rightarrow> bool" where
  "cronDowMatches cron d dow monthLength =
     (if dow \<in> set (cf_set (p_dow cron)) then True
      else if dow \<in> set (dowLast cron) \<and> d + 7 > monthLength then True
      else let nth = (d + 6) div 7 in list_ex (\<lambda>(dd, n). dd = dow \<and> n = nth) (dowNth cron))"

definition cronDayMatches :: "cron_pattern \<Rightarrow> int \<Rightarrow> int \<Rightarrow> int \<Rightarrow> bool" where
  "cronDayMatches cron d dow monthLength =
     (let domMatch = cronDomMatches cron d dow monthLength;
          dowMatch = cronDowMatches cron d dow monthLength in
      if \<not> domUnrestricted cron \<and> \<not> dowUnrestricted cron then domMatch \<or> dowMatch
      else domMatch \<and> dowMatch)"

definition day_ok :: "cron_pattern \<Rightarrow> int \<Rightarrow> int \<Rightarrow> int \<Rightarrow> bool" where
  "day_ok cron y m d = cronDayMatches cron d (day_of_week y m d) (daysInMonth y m)"

definition cronWallMatches :: "cron_pattern \<Rightarrow> wall \<Rightarrow> bool" where
  "cronWallMatches cron w \<longleftrightarrow>
     month w \<in> set (cf_set (p_month cron)) \<and>
     day_ok cron (year w) (month w) (day w) \<and>
     hour w \<in> set (cf_set (p_hour cron)) \<and>
     minute w \<in> set (cf_set (p_minute cron)) \<and>
     second w \<in> set (cf_set (p_second cron))"

section \<open>The walk\<close>

definition MAX_SEARCH_YEARS :: int where "MAX_SEARCH_YEARS = 10"
definition MAX_SEARCH_STEPS :: int where "MAX_SEARCH_STEPS = 200000"

definition next_value :: "cron_field \<Rightarrow> int \<Rightarrow> int option" where
  "next_value f v = List.find (\<lambda>x. v < x) (cf_sorted f)"

definition mk_wall :: "int \<Rightarrow> int \<Rightarrow> int \<Rightarrow> int \<Rightarrow> int \<Rightarrow> int \<Rightarrow> wall" where
  "mk_wall y mo d h mi s = \<lparr>year = y, month = mo, day = d, hour = h, minute = mi, second = s\<rparr>"

text \<open>
  One iteration: \<open>Inl w\<close> is \<open>continue\<close> with the updated variables, \<open>Inr w\<close> a time that matches
  and is handed to \<open>resolve\<close>.
\<close>

definition cron_step :: "cron_pattern \<Rightarrow> wall \<Rightarrow> wall + wall" where
  "cron_step cron w =
     (let y = year w; mo = month w; d = day w; h = hour w; mi = minute w; s = second w in
      if mo \<notin> set (cf_set (p_month cron)) then
        (case next_value (p_month cron) mo of
           Some mo' \<Rightarrow> Inl (mk_wall y mo' 1 0 0 0)
         | None \<Rightarrow> Inl (mk_wall (y + 1) (hd (cf_sorted (p_month cron))) 1 0 0 0))
      else if d > daysInMonth y mo then
        (if mo + 1 > 12 then Inl (mk_wall (y + 1) 1 1 0 0 0) else Inl (mk_wall y (mo + 1) 1 0 0 0))
      else if \<not> day_ok cron y mo d then Inl (mk_wall y mo (d + 1) 0 0 0)
      else if h \<notin> set (cf_set (p_hour cron)) then
        (case next_value (p_hour cron) h of
           Some h' \<Rightarrow> Inl (mk_wall y mo d h' 0 0)
         | None \<Rightarrow> Inl (mk_wall y mo (d + 1) 0 0 0))
      else if mi \<notin> set (cf_set (p_minute cron)) then
        (case next_value (p_minute cron) mi of
           Some mi' \<Rightarrow> Inl (mk_wall y mo d h mi' 0)
         | None \<Rightarrow> Inl (mk_wall y mo d (h + 1) 0 0))
      else if s \<notin> set (cf_set (p_second cron)) then
        (case next_value (p_second cron) s of
           Some s' \<Rightarrow> Inr (mk_wall y mo d h mi s')
         | None \<Rightarrow> Inl (mk_wall y mo d h (mi + 1) 0))
      else Inr w)"

function search_loop ::
  "cron_pattern \<Rightarrow> string \<Rightarrow> (wall \<Rightarrow> 'i option) \<Rightarrow> int \<Rightarrow> int \<Rightarrow> wall \<Rightarrow> cron_error + 'i"
where
  "search_loop cron pattern resolve endYear steps w =
     (if year w \<le> endYear \<and> steps < MAX_SEARCH_STEPS then
        (case cron_step cron w of
           Inl w' \<Rightarrow> search_loop cron pattern resolve endYear (steps + 1) w'
         | Inr w' \<Rightarrow>
             (case resolve w' of
                Some i \<Rightarrow> Inr i
              | None \<Rightarrow> search_loop cron pattern resolve endYear (steps + 1) (wallPlusOneSecond w')))
      else Inl (NoMatchInHorizon pattern))"
  by pat_completeness auto
termination
  by (relation "measure (\<lambda>(_, _, _, _, steps, _). nat (MAX_SEARCH_STEPS - steps))") auto

declare search_loop.simps [simp del]

definition searchCronWall ::
  "cron_pattern \<Rightarrow> wall \<Rightarrow> string \<Rightarrow> (wall \<Rightarrow> 'i option) \<Rightarrow> cron_error + 'i"
where
  "searchCronWall cron start pattern resolve =
     search_loop cron pattern resolve (year start + MAX_SEARCH_YEARS) 0 start"

definition utc_start :: "rat \<Rightarrow> int" where
  "utc_start afterMs = \<lfloor>afterMs / 1000\<rfloor> * 1000 + 1000"

definition nextCronOccurrenceUtc :: "string \<Rightarrow> rat \<Rightarrow> cron_error + int" where
  "nextCronOccurrenceUtc pattern afterMs =
     andThen (parseCronPattern pattern) (\<lambda>cron.
     searchCronWall cron (utcToWall (utc_start afterMs)) pattern (\<lambda>w. Some (wallToNaiveUtc w)))"

section \<open>The order of wall times\<close>

definition wall_less :: "wall \<Rightarrow> wall \<Rightarrow> bool" where
  "wall_less a b \<longleftrightarrow> year a < year b \<or> (year a = year b \<and> (month a < month b \<or> (month a = month b \<and>
     (day a < day b \<or> (day a = day b \<and> (hour a < hour b \<or> (hour a = hour b \<and>
     (minute a < minute b \<or> (minute a = minute b \<and> second a < second b)))))))))"

lemma wall_less_irrefl [simp]: "\<not> wall_less a a"
  by (simp add: wall_less_def)

lemma wall_less_trans: "wall_less a b \<Longrightarrow> wall_less b c \<Longrightarrow> wall_less a c"
  unfolding wall_less_def by auto

lemma wall_less_total: "wall_less a b \<or> a = b \<or> wall_less b a"
  unfolding wall_less_def by (cases a; cases b) auto

lemma wall_not_less_trans: "\<not> wall_less b a \<Longrightarrow> \<not> wall_less c b \<Longrightarrow> \<not> wall_less c a"
  using wall_less_total wall_less_trans by blast

lemma day_number_less:
  assumes "valid_date y m d" and "valid_date y' m' d'"
    and "y < y' \<or> (y = y' \<and> (m < m' \<or> (m = m' \<and> d < d')))"
  shows "day_number y m d < day_number y' m' d'"
proof -
  consider "y < y'" | "y = y'" "m < m'" | "y = y'" "m = m'" "d < d'" using assms(3) by blast
  then show ?thesis
  proof cases
    case 1
    then show ?thesis
      using day_number_in_year [OF assms(1)] day_number_in_year [OF assms(2)] day_from_year_less [OF 1]
      by linarith
  next
    case 2
    then show ?thesis
      using days_before_less [of m m' y] assms(1,2) by (simp add: day_number_def valid_date_def)
  next
    case 3
    then show ?thesis by (simp add: day_number_def)
  qed
qed

lemma naive_less:
  assumes "valid_wall a" and "valid_wall b" and "wall_less a b"
  shows "naive a < naive b"
proof -
  let ?d = "\<lambda>w. day_number (year w) (month w) (day w)"
  have "?d a < ?d b \<or> (?d a = ?d b \<and> (hour a < hour b \<or> (hour a = hour b \<and>
     (minute a < minute b \<or> (minute a = minute b \<and> second a < second b)))))"
    using assms day_number_less [of "year a" "month a" "day a" "year b" "month b" "day b"]
    by (auto simp: wall_less_def valid_wall_def)
  then show ?thesis using assms(1,2) by (auto simp: naive_def valid_wall_def)
qed

lemma naive_less_iff:
  "valid_wall a \<Longrightarrow> valid_wall b \<Longrightarrow> naive a < naive b \<longleftrightarrow> wall_less a b"
  using naive_less wall_less_total by (metis less_asym less_irrefl)

lemma naive_mod: "naive w mod 1000 = 0"
proof -
  have "naive w = (day_number (year w) (month w) (day w) * 86400 + hour w * 3600 + minute w * 60 + second w) * 1000"
    by (simp add: naive_def)
  then show ?thesis by simp
qed

section \<open>One iteration skips nothing\<close>

text \<open>The loop variables between iterations: the carries may exceed a field by one.\<close>

definition loop_wall :: "wall \<Rightarrow> bool" where
  "loop_wall w \<longleftrightarrow> 100 \<le> year w \<and> 1 \<le> month w \<and> month w \<le> 12 \<and> 1 \<le> day w \<and> day w \<le> 32 \<and>
     0 \<le> hour w \<and> hour w \<le> 24 \<and> 0 \<le> minute w \<and> minute w \<le> 60 \<and> 0 \<le> second w \<and> second w \<le> 59"

text \<open>No time from \<open>w\<close> on and before \<open>w'\<close> matches.\<close>

definition no_match_between :: "cron_pattern \<Rightarrow> wall \<Rightarrow> wall \<Rightarrow> bool" where
  "no_match_between cron w w' \<longleftrightarrow>
     (\<forall>v. valid_wall v \<and> \<not> wall_less v w \<and> wall_less v w' \<longrightarrow> \<not> cronWallMatches cron v)"

lemma no_match_between_refl: "no_match_between cron w w"
  by (simp add: no_match_between_def)

lemma no_match_between_trans:
  "no_match_between cron a b \<Longrightarrow> no_match_between cron b c \<Longrightarrow> no_match_between cron a c"
  unfolding no_match_between_def by blast

lemma next_value_Some:
  assumes "field_wf spec f" and "next_value f v = Some x"
  shows "x \<in> set (cf_set f)" and "v < x" and "\<forall>y \<in> set (cf_set f). v < y \<longrightarrow> x \<le> y"
proof -
  have "sorted (cf_sorted f)" "set (cf_sorted f) = set (cf_set f)"
    using assms(1) by (auto simp: field_wf_def)
  then show "x \<in> set (cf_set f)" and "v < x" and "\<forall>y \<in> set (cf_set f). v < y \<longrightarrow> x \<le> y"
    using find_greater_sorted [of "cf_sorted f" v x] assms(2) by (auto simp: next_value_def)
qed

lemma next_value_None:
  assumes "field_wf spec f" and "next_value f v = None"
  shows "\<forall>y \<in> set (cf_set f). y \<le> v"
  using assms by (auto simp: next_value_def find_greater_None field_wf_def not_less)

lemma hd_sorted_field:
  assumes "field_wf spec f"
  shows "hd (cf_sorted f) \<in> set (cf_set f)" and "\<forall>y \<in> set (cf_set f). hd (cf_sorted f) \<le> y"
proof -
  have s: "sorted (cf_sorted f)" "set (cf_sorted f) = set (cf_set f)" "cf_sorted f \<noteq> []"
    using assms by (auto simp: field_wf_def) (metis set_empty set_sort)
  then show "hd (cf_sorted f) \<in> set (cf_set f)" by (metis hd_in_set)
  show "\<forall>y \<in> set (cf_set f). hd (cf_sorted f) \<le> y"
    unfolding s(2) [symmetric] using s(1,3) by (cases "cf_sorted f") auto
qed

lemma field_bounds: "field_wf spec f \<Longrightarrow> v \<in> set (cf_set f) \<Longrightarrow> sp_min spec \<le> v \<and> v \<le> sp_max spec"
  by (simp add: field_wf_def)

lemmas wall_fields = mk_wall_def wall.select_convs

lemma mk_wall_sel [simp]:
  "year (mk_wall y mo d h mi s) = y" "month (mk_wall y mo d h mi s) = mo" "day (mk_wall y mo d h mi s) = d"
  "hour (mk_wall y mo d h mi s) = h" "minute (mk_wall y mo d h mi s) = mi" "second (mk_wall y mo d h mi s) = s"
  by (simp_all add: mk_wall_def)

text \<open>The six ways an iteration moves on, each with what it rules out.\<close>

lemma step_month:
  assumes "pattern_wf cron" and "loop_wall w" and "month w \<notin> set (cf_set (p_month cron))"
    and "cron_step cron w = Inl w'"
  shows "loop_wall w' \<and> wall_less w w' \<and> no_match_between cron w w'"
proof (cases "next_value (p_month cron) (month w)")
  case (Some m)
  have f: "field_wf CRON_MONTH (p_month cron)" using assms(1) by (simp add: pattern_wf_def)
  note nv = next_value_Some [OF f Some]
  have w': "w' = mk_wall (year w) m 1 0 0 0" using assms(3,4) Some by (simp add: cron_step_def)
  have "m \<le> 12" using field_bounds [OF f nv(1)] by (simp add: CRON_MONTH_def)
  moreover have "no_match_between cron w w'"
    unfolding no_match_between_def
  proof (intro allI impI notI)
    fix v assume v: "valid_wall v \<and> \<not> wall_less v w \<and> wall_less v w'" and "cronWallMatches cron v"
    then have mv: "month v \<in> set (cf_set (p_month cron))" by (simp add: cronWallMatches_def)
    then have "month v \<noteq> month w" using assms(3) by auto
    then have "year v = year w" "month w < month v" "month v < m"
      using v by (auto simp: w' wall_less_def valid_wall_def valid_date_def)
    then show False using nv(3) mv by auto
  qed
  ultimately show ?thesis using assms(2) nv(2) by (simp add: w' loop_wall_def wall_less_def)
next
  case None
  have f: "field_wf CRON_MONTH (p_month cron)" using assms(1) by (simp add: pattern_wf_def)
  let ?m = "hd (cf_sorted (p_month cron))"
  have w': "w' = mk_wall (year w + 1) ?m 1 0 0 0" using assms(3,4) None by (simp add: cron_step_def)
  have "1 \<le> ?m" "?m \<le> 12" using field_bounds [OF f hd_sorted_field(1) [OF f]] by (simp_all add: CRON_MONTH_def)
  moreover have "no_match_between cron w w'"
    unfolding no_match_between_def
  proof (intro allI impI notI)
    fix v assume v: "valid_wall v \<and> \<not> wall_less v w \<and> wall_less v w'" and "cronWallMatches cron v"
    then have mv: "month v \<in> set (cf_set (p_month cron))" by (simp add: cronWallMatches_def)
    then have ne: "month v \<noteq> month w" and ge: "?m \<le> month v"
      using assms(3) hd_sorted_field(2) [OF f] by auto
    have le: "month v \<le> month w" using next_value_None [OF f None] mv by auto
    have "year v \<le> year w"
      using v ge by (auto simp: w' wall_less_def valid_wall_def valid_date_def)
    then show False using v ne le by (auto simp: wall_less_def)
  qed
  ultimately show ?thesis using assms(2) by (simp add: w' loop_wall_def wall_less_def)
qed

lemma valid_wall_day_le: "valid_wall v \<Longrightarrow> 100 \<le> year v \<Longrightarrow> day v \<le> daysInMonth (year v) (month v)"
  by (simp add: valid_wall_def valid_date_def daysInMonth_eq)

lemma step_long_day:
  assumes "loop_wall w" and "month w \<in> set (cf_set (p_month cron))"
    and "day w > daysInMonth (year w) (month w)" and "cron_step cron w = Inl w'"
  shows "loop_wall w' \<and> wall_less w w' \<and> no_match_between cron w w'"
proof -
  have w': "w' = (if month w = 12 then mk_wall (year w + 1) 1 1 0 0 0 else mk_wall (year w) (month w + 1) 1 0 0 0)"
    using assms by (auto simp: cron_step_def loop_wall_def split: if_splits)
  have "no_match_between cron w w'"
    unfolding no_match_between_def
  proof (intro allI impI notI)
    fix v assume v: "valid_wall v \<and> \<not> wall_less v w \<and> wall_less v w'"
    then have "year v = year w" "month v = month w" "day w \<le> day v"
      using assms(1) by (auto simp: w' wall_less_def valid_wall_def valid_date_def loop_wall_def split: if_splits)
    moreover have "day v \<le> daysInMonth (year v) (month v)"
      using v valid_wall_day_le [of v] assms(1) \<open>year v = year w\<close> by (simp add: loop_wall_def)
    ultimately show False using assms(3) by simp
  qed
  then show ?thesis using assms(1) by (auto simp: w' loop_wall_def wall_less_def)
qed

lemma daysInMonth_le: "loop_wall w \<Longrightarrow> daysInMonth (year w) (month w) \<le> 31"
  using month_length_bounds by (simp add: loop_wall_def daysInMonth_eq)

text \<open>Moving to the next day is right when nothing later on this day matches.\<close>

lemma next_day:
  assumes "loop_wall w" and "day w \<le> daysInMonth (year w) (month w)"
    and "w' = mk_wall (year w) (month w) (day w + 1) 0 0 0"
    and "\<And>v. valid_wall v \<Longrightarrow> cronWallMatches cron v \<Longrightarrow> \<not> wall_less v w \<Longrightarrow>
      year v = year w \<Longrightarrow> month v = month w \<Longrightarrow> day v = day w \<Longrightarrow> False"
  shows "loop_wall w' \<and> wall_less w w' \<and> no_match_between cron w w'"
proof -
  have "no_match_between cron w w'"
    unfolding no_match_between_def
  proof (intro allI impI notI)
    fix v assume v: "valid_wall v \<and> \<not> wall_less v w \<and> wall_less v w'" and m: "cronWallMatches cron v"
    then have "year v = year w" "month v = month w" "day v = day w"
      by (auto simp: assms(3) wall_less_def valid_wall_def valid_date_def)
    with assms(4) v m show False by blast
  qed
  then show ?thesis
    using assms(1-3) daysInMonth_le [OF assms(1)] by (auto simp: loop_wall_def wall_less_def)
qed

lemma step_day:
  assumes "loop_wall w" and "month w \<in> set (cf_set (p_month cron))"
    and "\<not> day w > daysInMonth (year w) (month w)" and "\<not> day_ok cron (year w) (month w) (day w)"
    and "cron_step cron w = Inl w'"
  shows "loop_wall w' \<and> wall_less w w' \<and> no_match_between cron w w'"
proof (rule next_day)
  show "w' = mk_wall (year w) (month w) (day w + 1) 0 0 0" using assms by (simp add: cron_step_def)
qed (use assms in \<open>auto simp: cronWallMatches_def\<close>)

text \<open>The state in which the hour is looked at: month and day are right.\<close>

definition on_day :: "cron_pattern \<Rightarrow> wall \<Rightarrow> bool" where
  "on_day cron w \<longleftrightarrow> month w \<in> set (cf_set (p_month cron)) \<and>
     day w \<le> daysInMonth (year w) (month w) \<and> day_ok cron (year w) (month w) (day w)"

lemma step_hour:
  assumes "pattern_wf cron" and "loop_wall w" and "on_day cron w"
    and "hour w \<notin> set (cf_set (p_hour cron))" and "cron_step cron w = Inl w'"
  shows "loop_wall w' \<and> wall_less w w' \<and> no_match_between cron w w'"
proof -
  have f: "field_wf CRON_HOUR (p_hour cron)" using assms(1) by (simp add: pattern_wf_def)
  show ?thesis
  proof (cases "next_value (p_hour cron) (hour w)")
    case (Some h)
    note nv = next_value_Some [OF f Some]
    have w': "w' = mk_wall (year w) (month w) (day w) h 0 0"
      using assms(3-5) Some by (simp add: cron_step_def on_day_def)
    have "h \<le> 23" using field_bounds [OF f nv(1)] by (simp add: CRON_HOUR_def)
    moreover have "no_match_between cron w w'"
      unfolding no_match_between_def
    proof (intro allI impI notI)
      fix v assume v: "valid_wall v \<and> \<not> wall_less v w \<and> wall_less v w'" and "cronWallMatches cron v"
      then have hv: "hour v \<in> set (cf_set (p_hour cron))" by (simp add: cronWallMatches_def)
      then have "hour v \<noteq> hour w" using assms(4) by auto
      then have "hour w < hour v" "hour v < h"
        using v by (auto simp: w' wall_less_def valid_wall_def valid_date_def)
      then show False using nv(3) hv by auto
    qed
    ultimately show ?thesis using assms(2) nv(2) by (simp add: w' loop_wall_def wall_less_def)
  next
    case None
    show ?thesis
    proof (rule next_day)
      show "w' = mk_wall (year w) (month w) (day w + 1) 0 0 0"
        using assms(3-5) None by (simp add: cron_step_def on_day_def)
    next
      fix v assume "valid_wall v" and m: "cronWallMatches cron v" and nl: "\<not> wall_less v w"
        and e: "year v = year w" "month v = month w" "day v = day w"
      have "hour v \<in> set (cf_set (p_hour cron))" using m by (simp add: cronWallMatches_def)
      then have "hour v \<le> hour w" "hour v \<noteq> hour w" using next_value_None [OF f None] assms(4) by auto
      then show False using nl e by (auto simp: wall_less_def)
    qed (use assms in \<open>auto simp: on_day_def\<close>)
  qed
qed

lemma step_minute:
  assumes "pattern_wf cron" and "loop_wall w" and "on_day cron w"
    and "hour w \<in> set (cf_set (p_hour cron))" and "minute w \<notin> set (cf_set (p_minute cron))"
    and "cron_step cron w = Inl w'"
  shows "loop_wall w' \<and> wall_less w w' \<and> no_match_between cron w w'"
proof -
  have f: "field_wf CRON_MINUTE (p_minute cron)" and fh: "field_wf CRON_HOUR (p_hour cron)"
    using assms(1) by (simp_all add: pattern_wf_def)
  have h: "hour w \<le> 23" using field_bounds [OF fh assms(4)] by (simp add: CRON_HOUR_def)
  show ?thesis
  proof (cases "next_value (p_minute cron) (minute w)")
    case (Some m)
    note nv = next_value_Some [OF f Some]
    have w': "w' = mk_wall (year w) (month w) (day w) (hour w) m 0"
      using assms(3-6) Some by (simp add: cron_step_def on_day_def)
    have "m \<le> 59" using field_bounds [OF f nv(1)] by (simp add: CRON_MINUTE_def)
    moreover have "no_match_between cron w w'"
      unfolding no_match_between_def
    proof (intro allI impI notI)
      fix v assume v: "valid_wall v \<and> \<not> wall_less v w \<and> wall_less v w'" and "cronWallMatches cron v"
      then have mv: "minute v \<in> set (cf_set (p_minute cron))" by (simp add: cronWallMatches_def)
      then have "minute v \<noteq> minute w" using assms(5) by auto
      then have "minute w < minute v" "minute v < m"
        using v by (auto simp: w' wall_less_def valid_wall_def valid_date_def)
      then show False using nv(3) mv by auto
    qed
    ultimately show ?thesis using assms(2) nv(2) by (simp add: w' loop_wall_def wall_less_def)
  next
    case None
    have w': "w' = mk_wall (year w) (month w) (day w) (hour w + 1) 0 0"
      using assms(3-6) None by (simp add: cron_step_def on_day_def)
    have "no_match_between cron w w'"
      unfolding no_match_between_def
    proof (intro allI impI notI)
      fix v assume v: "valid_wall v \<and> \<not> wall_less v w \<and> wall_less v w'" and "cronWallMatches cron v"
      then have "minute v \<in> set (cf_set (p_minute cron))" by (simp add: cronWallMatches_def)
      then have "minute v \<le> minute w" "minute v \<noteq> minute w" using next_value_None [OF f None] assms(5) by auto
      then show False using v by (auto simp: w' wall_less_def valid_wall_def)
    qed
    then show ?thesis using assms(2) h by (simp add: w' loop_wall_def wall_less_def)
  qed
qed

lemma step_second:
  assumes "pattern_wf cron" and "loop_wall w" and "on_day cron w"
    and "hour w \<in> set (cf_set (p_hour cron))" and "minute w \<in> set (cf_set (p_minute cron))"
    and "cron_step cron w = Inl w'"
  shows "loop_wall w' \<and> wall_less w w' \<and> no_match_between cron w w'"
proof -
  have f: "field_wf CRON_SECOND (p_second cron)" and fm: "field_wf CRON_MINUTE (p_minute cron)"
    using assms(1) by (simp_all add: pattern_wf_def)
  have mi: "minute w \<le> 59" using field_bounds [OF fm assms(5)] by (simp add: CRON_MINUTE_def)
  have s: "second w \<notin> set (cf_set (p_second cron))" and None: "next_value (p_second cron) (second w) = None"
    and w': "w' = mk_wall (year w) (month w) (day w) (hour w) (minute w + 1) 0"
    using assms(3-6) by (auto simp: cron_step_def on_day_def Let_def split: if_splits option.splits)
  have "no_match_between cron w w'"
    unfolding no_match_between_def
  proof (intro allI impI notI)
    fix v assume v: "valid_wall v \<and> \<not> wall_less v w \<and> wall_less v w'" and "cronWallMatches cron v"
    then have "second v \<in> set (cf_set (p_second cron))" by (simp add: cronWallMatches_def)
    then have "second v \<le> second w" "second v \<noteq> second w" using next_value_None [OF f None] s by auto
    then show False using v by (auto simp: w' wall_less_def valid_wall_def)
  qed
  then show ?thesis using assms(2) mi by (simp add: w' loop_wall_def wall_less_def)
qed

lemma cron_step_Inl:
  assumes "pattern_wf cron" and "loop_wall w" and "cron_step cron w = Inl w'"
  shows "loop_wall w' \<and> wall_less w w' \<and> no_match_between cron w w'"
proof -
  consider "month w \<notin> set (cf_set (p_month cron))"
    | "month w \<in> set (cf_set (p_month cron))" "day w > daysInMonth (year w) (month w)"
    | "month w \<in> set (cf_set (p_month cron))" "\<not> day w > daysInMonth (year w) (month w)"
      "\<not> day_ok cron (year w) (month w) (day w)"
    | "on_day cron w" "hour w \<notin> set (cf_set (p_hour cron))"
    | "on_day cron w" "hour w \<in> set (cf_set (p_hour cron))" "minute w \<notin> set (cf_set (p_minute cron))"
    | "on_day cron w" "hour w \<in> set (cf_set (p_hour cron))" "minute w \<in> set (cf_set (p_minute cron))"
    unfolding on_day_def by force
  then show ?thesis
  proof cases
    case 1
    show ?thesis by (rule step_month [OF assms(1,2) 1 assms(3)])
  next
    case 2
    show ?thesis by (rule step_long_day [OF assms(2) 2 assms(3)])
  next
    case 3
    show ?thesis by (rule step_day [OF assms(2) 3 assms(3)])
  next
    case 4
    show ?thesis by (rule step_hour [OF assms(1,2) 4 assms(3)])
  next
    case 5
    show ?thesis by (rule step_minute [OF assms(1,2) 5 assms(3)])
  next
    case 6
    show ?thesis by (rule step_second [OF assms(1,2) 6 assms(3)])
  qed
qed

lemma cron_step_Inr:
  assumes "pattern_wf cron" and "loop_wall w" and "cron_step cron w = Inr w'"
  shows "valid_wall w' \<and> year w' = year w \<and> cronWallMatches cron w' \<and> \<not> wall_less w' w \<and> no_match_between cron w w'"
proof -
  have d: "month w \<in> set (cf_set (p_month cron))" "\<not> day w > daysInMonth (year w) (month w)"
    "day_ok cron (year w) (month w) (day w)"
    "hour w \<in> set (cf_set (p_hour cron))" "minute w \<in> set (cf_set (p_minute cron))"
    and w': "w' = w \<and> second w \<in> set (cf_set (p_second cron)) \<or>
      (\<exists>s. second w \<notin> set (cf_set (p_second cron)) \<and> next_value (p_second cron) (second w) = Some s \<and>
           w' = mk_wall (year w) (month w) (day w) (hour w) (minute w) s)"
    using assms(3) by (auto simp: cron_step_def Let_def split: if_splits option.splits)
  have f: "field_wf CRON_SECOND (p_second cron)" and fm: "field_wf CRON_MINUTE (p_minute cron)"
    and fh: "field_wf CRON_HOUR (p_hour cron)"
    using assms(1) by (simp_all add: pattern_wf_def)
  have b: "hour w \<le> 23" "minute w \<le> 59"
    using field_bounds [OF fh d(4)] field_bounds [OF fm d(5)] by (simp_all add: cron_specs)
  have date: "valid_date (year w) (month w) (day w)"
    using assms(2) d(2) by (simp add: loop_wall_def valid_date_def daysInMonth_eq)
  from w' show ?thesis
  proof
    assume "w' = w \<and> second w \<in> set (cf_set (p_second cron))"
    then show ?thesis
      using d b date assms(2) by (auto simp: valid_wall_def cronWallMatches_def loop_wall_def no_match_between_refl)
  next
    assume "\<exists>s. second w \<notin> set (cf_set (p_second cron)) \<and> next_value (p_second cron) (second w) = Some s \<and>
           w' = mk_wall (year w) (month w) (day w) (hour w) (minute w) s"
    then obtain s where ns: "second w \<notin> set (cf_set (p_second cron))"
      and Some: "next_value (p_second cron) (second w) = Some s"
      and w': "w' = mk_wall (year w) (month w) (day w) (hour w) (minute w) s" by blast
    note nv = next_value_Some [OF f Some]
    have "s \<le> 59" using field_bounds [OF f nv(1)] by (simp add: CRON_SECOND_def)
    moreover have "no_match_between cron w w'"
      unfolding no_match_between_def
    proof (intro allI impI notI)
      fix v assume v: "valid_wall v \<and> \<not> wall_less v w \<and> wall_less v w'" and "cronWallMatches cron v"
      then have sv: "second v \<in> set (cf_set (p_second cron))" by (simp add: cronWallMatches_def)
      then have "second v \<noteq> second w" using ns by auto
      then have "second w < second v" "second v < s"
        using v by (auto simp: w' wall_less_def)
      then show False using nv(3) sv by auto
    qed
    ultimately show ?thesis
      using d b date assms(2) nv by (auto simp: w' valid_wall_def cronWallMatches_def loop_wall_def wall_less_def)
  qed
qed

section \<open>The walk stops in time\<close>

text \<open>
  A measure that every iteration decreases: six units per day slot left in the horizon (a
  month counts as 32 slots) and at most four for the carries left inside a day. It is at most
  27844 at the start, so the step guard of 200000 never cuts a search short.
\<close>

definition carries :: "cron_pattern \<Rightarrow> wall \<Rightarrow> int" where
  "carries cron w =
     (if hour w \<notin> set (cf_set (p_hour cron)) then 2
      else if second w \<noteq> 0 then 4
      else if minute w \<in> set (cf_set (p_minute cron)) then 0
      else if next_value (p_minute cron) (minute w) \<noteq> None then 1
      else 3)"

definition day_slots :: "int \<Rightarrow> wall \<Rightarrow> int" where
  "day_slots endYear w = (endYear + 1) * 384 + 416 - (year w * 384 + month w * 32 + day w)"

definition potential :: "cron_pattern \<Rightarrow> int \<Rightarrow> wall \<Rightarrow> int" where
  "potential cron endYear w = 6 * day_slots endYear w + carries cron w"

lemma carries_bounds: "0 \<le> carries cron w \<and> carries cron w \<le> 4"
  by (simp add: carries_def)

lemma next_value_from_below:
  assumes "field_wf spec f" and "\<forall>x \<in> set (cf_set f). v \<le> x" and "v \<notin> set (cf_set f)"
  shows "next_value f v \<noteq> None"
proof
  assume "next_value f v = None"
  then have "\<forall>y \<in> set (cf_set f). y \<le> v" by (rule next_value_None [OF assms(1)])
  moreover obtain y where "y \<in> set (cf_set f)" using hd_sorted_field(1) [OF assms(1)] by blast
  ultimately show False using assms(2,3) by (metis order_antisym)
qed

lemma carries_fresh_hour: "pattern_wf cron \<Longrightarrow> carries cron (mk_wall y mo d h 0 0) \<le> 2"
proof -
  assume "pattern_wf cron"
  then have f: "field_wf CRON_MINUTE (p_minute cron)" by (simp add: pattern_wf_def)
  then have "0 \<notin> set (cf_set (p_minute cron)) \<Longrightarrow> next_value (p_minute cron) 0 \<noteq> None"
    using field_bounds [OF f] by (intro next_value_from_below [OF f]) (auto simp: CRON_MINUTE_def)
  then show ?thesis by (auto simp: carries_def)
qed

lemma carries_in_hour:
  assumes "pattern_wf cron" and "h \<in> set (cf_set (p_hour cron))"
  shows "carries cron (mk_wall y mo d h 0 0) \<le> 1"
proof -
  have f: "field_wf CRON_MINUTE (p_minute cron)" using assms(1) by (simp add: pattern_wf_def)
  then have "0 \<notin> set (cf_set (p_minute cron)) \<Longrightarrow> next_value (p_minute cron) 0 \<noteq> None"
    using field_bounds [OF f] by (intro next_value_from_below [OF f]) (auto simp: CRON_MINUTE_def)
  then show ?thesis using assms(2) by (auto simp: carries_def)
qed

lemma potential_day:
  assumes "day_slots endYear w' < day_slots endYear w"
  shows "potential cron endYear w' < potential cron endYear w"
  using assms carries_bounds [of cron w] carries_bounds [of cron w'] by (simp add: potential_def)

lemma potential_time:
  assumes "day_slots endYear w' = day_slots endYear w" and "carries cron w' < carries cron w"
  shows "potential cron endYear w' < potential cron endYear w"
  using assms by (simp add: potential_def)

lemma potential_decreases:
  assumes wf: "pattern_wf cron" and lw: "loop_wall w" and step: "cron_step cron w = Inl w'"
  shows "potential cron endYear w' < potential cron endYear w"
proof -
  have next_day: ?thesis if "w' = mk_wall (year w) (month w) (day w + 1) 0 0 0"
    using that by (intro potential_day) (simp add: day_slots_def)
  have fm: "field_wf CRON_MONTH (p_month cron)" and fh: "field_wf CRON_HOUR (p_hour cron)"
    and fi: "field_wf CRON_MINUTE (p_minute cron)" and fs: "field_wf CRON_SECOND (p_second cron)"
    using wf by (simp_all add: pattern_wf_def)
  consider
    (month) m where "next_value (p_month cron) (month w) = Some m" "w' = mk_wall (year w) m 1 0 0 0"
  | (year) m where "1 \<le> m" "w' = mk_wall (year w + 1) m 1 0 0 0"
  | (long) "month w < 12" "w' = mk_wall (year w) (month w + 1) 1 0 0 0" "day w > daysInMonth (year w) (month w)"
  | (day) "w' = mk_wall (year w) (month w) (day w + 1) 0 0 0"
  | (hour) h where "hour w \<notin> set (cf_set (p_hour cron))" "h \<in> set (cf_set (p_hour cron))"
      "w' = mk_wall (year w) (month w) (day w) h 0 0"
  | (minute) m where "hour w \<in> set (cf_set (p_hour cron))" "minute w \<notin> set (cf_set (p_minute cron))"
      "next_value (p_minute cron) (minute w) = Some m" "w' = mk_wall (year w) (month w) (day w) (hour w) m 0"
  | (carry_hour) "hour w \<in> set (cf_set (p_hour cron))" "minute w \<notin> set (cf_set (p_minute cron))"
      "next_value (p_minute cron) (minute w) = None" "w' = mk_wall (year w) (month w) (day w) (hour w + 1) 0 0"
  | (carry_minute) "hour w \<in> set (cf_set (p_hour cron))" "minute w \<in> set (cf_set (p_minute cron))"
      "second w \<notin> set (cf_set (p_second cron))" "next_value (p_second cron) (second w) = None"
      "w' = mk_wall (year w) (month w) (day w) (hour w) (minute w + 1) 0"
  proof -
    have first: "1 \<le> hd (cf_sorted (p_month cron))"
      using field_bounds [OF fm hd_sorted_field(1) [OF fm]] by (simp add: CRON_MONTH_def)
    show thesis
    proof (cases "month w \<in> set (cf_set (p_month cron)) \<and> day w \<le> daysInMonth (year w) (month w)
        \<and> day_ok cron (year w) (month w) (day w)")
      case False
      then consider "month w \<notin> set (cf_set (p_month cron))"
        | "month w \<in> set (cf_set (p_month cron))" "day w > daysInMonth (year w) (month w)"
        | "month w \<in> set (cf_set (p_month cron))" "\<not> day w > daysInMonth (year w) (month w)"
          "\<not> day_ok cron (year w) (month w) (day w)" by force
      then show thesis
        using step lw first
        by cases (auto simp: cron_step_def Let_def loop_wall_def split: if_splits option.splits intro: month year long day)
    next
      case True
      then have step': "(if hour w \<notin> set (cf_set (p_hour cron)) then
        (case next_value (p_hour cron) (hour w) of
           Some h' \<Rightarrow> Inl (mk_wall (year w) (month w) (day w) h' 0 0)
         | None \<Rightarrow> Inl (mk_wall (year w) (month w) (day w + 1) 0 0 0))
      else if minute w \<notin> set (cf_set (p_minute cron)) then
        (case next_value (p_minute cron) (minute w) of
           Some mi' \<Rightarrow> Inl (mk_wall (year w) (month w) (day w) (hour w) mi' 0)
         | None \<Rightarrow> Inl (mk_wall (year w) (month w) (day w) (hour w + 1) 0 0))
      else if second w \<notin> set (cf_set (p_second cron)) then
        (case next_value (p_second cron) (second w) of
           Some s' \<Rightarrow> Inr (mk_wall (year w) (month w) (day w) (hour w) (minute w) s')
         | None \<Rightarrow> Inl (mk_wall (year w) (month w) (day w) (hour w) (minute w + 1) 0))
      else Inr w) = (Inl w' :: wall + wall)"
        using step by (simp add: cron_step_def Let_def)
      show thesis
      proof (cases "hour w \<in> set (cf_set (p_hour cron))")
        case False
        show thesis
        proof (cases "next_value (p_hour cron) (hour w)")
          case None
          then show thesis using step' False day by simp
        next
          case (Some h)
          then show thesis using step' False hour [of h] next_value_Some(1) [OF fh Some] by simp
        qed
      next
        case True
        then show thesis
          using step' minute carry_hour carry_minute by (auto split: if_splits option.splits)
      qed
    qed
  qed
  then show ?thesis
  proof cases
    case month
    then have "month w < m" using next_value_Some(2) [OF fm] by blast
    then show ?thesis using month lw by (intro potential_day) (simp add: day_slots_def loop_wall_def)
  next
    case year
    then show ?thesis using lw by (intro potential_day) (simp add: day_slots_def loop_wall_def)
  next
    case long
    then show ?thesis using lw by (intro potential_day) (simp add: day_slots_def loop_wall_def)
  next
    case day
    then show ?thesis by (rule next_day)
  next
    case hour
    have "carries cron w = 2" using hour by (simp add: carries_def)
    then show ?thesis
      using hour carries_in_hour [OF wf hour(2), of "year w" "month w" "day w"]
      by (intro potential_time) (simp_all add: day_slots_def)
  next
    case minute
    have "m \<in> set (cf_set (p_minute cron))" using next_value_Some(1) [OF fi minute(3)] .
    then show ?thesis
      using minute by (intro potential_time) (simp_all add: day_slots_def carries_def)
  next
    case carry_hour
    have "3 \<le> carries cron w" using carry_hour by (simp add: carries_def)
    then show ?thesis
      using carry_hour carries_fresh_hour [OF wf, of "year w" "month w" "day w" "hour w + 1"]
      by (intro potential_time) (simp_all add: day_slots_def)
  next
    case carry_minute
    have "second w \<noteq> 0"
    proof
      assume "second w = 0"
      then have "next_value (p_second cron) (second w) \<noteq> None"
        using carry_minute field_bounds [OF fs]
        by (intro next_value_from_below [OF fs]) (auto simp: CRON_SECOND_def)
      then show False using carry_minute by simp
    qed
    then have "carries cron w = 4" using carry_minute by (simp add: carries_def)
    then show ?thesis
      using carry_minute by (intro potential_time) (simp_all add: day_slots_def carries_def)
  qed
qed

lemma potential_pos:
  assumes "loop_wall w" and "year w \<le> endYear"
  shows "1 \<le> potential cron endYear w"
  using assms carries_bounds [of cron w] by (simp add: potential_def day_slots_def loop_wall_def)

lemma potential_start:
  assumes "loop_wall w"
  shows "potential cron (year w + MAX_SEARCH_YEARS) w \<le> 27844"
  using assms carries_bounds [of cron w]
  by (simp add: potential_def day_slots_def loop_wall_def MAX_SEARCH_YEARS_def)

section \<open>The search finds the next match\<close>

lemma search_loop_finds:
  assumes "pattern_wf cron" and "loop_wall w" and "year w \<le> endYear + 1"
    and "steps + potential cron endYear w \<le> MAX_SEARCH_STEPS"
  shows "(\<exists>w'. search_loop cron pattern (\<lambda>v. Some (f v)) endYear steps w = Inr (f w') \<and>
             valid_wall w' \<and> 100 \<le> year w' \<and> cronWallMatches cron w' \<and> \<not> wall_less w' w \<and>
             no_match_between cron w w')
       \<or> (search_loop cron pattern (\<lambda>v. Some (f v)) endYear steps w = Inl (NoMatchInHorizon pattern) \<and>
          (\<forall>v. valid_wall v \<and> \<not> wall_less v w \<and> year v \<le> endYear \<longrightarrow> \<not> cronWallMatches cron v))"
  using assms
proof (induction cron pattern "\<lambda>v. Some (f v)" endYear steps w rule: search_loop.induct)
  case (1 cron pattern endYear steps w)
  show ?case
  proof (cases "year w \<le> endYear")
    case False
    then have "\<forall>v. valid_wall v \<and> \<not> wall_less v w \<and> year v \<le> endYear \<longrightarrow> \<not> cronWallMatches cron v"
      by (auto simp: wall_less_def)
    then show ?thesis using False by (simp add: search_loop.simps [of _ _ _ _ _ w])
  next
    case True
    then have bound: "year w \<le> endYear \<and> steps < MAX_SEARCH_STEPS"
      using "1.prems" potential_pos [of w endYear cron] by simp
    show ?thesis
    proof (cases "cron_step cron w")
      case (Inr w')
      then have "search_loop cron pattern (\<lambda>v. Some (f v)) endYear steps w = Inr (f w')"
        using bound by (simp add: search_loop.simps [of _ _ _ _ _ w])
      moreover have "100 \<le> year w" using "1.prems"(2) by (simp add: loop_wall_def)
      ultimately show ?thesis using cron_step_Inr [OF "1.prems"(1,2) Inr] by auto
    next
      case (Inl w')
      note st = cron_step_Inl [OF "1.prems"(1,2) Inl]
      note pot = potential_decreases [OF "1.prems"(1,2) Inl, of endYear]
      have eq: "search_loop cron pattern (\<lambda>v. Some (f v)) endYear steps w
          = search_loop cron pattern (\<lambda>v. Some (f v)) endYear (steps + 1) w'"
        using bound Inl by (simp add: search_loop.simps [of _ _ _ _ _ w])
      have "year w' \<le> endYear + 1"
        using True Inl by (auto simp: cron_step_def Let_def split: if_splits option.splits)
      then have IH: "(\<exists>w''. search_loop cron pattern (\<lambda>v. Some (f v)) endYear (steps + 1) w' = Inr (f w'') \<and>
             valid_wall w'' \<and> 100 \<le> year w'' \<and> cronWallMatches cron w'' \<and> \<not> wall_less w'' w' \<and>
             no_match_between cron w' w'')
         \<or> (search_loop cron pattern (\<lambda>v. Some (f v)) endYear (steps + 1) w' = Inl (NoMatchInHorizon pattern) \<and>
          (\<forall>v. valid_wall v \<and> \<not> wall_less v w' \<and> year v \<le> endYear \<longrightarrow> \<not> cronWallMatches cron v))"
        using "1.hyps"(1) [OF bound Inl "1.prems"(1)] st pot "1.prems"(4) by simp
      have nl: "\<not> wall_less v w" if "\<not> wall_less v w'" for v
        using that st wall_less_trans by blast
      from IH show ?thesis
      proof
        assume "\<exists>w''. search_loop cron pattern (\<lambda>v. Some (f v)) endYear (steps + 1) w' = Inr (f w'') \<and>
             valid_wall w'' \<and> 100 \<le> year w'' \<and> cronWallMatches cron w'' \<and> \<not> wall_less w'' w' \<and>
             no_match_between cron w' w''"
        then show ?thesis unfolding eq using nl st no_match_between_trans by blast
      next
        assume "search_loop cron pattern (\<lambda>v. Some (f v)) endYear (steps + 1) w' = Inl (NoMatchInHorizon pattern) \<and>
          (\<forall>v. valid_wall v \<and> \<not> wall_less v w' \<and> year v \<le> endYear \<longrightarrow> \<not> cronWallMatches cron v)"
        then show ?thesis unfolding eq using st unfolding no_match_between_def by blast
      qed
    qed
  qed
qed

lemma utc_year_ge_100: "0 \<le> ms \<Longrightarrow> 100 \<le> utc_year ms"
proof (rule ccontr)
  assume "0 \<le> ms" and "\<not> 100 \<le> utc_year ms"
  then have "utc_year ms + 1 \<le> 100" by simp
  then have "day_from_year (utc_year ms + 1) \<le> day_from_year 100"
    using day_from_year_mono [of "utc_year ms + 1" 100] by simp
  moreover have "ms div 86400000 < day_from_year (utc_year ms + 1)"
    using year_from_day_bounds [of "ms div 86400000"] by (simp add: utc_year_def day_from_year_Suc)
  moreover have "day_from_year 100 < 0" by (simp add: day_from_year_def)
  moreover have "0 \<le> ms div 86400000" using \<open>0 \<le> ms\<close> by simp
  ultimately show False by linarith
qed

lemma utc_start_bounds:
  shows "afterMs < of_int (utc_start afterMs)" and "utc_start afterMs mod 1000 = 0"
  and "0 \<le> afterMs \<Longrightarrow> 0 \<le> utc_start afterMs"
  and "u mod 1000 = 0 \<Longrightarrow> afterMs < of_int u \<Longrightarrow> utc_start afterMs \<le> u"
proof -
  have f: "afterMs / 1000 < of_int \<lfloor>afterMs / 1000\<rfloor> + 1" by linarith
  then show "afterMs < of_int (utc_start afterMs)" by (simp add: utc_start_def field_simps)
  show "utc_start afterMs mod 1000 = 0" by (simp add: utc_start_def)
  show "0 \<le> utc_start afterMs" if "0 \<le> afterMs"
    using that by (simp add: utc_start_def)
  show "utc_start afterMs \<le> u" if u: "u mod 1000 = 0" "afterMs < of_int u"
  proof -
    obtain k where k: "u = 1000 * k" using u(1) by (meson dvd_def mod_0_imp_dvd)
    have "afterMs / 1000 < of_int k" using u(2) by (simp add: k field_simps)
    then have "\<lfloor>afterMs / 1000\<rfloor> < k" by (simp add: floor_less_iff)
    then show ?thesis by (simp add: k utc_start_def)
  qed
qed

lemma utcToWall_less:
  assumes "wall_less (utcToWall a) (utcToWall b)"
  shows "a - a mod 1000 < b - b mod 1000"
  using naive_less [OF valid_utcToWall valid_utcToWall assms] by (simp add: naive_utcToWall)

lemma not_wall_less_utc:
  assumes "a \<le> b" and "a mod 1000 = 0"
  shows "\<not> wall_less (utcToWall b) (utcToWall a)"
  using utcToWall_less [of b a] assms by (auto simp: minus_mod_eq_div_mult)

lemma year_utcToWall [simp]: "year (utcToWall ms) = utc_year ms"
  by (simp add: utcToWall_def)

text \<open>
  C1: \<open>nextCronOccurrenceUtc\<close> returns the first whole second strictly after \<open>afterMs\<close> whose UTC
  wall clock matches the pattern; it fails only with \<open>NoMatchInHorizon\<close>, and then nothing
  matches up to the end of the tenth year after the search start (so the step guard of 200000
  iterations never cuts a search short).
\<close>

theorem nextCronOccurrenceUtc_first:
  assumes "parseCronPattern pattern = Inr cron" and "0 \<le> afterMs"
  shows "case nextCronOccurrenceUtc pattern afterMs of
      Inr t \<Rightarrow> afterMs < of_int t \<and> t mod 1000 = 0 \<and> cronWallMatches cron (utcToWall t) \<and>
        (\<forall>u. afterMs < of_int u \<and> u < t \<and> u mod 1000 = 0 \<longrightarrow> \<not> cronWallMatches cron (utcToWall u))
    | Inl e \<Rightarrow> e = NoMatchInHorizon pattern \<and>
        (\<forall>u. afterMs < of_int u \<and> u mod 1000 = 0 \<and> utc_year u \<le> utc_year (utc_start afterMs) + 10
           \<longrightarrow> \<not> cronWallMatches cron (utcToWall u))"
proof -
  let ?s = "utc_start afterMs" and ?w = "utcToWall (utc_start afterMs)"
  note sb = utc_start_bounds [where afterMs = afterMs]
  have wf: "pattern_wf cron" by (rule parseCronPattern_wf [OF assms(1)])
  have lw: "loop_wall ?w"
    using valid_utcToWall [of ?s] utc_year_ge_100 [OF sb(3) [OF assms(2)]] month_length_bounds [of "year ?w" "month ?w"]
    by (auto simp: loop_wall_def valid_wall_def valid_date_def)
  have run: "nextCronOccurrenceUtc pattern afterMs =
      search_loop cron pattern (\<lambda>w. Some (wallToNaiveUtc w)) (year ?w + MAX_SEARCH_YEARS) 0 ?w"
    using assms(1) by (simp add: nextCronOccurrenceUtc_def searchCronWall_def andThen_def)
  have fuel: "0 + potential cron (year ?w + MAX_SEARCH_YEARS) ?w \<le> MAX_SEARCH_STEPS"
    using potential_start [OF lw, of cron] by (simp add: MAX_SEARCH_STEPS_def)
  have later: "\<not> wall_less (utcToWall u) ?w" if "afterMs < of_int u" "u mod 1000 = 0" for u
    using not_wall_less_utc [OF sb(4) [OF that(2,1)] sb(2)] .
  have "year ?w \<le> year ?w + MAX_SEARCH_YEARS + 1" by (simp add: MAX_SEARCH_YEARS_def)
  from search_loop_finds [OF wf lw this fuel, of pattern wallToNaiveUtc] show ?thesis
  proof
    assume "\<exists>w'. search_loop cron pattern (\<lambda>v. Some (wallToNaiveUtc v)) (year ?w + MAX_SEARCH_YEARS) 0 ?w = Inr (wallToNaiveUtc w') \<and>
      valid_wall w' \<and> 100 \<le> year w' \<and> cronWallMatches cron w' \<and> \<not> wall_less w' ?w \<and> no_match_between cron ?w w'"
    then obtain w' where w': "nextCronOccurrenceUtc pattern afterMs = Inr (naive w')"
      "valid_wall w'" "cronWallMatches cron w'" "\<not> wall_less w' ?w" "no_match_between cron ?w w'"
      by (auto simp: run wallToNaiveUtc_naive)
    have "?s \<le> naive w'"
      using naive_less_iff [OF w'(2) valid_utcToWall, of ?s] w'(4) sb(2) by (simp add: naive_utcToWall)
    then have "afterMs < of_int (naive w')" using sb(1) by (meson less_le_trans of_int_le_iff)
    moreover have "naive w' mod 1000 = 0" by (rule naive_mod)
    moreover have "\<not> cronWallMatches cron (utcToWall u)"
      if "afterMs < of_int u" "u < naive w'" "u mod 1000 = 0" for u
    proof -
      have "wall_less (utcToWall u) w'"
        using naive_less_iff [OF valid_utcToWall w'(2), of u] that by (simp add: naive_utcToWall)
      then show ?thesis
        using w'(5) later [OF that(1,3)] valid_utcToWall unfolding no_match_between_def by blast
    qed
    ultimately show ?thesis using w'(1-3) by (simp add: utcToWall_naive)
  next
    assume "search_loop cron pattern (\<lambda>v. Some (wallToNaiveUtc v)) (year ?w + MAX_SEARCH_YEARS) 0 ?w = Inl (NoMatchInHorizon pattern) \<and>
      (\<forall>v. valid_wall v \<and> \<not> wall_less v ?w \<and> year v \<le> year ?w + MAX_SEARCH_YEARS \<longrightarrow> \<not> cronWallMatches cron v)"
    then show ?thesis using later valid_utcToWall by (simp add: run MAX_SEARCH_YEARS_def)
  qed
qed

text \<open>\<open>0 9 * * 1\<close> after Thursday 1 January 1970 fires on Monday the 5th at nine.\<close>

theorem nextCronOccurrenceUtc_first_witness:
  "\<not> (\<exists>u. 0 < u \<and> u < 378000000 \<and> u mod 1000 = 0 \<and>
      cronWallMatches (case parseCronPattern ''0 9 * * 1'' of Inr c \<Rightarrow> c) (utcToWall u))"
proof -
  obtain c where c: "parseCronPattern ''0 9 * * 1'' = Inr c"
    by (cases "parseCronPattern ''0 9 * * 1''") (simp_all, code_simp)
  have "nextCronOccurrenceUtc ''0 9 * * 1'' 0 = Inr 378000000" by code_simp
  then show ?thesis using nextCronOccurrenceUtc_first [OF c, of 0] by (auto simp: c)
qed

end
