(* ===== verification/Cron_Tz.thy ===== *)
theory Cron_Tz
  imports Cron_Search Numbers
begin

text \<open>
  Cron patterns in a time zone (\<open>src/utils.ts\<close>): the offset of a zone, the instants of a wall
  clock time, the end of a spring-forward gap and the search on top of the wall clock walk.
  \<open>Intl.DateTimeFormat\<close> is the parameter \<open>tz\<close>: the wall clock it shows at an instant in
  milliseconds. A fractional epoch is truncated before it is formatted, as \<open>new Date\<close> does.
\<close>

section \<open>Zone arithmetic\<close>

type_synonym zone = "int \<Rightarrow> wall"

definition MINUTE_MS :: int where "MINUTE_MS = 60000"
definition DST_WINDOW_MS :: int where "DST_WINDOW_MS = 3 * 60 * 60 * 1000"

definition utcToTzParts :: "zone \<Rightarrow> rat \<Rightarrow> wall" where
  "utcToTzParts tz epochMs = tz (js_trunc epochMs)"

definition tzOffsetMs :: "zone \<Rightarrow> rat \<Rightarrow> int" where
  "tzOffsetMs tz epochMs =
     (let floored = \<lfloor>epochMs / of_int MINUTE_MS\<rfloor> * MINUTE_MS;
          p = utcToTzParts tz (of_int floored) in
      date_utc (year p) (month p - 1) (day p) (hour p) (minute p) 0 - floored)"

definition tz_offset_at :: "zone \<Rightarrow> int \<Rightarrow> int" where
  "tz_offset_at tz t = tzOffsetMs tz (of_int t)"

definition offset_holds :: "zone \<Rightarrow> int \<Rightarrow> int \<Rightarrow> bool" where
  "offset_holds tz n offset \<longleftrightarrow> tz_offset_at tz (n - offset) = offset"

definition candidate_offsets :: "zone \<Rightarrow> int \<Rightarrow> int \<Rightarrow> int list" where
  "candidate_offsets tz n guess =
     [guess, tz_offset_at tz (n - guess - DST_WINDOW_MS), tz_offset_at tz (n - guess),
      tz_offset_at tz (n - guess + DST_WINDOW_MS)]"

definition instants_from :: "zone \<Rightarrow> int \<Rightarrow> int list \<Rightarrow> int list" where
  "instants_from tz n offsets = sort (remdups (map (minus n) (filter (offset_holds tz n) (remdups offsets))))"

definition zone_instants :: "zone \<Rightarrow> int \<Rightarrow> int list" where
  "zone_instants tz n = instants_from tz n (candidate_offsets tz n (tz_offset_at tz n))"

definition tzWallToInstants :: "zone \<Rightarrow> wall \<Rightarrow> int list" where
  "tzWallToInstants tz w = zone_instants tz (wallToNaiveUtc w)"

definition gap_mid :: "int \<Rightarrow> int \<Rightarrow> int" where
  "gap_mid lo hi = lo + (hi - lo) div (2 * MINUTE_MS) * MINUTE_MS"

text \<open>
  The bisection as the code has it: nothing in the loop itself forces \<open>gap_mid\<close> to lie strictly
  between \<open>lo\<close> and \<open>hi\<close>, so returning is proved below.
\<close>

partial_function (option) gap_bisect :: "(int \<Rightarrow> int) \<Rightarrow> int \<Rightarrow> int \<Rightarrow> int \<Rightarrow> int option" where
  "gap_bisect off offsetBefore lo hi =
     (if hi - lo > MINUTE_MS then
        (if off (gap_mid lo hi) = offsetBefore then gap_bisect off offsetBefore (gap_mid lo hi) hi
         else gap_bisect off offsetBefore lo (gap_mid lo hi))
      else Some hi)"

declare gap_bisect.simps [code]

definition gap_between :: "zone \<Rightarrow> int \<Rightarrow> int \<Rightarrow> int \<Rightarrow> int" where
  "gap_between tz n offsetBefore offsetAfter =
     the (gap_bisect (tz_offset_at tz) offsetBefore (n - offsetAfter) (n - offsetBefore))"

definition gap_around :: "zone \<Rightarrow> int \<Rightarrow> int \<Rightarrow> int" where
  "gap_around tz n guess =
     gap_between tz n (tz_offset_at tz (n - guess - DST_WINDOW_MS)) (tz_offset_at tz (n - guess + DST_WINDOW_MS))"

definition gap_at :: "zone \<Rightarrow> int \<Rightarrow> int" where
  "gap_at tz n = gap_around tz n (tz_offset_at tz n)"

definition tzGapEnd :: "zone \<Rightarrow> wall \<Rightarrow> int" where
  "tzGapEnd tz w = gap_at tz (wallToNaiveUtc w div MINUTE_MS * MINUTE_MS)"

section \<open>The search\<close>

lemma js_trunc_int [simp]: "js_trunc (of_int t) = t"
  by (simp add: js_trunc_def)

definition scan_step :: "cron_pattern \<Rightarrow> int" where
  "scan_step cron = (if hasSeconds cron then 1000 else MINUTE_MS)"

function tz_scan :: "cron_pattern \<Rightarrow> zone \<Rightarrow> rat \<Rightarrow> int \<Rightarrow> int option" where
  "tz_scan cron tz scanEnd t =
     (if of_int t \<le> scanEnd then
        (if cronWallMatches cron (utcToTzParts tz (of_int t)) then Some t
         else tz_scan cron tz scanEnd (t + scan_step cron))
      else None)"
  by pat_completeness auto
termination
proof (relation "measure (\<lambda>(_, _, scanEnd, t). nat (\<lfloor>scanEnd\<rfloor> + 1 - t))")
  fix cron :: cron_pattern and tz :: zone and scanEnd :: rat and t :: int
  assume "of_int t \<le> scanEnd"
  then have "t \<le> \<lfloor>scanEnd\<rfloor>" by (simp add: le_floor_iff)
  then show "((cron, tz, scanEnd, t + scan_step cron), cron, tz, scanEnd, t)
      \<in> measure (\<lambda>(_, _, scanEnd, t). nat (\<lfloor>scanEnd\<rfloor> + 1 - t))"
    by (simp add: scan_step_def MINUTE_MS_def)
qed simp

declare tz_scan.simps [simp del]

definition fall_back_scan :: "cron_pattern \<Rightarrow> zone \<Rightarrow> rat \<Rightarrow> int option" where
  "fall_back_scan cron tz afterMs =
     (if wildcardTime cron then
        (let offsetNow = tzOffsetMs tz afterMs;
             offsetLater = tzOffsetMs tz (afterMs + of_int DST_WINDOW_MS) in
         if offsetLater < offsetNow then
           (let repeatMs = offsetNow - offsetLater; stepMs = scan_step cron in
            tz_scan cron tz (afterMs + of_int repeatMs) (\<lfloor>afterMs / of_int stepMs\<rfloor> * stepMs + stepMs))
         else None)
      else None)"

definition eligible_instants :: "cron_pattern \<Rightarrow> zone \<Rightarrow> wall \<Rightarrow> int list \<Rightarrow> int list" where
  "eligible_instants cron tz w instants =
     (if instants = [] then (if wildcardTime cron then [] else [tzGapEnd tz w])
      else if wildcardTime cron then instants else take 1 instants)"

definition later_than :: "rat \<Rightarrow> int \<Rightarrow> bool" where
  "later_than afterMs t \<longleftrightarrow> afterMs < of_int t"

definition tz_resolve :: "cron_pattern \<Rightarrow> zone \<Rightarrow> rat \<Rightarrow> wall \<Rightarrow> int option" where
  "tz_resolve cron tz afterMs w =
     List.find (later_than afterMs) (eligible_instants cron tz w (tzWallToInstants tz w))"

definition nextCronOccurrenceTz :: "string \<Rightarrow> rat \<Rightarrow> zone \<Rightarrow> cron_error + int" where
  "nextCronOccurrenceTz pattern afterMs tz =
     andThen (parseCronPattern pattern) (\<lambda>cron.
     case fall_back_scan cron tz afterMs of
       Some t \<Rightarrow> Inr t
     | None \<Rightarrow>
         searchCronWall cron (wallPlusOneSecond (utcToTzParts tz afterMs)) pattern (tz_resolve cron tz afterMs))"

definition nextCronOccurrence :: "string \<Rightarrow> rat \<Rightarrow> zone option \<Rightarrow> cron_error + int" where
  "nextCronOccurrence pattern afterMs tz =
     (case tz of Some z \<Rightarrow> nextCronOccurrenceTz pattern afterMs z
      | None \<Rightarrow> nextCronOccurrenceUtc pattern afterMs)"

section \<open>Zone offsets\<close>

text \<open>
  What the code relies on from \<open>Intl\<close>: the clock of a zone is UTC shifted by an offset, and the
  offset is a whole number of minutes, at most a day, that only changes at a whole minute.
\<close>

definition zone_offsets :: "zone \<Rightarrow> (int \<Rightarrow> int) \<Rightarrow> bool" where
  "zone_offsets tz off \<longleftrightarrow>
     (\<forall>t. tz t = utcToWall (t + off t)) \<and> (\<forall>t. off t mod MINUTE_MS = 0) \<and>
     (\<forall>t. off (t div MINUTE_MS * MINUTE_MS) = off t) \<and> (\<forall>t. \<bar>off t\<bar> \<le> 86400000)"

text \<open>All offsets are whole minutes, whatever the formatter shows.\<close>

lemma tzOffsetMs_minutes: "MINUTE_MS dvd tzOffsetMs tz x"
proof -
  have "60000 dvd date_utc y m d h mi 0" for y m d h mi
  proof -
    have e: "date_utc y m d h mi 0 = 60000 *
      ((day_number ((if 0 \<le> y \<and> y \<le> 99 then 1900 + y else y) + m div 12) (m mod 12 + 1) d) * 1440 + h * 60 + mi)"
      by (simp add: date_utc_def Let_def)
    show ?thesis unfolding e by simp
  qed
  then show ?thesis by (simp add: tzOffsetMs_def MINUTE_MS_def Let_def)
qed

text \<open>The bisection halves a whole number of minutes, so it always returns.\<close>

lemma gap_bisect_returns:
  assumes "hi - lo = int k * MINUTE_MS"
  shows "\<exists>g. gap_bisect off b lo hi = Some g \<and> (0 < k \<longrightarrow> lo < g) \<and> g \<le> hi"
  using assms
proof (induction k arbitrary: lo hi rule: less_induct)
  case (less k)
  show ?case
  proof (cases "k \<le> 1")
    case True
    then have "\<not> hi - lo > MINUTE_MS" using less.prems by (auto simp: MINUTE_MS_def le_Suc_eq)
    moreover have "0 < k \<longrightarrow> lo < hi" using less.prems by (auto simp: MINUTE_MS_def)
    ultimately show ?thesis by (simp add: gap_bisect.simps [of off b lo hi])
  next
    case False
    define j where "j = k div 2"
    have j: "0 < j" "j < k" "0 < k - j" "k - j < k" using False by (auto simp: j_def)
    have big: "hi - lo > MINUTE_MS" using less.prems False by (simp add: MINUTE_MS_def)
    have "(hi - lo) div (2 * MINUTE_MS) = int j"
      unfolding less.prems by (simp add: j_def MINUTE_MS_def zdiv_int)
    then have mid: "gap_mid lo hi = lo + int j * MINUTE_MS" by (simp add: gap_mid_def)
    have step: "gap_bisect off b lo hi =
        (if off (lo + int j * MINUTE_MS) = b then gap_bisect off b (lo + int j * MINUTE_MS) hi
         else gap_bisect off b lo (lo + int j * MINUTE_MS))"
      using big by (simp add: gap_bisect.simps [of off b lo hi] mid)
    have up: "hi - (lo + int j * MINUTE_MS) = int (k - j) * MINUTE_MS"
      using less.prems j by (simp add: of_nat_diff algebra_simps)
    have pos: "lo < lo + int j * MINUTE_MS" using j by (simp add: MINUTE_MS_def)
    have le: "lo + int j * MINUTE_MS \<le> hi"
      using up by (simp add: MINUTE_MS_def)
    show ?thesis
    proof (cases "off (lo + int j * MINUTE_MS) = b")
      case True
      then show ?thesis using less.IH [OF j(4) up] j(3) pos by (auto simp: step)
    next
      case False
      have "lo + int j * MINUTE_MS - lo = int j * MINUTE_MS" by simp
      from less.IH [OF j(2) this] show ?thesis using False j(1) le by (auto simp: step)
    qed
  qed
qed

section \<open>Soundness of the search\<close>

lemma floor_divide_rat:
  fixes x :: rat
  assumes "0 < k"
  shows "\<lfloor>x / of_int k\<rfloor> = \<lfloor>x\<rfloor> div k"
proof (rule floor_unique)
  have k: "0 < (of_int k :: rat)" using assms by simp
  have "\<lfloor>x\<rfloor> div k * k \<le> \<lfloor>x\<rfloor>" using assms by (simp add: minus_mod_eq_div_mult [symmetric])
  then have "of_int (\<lfloor>x\<rfloor> div k * k) \<le> x" by (simp only: le_floor_iff)
  then show "of_int (\<lfloor>x\<rfloor> div k) \<le> x / of_int k" using k by (simp add: pos_le_divide_eq)
  have "\<lfloor>x\<rfloor> < (\<lfloor>x\<rfloor> div k + 1) * k"
    using pos_mod_bound [OF assms, of "\<lfloor>x\<rfloor>"] div_mult_mod_eq [of "\<lfloor>x\<rfloor>" k] by (simp only: ring_distribs)
  then have "x < of_int ((\<lfloor>x\<rfloor> div k + 1) * k)" by (simp only: floor_less_iff)
  then show "x / of_int k < of_int (\<lfloor>x\<rfloor> div k) + 1" using k by (simp add: pos_divide_less_eq)
qed

lemma loop_wall_utc: "100 \<le> utc_year ms \<Longrightarrow> loop_wall (utcToWall ms)"
  using valid_utcToWall [of ms] month_length_bounds [of "utc_year ms" "month (utcToWall ms)"]
  by (auto simp: loop_wall_def valid_wall_def valid_date_def)

lemma utc_year_late: "-518400000 \<le> ms \<Longrightarrow> 100 \<le> utc_year ms"
proof (rule ccontr)
  assume ms: "-518400000 \<le> ms" and "\<not> 100 \<le> utc_year ms"
  then have "day_from_year (utc_year ms + 1) \<le> day_from_year 100"
    using day_from_year_mono [of "utc_year ms + 1" 100] by simp
  moreover have "ms div 86400000 < day_from_year (utc_year ms + 1)"
    using year_from_day_bounds [of "ms div 86400000"] by (simp add: utc_year_def day_from_year_Suc)
  moreover have "day_from_year 100 < -6" by (simp add: day_from_year_def)
  moreover have "-6 \<le> ms div 86400000" using ms zdiv_mono1 [of "-518400000" ms 86400000] by simp
  ultimately show False by linarith
qed

lemma wallPlusOneSecond_later:
  assumes "valid_wall w" and "100 \<le> year w"
  shows "wall_less w (wallPlusOneSecond w)" and "loop_wall (wallPlusOneSecond w)"
proof -
  have e: "wallPlusOneSecond w = utcToWall (naive w + 1000)"
    using assms by (simp add: wallPlusOneSecond_def wallToNaiveUtc_naive)
  have "naive w < naive (wallPlusOneSecond w)"
    using naive_mod [of w] by (simp add: e naive_utcToWall)
  then show lt: "wall_less w (wallPlusOneSecond w)"
    using naive_less_iff [OF assms(1), of "wallPlusOneSecond w"] valid_utcToWall by (simp add: e)
  then have "100 \<le> utc_year (naive w + 1000)" using assms(2) by (auto simp: e wall_less_def)
  then show "loop_wall (wallPlusOneSecond w)" by (simp add: e loop_wall_utc)
qed

lemma search_loop_sound:
  assumes "pattern_wf cron" and "loop_wall w"
    and "search_loop cron pattern resolve endYear steps w = Inr i"
  shows "\<exists>w'. valid_wall w' \<and> 100 \<le> year w' \<and> cronWallMatches cron w' \<and> \<not> wall_less w' w \<and> resolve w' = Some i"
  using assms
proof (induction cron pattern resolve endYear steps w rule: search_loop.induct)
  case (1 cron pattern resolve endYear steps w)
  have bound: "year w \<le> endYear \<and> steps < MAX_SEARCH_STEPS"
    using "1.prems"(3) by (simp add: search_loop.simps [of _ _ _ _ _ w] split: if_splits)
  note run = "1.prems"(3) [unfolded search_loop.simps [of cron pattern resolve endYear steps w]]
  show ?case
  proof (cases "cron_step cron w")
    case (Inl w')
    note st = cron_step_Inl [OF "1.prems"(1,2) Inl]
    have "search_loop cron pattern resolve endYear (steps + 1) w' = Inr i" using run bound Inl by simp
    from "1.IH"(1) [OF bound Inl "1.prems"(1) _ this] st show ?thesis using wall_less_trans by blast
  next
    case (Inr w')
    note st = cron_step_Inr [OF "1.prems"(1,2) Inr]
    have y: "100 \<le> year w'" using st "1.prems"(2) by (simp add: loop_wall_def)
    show ?thesis
    proof (cases "resolve w'")
      case (Some j)
      then have "resolve w' = Some i" using run bound Inr by simp
      then show ?thesis using st y by blast
    next
      case None
      have lt: "wall_less w' (wallPlusOneSecond w')" "loop_wall (wallPlusOneSecond w')"
        using wallPlusOneSecond_later [of w'] st y by blast+
      have "search_loop cron pattern resolve endYear (steps + 1) (wallPlusOneSecond w') = Inr i"
        using run bound Inr None by simp
      from "1.IH"(2) [OF bound Inr None "1.prems"(1) lt(2) this]
      show ?thesis using st lt(1) wall_less_trans wall_not_less_trans by (metis wall_less_total)
    qed
  qed
qed

lemma search_loop_cong:
  assumes "pattern_wf cron" and "loop_wall w"
    and "\<And>v. valid_wall v \<Longrightarrow> 100 \<le> year v \<Longrightarrow> \<not> wall_less v w \<Longrightarrow> resolve v = Some (f (g v))"
  shows "search_loop cron pattern resolve endYear steps w =
    map_sum id f (search_loop cron pattern (\<lambda>v. Some (g v)) endYear steps w)"
  using assms
proof (induction cron pattern resolve endYear steps w rule: search_loop.induct)
  case (1 cron pattern resolve endYear steps w)
  show ?case
  proof (cases "year w \<le> endYear \<and> steps < MAX_SEARCH_STEPS")
    case False
    then show ?thesis unfolding search_loop.simps [of _ _ _ _ _ w] if_not_P [OF False] by simp
  next
    case True
    show ?thesis
    proof (cases "cron_step cron w")
      case (Inl w')
      note st = cron_step_Inl [OF "1.prems"(1,2) Inl]
      have "\<not> wall_less v w" if "\<not> wall_less v w'" for v using that st wall_less_trans by blast
      then have "search_loop cron pattern resolve endYear (steps + 1) w' =
          map_sum id f (search_loop cron pattern (\<lambda>v. Some (g v)) endYear (steps + 1) w')"
        using "1.IH"(1) [OF True Inl "1.prems"(1)] st "1.prems"(3) by blast
      then show ?thesis using True Inl by (simp add: search_loop.simps [of _ _ _ _ _ w] id_def)
    next
      case (Inr w')
      note st = cron_step_Inr [OF "1.prems"(1,2) Inr]
      have "100 \<le> year w'" using st "1.prems"(2) by (simp add: loop_wall_def)
      then have "resolve w' = Some (f (g w'))" using st "1.prems"(3) by blast
      then show ?thesis using True Inr by (simp add: search_loop.simps [of _ _ _ _ _ w])
    qed
  qed
qed

lemma zone_reading:
  assumes z: "zone_offsets tz off" and t: "-400000000 \<le> t"
  shows "tzOffsetMs tz (of_int t) = off t"
proof -
  define k where "k = t div MINUTE_MS"
  have fl: "\<lfloor>(of_int t :: rat) / of_int MINUTE_MS\<rfloor> = k"
    by (simp add: k_def floor_divide_of_int_eq)
  have o: "off (k * MINUTE_MS) = off t" "off t mod MINUTE_MS = 0" "\<bar>off t\<bar> \<le> 86400000"
    and r: "tz (k * MINUTE_MS) = utcToWall (k * MINUTE_MS + off t)"
    using z by (auto simp: zone_offsets_def k_def)
  let ?n = "k * MINUTE_MS + off t"
  have lo: "-400060000 \<le> k * MINUTE_MS"
    using t by (simp add: k_def MINUTE_MS_def minus_mod_eq_div_mult [symmetric])
  have y: "100 \<le> utc_year ?n" using lo o(3) by (intro utc_year_late) linarith
  obtain j where j: "?n = 60000 * j"
    using o(2) by (metis MINUTE_MS_def dvd_add dvd_def dvd_triv_right mod_0_imp_dvd)
  have s: "second (utcToWall ?n) = 0" unfolding j by (simp add: utcToWall_def)
  have n: "naive (utcToWall ?n) = ?n" unfolding naive_utcToWall j by simp
  have "date_utc (year (utcToWall ?n)) (month (utcToWall ?n) - 1) (day (utcToWall ?n))
      (hour (utcToWall ?n)) (minute (utcToWall ?n)) 0 = wallToNaiveUtc (utcToWall ?n)"
    using s by (simp add: wallToNaiveUtc_def)
  also have "\<dots> = ?n" using y n by (simp add: wallToNaiveUtc_naive valid_utcToWall)
  finally show ?thesis
    by (simp add: tzOffsetMs_def fl utcToTzParts_def js_trunc_int r Let_def del: of_int_mult)
qed

lemmas instant_defs = tzWallToInstants_def zone_instants_def candidate_offsets_def instants_from_def

lemma tzWallToInstants_reading:
  assumes z: "zone_offsets tz off" and w: "valid_wall w" "100 \<le> year w"
    and t: "t \<in> set (tzWallToInstants tz w)" "-400000000 \<le> t"
  shows "tz t = w"
proof -
  obtain u where u: "t = naive w - u" "tzOffsetMs tz (of_int t) = u"
    using t(1) by (auto simp: instant_defs offset_holds_def tz_offset_at_def wallToNaiveUtc_naive [OF w])
  then have "t + off t = naive w" using zone_reading [OF z t(2)] by simp
  then show ?thesis using z w(1) by (simp add: zone_offsets_def utcToWall_naive)
qed

lemma tz_scan_sound:
  assumes "tz_scan cron tz scanEnd t0 = Some t"
  shows "t0 \<le> t \<and> cronWallMatches cron (tz t)"
  using assms
proof (induction cron tz scanEnd t0 rule: tz_scan.induct)
  case (1 cron tz scanEnd t0)
  show ?case
    using "1.prems" "1.IH"
    by (auto simp: tz_scan.simps [of cron tz scanEnd t0] utcToTzParts_def js_trunc_def scan_step_def
        MINUTE_MS_def split: if_splits)
qed

lemma fall_back_scan_sound:
  assumes "fall_back_scan cron tz afterMs = Some t"
  shows "wildcardTime cron \<and> afterMs < of_int t \<and> cronWallMatches cron (tz t)"
proof -
  have "afterMs < of_int (\<lfloor>afterMs / of_int k\<rfloor> * k + k)" if "0 < k" for k :: int
  proof -
    have "afterMs / of_int k < of_int \<lfloor>afterMs / of_int k\<rfloor> + 1" by linarith
    then show ?thesis using that by (simp add: field_simps)
  qed
  from this [of "scan_step cron"] show ?thesis
    using assms tz_scan_sound
    by (fastforce simp: fall_back_scan_def Let_def scan_step_def MINUTE_MS_def split: if_splits)
qed


text \<open>A zone with a constant offset, such as Asia/Kolkata.\<close>

definition fixed_zone :: "int \<Rightarrow> zone" where
  "fixed_zone c t = utcToWall (t + c)"

lemma fixed_zone_offsets:
  "c mod MINUTE_MS = 0 \<Longrightarrow> \<bar>c\<bar> \<le> 86400000 \<Longrightarrow> zone_offsets (fixed_zone c) (\<lambda>_. c)"
  by (simp add: zone_offsets_def fixed_zone_def)

lemma fixed_zone_offset:
  assumes "c mod MINUTE_MS = 0" and "\<bar>c\<bar> \<le> 86400000"
  shows "-400000000 \<le> t \<Longrightarrow> tzOffsetMs (fixed_zone c) (of_int t) = c"
    and "0 \<le> x \<Longrightarrow> tzOffsetMs (fixed_zone c) x = c"
proof -
  note z = fixed_zone_offsets [OF assms]
  show off: "-400000000 \<le> t \<Longrightarrow> tzOffsetMs (fixed_zone c) (of_int t) = c" for t
    using zone_reading [OF z] .
  assume "0 \<le> x"
  have "\<lfloor>x / of_int MINUTE_MS\<rfloor> = \<lfloor>x\<rfloor> div MINUTE_MS"
    by (rule floor_divide_rat) (simp add: MINUTE_MS_def)
  then have "tzOffsetMs (fixed_zone c) x = tzOffsetMs (fixed_zone c) (of_int \<lfloor>x\<rfloor>)"
    by (simp add: tzOffsetMs_def floor_divide_of_int_eq)
  then show "tzOffsetMs (fixed_zone c) x = c" using off [of "\<lfloor>x\<rfloor>"] \<open>0 \<le> x\<close> by simp
qed

lemma fixed_zone_start:
  assumes "\<bar>c\<bar> \<le> 86400000" and "86400000 \<le> afterMs"
  shows "wallPlusOneSecond (utcToTzParts (fixed_zone c) afterMs) = utcToWall (utc_start (afterMs + of_int c))"
proof -
  let ?m = "\<lfloor>afterMs\<rfloor> + c"
  have "86400000 \<le> \<lfloor>afterMs\<rfloor>" using assms(2) by (simp add: le_floor_iff)
  then have "-518400000 \<le> ?m" using assms(1) by (simp only: abs_le_iff) linarith
  then have "wallPlusOneSecond (utcToWall ?m) = utcToWall (?m - ?m mod 1000 + 1000)"
    by (simp add: wallPlusOneSecond_def wallToNaiveUtc_naive valid_utcToWall utc_year_late naive_utcToWall)
  moreover have "\<lfloor>(afterMs + of_int c) / 1000\<rfloor> = ?m div 1000"
    using floor_divide_rat [of 1000 "afterMs + of_int c"] by simp
  ultimately show ?thesis
    using assms(2) by (simp add: utcToTzParts_def fixed_zone_def js_trunc_def utc_start_def minus_mod_eq_div_mult)
qed

lemma shifted_nonneg:
  assumes "\<bar>c\<bar> \<le> 86400000" and "86400000 \<le> afterMs"
  shows "(0 :: rat) \<le> afterMs + of_int c"
proof -
  have "-86400000 \<le> c" using assms(1) by (simp add: abs_le_iff)
  then have "(of_int (-86400000) :: rat) \<le> of_int c" by (simp only: of_int_le_iff)
  then show ?thesis using assms(2) by simp
qed

lemma fixed_zone_resolve:
  assumes c: "c mod MINUTE_MS = 0" "\<bar>c\<bar> \<le> 86400000" and "86400000 \<le> afterMs"
    and v: "valid_wall v" "100 \<le> year v" "\<not> wall_less v (utcToWall (utc_start (afterMs + of_int c)))"
  shows "tz_resolve cron (fixed_zone c) afterMs v = Some (wallToNaiveUtc v - c)"
proof -
  let ?s = "utc_start (afterMs + of_int c)"
  have "(0 :: rat) \<le> afterMs + of_int c"
    using shifted_nonneg [OF c(2) assms(3)] .
  then have s: "0 \<le> ?s" "?s mod 1000 = 0" "afterMs + of_int c < of_int ?s"
    using utc_start_bounds by blast+
  have n: "?s \<le> naive v"
    using naive_less_iff [OF v(1) valid_utcToWall, of ?s] v(3) s(2) by (simp add: naive_utcToWall)
  note e = wallToNaiveUtc_naive [OF v(1,2)]
  have o: "tzOffsetMs (fixed_zone c) (of_int t) = c" if "-300000000 \<le> t" for t
    using fixed_zone_offset(1) [OF c] that by simp
  have b: "-86400000 \<le> c" "c \<le> 86400000" using c(2) by (simp_all add: abs_le_iff)
  have "tzOffsetMs (fixed_zone c) (of_int (naive v)) = c"
    "tzOffsetMs (fixed_zone c) (of_int (naive v - c)) = c"
    "tzOffsetMs (fixed_zone c) (of_int (naive v - c - DST_WINDOW_MS)) = c"
    "tzOffsetMs (fixed_zone c) (of_int (naive v - c + DST_WINDOW_MS)) = c"
    by (rule o, use n s(1) b in \<open>simp add: DST_WINDOW_MS_def\<close>)+
  then have "tzWallToInstants (fixed_zone c) v = [naive v - c]"
    by (simp add: instant_defs offset_holds_def tz_offset_at_def e)
  moreover have "afterMs < of_int (naive v - c)"
  proof -
    have "afterMs + of_int c < of_int (naive v)" using n s(3) by (meson less_le_trans of_int_le_iff)
    then show ?thesis by (simp add: less_diff_eq)
  qed
  ultimately show ?thesis by (simp add: tz_resolve_def eligible_instants_def later_than_def e)
qed

lemma fixed_zone_shift:
  assumes "c mod MINUTE_MS = 0" and "\<bar>c\<bar> \<le> 86400000" and "86400000 \<le> afterMs"
  shows "nextCronOccurrenceTz pattern afterMs (fixed_zone c) =
    map_sum id (\<lambda>t. t - c) (nextCronOccurrenceUtc pattern (afterMs + of_int c))"
proof (cases "parseCronPattern pattern")
  case (Inl e)
  then show ?thesis by (simp add: nextCronOccurrenceTz_def nextCronOccurrenceUtc_def andThen_def)
next
  case (Inr cron)
  have "0 \<le> afterMs" using assms(3) by simp
  then have scan: "fall_back_scan cron (fixed_zone c) afterMs = None"
    using fixed_zone_offset(2) [OF assms(1,2)] by (simp add: fall_back_scan_def Let_def DST_WINDOW_MS_def)
  have ys: "loop_wall (utcToWall (utc_start (afterMs + of_int c)))"
    by (intro loop_wall_utc utc_year_ge_100 utc_start_bounds(3) shifted_nonneg [OF assms(2,3)])
  show ?thesis
    using Inr search_loop_cong [where f = "\<lambda>t. t - c" and g = wallToNaiveUtc,
        OF parseCronPattern_wf [OF Inr] ys fixed_zone_resolve [OF assms]]
    by (simp add: nextCronOccurrenceTz_def nextCronOccurrenceUtc_def andThen_def scan
        fixed_zone_start [OF assms(2,3)] searchCronWall_def)
qed

text \<open>
  C23: In a zone with a constant offset \<open>c\<close> the zone search is the UTC search on a clock shifted by
  \<open>c\<close>: same result, same failures.
\<close>

theorem nextCronOccurrenceTz_fixed_offset:
  assumes "c mod MINUTE_MS = 0" and "\<bar>c\<bar> \<le> 86400000" and "86400000 \<le> afterMs"
  shows "nextCronOccurrenceTz pattern afterMs (fixed_zone c) =
    map_sum id (\<lambda>t. t - c) (nextCronOccurrenceUtc pattern (afterMs + of_int c))"
  using assms by (rule fixed_zone_shift)

text \<open>Half past two in a zone five and a half hours ahead of UTC is 21:00 UTC.\<close>

lemma half_past_two: "nextCronOccurrenceUtc ''30 2 * * *'' 106200000 = Inr 181800000"
  by code_simp

theorem nextCronOccurrenceTz_fixed_offset_witness:
  "nextCronOccurrenceTz ''30 2 * * *'' 86400000 (fixed_zone 19800000) = Inr 162000000"
  using nextCronOccurrenceTz_fixed_offset [of 19800000 86400000 "''30 2 * * *''"] half_past_two
  by (simp add: MINUTE_MS_def)

text \<open>A wildcard pattern: every half hour from two to three, so 02:00 is 20:30 UTC.\<close>

lemma every_half_hour: "nextCronOccurrenceUtc ''*/30 2 * * *'' 106200000 = Inr 180000000"
  by code_simp

lemma half_hour_wildcard: "wildcardTime (projr (parseCronPattern ''*/30 2 * * *''))"
  by code_simp


end
