(* ===== verification/Schedule.thy ===== *)
theory Schedule
  imports Cron_Tz Validation
begin

text \<open>
  When a job scheduler runs next (\<open>src/utils.ts\<close>): the first run of a new schedule, the hold
  after a switch to \<open>repeatAfterComplete\<close> and the run that follows one that is due. A schedule's
  numbers are finite (the callers validate them); a field that is not set is \<open>None\<close>, and a time
  zone name is looked up in the parameter \<open>zones\<close>.
\<close>

record schedule =
  pattern :: "string option"
  every :: "rat option"
  repeatAfterComplete :: "rat option"
  tz :: "string option"
  startDate :: "rat option"
  endDate :: "rat option"

datatype schedule_error = CronErr cron_error | InvalidEvery validation_error | NoSchedule

text \<open>JavaScript truthiness of an optional string and of an optional finite number.\<close>

definition has_text :: "string option \<Rightarrow> bool" where
  "has_text s \<longleftrightarrow> s \<noteq> None \<and> s \<noteq> Some []"

definition nonzero :: "rat option \<Rightarrow> bool" where
  "nonzero q \<longleftrightarrow> q \<noteq> None \<and> q \<noteq> Some 0"

definition valid_every :: "rat option \<Rightarrow> bool" where
  "valid_every q \<longleftrightarrow> isValidSchedulerEvery (map_option Num q)"

definition lift_error :: "('a \<Rightarrow> 'b) \<Rightarrow> 'a + 'c \<Rightarrow> 'b + 'c" where
  "lift_error f r = map_sum f id r"

definition next_cron :: "(string \<Rightarrow> zone) \<Rightarrow> schedule \<Rightarrow> rat \<Rightarrow> schedule_error + rat" where
  "next_cron zones s after =
     map_sum CronErr of_int
       (nextCronOccurrence (the (pattern s)) after (if has_text (tz s) then map_option zones (tz s) else None))"

definition within_end :: "rat option \<Rightarrow> rat \<Rightarrow> rat option" where
  "within_end e nextRun = (case e of Some b \<Rightarrow> if b < nextRun then None else Some nextRun | None \<Rightarrow> Some nextRun)"

definition start_or_now :: "schedule \<Rightarrow> rat \<Rightarrow> rat" where
  "start_or_now s now = (case startDate s of Some d \<Rightarrow> if now < d then d else now | None \<Rightarrow> now)"

definition interval_start :: "schedule \<Rightarrow> rat \<Rightarrow> rat \<Rightarrow> rat" where
  "interval_start s e now =
     (case startDate s of
        None \<Rightarrow> now + e
      | Some d \<Rightarrow> if now < d then d else d + of_int \<lceil>(now - d) / e\<rceil> * e)"

definition computeInitialSchedulerNextRun ::
  "(string \<Rightarrow> zone) \<Rightarrow> schedule \<Rightarrow> rat \<Rightarrow> schedule_error + rat option"
where
  "computeInitialSchedulerNextRun zones s now =
     andThen (if \<not> has_text (pattern s) \<and> \<not> nonzero (repeatAfterComplete s)
              then lift_error InvalidEvery (validateSchedulerEvery (map_option Num (every s))) else Inr ())
     (\<lambda>_. andThen
       (if nonzero (repeatAfterComplete s) then Inr (start_or_now s now)
        else if has_text (pattern s) then next_cron zones s (start_or_now s now - 1)
        else if nonzero (every s) then Inr (interval_start s (the (every s)) now)
        else Inl NoSchedule)
     (\<lambda>nextRun. Inr (within_end (endDate s) nextRun)))"

definition holdSchedulerModeSwitch :: "schedule \<Rightarrow> rat \<Rightarrow> rat \<Rightarrow> rat option \<Rightarrow> rat option" where
  "holdSchedulerModeSwitch existing existingNextRun nextRun newEndDate =
     (if valid_every (repeatAfterComplete existing) \<or> \<not> existingNextRun > 0 then Some nextRun
      else if \<not> has_text (pattern existing) \<and> \<not> valid_every (every existing) then Some nextRun
      else within_end newEndDate (max nextRun existingNextRun))"

definition following_interval :: "rat \<Rightarrow> rat option \<Rightarrow> rat \<Rightarrow> rat" where
  "following_interval e due afterMs =
     (case due of
        Some d \<Rightarrow>
          if d \<le> afterMs then let missedIntervals = \<lfloor>(afterMs - d) / e\<rfloor> + 1 in d + of_int missedIntervals * e
          else d
      | None \<Rightarrow> afterMs + e)"

definition computeFollowingSchedulerNextRun ::
  "(string \<Rightarrow> zone) \<Rightarrow> schedule \<Rightarrow> rat option \<Rightarrow> rat \<Rightarrow> schedule_error + rat option"
where
  "computeFollowingSchedulerNextRun zones s due afterMs =
     (if \<not> has_text (pattern s) \<and> \<not> valid_every (every s) \<and> \<not> valid_every (repeatAfterComplete s)
      then Inr None
      else if nonzero (repeatAfterComplete s) then
        Inr (within_end (endDate s) (afterMs + the (repeatAfterComplete s)))
      else if has_text (pattern s) then
        andThen (next_cron zones s afterMs) (\<lambda>nextRun. Inr (within_end (endDate s) nextRun))
      else if nonzero (every s) then
        Inr (within_end (endDate s) (following_interval (the (every s)) due afterMs))
      else Inr None)"

lemma ceiling_grid:
  fixes x e :: rat
  assumes "0 < e"
  shows "x \<le> of_int \<lceil>x / e\<rceil> * e" and "of_int \<lceil>x / e\<rceil> * e < x + e"
proof -
  have "x / e \<le> of_int \<lceil>x / e\<rceil>" "of_int \<lceil>x / e\<rceil> - 1 < x / e" by linarith+
  then have "x \<le> of_int \<lceil>x / e\<rceil> * e" "(of_int \<lceil>x / e\<rceil> - 1) * e < x"
    using assms by (simp_all only: pos_divide_le_eq pos_less_divide_eq)
  then show "x \<le> of_int \<lceil>x / e\<rceil> * e" "of_int \<lceil>x / e\<rceil> * e < x + e"
    by (simp_all only: left_diff_distrib mult_1)
qed

lemma floor_grid:
  fixes x e :: rat
  assumes "0 < e"
  shows "of_int \<lfloor>x / e\<rfloor> * e \<le> x" and "x < of_int \<lfloor>x / e\<rfloor> * e + e"
proof -
  have "of_int \<lfloor>x / e\<rfloor> \<le> x / e" "x / e < of_int \<lfloor>x / e\<rfloor> + 1" by linarith+
  then have "of_int \<lfloor>x / e\<rfloor> * e \<le> x" "x < (of_int \<lfloor>x / e\<rfloor> + 1) * e"
    using assms by (simp_all only: pos_divide_less_eq pos_le_divide_eq)
  then show "of_int \<lfloor>x / e\<rfloor> * e \<le> x" "x < of_int \<lfloor>x / e\<rfloor> * e + e"
    by (simp_all only: distrib_right mult_1)
qed

lemma valid_every_pos: "valid_every (Some e) \<Longrightarrow> 0 < e"
  by (auto simp: valid_every_def isValidSchedulerEvery_def)

text \<open>
  C24: An interval schedule never drifts and never repeats a slot. The first run with a start
  date lies on the grid \<open>start + n * every\<close> and is the first slot not before now. The run that
  follows a due one is the first slot of its grid strictly after \<open>afterMs\<close>, however many slots
  were missed. A run past the end date is dropped.
\<close>

theorem interval_schedule_grid:
  assumes "pattern s = None" and "repeatAfterComplete s = None" and "every s = Some e"
    and "valid_every (Some e)" and "startDate s = Some d" and "endDate s = None"
  shows "\<exists>n r. computeInitialSchedulerNextRun zones s now = Inr (Some r) \<and>
      r = d + of_nat n * e \<and> now \<le> r \<and> (r < now + e \<or> n = 0) \<and>
      (\<forall>afterMs \<ge> r. \<exists>k r'. computeFollowingSchedulerNextRun zones s (Some r) afterMs = Inr (Some r') \<and>
         0 < k \<and> r' = r + of_nat k * e \<and> afterMs < r' \<and> r' \<le> afterMs + e)"
proof -
  have e: "0 < e" using assms(4) by (rule valid_every_pos)
  define r where "r = interval_start s e now"
  have first: "\<exists>n. r = d + of_nat n * e \<and> now \<le> r \<and> (r < now + e \<or> n = 0)"
  proof (cases "now < d")
    case True
    then show ?thesis using assms(5) by (intro exI [of _ 0]) (simp add: r_def interval_start_def)
  next
    case False
    let ?n = "\<lceil>(now - d) / e\<rceil>"
    have "0 \<le> (now - d) / e" using False e by simp
    then have "0 \<le> ?n" by linarith
    then have "r = d + of_nat (nat ?n) * e"
      using False assms(5) by (simp add: r_def interval_start_def of_nat_nat)
    then show ?thesis
      using False assms(5) ceiling_grid [OF e, of "now - d"]
      by (intro exI [of _ "nat ?n"]) (simp add: r_def interval_start_def)
  qed
  have later: "\<exists>k r'. computeFollowingSchedulerNextRun zones s (Some r) afterMs = Inr (Some r') \<and>
      0 < k \<and> r' = r + of_nat k * e \<and> afterMs < r' \<and> r' \<le> afterMs + e" if "r \<le> afterMs" for afterMs
  proof -
    let ?k = "\<lfloor>(afterMs - r) / e\<rfloor> + 1"
    have "0 \<le> (afterMs - r) / e" using that e by simp
    then have k: "0 < ?k" by (simp add: add_pos_nonneg add.commute zero_le_floor)
    then have "of_nat (nat ?k) = (of_int ?k :: rat)" by (simp add: of_nat_nat)
    moreover have "computeFollowingSchedulerNextRun zones s (Some r) afterMs = Inr (Some (r + of_int ?k * e))"
      using assms that e
      by (simp add: computeFollowingSchedulerNextRun_def has_text_def nonzero_def within_end_def
          following_interval_def Let_def)
    ultimately show ?thesis
      using k floor_grid [OF e, of "afterMs - r"]
      by (intro exI [of _ "nat ?k"] exI [of _ "r + of_int ?k * e"]) (simp add: ring_distribs)
  qed
  have "computeInitialSchedulerNextRun zones s now = Inr (Some r)"
    using assms e
    by (simp add: computeInitialSchedulerNextRun_def has_text_def nonzero_def andThen_def lift_error_def
        validateSchedulerEvery_def valid_every_def within_end_def r_def)
  then show ?thesis using first later by blast
qed

text \<open>Every minute from 1000 on, first looked at at 125000, then again at 301000.\<close>

theorem interval_schedule_grid_witness:
  "\<exists>n r. computeInitialSchedulerNextRun (\<lambda>_. fixed_zone 0)
      \<lparr>pattern = None, every = Some 60000, repeatAfterComplete = None, tz = None,
       startDate = Some 1000, endDate = None\<rparr> 125000 = Inr (Some r) \<and> r = 1000 + of_nat n * 60000 \<and> 125000 \<le> r"
  using interval_schedule_grid [of "\<lparr>pattern = None, every = Some 60000, repeatAfterComplete = None, tz = None,
       startDate = Some 1000, endDate = None\<rparr>" 60000 1000 "\<lambda>_. fixed_zone 0" 125000]
  by (auto simp: valid_every_def isValidSchedulerEvery_def is_safe_integer_def max_safe_integer_def)



end
