(* ===== verification/Dag_Kahn.thy ===== *)
theory Dag_Kahn
  imports Prelude
begin

text \<open>
  The dependency graph of a DAG submission and Kahn's algorithm on it (\<open>src/dag-utils.ts\<close>):
  \<open>buildGraph\<close> and the queue loop that \<open>validateDAG\<close> and \<open>topoSort\<close> share.
\<close>

record dag_node =
  node_name :: string
  node_deps :: "string list option"

datatype dag_error =
  DuplicateNode string
| UnknownDependency string string
| CycleError "string list"

definition deps :: "dag_node \<Rightarrow> string list" where
  "deps n = (case node_deps n of None \<Rightarrow> [] | Some ds \<Rightarrow> ds)"

section \<open>Building the graph\<close>

definition index_node :: "dag_node \<Rightarrow> (string, dag_node) jsmap \<Rightarrow> dag_error + (string, dag_node) jsmap" where
  "index_node n m =
     (if jm_has m (node_name n) then Inl (DuplicateNode (node_name n)) else Inr (jm_set (node_name n) n m))"

definition check_dep :: "(string, dag_node) jsmap \<Rightarrow> string \<Rightarrow> string \<Rightarrow> unit \<Rightarrow> dag_error + unit" where
  "check_dep m name d u =
     (if \<not> jm_has m d then Inl (UnknownDependency name d)
      else if d = name then Inl (CycleError [name, name])
      else Inr ())"

definition check_node :: "(string, dag_node) jsmap \<Rightarrow> dag_node \<Rightarrow> unit \<Rightarrow> dag_error + unit" where
  "check_node m n = fold_res (check_dep m (node_name n)) (deps n)"

definition at_name :: "(string, 'a) jsmap \<Rightarrow> string \<Rightarrow> 'a" where
  "at_name m k = the (jm_get m k)"

type_synonym graph = "(string, int) jsmap \<times> (string, string list) jsmap"

definition add_edge :: "string \<Rightarrow> string \<Rightarrow> graph \<Rightarrow> graph" where
  "add_edge name d = (\<lambda>(inDegree, adjacency).
     (jm_set name (at_name inDegree name + 1) inDegree,
      jm_set d (at_name adjacency d @ [name]) adjacency))"

definition add_edges :: "dag_node \<Rightarrow> graph \<Rightarrow> graph" where
  "add_edges n = fold (add_edge (node_name n)) (deps n)"

definition init_node :: "dag_node \<Rightarrow> graph \<Rightarrow> graph" where
  "init_node n = (\<lambda>(inDegree, adjacency).
     (jm_set (node_name n) 0 inDegree, jm_set (node_name n) [] adjacency))"

definition buildGraph :: "dag_node list \<Rightarrow> dag_error + (string, dag_node) jsmap \<times> graph" where
  "buildGraph nodes =
     andThen (fold_res index_node nodes []) (\<lambda>nodeMap.
     andThen (fold_res (check_node nodeMap) nodes ()) (\<lambda>_.
     Inr (nodeMap, fold add_edges nodes (fold init_node nodes ([], [])))))"

section \<open>Kahn's algorithm\<close>

record kahn =
  k_queue :: "string list"
  k_degree :: "(string, int) jsmap"
  k_order :: "string list"

definition relax :: "string \<Rightarrow> (string, int) jsmap \<times> string list \<Rightarrow> (string, int) jsmap \<times> string list" where
  "relax neighbor = (\<lambda>(inDegree, queue).
     let newDegree = at_name inDegree neighbor - 1 in
     (jm_set neighbor newDegree inDegree, if newDegree = 0 then queue @ [neighbor] else queue))"

definition kahn_step :: "(string, string list) jsmap \<Rightarrow> kahn \<Rightarrow> kahn" where
  "kahn_step adjacency st =
     (let current = hd (k_queue st);
          r = fold relax (at_name adjacency current) (k_degree st, tl (k_queue st)) in
      \<lparr>k_queue = snd r, k_degree = fst r, k_order = k_order st @ [current]\<rparr>)"

partial_function (option) kahn_loop :: "(string, string list) jsmap \<Rightarrow> kahn \<Rightarrow> kahn option" where
  "kahn_loop adjacency st =
     (if k_queue st = [] then Some st else kahn_loop adjacency (kahn_step adjacency st))"

declare kahn_loop.simps [code]

definition kahn_start :: "(string, int) jsmap \<Rightarrow> kahn" where
  "kahn_start inDegree =
     \<lparr>k_queue = map fst (filter (\<lambda>(_, degree). degree = 0) inDegree), k_degree = inDegree, k_order = []\<rparr>"

section \<open>What the graph holds\<close>

lemma index_nodes:
  assumes "fold_res index_node nodes m = Inr m'" and "jm_wf m"
  shows "m' = m @ map (\<lambda>n. (node_name n, n)) nodes \<and> distinct (map fst m @ map node_name nodes)"
  using assms
proof (induction nodes arbitrary: m)
  case Nil
  then show ?case by simp
next
  case (Cons n nodes)
  then have new: "node_name n \<notin> set (jm_keys m)"
    by (auto simp: index_node_def andThen_Inr_iff jm_has_iff split: if_splits)
  then have "index_node n m = Inr (m @ [(node_name n, n)])"
    by (simp add: index_node_def jm_has_iff jm_keys_set_new)
  then have "fold_res index_node nodes (m @ [(node_name n, n)]) = Inr m'" using Cons.prems(1) by simp
  from Cons.IH [OF this] Cons.prems(2) new show ?case by auto
qed

lemma index_nodes_total:
  assumes "distinct (map fst m @ map node_name nodes)"
  shows "fold_res index_node nodes m = Inr (m @ map (\<lambda>n. (node_name n, n)) nodes)"
  using assms
proof (induction nodes arbitrary: m)
  case (Cons n nodes)
  then have new: "node_name n \<notin> set (jm_keys m)" by auto
  then have "index_node n m = Inr (m @ [(node_name n, n)])"
    by (simp add: index_node_def jm_has_iff jm_keys_set_new)
  moreover have "distinct (map fst (m @ [(node_name n, n)]) @ map node_name nodes)" using Cons.prems by auto
  ultimately show ?case using Cons.IH by simp
qed simp

lemma check_deps:
  "fold_res (check_dep m name) ds u = Inr () \<longleftrightarrow> (\<forall>d \<in> set ds. jm_has m d \<and> d \<noteq> name)"
  by (induction ds arbitrary: u) (auto simp: check_dep_def andThen_def)

lemma check_nodes:
  "fold_res (check_node m) nodes u = Inr () \<longleftrightarrow>
     (\<forall>n \<in> set nodes. \<forall>d \<in> set (deps n). jm_has m d \<and> d \<noteq> node_name n)"
proof (induction nodes arbitrary: u)
  case (Cons n nodes)
  then show ?case
    using check_deps [of m "node_name n" "deps n" u]
    by (cases "check_node m n u") (auto simp: check_node_def)
qed simp

definition well_named :: "dag_node list \<Rightarrow> bool" where
  "well_named nodes \<longleftrightarrow> distinct (map node_name nodes) \<and>
     (\<forall>n \<in> set nodes. \<forall>d \<in> set (deps n). d \<in> node_name ` set nodes \<and> d \<noteq> node_name n)"

lemma has_indexed: "jm_has (map (\<lambda>n. (node_name n, n)) nodes) d \<longleftrightarrow> d \<in> node_name ` set nodes"
  by (simp add: jm_has_iff image_image)

lemma buildGraph_Inr:
  "(\<exists>g. buildGraph nodes = Inr g) \<longleftrightarrow> well_named nodes"
  "buildGraph nodes = Inr g \<Longrightarrow> g = (map (\<lambda>n. (node_name n, n)) nodes,
     fold add_edges nodes (fold init_node nodes ([], [])))"
proof -
  have step: "fold_res index_node nodes [] = Inr m \<longleftrightarrow>
      m = map (\<lambda>n. (node_name n, n)) nodes \<and> distinct (map node_name nodes)" for m
    using index_nodes [of nodes "[]" m] index_nodes_total [of "[]" nodes] by auto
  show "(\<exists>g. buildGraph nodes = Inr g) \<longleftrightarrow> well_named nodes"
    using check_nodes [of "map (\<lambda>n. (node_name n, n)) nodes" nodes "()"]
    by (auto simp: buildGraph_def andThen_Inr_iff step well_named_def has_indexed)
  show "buildGraph nodes = Inr g \<Longrightarrow> g = (map (\<lambda>n. (node_name n, n)) nodes,
     fold add_edges nodes (fold init_node nodes ([], [])))"
    by (auto simp: buildGraph_def andThen_Inr_iff step)
qed

text \<open>Degrees and edges as functions of a node's name.\<close>

definition node_of :: "dag_node list \<Rightarrow> string \<Rightarrow> dag_node" where
  "node_of nodes v = the (map_of (map (\<lambda>n. (node_name n, n)) nodes) v)"

definition deps_of :: "dag_node list \<Rightarrow> string \<Rightarrow> string list" where
  "deps_of nodes v = (case map_of (map (\<lambda>n. (node_name n, n)) nodes) v of Some n \<Rightarrow> deps n | None \<Rightarrow> [])"

lemma deps_of_node:
  "distinct (map node_name nodes) \<Longrightarrow> n \<in> set nodes \<Longrightarrow> deps_of nodes (node_name n) = deps n"
proof -
  assume "distinct (map node_name nodes)" and "n \<in> set nodes"
  then have "map_of (map (\<lambda>n. (node_name n, n)) nodes) (node_name n) = Some n"
    by (intro map_of_is_SomeI) (auto simp: o_def)
  then show ?thesis by (simp add: deps_of_def)
qed

lemma deps_of_outside: "v \<notin> node_name ` set nodes \<Longrightarrow> deps_of nodes v = []"
  using map_of_eq_None_iff [of "map (\<lambda>n. (node_name n, n)) nodes" v]
  by (auto simp: deps_of_def image_image split: option.splits)

text \<open>A graph that holds the nodes in \<open>ns\<close>, with the edges given by the degrees and successor counts.\<close>

definition graph_has :: "string set \<Rightarrow> (string \<Rightarrow> int) \<Rightarrow> (string \<Rightarrow> string \<Rightarrow> nat) \<Rightarrow> graph \<Rightarrow> bool" where
  "graph_has ns deg edges g \<longleftrightarrow>
     (\<forall>v. jm_get (fst g) v = (if v \<in> ns then Some (deg v) else None)) \<and>
     (\<forall>u \<in> ns. \<exists>l. jm_get (snd g) u = Some l \<and> (\<forall>v. count_list l v = edges u v)) \<and>
     jm_wf (fst g)"

lemma graph_has_cong:
  "graph_has ns deg edges g \<Longrightarrow> (\<And>v. v \<in> ns \<Longrightarrow> deg v = deg' v) \<Longrightarrow>
   (\<And>u v. u \<in> ns \<Longrightarrow> edges u v = edges' u v) \<Longrightarrow> graph_has ns deg' edges' g"
  by (simp add: graph_has_def)

lemma init_node_has:
  assumes "graph_has ns (\<lambda>_. 0) (\<lambda>_ _. 0) g"
  shows "graph_has (insert (node_name n) ns) (\<lambda>_. 0) (\<lambda>_ _. 0) (init_node n g)"
  using assms by (auto simp: graph_has_def init_node_def jm_get_set jm_wf_set split: prod.splits)

lemma init_nodes_has:
  "graph_has ns (\<lambda>_. 0) (\<lambda>_ _. 0) g \<Longrightarrow>
   graph_has (ns \<union> node_name ` set nodes) (\<lambda>_. 0) (\<lambda>_ _. 0) (fold init_node nodes g)"
proof (induction nodes arbitrary: ns g)
  case (Cons n nodes)
  from Cons.IH [OF init_node_has [OF Cons.prems, of n]] show ?case by simp
qed simp

lemma add_edge_has:
  assumes "graph_has ns deg edges g" and "name \<in> ns" and "d \<in> ns"
  shows "graph_has ns (deg(name := deg name + 1)) (edges(d := (edges d)(name := Suc (edges d name)))) (add_edge name d g)"
  using assms
  by (auto simp: graph_has_def add_edge_def at_name_def jm_get_set jm_wf_set count_list_append split: prod.splits)

lemma add_deps_has:
  assumes "graph_has ns deg edges g" and "name \<in> ns" and "set ds \<subseteq> ns"
  shows "graph_has ns (deg(name := deg name + int (length ds)))
    (\<lambda>u v. if v = name then edges u v + count_list ds u else edges u v) (fold (add_edge name) ds g)"
  using assms
proof (induction ds arbitrary: deg edges g)
  case Nil
  then show ?case by (auto simp: graph_has_def)
next
  case (Cons d ds)
  have "graph_has ns (deg(name := deg name + 1)) (edges(d := (edges d)(name := Suc (edges d name)))) (add_edge name d g)"
    using Cons.prems by (intro add_edge_has) auto
  from Cons.IH [OF this] Cons.prems show ?case
    by simp (erule graph_has_cong, auto)
qed

lemma add_nodes_has:
  assumes "graph_has ns deg edges g" and "node_name ` set nodes \<subseteq> ns" and "\<forall>n \<in> set nodes. set (deps n) \<subseteq> ns"
    and "distinct (map node_name nodes)"
    and "\<And>n. n \<in> set nodes \<Longrightarrow> deg (node_name n) = 0 \<and> (\<forall>u. edges u (node_name n) = 0)"
  shows "graph_has ns (\<lambda>v. deg v + int (length (deps_of nodes v)))
    (\<lambda>u v. edges u v + count_list (deps_of nodes v) u) (fold add_edges nodes g)"
  using assms
proof (induction nodes arbitrary: deg edges g)
  case Nil
  then show ?case by (simp add: deps_of_def)
next
  case (Cons n nodes)
  let ?deg = "deg(node_name n := deg (node_name n) + int (length (deps n)))"
  let ?edges = "\<lambda>u v. if v = node_name n then edges u v + count_list (deps n) u else edges u v"
  have added: "graph_has ns ?deg ?edges (add_edges n g)"
    unfolding add_edges_def using Cons.prems by (intro add_deps_has) auto
  have fresh: "\<And>m. m \<in> set nodes \<Longrightarrow> ?deg (node_name m) = 0 \<and> (\<forall>u. ?edges u (node_name m) = 0)"
  proof -
    fix m assume m: "m \<in> set nodes"
    have "node_name m \<noteq> node_name n" using Cons.prems(4) imageI [OF m, of node_name] by auto
    then show "?deg (node_name m) = 0 \<and> (\<forall>u. ?edges u (node_name m) = 0)" using Cons.prems(5) m by simp
  qed
  have "node_name ` set nodes \<subseteq> ns" "\<forall>n \<in> set nodes. set (deps n) \<subseteq> ns" "distinct (map node_name nodes)"
    using Cons.prems by auto
  from Cons.IH [OF added this fresh]
  have "graph_has ns (\<lambda>v. ?deg v + int (length (deps_of nodes v)))
    (\<lambda>u v. ?edges u v + count_list (deps_of nodes v) u) (fold add_edges nodes (add_edges n g))" .
  moreover have "deps_of nodes (node_name n) = []"
    using Cons.prems(4) by (intro deps_of_outside) auto
  moreover have "deps_of (n # nodes) v = (if v = node_name n then deps n else deps_of nodes v)" for v
    by (simp add: deps_of_def)
  ultimately show ?case by simp (erule graph_has_cong, auto)
qed

lemma buildGraph_has:
  assumes "buildGraph nodes = Inr (m, g)"
  shows "graph_has (node_name ` set nodes) (\<lambda>v. int (length (deps_of nodes v)))
    (\<lambda>u v. count_list (deps_of nodes v) u) g" and "jm_keys (fst g) = map node_name nodes"
proof -
  have wn: "well_named nodes" using assms buildGraph_Inr(1) by blast
  have g: "g = fold add_edges nodes (fold init_node nodes ([], []))"
    using buildGraph_Inr(2) [OF assms] by simp
  have "graph_has {} (\<lambda>_. 0) (\<lambda>_ _. 0) ([], [])" by (simp add: graph_has_def)
  from init_nodes_has [OF this, of nodes]
  have i: "graph_has (node_name ` set nodes) (\<lambda>_. 0) (\<lambda>_ _. 0) (fold init_node nodes ([], []))" by simp
  from add_nodes_has [OF i, of nodes] wn
  show "graph_has (node_name ` set nodes) (\<lambda>v. int (length (deps_of nodes v)))
    (\<lambda>u v. count_list (deps_of nodes v) u) g"
    by (auto simp: g well_named_def)
  have k1: "jm_keys (fst (fold init_node ns g)) = jm_keys (fst g) @ map node_name ns"
    if "distinct (jm_keys (fst g) @ map node_name ns)" for ns g
    using that
  proof (induction ns arbitrary: g)
    case (Cons n ns)
    have "jm_keys (fst (init_node n g)) = jm_keys (fst g) @ [node_name n]"
      using Cons.prems by (auto simp: init_node_def jm_keys_set_new split: prod.splits)
    moreover from this have "distinct (jm_keys (fst (init_node n g)) @ map node_name ns)"
      using Cons.prems by auto
    from Cons.IH [OF this] have "jm_keys (fst (fold init_node ns (init_node n g))) =
      jm_keys (fst (init_node n g)) @ map node_name ns" .
    ultimately show ?case by simp
  qed simp
  have k: "jm_keys (fst (add_edge name d g)) = jm_keys (fst g)" if "name \<in> set (jm_keys (fst g))" for name d g
    using that by (cases g) (simp add: add_edge_def jm_keys_set_old)
  have k2: "jm_keys (fst (fold (add_edge name) ds g)) = jm_keys (fst g)"
    if "name \<in> set (jm_keys (fst g))" for name ds g
    using that
  proof (induction ds arbitrary: g)
    case (Cons d ds)
    show ?case using Cons.IH [of "add_edge name d g"] Cons.prems k [OF Cons.prems, of d] by simp
  qed simp
  have k3: "jm_keys (fst (fold add_edges ns g)) = jm_keys (fst g)"
    if "node_name ` set ns \<subseteq> set (jm_keys (fst g))" for ns g
    using that
  proof (induction ns arbitrary: g)
    case (Cons n ns)
    have "jm_keys (fst (add_edges n g)) = jm_keys (fst g)"
      using Cons.prems k2 [of "node_name n" g "deps n"] by (simp add: add_edges_def)
    then show ?case using Cons.IH [of "add_edges n g"] Cons.prems by simp
  qed simp
  show "jm_keys (fst g) = map node_name nodes"
    using wn k1 [of "([], [])" nodes] k3 [of nodes "fold init_node nodes ([], [])"]
    by (auto simp: g well_named_def)
qed

section \<open>Correctness of the loop\<close>

lemma relax_fold:
  assumes "\<And>v. v \<in> set ns \<Longrightarrow> jm_get deg v = Some (f v)" and "\<And>v. int (count_list ns v) \<le> f v"
    and "jm_wf deg"
  shows "(\<forall>v. jm_get (fst (fold relax ns (deg, q))) v =
        (if v \<in> set ns then Some (f v - int (count_list ns v)) else jm_get deg v)) \<and>
     jm_wf (fst (fold relax ns (deg, q))) \<and>
     (\<exists>zs. snd (fold relax ns (deg, q)) = q @ zs \<and> distinct zs \<and>
        set zs = {v \<in> set ns. f v = int (count_list ns v)})"
  using assms
proof (induction ns arbitrary: deg q f)
  case Nil
  then show ?case by simp
next
  case (Cons n ns)
  let ?f = "f(n := f n - 1)"
  let ?deg = "jm_set n (f n - 1) deg"
  let ?q = "if f n - 1 = 0 then q @ [n] else q"
  have at: "at_name deg n = f n" using Cons.prems(1) [of n] by (simp add: at_name_def)
  have le: "int (count_list ns v) \<le> ?f v" for v
    using Cons.prems(2) [of v] by (auto split: if_splits)
  have "jm_get ?deg v = Some (?f v)" if "v \<in> set ns" for v
    using Cons.prems(1) [of v] that by (simp add: jm_get_set)
  define r where "r = fold relax ns (?deg, ?q)"
  from Cons.IH [OF \<open>\<And>v. v \<in> set ns \<Longrightarrow> jm_get ?deg v = Some (?f v)\<close> le jm_wf_set [OF Cons.prems(3)], of ?q, folded r_def]
  have IH1: "\<And>v. jm_get (fst r) v =
      (if v \<in> set ns then Some (?f v - int (count_list ns v)) else jm_get ?deg v)"
    and IH2: "jm_wf (fst r)"
    and IH3: "\<exists>zs. snd r = ?q @ zs \<and> distinct zs \<and>
      set zs = {v \<in> set ns. ?f v = int (count_list ns v)}"
    by (simp_all only: simp_thms)
  have run: "fold relax (n # ns) (deg, q) = r"
    unfolding r_def by (simp add: relax_def at Let_def)
  obtain zs where zs: "snd r = ?q @ zs" "distinct zs"
    "set zs = {v \<in> set ns. ?f v = int (count_list ns v)}" using IH3 by (elim exE conjE) (rule that)
  have "\<exists>zs. ?q @ zs' = q @ zs \<and> distinct zs \<and> set zs = {v \<in> set (n # ns). f v = int (count_list (n # ns) v)}"
    if zs': "distinct zs'" "set zs' = {v \<in> set ns. ?f v = int (count_list ns v)}" for zs'
  proof (cases "f n = 1")
    case True
    then have c: "count_list ns n = 0" using le [of n] by simp
    then have n: "n \<notin> set ns" by (simp add: count_list_0_iff)
    have "set (n # zs') = {v \<in> set (n # ns). f v = int (count_list (n # ns) v)}"
      using zs'(2) n by (auto simp: True c)
    moreover have "distinct (n # zs')" using zs' n by simp
    ultimately show ?thesis using True by (intro exI [of _ "n # zs'"]) simp
  next
    case False
    have "n \<in> set ns" if "f n = 1 + int (count_list ns n)"
      using that False count_list_0_iff [of ns n] by auto
    then have "v \<in> set zs' \<longleftrightarrow> v \<in> set (n # ns) \<and> f v = int (count_list (n # ns) v)" for v
      using zs'(2) by (cases "v = n") auto
    then have "set zs' = {v \<in> set (n # ns). f v = int (count_list (n # ns) v)}" by blast
    then show ?thesis using False zs' by (intro exI [of _ zs']) simp
  qed
  note last = this [OF zs(2,3), folded zs(1)]
  have "jm_get (fst r) v =
      (if v \<in> set (n # ns) then Some (f v - int (count_list (n # ns) v)) else jm_get deg v)" for v
  proof (cases "v \<in> set ns")
    case True
    then show ?thesis by (simp add: IH1)
  next
    case False
    then show ?thesis by (cases "v = n") (simp_all add: IH1 jm_get_set)
  qed
  with IH2 last show ?case unfolding run by (intro conjI allI)
qed

definition degree_left :: "dag_node list \<Rightarrow> string list \<Rightarrow> string \<Rightarrow> nat" where
  "degree_left nodes finished v = length (filter (\<lambda>d. d \<notin> set finished) (deps_of nodes v))"

definition kahn_inv :: "dag_node list \<Rightarrow> kahn \<Rightarrow> bool" where
  "kahn_inv nodes st \<longleftrightarrow>
     distinct (k_order st @ k_queue st) \<and> set (k_order st @ k_queue st) \<subseteq> node_name ` set nodes \<and>
     jm_wf (k_degree st) \<and>
     (\<forall>v. jm_get (k_degree st) v =
        (if v \<in> node_name ` set nodes then Some (int (degree_left nodes (k_order st) v)) else None)) \<and>
     (\<forall>v \<in> node_name ` set nodes. v \<in> set (k_order st @ k_queue st) \<longleftrightarrow> degree_left nodes (k_order st) v = 0) \<and>
     (\<forall>xs v ys. k_order st = xs @ v # ys \<longrightarrow> set (deps_of nodes v) \<subseteq> set xs)"

lemma degree_left_snoc:
  "u \<notin> set finished \<Longrightarrow>
   degree_left nodes (finished @ [u]) v + count_list (deps_of nodes v) u = degree_left nodes finished v"
proof -
  assume u: "u \<notin> set finished"
  have "length (filter (\<lambda>d. d \<notin> set (finished @ [u])) ds) + count_list ds u = length (filter (\<lambda>d. d \<notin> set finished) ds)"
    for ds using u by (induction ds) auto
  then show ?thesis by (simp add: degree_left_def)
qed

lemma kahn_step_inv:
  assumes inv: "kahn_inv nodes st" and ne: "k_queue st \<noteq> []"
    and adj: "\<And>u. u \<in> node_name ` set nodes \<Longrightarrow> \<exists>l. jm_get adjacency u = Some l \<and>
      (\<forall>v. count_list l v = count_list (deps_of nodes v) u)"
  shows "kahn_inv nodes (kahn_step adjacency st) \<and>
    k_order (kahn_step adjacency st) = k_order st @ [hd (k_queue st)]"
proof -
  obtain u q where q: "k_queue st = u # q" using ne by (cases "k_queue st") auto
  let ?names = "node_name ` set nodes"
  have u: "u \<in> ?names" "u \<notin> set (k_order st)" "u \<notin> set q" "distinct (k_order st @ q)"
    "set (k_order st @ q) \<subseteq> ?names"
    using inv by (auto simp: kahn_inv_def q)
  obtain l where l: "jm_get adjacency u = Some l" "\<forall>v. count_list l v = count_list (deps_of nodes v) u"
    using adj [OF u(1)] by blast
  have names: "v \<in> ?names" if "v \<in> set l" for v
  proof (rule ccontr)
    assume "v \<notin> ?names"
    then have "count_list l v = 0" using l(2) by (simp add: deps_of_outside)
    then show False using that by (simp add: count_list_0_iff)
  qed
  let ?f = "\<lambda>v. int (degree_left nodes (k_order st) v)"
  have snoc: "degree_left nodes (k_order st @ [u]) v + count_list l v = degree_left nodes (k_order st) v" for v
    using degree_left_snoc [OF u(2), of nodes v] l(2) by simp
  have deg: "jm_get (k_degree st) v = (if v \<in> ?names then Some (?f v) else None)" for v
    using inv by (simp add: kahn_inv_def)
  have wf: "jm_wf (k_degree st)" using inv by (simp add: kahn_inv_def)
  have le: "int (count_list l v) \<le> ?f v" for v using snoc [of v] by linarith
  let ?r = "fold relax l (k_degree st, q)"
  have "jm_get (k_degree st) v = Some (?f v)" if "v \<in> set l" for v using deg names [OF that] by simp
  from relax_fold [of l "k_degree st" ?f q, OF this le wf]
  have r: "\<forall>v. jm_get (fst ?r) v = (if v \<in> set l then Some (?f v - int (count_list l v)) else jm_get (k_degree st) v)"
    "jm_wf (fst ?r)"
    "\<exists>zs. snd ?r = q @ zs \<and> distinct zs \<and> set zs = {v \<in> set l. ?f v = int (count_list l v)}" by (simp_all only: simp_thms)
  then obtain zs where zs: "snd ?r = q @ zs" "distinct zs" "set zs = {v \<in> set l. ?f v = int (count_list l v)}"
    by (elim exE conjE) (rule that)
  have step: "kahn_step adjacency st = \<lparr>k_queue = q @ zs, k_degree = fst ?r, k_order = k_order st @ [u]\<rparr>"
    by (simp add: kahn_step_def q at_name_def l(1) zs(1) Let_def)
  have zero: "v \<in> set (k_order st @ k_queue st) \<longleftrightarrow> degree_left nodes (k_order st) v = 0" if "v \<in> ?names" for v
    using inv that unfolding kahn_inv_def by (elim conjE) (rule bspec)
  have fresh: "v \<notin> set (k_order st @ k_queue st)" if "v \<in> set zs" for v
  proof -
    have "v \<in> set l" "?f v = int (count_list l v)" using that zs(3) by auto
    then have "0 < ?f v" using count_list_0_iff [of l v] by auto
    then show ?thesis using zero names \<open>v \<in> set l\<close> by auto
  qed
  have I1: "distinct ((k_order st @ [u]) @ q @ zs)" using u fresh zs(2) q by auto
  have I2: "set ((k_order st @ [u]) @ q @ zs) \<subseteq> ?names" using u zs(3) names by auto
  have I3: "jm_get (fst ?r) v =
      (if v \<in> ?names then Some (int (degree_left nodes (k_order st @ [u]) v)) else None)" for v
  proof (cases "v \<in> set l")
    case True
    then have "jm_get (fst ?r) v = Some (?f v - int (count_list l v))" using r(1) by simp
    moreover have "?f v - int (count_list l v) = int (degree_left nodes (k_order st @ [u]) v)"
      using snoc [of v] by linarith
    ultimately show ?thesis using names [OF True] by simp
  next
    case False
    then show ?thesis using r(1) deg [of v] snoc [of v] by simp
  qed
  have I4: "v \<in> set ((k_order st @ [u]) @ q @ zs) \<longleftrightarrow> degree_left nodes (k_order st @ [u]) v = 0"
    if v: "v \<in> ?names" for v
  proof (cases "v \<in> set l")
    case True
    then have "0 < degree_left nodes (k_order st) v"
      using snoc [of v] count_list_0_iff [of l v] by auto
    then have "v \<notin> set (k_order st @ k_queue st)" using zero [OF v] by simp
    moreover have "v \<in> set zs \<longleftrightarrow> degree_left nodes (k_order st) v = count_list l v"
      using True zs(3) by simp
    then have "v \<in> set zs \<longleftrightarrow> degree_left nodes (k_order st @ [u]) v = 0"
      using snoc [of v] by linarith
    ultimately show ?thesis by (auto simp: q)
  next
    case False
    then have "count_list l v = 0" by (simp add: count_list_0_iff)
    then have "degree_left nodes (k_order st @ [u]) v = degree_left nodes (k_order st) v" using snoc [of v] by simp
    then show ?thesis using zero [OF v] False zs(3) by (auto simp: q)
  qed
  have I5: "set (deps_of nodes v) \<subseteq> set xs" if "k_order st @ [u] = xs @ v # ys" for xs v ys
  proof (cases ys rule: rev_cases)
    case Nil
    then have v: "v = u" "xs = k_order st" using that by auto
    have "degree_left nodes (k_order st) u = 0" using zero [OF u(1)] by (simp add: q)
    then show ?thesis by (auto simp: v degree_left_def filter_empty_conv)
  next
    case (snoc zs z)
    then have "k_order st = xs @ v # zs" using that by auto
    then show ?thesis using inv by (simp add: kahn_inv_def)
  qed
  have "\<forall>v. jm_get (fst ?r) v =
      (if v \<in> ?names then Some (int (degree_left nodes (k_order st @ [u]) v)) else None)"
    "\<forall>v \<in> ?names. v \<in> set ((k_order st @ [u]) @ q @ zs) \<longleftrightarrow> degree_left nodes (k_order st @ [u]) v = 0"
    "\<forall>xs v ys. k_order st @ [u] = xs @ v # ys \<longrightarrow> set (deps_of nodes v) \<subseteq> set xs"
    using I3 I4 I5 by auto
  then have "kahn_inv nodes (kahn_step adjacency st)"
    using I1 I2 r(2) unfolding kahn_inv_def step kahn.simps by (intro conjI)
  then show ?thesis by (simp add: step q)
qed

lemma kahn_loop_ends:
  assumes "kahn_inv nodes st"
    and adj: "\<And>u. u \<in> node_name ` set nodes \<Longrightarrow> \<exists>l. jm_get adjacency u = Some l \<and>
      (\<forall>v. count_list l v = count_list (deps_of nodes v) u)"
  shows "\<exists>st'. kahn_loop adjacency st = Some st' \<and> kahn_inv nodes st' \<and> k_queue st' = []"
  using assms(1)
proof (induction "length nodes - length (k_order st)" arbitrary: st rule: less_induct)
  case less
  show ?case
  proof (cases "k_queue st = []")
    case True
    then show ?thesis using less.prems by (simp add: kahn_loop.simps [of _ st])
  next
    case False
    note step = kahn_step_inv [OF less.prems False adj]
    have "length (k_order st @ k_queue st) \<le> card (node_name ` set nodes)"
      using less.prems distinct_card [of "k_order st @ k_queue st"] card_mono [of "node_name ` set nodes"]
      unfolding kahn_inv_def by (metis List.finite_set finite_imageI)
    also have "\<dots> \<le> length nodes" using card_image_le [of "set nodes" node_name] card_length [of nodes] by simp
    finally have "length (k_order st) < length nodes" using False by (cases "k_queue st") auto
    then have "length nodes - length (k_order (kahn_step adjacency st)) < length nodes - length (k_order st)"
      using step by simp
    from less.hyps [OF this] step False show ?thesis by (simp add: kahn_loop.simps [of _ st])
  qed
qed

lemma kahn_start_inv:
  assumes "buildGraph nodes = Inr (m, g)"
  shows "kahn_inv nodes (kahn_start (fst g))"
proof -
  note h = buildGraph_has [OF assms]
  let ?names = "node_name ` set nodes"
  have deg: "jm_get (fst g) v = (if v \<in> ?names then Some (int (length (deps_of nodes v))) else None)" for v
    using h(1) by (simp add: graph_has_def)
  have wf: "jm_wf (fst g)" using h(1) by (simp add: graph_has_def)
  have mem: "v \<in> set (map fst (filter (\<lambda>(_, degree). degree = 0) (fst g))) \<longleftrightarrow> v \<in> ?names \<and> deps_of nodes v = []" for v
  proof -
    have "v \<in> set (map fst (filter (\<lambda>(_, degree). degree = 0) (fst g))) \<longleftrightarrow> (v, 0) \<in> set (fst g)" by force
    also have "\<dots> \<longleftrightarrow> jm_get (fst g) v = Some 0" using wf by simp
    finally show ?thesis using deg [of v] by simp
  qed
  have "distinct (map fst (filter (\<lambda>(_, degree). degree = 0) (fst g)))" using wf by (rule distinct_map_filter)
  moreover have "set (map fst (filter (\<lambda>(_, degree). degree = 0) (fst g))) \<subseteq> ?names" using mem by blast
  moreover have "degree_left nodes [] v = length (deps_of nodes v)" for v by (simp add: degree_left_def)
  ultimately show ?thesis
    using deg wf mem unfolding kahn_inv_def kahn_start_def by simp
qed

end
