(* ===== verification/Dag_Cycle.thy ===== *)
theory Dag_Cycle
  imports Prelude
begin

text \<open>
  The depth-first search that reports a cycle (\<open>findCyclePath\<close> in \<open>src/dag-utils.ts\<close>). A call of
  \<open>dfs\<close> either ends the search with the closed path, or returns with the visited set it grew.
  The recursion depth is the length of the current path, which never repeats a node, so
  \<open>length remaining + 1\<close> levels are enough: running out of levels is proved impossible.
\<close>

datatype dfs_result = Found "string list" | Explored "string set" | OutOfLevels

fun index_of :: "'a list \<Rightarrow> 'a \<Rightarrow> nat" where
  "index_of [] x = 0"
| "index_of (y # ys) x = (if y = x then 0 else Suc (index_of ys x))"

text \<open>Visiting the neighbours in order until one of them finds a cycle.\<close>

fun explore :: "(string \<Rightarrow> string set \<Rightarrow> dfs_result) \<Rightarrow> string list \<Rightarrow> string set \<Rightarrow> dfs_result" where
  "explore visit [] visited = Explored visited"
| "explore visit (n # ns) visited =
     (case visit n visited of
        Explored visited' \<Rightarrow> explore visit ns visited'
      | r \<Rightarrow> r)"

definition neighbors :: "(string, string list) jsmap \<Rightarrow> string list \<Rightarrow> string \<Rightarrow> string list" where
  "neighbors adjacency remaining node =
     filter (\<lambda>n. n \<in> set remaining) (case jm_get adjacency node of Some ns \<Rightarrow> ns | None \<Rightarrow> [])"

fun dfs :: "(string, string list) jsmap \<Rightarrow> string list \<Rightarrow> nat \<Rightarrow> string list \<Rightarrow> string \<Rightarrow> string set \<Rightarrow> dfs_result" where
  "dfs adjacency remaining 0 path node visited = OutOfLevels"
| "dfs adjacency remaining (Suc levels) path node visited =
     (if node \<in> set path then Found (drop (index_of path node) (path @ [node]))
      else if node \<in> visited then Explored visited
      else explore (dfs adjacency remaining levels (path @ [node]))
             (neighbors adjacency remaining node) (insert node visited))"

fun find_from :: "(string, string list) jsmap \<Rightarrow> string list \<Rightarrow> string list \<Rightarrow> string list option" where
  "find_from adjacency remaining [] = None"
| "find_from adjacency remaining (r # rs) =
     (case dfs adjacency remaining (length remaining + 1) [] r {} of
        Found p \<Rightarrow> Some p
      | _ \<Rightarrow> find_from adjacency remaining rs)"

definition findCyclePath :: "string list \<Rightarrow> (string, string list) jsmap \<Rightarrow> string list" where
  "findCyclePath remaining adjacency =
     (case find_from adjacency remaining remaining of Some p \<Rightarrow> p | None \<Rightarrow> take 2 remaining)"

section \<open>Correctness\<close>

definition edges :: "(string, string list) jsmap \<Rightarrow> string list \<Rightarrow> (string \<times> string) set" where
  "edges adjacency remaining = {(u, v). u \<in> set remaining \<and> v \<in> set (neighbors adjacency remaining u)}"

text \<open>A walk along the edges, and a walk that comes back to where it started.\<close>

fun walk :: "('a \<times> 'a) set \<Rightarrow> 'a list \<Rightarrow> bool" where
  "walk E (x # y # zs) \<longleftrightarrow> (x, y) \<in> E \<and> walk E (y # zs)"
| "walk E _ \<longleftrightarrow> True"

definition closed_walk :: "('a \<times> 'a) set \<Rightarrow> 'a list \<Rightarrow> bool" where
  "closed_walk E p \<longleftrightarrow> walk E p \<and> 2 \<le> length p \<and> hd p = last p"

lemma closed_walk_mono:
  assumes "closed_walk E p" and "E \<subseteq> E'"
  shows "closed_walk E' p"
proof -
  have "walk E q \<Longrightarrow> walk E' q" for q using assms(2) by (induction E q rule: walk.induct) auto
  then show ?thesis using assms(1) by (simp add: closed_walk_def)
qed

lemma walk_append:
  "walk E (xs @ [y]) \<longleftrightarrow> walk E xs \<and> (xs \<noteq> [] \<longrightarrow> (last xs, y) \<in> E)"
  by (induction xs rule: walk.induct) auto

lemma walk_tl: "walk E (x # xs) \<Longrightarrow> walk E xs"
  by (cases xs) auto

lemma walk_drop: "walk E p \<Longrightarrow> walk E (drop n p)"
proof (induction n arbitrary: p)
  case (Suc n)
  then show ?case by (cases p) (auto dest: walk_tl)
qed simp

lemma index_of_in:
  "x \<in> set xs \<Longrightarrow> index_of xs x < length xs \<and> xs ! index_of xs x = x"
  by (induction xs) auto

lemma index_of_append:
  "index_of (xs @ ys) x = (if x \<in> set xs then index_of xs x else length xs + index_of ys x)"
  by (induction xs) auto

lemma found_closed:
  assumes "walk E (path @ [node])" and "node \<in> set path"
  shows "closed_walk E (drop (index_of path node) (path @ [node]))"
proof -
  note i = index_of_in [OF assms(2)]
  have "hd (drop (index_of path node) (path @ [node])) = node"
    using i by (simp add: hd_drop_conv_nth nth_append)
  moreover have "walk E (drop (index_of path node) (path @ [node]))" by (rule walk_drop [OF assms(1)])
  ultimately show ?thesis using i by (simp add: closed_walk_def Suc_le_eq)
qed

text \<open>Finished nodes: closed under the edges and on no cycle.\<close>

definition settled :: "('a \<times> 'a) set \<Rightarrow> 'a set \<Rightarrow> bool" where
  "settled E F \<longleftrightarrow> (\<forall>x \<in> F. \<forall>y. (x, y) \<in> E \<longrightarrow> y \<in> F) \<and> (\<forall>x \<in> F. (x, x) \<notin> E\<^sup>+)"

lemma settled_closed: "settled E F \<Longrightarrow> x \<in> F \<Longrightarrow> (x, y) \<in> E\<^sup>* \<Longrightarrow> y \<in> F"
  by (rotate_tac 2, induction rule: rtrancl_induct) (auto simp: settled_def)

lemma settled_insert:
  assumes "settled E F" and "x \<notin> F" and "\<And>y. (x, y) \<in> E \<Longrightarrow> y \<in> F"
  shows "settled E (insert x F)"
proof -
  have "(x, x) \<notin> E\<^sup>+"
  proof
    assume "(x, x) \<in> E\<^sup>+"
    then obtain y where "(x, y) \<in> E" "(y, x) \<in> E\<^sup>*" by (meson tranclD)
    then have "x \<in> F" using settled_closed [OF assms(1)] assms(3) by blast
    then show False using assms(2) by blast
  qed
  then show ?thesis using assms by (auto simp: settled_def)
qed

text \<open>
  What a call guarantees. The path is a walk of distinct remaining nodes, all visited, that
  leads to \<open>node\<close>; everything visited off the path is settled.
\<close>

definition dfs_pre :: "('a \<times> 'a) set \<Rightarrow> 'a set \<Rightarrow> 'a list \<Rightarrow> 'a set \<Rightarrow> bool" where
  "dfs_pre E rem path visited \<longleftrightarrow> walk E path \<and> distinct path \<and> set path \<subseteq> rem \<and> set path \<subseteq> visited \<and>
     settled E (visited - set path)"

lemma explore_spec:
  assumes "\<And>n visited. n \<in> set ns \<Longrightarrow> Q visited \<Longrightarrow>
      (case visit n visited of Found p \<Rightarrow> P p
       | Explored v' \<Rightarrow> Q v' \<and> visited \<subseteq> v' \<and> n \<in> v' \<and> G n | OutOfLevels \<Rightarrow> False)"
    and "Q visited"
  shows "case explore visit ns visited of Found p \<Rightarrow> P p
    | Explored v' \<Rightarrow> Q v' \<and> visited \<subseteq> v' \<and> set ns \<subseteq> v' \<and> (\<forall>n \<in> set ns. G n) | OutOfLevels \<Rightarrow> False"
  using assms
proof (induction ns arbitrary: visited)
  case Nil
  then show ?case by simp
next
  case (Cons n ns)
  from Cons.prems(1) [of n, OF _ Cons.prems(2)]
  have v: "case visit n visited of Found p \<Rightarrow> P p
    | Explored v' \<Rightarrow> Q v' \<and> visited \<subseteq> v' \<and> n \<in> v' \<and> G n | OutOfLevels \<Rightarrow> False"
    by simp
  show ?case
  proof (cases "visit n visited")
    case (Explored v')
    then have q: "Q v'" "visited \<subseteq> v'" "n \<in> v'" "G n" using v by auto
    have "case explore visit ns v' of Found p \<Rightarrow> P p
      | Explored v'' \<Rightarrow> Q v'' \<and> v' \<subseteq> v'' \<and> set ns \<subseteq> v'' \<and> (\<forall>n \<in> set ns. G n) | OutOfLevels \<Rightarrow> False"
      using Cons.prems(1) q(1) by (intro Cons.IH) auto
    then show ?thesis using Explored q by (auto split: dfs_result.splits)
  qed (use v in auto)
qed

lemma dfs_spec:
  assumes "dfs_pre (edges adjacency remaining) (set remaining) path visited"
    and "node \<in> set remaining" and "path \<noteq> [] \<Longrightarrow> (last path, node) \<in> edges adjacency remaining"
    and "length remaining + 1 \<le> levels + length path"
  shows "case dfs adjacency remaining levels path node visited of
      Found p \<Rightarrow> closed_walk (edges adjacency remaining) p
    | Explored v' \<Rightarrow> dfs_pre (edges adjacency remaining) (set remaining) path v' \<and> visited \<subseteq> v' \<and> node \<in> v' \<and> node \<notin> set path
    | OutOfLevels \<Rightarrow> False"
  using assms
proof (induction levels arbitrary: path node visited)
  case 0
  have "length path = card (set path)" using 0 by (simp add: dfs_pre_def distinct_card)
  also have "\<dots> \<le> card (set remaining)" using 0 by (intro card_mono) (auto simp: dfs_pre_def)
  also have "\<dots> \<le> length remaining" by (rule card_length)
  finally show ?case using 0 by simp
next
  case (Suc levels)
  let ?E = "edges adjacency remaining"
  have walk: "walk ?E (path @ [node])" using Suc.prems by (auto simp: walk_append dfs_pre_def)
  consider "node \<in> set path" | "node \<notin> set path" "node \<in> visited" | "node \<notin> set path" "node \<notin> visited" by blast
  then show ?case
  proof cases
    case 1
    then show ?thesis using found_closed [OF walk] by simp
  next
    case 2
    then show ?thesis using Suc.prems by simp
  next
    case 3
    have pre: "dfs_pre ?E (set remaining) (path @ [node]) (insert node visited)"
    proof -
      have "insert node visited - set (path @ [node]) = visited - set path" using 3 by auto
      then show ?thesis using Suc.prems 3 walk by (auto simp: dfs_pre_def)
    qed
    let ?Q = "\<lambda>v. dfs_pre ?E (set remaining) (path @ [node]) v"
    have visit: "case dfs adjacency remaining levels (path @ [node]) n v of
        Found p \<Rightarrow> closed_walk ?E p
      | Explored v' \<Rightarrow> ?Q v' \<and> v \<subseteq> v' \<and> n \<in> v' \<and> n \<notin> set (path @ [node]) | OutOfLevels \<Rightarrow> False"
      if "n \<in> set (neighbors adjacency remaining node)" "?Q v" for n v
    proof (rule Suc.IH [OF that(2)])
      show "n \<in> set remaining" using that(1) by (simp add: neighbors_def)
      show "(last (path @ [node]), n) \<in> ?E" using that(1) Suc.prems(2) by (simp add: edges_def)
      show "length remaining + 1 \<le> levels + length (path @ [node])" using Suc.prems(4) by simp
    qed
    let ?r = "explore (dfs adjacency remaining levels (path @ [node])) (neighbors adjacency remaining node) (insert node visited)"
    have r: "case ?r of Found p \<Rightarrow> closed_walk ?E p
      | Explored v' \<Rightarrow> ?Q v' \<and> insert node visited \<subseteq> v' \<and>
          set (neighbors adjacency remaining node) \<subseteq> v' \<and>
          (\<forall>n \<in> set (neighbors adjacency remaining node). n \<notin> set (path @ [node])) | OutOfLevels \<Rightarrow> False"
      by (rule explore_spec [where Q = ?Q and P = "closed_walk ?E" and G = "\<lambda>n. n \<notin> set (path @ [node])", OF visit pre])
    show ?thesis
    proof (cases ?r)
      case (Explored v')
      then have v': "?Q v'" "insert node visited \<subseteq> v'" "set (neighbors adjacency remaining node) \<subseteq> v'"
        "\<forall>n \<in> set (neighbors adjacency remaining node). n \<notin> set (path @ [node])" using r by simp_all
      have F: "settled ?E (v' - set (path @ [node]))" using v'(1) by (simp add: dfs_pre_def)
      have "settled ?E (insert node (v' - set (path @ [node])))"
      proof (rule settled_insert [OF F])
        fix y assume "(node, y) \<in> ?E"
        then have "y \<in> set (neighbors adjacency remaining node)" by (simp add: edges_def)
        then show "y \<in> v' - set (path @ [node])" using v'(3,4) by blast
      qed simp
      moreover have "insert node (v' - set (path @ [node])) = v' - set path" using v'(2) 3(1) by auto
      ultimately have "dfs_pre ?E (set remaining) path v'"
        using v'(1,2) Suc.prems(1) by (auto simp: dfs_pre_def)
      then show ?thesis using Explored 3 v'(2) by simp
    qed (use r 3 in auto)
  qed
qed

text \<open>If every remaining node has a predecessor among them, the search finds a cycle.\<close>

lemma dfs_root:
  assumes "r \<in> set remaining"
  shows "case dfs adjacency remaining (length remaining + 1) [] r {} of
      Found p \<Rightarrow> closed_walk (edges adjacency remaining) p
    | Explored v' \<Rightarrow> settled (edges adjacency remaining) v' \<and> r \<in> v'
    | OutOfLevels \<Rightarrow> False"
  using dfs_spec [of adjacency remaining "[]" "{}" r "length remaining + 1"] assms
  by (simp add: dfs_pre_def settled_def split: dfs_result.splits)

lemma find_from_closed:
  assumes "set rs \<subseteq> set remaining" and "find_from adjacency remaining rs = Some p"
  shows "closed_walk (edges adjacency remaining) p"
  using assms
proof (induction rs)
  case (Cons r rs)
  then show ?case using dfs_root [of r remaining adjacency] by (auto split: dfs_result.splits)
qed simp

lemma find_from_none:
  assumes "set rs \<subseteq> set remaining" and "find_from adjacency remaining rs = None" and "r \<in> set rs"
  shows "(r, r) \<notin> (edges adjacency remaining)\<^sup>+"
  using assms
proof (induction rs)
  case (Cons r' rs)
  then show ?case
    using dfs_root [of r' remaining adjacency] by (auto simp: settled_def split: dfs_result.splits)
qed simp

lemma predecessors_cycle:
  assumes "finite V" and "V \<noteq> {}" and "E \<subseteq> V \<times> V" and "\<And>v. v \<in> V \<Longrightarrow> \<exists>u. (u, v) \<in> E"
  shows "\<exists>x \<in> V. (x, x) \<in> E\<^sup>+"
proof (rule ccontr)
  assume no: "\<not> (\<exists>x \<in> V. (x, x) \<in> E\<^sup>+)"
  have "acyclic E"
  proof (rule acyclicI, intro allI notI)
    fix x assume c: "(x, x) \<in> E\<^sup>+"
    then have "x \<in> V" using assms(3) by (metis SigmaD1 subsetD tranclD)
    then show False using no c by blast
  qed
  moreover have "finite E" using assms(1,3) finite_subset by blast
  ultimately have "wf E" by (rule finite_acyclic_wf [rotated])
  then obtain v where "v \<in> V" "\<forall>u. (u, v) \<in> E \<longrightarrow> u \<notin> V"
    using assms(2) by (metis ex_in_conv wf_eq_minimal)
  then show False using assms(3,4) by blast
qed

lemma findCyclePath_closed:
  assumes "remaining \<noteq> []"
    and "\<And>v. v \<in> set remaining \<Longrightarrow> \<exists>u. (u, v) \<in> edges adjacency remaining"
  shows "closed_walk (edges adjacency remaining) (findCyclePath remaining adjacency)"
proof -
  have "edges adjacency remaining \<subseteq> set remaining \<times> set remaining"
    by (auto simp: edges_def neighbors_def)
  then obtain x where x: "x \<in> set remaining" "(x, x) \<in> (edges adjacency remaining)\<^sup>+"
    using predecessors_cycle [of "set remaining" "edges adjacency remaining"] assms by auto
  obtain p where "find_from adjacency remaining remaining = Some p"
    using find_from_none [of remaining remaining adjacency x] x by (cases "find_from adjacency remaining remaining") auto
  then show ?thesis using find_from_closed [of remaining remaining adjacency p] by (simp add: findCyclePath_def)
qed

end
