(* ===== verification/Dag.thy ===== *)
theory Dag
  imports Dag_Kahn Dag_Cycle "HOL-Library.Multiset"
begin

text \<open>
  \<open>validateDAG\<close> and \<open>topoSort\<close> (\<open>src/dag-utils.ts\<close>): the order they compute is a topological
  order of exactly the submitted nodes, and the cycle they report is a cycle of the submission.
\<close>

definition run_kahn :: "graph \<Rightarrow> kahn" where
  "run_kahn g = the (kahn_loop (snd g) (kahn_start (fst g)))"

definition remaining_names :: "dag_node list \<Rightarrow> kahn \<Rightarrow> string list" where
  "remaining_names nodes st = map node_name (filter (\<lambda>n. at_name (k_degree st) (node_name n) > 0) nodes)"

definition validateDAG :: "dag_node list \<Rightarrow> dag_error + unit" where
  "validateDAG nodes =
     andThen (buildGraph nodes) (\<lambda>(nodeMap, g).
     let st = run_kahn g in
     if length (k_order st) < length nodes
     then Inl (CycleError (findCyclePath (remaining_names nodes st) (snd g)))
     else Inr ())"

definition topoSort :: "dag_node list \<Rightarrow> dag_error + dag_node list" where
  "topoSort nodes =
     andThen (buildGraph nodes) (\<lambda>(nodeMap, g).
     let st = run_kahn g in
     if length (k_order st) < length nodes
     then Inl (CycleError (findCyclePath (remaining_names nodes st) (snd g)))
     else Inr (map (at_name nodeMap) (k_order st)))"

text \<open>The edges of a submission, from a dependency to the node that waits for it.\<close>

definition dep_edges :: "dag_node list \<Rightarrow> (string \<times> string) set" where
  "dep_edges nodes = {(d, node_name n) |d n. n \<in> set nodes \<and> d \<in> set (deps n)}"

lemma run_kahn_inv:
  assumes "buildGraph nodes = Inr (m, g)"
  shows "kahn_inv nodes (run_kahn g) \<and> k_queue (run_kahn g) = []"
proof -
  have "\<exists>l. jm_get (snd g) u = Some l \<and> (\<forall>v. count_list l v = count_list (deps_of nodes v) u)"
    if "u \<in> node_name ` set nodes" for u
    using buildGraph_has(1) [OF assms] that unfolding graph_has_def by (elim conjE) (rule bspec)
  from kahn_loop_ends [OF kahn_start_inv [OF assms] this] show ?thesis by (auto simp: run_kahn_def)
qed

lemma names_length: "well_named nodes \<Longrightarrow> card (node_name ` set nodes) = length nodes"
  by (metis distinct_card length_map set_map well_named_def)

lemma order_complete:
  assumes "well_named nodes" and "kahn_inv nodes st" and "\<not> length (k_order st) < length nodes"
  shows "distinct (k_order st) \<and> set (k_order st) = node_name ` set nodes"
proof -
  have d: "distinct (k_order st)" "set (k_order st) \<subseteq> node_name ` set nodes"
    using assms(2) by (auto simp: kahn_inv_def)
  moreover have "card (node_name ` set nodes) \<le> card (set (k_order st))"
    using assms(3) d(1) names_length [OF assms(1)] by (simp add: distinct_card)
  ultimately show ?thesis by (metis List.finite_set card_seteq finite_imageI)
qed

lemma deps_of_named: "well_named nodes \<Longrightarrow> n \<in> set nodes \<Longrightarrow> deps_of nodes (node_name n) = deps n"
  by (rule deps_of_node) (simp_all add: well_named_def)

lemma order_before: "kahn_inv nodes st \<Longrightarrow> k_order st = xs @ v # ys \<Longrightarrow> set (deps_of nodes v) \<subseteq> set xs"
  by (simp add: kahn_inv_def)

lemma order_zero:
  "kahn_inv nodes st \<Longrightarrow> k_queue st = [] \<Longrightarrow> v \<in> node_name ` set nodes \<Longrightarrow>
   v \<in> set (k_order st) \<longleftrightarrow> degree_left nodes (k_order st) v = 0"
  unfolding kahn_inv_def by (elim conjE) (drule (1) bspec, simp)

lemma order_degree:
  "kahn_inv nodes st \<Longrightarrow> v \<in> node_name ` set nodes \<Longrightarrow>
   at_name (k_degree st) v = int (degree_left nodes (k_order st) v)"
  by (simp add: kahn_inv_def at_name_def)

lemma indexed_at:
  assumes "well_named nodes" and "n \<in> set nodes"
  shows "at_name (map (\<lambda>n. (node_name n, n)) nodes) (node_name n) = n"
proof -
  have "map_of (map (\<lambda>n. (node_name n, n)) nodes) (node_name n) = Some n"
    using assms by (intro map_of_is_SomeI) (auto simp: o_def well_named_def)
  then show ?thesis by (simp add: at_name_def)
qed

lemma topoSort_sorted:
  assumes "topoSort nodes = Inr result"
  shows "mset result = mset nodes \<and>
    (\<forall>xs n ys. result = xs @ n # ys \<longrightarrow> set (deps n) \<subseteq> node_name ` set xs)"
proof -
  obtain m g where g: "buildGraph nodes = Inr (m, g)"
    using assms by (auto simp: topoSort_def andThen_Inr_iff)
  let ?o = "k_order (run_kahn g)" and ?at = "at_name (map (\<lambda>n. (node_name n, n)) nodes)"
  have wn: "well_named nodes" using g buildGraph_Inr(1) by blast
  have m: "m = map (\<lambda>n. (node_name n, n)) nodes" using buildGraph_Inr(2) [OF g] by simp
  have len: "\<not> length ?o < length nodes" and result: "result = map ?at ?o"
    using assms by (auto simp: topoSort_def g Let_def m split: if_splits)
  have inv: "kahn_inv nodes (run_kahn g)" using run_kahn_inv [OF g] by simp
  note oc = order_complete [OF wn inv len]
  have at: "?at (node_name n) = n" if "n \<in> set nodes" for n using indexed_at [OF wn that] .
  have named: "?at v \<in> set nodes \<and> node_name (?at v) = v" if "v \<in> set ?o" for v
    using that oc at by auto
  have "inj_on ?at (set ?o)" by (rule inj_on_inverseI [where g = node_name]) (simp add: named)
  then have "distinct result" using oc by (simp add: result distinct_map)
  moreover have "set result = set nodes"
    using named oc at by (force simp: result)
  moreover have "distinct nodes" using wn by (simp add: well_named_def distinct_map)
  ultimately have "mset result = mset nodes" by (simp add: set_eq_iff_mset_eq_distinct)
  moreover have "set (deps n) \<subseteq> node_name ` set xs" if s: "result = xs @ n # ys" for xs n ys
  proof -
    obtain us v vs where o: "?o = us @ v # vs" "map ?at us = xs" "?at v = n"
      using s unfolding result by (auto simp: map_eq_append_conv map_eq_Cons_conv)
    have vin: "?at v \<in> set nodes" "node_name (?at v) = v" using named [of v] o(1) by auto
    have "deps_of nodes v = deps n"
      using deps_of_named [OF wn vin(1)] vin(2) o(3) by simp
    moreover have "set (deps_of nodes v) \<subseteq> set us" using order_before [OF inv o(1)] .
    moreover have "set us \<subseteq> node_name ` set xs"
    proof
      fix u assume u: "u \<in> set us"
      have "node_name (?at u) = u" using named [of u] u o(1) by simp
      moreover have "?at u \<in> set xs" using u o(2) by auto
      ultimately show "u \<in> node_name ` set xs" by (rule_tac x = "?at u" in image_eqI) simp_all
    qed
    ultimately show ?thesis by simp
  qed
  ultimately show ?thesis by blast
qed

text \<open>
  C18: A successful \<open>topoSort\<close> returns exactly the submitted nodes, each after all the nodes it
  depends on.
\<close>

theorem topoSort_order:
  assumes "topoSort nodes = Inr result"
  shows "mset result = mset nodes \<and>
    (\<forall>xs n ys. result = xs @ n # ys \<longrightarrow> set (deps n) \<subseteq> node_name ` set xs)"
  using assms by (rule topoSort_sorted)

lemma adjacency_edges:
  assumes "buildGraph nodes = Inr (m, g)" and "u \<in> node_name ` set nodes"
  shows "\<exists>l. jm_get (snd g) u = Some l \<and> set l = {v. (u, v) \<in> dep_edges nodes}"
proof -
  have wn: "well_named nodes" using assms(1) buildGraph_Inr(1) by blast
  obtain l where l: "jm_get (snd g) u = Some l" "\<forall>v. count_list l v = count_list (deps_of nodes v) u"
    using buildGraph_has(1) [OF assms(1)] assms(2) unfolding graph_has_def by blast
  have "v \<in> set l \<longleftrightarrow> (u, v) \<in> dep_edges nodes" for v
  proof -
    have "v \<in> set l \<longleftrightarrow> u \<in> set (deps_of nodes v)"
      using l(2) count_list_0_iff [of l v] count_list_0_iff [of "deps_of nodes v" u] by metis
    also have "\<dots> \<longleftrightarrow> (u, v) \<in> dep_edges nodes"
    proof (cases "v \<in> node_name ` set nodes")
      case True
      then obtain n where n: "n \<in> set nodes" "v = node_name n" by blast
      then have d: "deps_of nodes v = deps n" using deps_of_named [OF wn] by simp
      have "deps n' = deps n" if "n' \<in> set nodes" "v = node_name n'" for n'
        using deps_of_named [OF wn that(1)] that(2) d by simp
      then have "u \<in> set (deps n)" if "(u, v) \<in> dep_edges nodes"
        using that by (auto simp: dep_edges_def)
      moreover have "(u, v) \<in> dep_edges nodes" if "u \<in> set (deps n)"
        using that n by (auto simp: dep_edges_def)
      ultimately have "(u, v) \<in> dep_edges nodes \<longleftrightarrow> u \<in> set (deps n)" by (rule iffI)
      then show ?thesis by (simp add: d)
    next
      case False
      then show ?thesis by (auto simp: dep_edges_def deps_of_outside)
    qed
    finally show ?thesis .
  qed
  then show ?thesis using l(1) by auto
qed

lemma cycle_found:
  assumes g: "buildGraph nodes = Inr (m, g)" and len: "length (k_order (run_kahn g)) < length nodes"
  shows "closed_walk (dep_edges nodes) (findCyclePath (remaining_names nodes (run_kahn g)) (snd g))"
proof -
  let ?st = "run_kahn g" and ?rem = "remaining_names nodes (run_kahn g)"
  have wn: "well_named nodes" using g buildGraph_Inr(1) by blast
  have inv: "kahn_inv nodes ?st" and q: "k_queue ?st = []" using run_kahn_inv [OF g] by auto
  have left: "v \<in> set (k_order ?st) \<longleftrightarrow> degree_left nodes (k_order ?st) v = 0"
    and deg: "at_name (k_degree ?st) v = int (degree_left nodes (k_order ?st) v)" if "v \<in> node_name ` set nodes" for v
    by (rule order_zero [OF inv q that], rule order_degree [OF inv that])
  have rem: "set ?rem = node_name ` set nodes - set (k_order ?st)"
    using left deg by (auto simp: remaining_names_def)
  have sub: "edges (snd g) ?rem \<subseteq> dep_edges nodes"
  proof
    fix e assume "e \<in> edges (snd g) ?rem"
    then obtain u v where e: "e = (u, v)" "u \<in> set ?rem" "v \<in> set (neighbors (snd g) ?rem u)"
      by (auto simp: edges_def)
    have "u \<in> node_name ` set nodes" using e(2) rem by blast
    from adjacency_edges [OF g this] e(1,3) show "e \<in> dep_edges nodes" by (auto simp: neighbors_def)
  qed
  have "?rem \<noteq> []"
  proof
    assume "?rem = []"
    then have "node_name ` set nodes \<subseteq> set (k_order ?st)" using rem by auto
    then have "card (node_name ` set nodes) \<le> length (k_order ?st)"
      by (meson List.finite_set card_length card_mono le_trans)
    then show False using len names_length [OF wn] by simp
  qed
  moreover have "\<exists>u. (u, v) \<in> edges (snd g) ?rem" if v: "v \<in> set ?rem" for v
  proof -
    have vn: "v \<in> node_name ` set nodes" "v \<notin> set (k_order ?st)" using v rem by auto
    then have "degree_left nodes (k_order ?st) v \<noteq> 0" using left by blast
    then obtain u where u: "u \<in> set (deps_of nodes v)" "u \<notin> set (k_order ?st)"
      by (auto simp: degree_left_def filter_empty_conv)
    obtain n where n: "n \<in> set nodes" "v = node_name n" using vn by blast
    then have un: "u \<in> set (deps n)" using u(1) deps_of_named [OF wn] by simp
    then have names: "u \<in> node_name ` set nodes" using n wn by (auto simp: well_named_def)
    then have ur: "u \<in> set ?rem" using u(2) rem by blast
    obtain l where l: "jm_get (snd g) u = Some l" "set l = {v. (u, v) \<in> dep_edges nodes}"
      using adjacency_edges [OF g names] by blast
    have "v \<in> set l" using l(2) n un by (auto simp: dep_edges_def)
    then have "(u, v) \<in> edges (snd g) ?rem" using ur v l(1) by (simp add: edges_def neighbors_def)
    then show ?thesis by blast
  qed
  ultimately have "closed_walk (edges (snd g) ?rem) (findCyclePath ?rem (snd g))" by (rule findCyclePath_closed)
  then show ?thesis using sub by (rule closed_walk_mono)
qed

lemma check_dep_cycle:
  "fold_res (check_dep m name) ds u = Inl (CycleError p) \<Longrightarrow> name \<in> set ds \<and> p = [name, name]"
  by (induction ds arbitrary: u) (auto simp: check_dep_def andThen_Inl_iff split: if_splits)

lemma check_nodes_cycle:
  "fold_res (check_node m) nodes u = Inl (CycleError p) \<Longrightarrow>
   \<exists>n \<in> set nodes. node_name n \<in> set (deps n) \<and> p = [node_name n, node_name n]"
  by (induction nodes arbitrary: u) (auto simp: check_node_def andThen_Inl_iff dest: check_dep_cycle)

lemma index_no_cycle: "fold_res index_node nodes m \<noteq> Inl (CycleError p)"
  by (induction nodes arbitrary: m) (auto simp: index_node_def andThen_Inl_iff)

text \<open>
  C20: A reported cycle is a cycle of the submission: a closed walk along its dependency edges.
\<close>

theorem topoSort_cycle:
  assumes "topoSort nodes = Inl (CycleError p)"
  shows "closed_walk (dep_edges nodes) p"
proof (cases "buildGraph nodes")
  case (Inl e)
  then have "buildGraph nodes = Inl (CycleError p)" using assms by (simp add: topoSort_def)
  then obtain n where n: "n \<in> set nodes" "node_name n \<in> set (deps n)" "p = [node_name n, node_name n]"
    using check_nodes_cycle index_no_cycle by (fastforce simp: buildGraph_def andThen_Inl_iff)
  then show ?thesis by (auto simp: closed_walk_def dep_edges_def)
next
  case (Inr mg)
  obtain m g where g: "buildGraph nodes = Inr (m, g)" using Inr by (cases mg) simp
  then have "length (k_order (run_kahn g)) < length nodes"
    and "p = findCyclePath (remaining_names nodes (run_kahn g)) (snd g)"
    using assms by (auto simp: topoSort_def Let_def split: if_splits)
  then show ?thesis using cycle_found [OF g] by simp
qed

lemma closed_walk_trancl:
  assumes "walk E (x # xs)" and "xs \<noteq> []"
  shows "(x, last xs) \<in> E\<^sup>+"
  using assms
proof (induction xs arbitrary: x)
  case (Cons y ys)
  then show ?case by (cases ys) (auto intro: trancl_into_trancl2)
qed simp

lemma topological_acyclic:
  assumes "topoSort nodes = Inr result"
  shows "acyclic (dep_edges nodes)"
proof -
  obtain m g where g: "buildGraph nodes = Inr (m, g)"
    using assms by (auto simp: topoSort_def andThen_Inr_iff)
  have wn: "well_named nodes" using g buildGraph_Inr(1) by blast
  let ?o = "k_order (run_kahn g)"
  have len: "\<not> length ?o < length nodes" using assms by (auto simp: topoSort_def g Let_def split: if_splits)
  have inv: "kahn_inv nodes (run_kahn g)" using run_kahn_inv [OF g] by simp
  note oc = order_complete [OF wn inv len]
  let ?pos = "index_of ?o"
  have "?pos d < ?pos v" if e: "(d, v) \<in> dep_edges nodes" for d v
  proof -
    obtain n where n: "n \<in> set nodes" "v = node_name n" "d \<in> set (deps n)" using e by (auto simp: dep_edges_def)
    then obtain xs ys where o: "?o = xs @ v # ys" using oc by (metis image_eqI split_list)
    have "deps_of nodes v = deps n" using n deps_of_named [OF wn] by simp
    then have "d \<in> set xs" using order_before [OF inv o] n(3) by auto
    moreover have "v \<notin> set xs" using oc o by auto
    ultimately show ?thesis unfolding o by (simp add: index_of_append index_of_in)
  qed
  then have "dep_edges nodes \<subseteq> measure ?pos" by auto
  then show ?thesis by (meson acyclic_subset wf_acyclic wf_measure)
qed

text \<open>
  C19: \<open>topoSort\<close> succeeds exactly on the submissions whose names are distinct, whose dependencies
  are submitted nodes and whose edges have no cycle, and \<open>validateDAG\<close> accepts exactly those.
\<close>

theorem topoSort_total:
  "(\<exists>result. topoSort nodes = Inr result) \<longleftrightarrow>
     distinct (map node_name nodes) \<and> set (concat (map deps nodes)) \<subseteq> node_name ` set nodes \<and>
     acyclic (dep_edges nodes)"
  (is "_ = ?ok")
proof
  assume "\<exists>result. topoSort nodes = Inr result"
  then obtain result where s: "topoSort nodes = Inr result" ..
  then have "\<exists>g. buildGraph nodes = Inr g" by (auto simp: topoSort_def andThen_Inr_iff)
  then have "well_named nodes" using buildGraph_Inr(1) by blast
  then show ?ok using topological_acyclic [OF s] by (auto simp: well_named_def)
next
  assume ok: ?ok
  have "d \<noteq> node_name n" if "n \<in> set nodes" "d \<in> set (deps n)" for n d
  proof
    assume "d = node_name n"
    then have "(d, d) \<in> dep_edges nodes" using that by (auto simp: dep_edges_def)
    then show False using ok by (auto simp: acyclic_def)
  qed
  then have "well_named nodes" using ok by (auto simp: well_named_def)
  then obtain m g where g: "buildGraph nodes = Inr (m, g)" using buildGraph_Inr(1) by (metis surj_pair)
  have "\<not> length (k_order (run_kahn g)) < length nodes"
  proof
    assume "length (k_order (run_kahn g)) < length nodes"
    from cycle_found [OF g this] obtain p where p: "closed_walk (dep_edges nodes) p" by blast
    then obtain x y xs where "p = x # y # xs"
      by (cases p; cases "tl p") (auto simp: closed_walk_def)
    then have "(x, x) \<in> (dep_edges nodes)\<^sup>+" using p closed_walk_trancl [of "dep_edges nodes" x "y # xs"]
      by (auto simp: closed_walk_def)
    then show False using ok by (auto simp: acyclic_def)
  qed
  then show "\<exists>result. topoSort nodes = Inr result" by (auto simp: topoSort_def g Let_def)
qed


text \<open>A diamond, and a triangle with a node that hangs off it.\<close>

definition diamond :: "dag_node list" where
  "diamond = [\<lparr>node_name = ''d'', node_deps = Some [''b'', ''c'']\<rparr>, \<lparr>node_name = ''b'', node_deps = Some [''a'']\<rparr>,
     \<lparr>node_name = ''c'', node_deps = Some [''a'']\<rparr>, \<lparr>node_name = ''a'', node_deps = None\<rparr>]"

definition triangle :: "dag_node list" where
  "triangle = [\<lparr>node_name = ''x'', node_deps = Some [''a'']\<rparr>, \<lparr>node_name = ''a'', node_deps = Some [''c'']\<rparr>,
     \<lparr>node_name = ''b'', node_deps = Some [''a'']\<rparr>, \<lparr>node_name = ''c'', node_deps = Some [''b'']\<rparr>]"

lemma diamond_sorted: "map_sum id (map node_name) (topoSort diamond) = Inr [''a'', ''b'', ''c'', ''d'']"
  by code_simp

lemma triangle_cycle: "topoSort triangle = Inl (CycleError [''a'', ''b'', ''c'', ''a''])"
  by code_simp

theorem topoSort_order_witness:
  "\<exists>r. topoSort diamond = Inr r \<and> mset r = mset diamond"
proof (cases "topoSort diamond")
  case (Inr r)
  then show ?thesis using topoSort_order [OF Inr] by simp
qed (use diamond_sorted in simp)

theorem topoSort_cycle_witness: "closed_walk (dep_edges triangle) [''a'', ''b'', ''c'', ''a'']"
  by (rule topoSort_cycle [OF triangle_cycle])

end
