(* ===== verification/Js_Values.thy ===== *)
theory Js_Values
  imports Numbers Validation Strings
begin

text \<open>
  JavaScript values as job payloads (\<open>D\<close> and \<open>R\<close> of \<open>src/testing.ts\<close>), the tests the code makes
  on them, and the error classes of \<open>src/errors.ts\<close>. A serializer maps values to UTF-16 text and
  back and may throw on either way.
\<close>

section \<open>Values\<close>

text \<open>
  \<open>JObj\<close> is a plain object, \<open>JInst\<close> an object with another prototype; both list their own
  enumerable fields in insertion order.
\<close>

datatype js =
    JUndef
  | JNull
  | JBool bool
  | JNum jsnum
  | JStr string
  | JArr "js list"
  | JObj "(string \<times> js) list"
  | JInst "(string \<times> js) list"

definition isPlainStepPayload :: "js \<Rightarrow> bool" where
  "isPlainStepPayload v = (case v of JObj _ \<Rightarrow> True | _ \<Rightarrow> False)"

definition js_fields :: "js \<Rightarrow> (string \<times> js) list" where
  "js_fields v = (case v of JObj fs \<Rightarrow> fs | JInst fs \<Rightarrow> fs | _ \<Rightarrow> [])"

definition js_field :: "js \<Rightarrow> string \<Rightarrow> js" where
  "js_field v k = (case jm_get (js_fields v) k of Some x \<Rightarrow> x | None \<Rightarrow> JUndef)"

text \<open>\<open>{ ...data, step }\<close> of a plain object.\<close>

definition with_step :: "js \<Rightarrow> string \<Rightarrow> js" where
  "with_step v step = JObj (jm_set ''step'' (JStr step) (js_fields v))"

text \<open>
  Strict equality: NaN equals nothing and objects are compared by identity. A stored payload is
  a fresh copy, so an object in a filter never equals one in the data.
\<close>

definition strict_eq :: "js \<Rightarrow> js \<Rightarrow> bool" where
  "strict_eq a b =
     (case a of
        JArr _ \<Rightarrow> False | JObj _ \<Rightarrow> False | JInst _ \<Rightarrow> False
      | JNum x \<Rightarrow> x \<noteq> NaN \<and> b = JNum x
      | _ \<Rightarrow> a = b)"

definition matchesData :: "js \<Rightarrow> (string \<times> js) list \<Rightarrow> bool" where
  "matchesData d flt = list_all (\<lambda>(k, v). strict_eq (js_field d k) v) flt"

text \<open>
  \<open>JSON.parse(JSON.stringify(v))\<close>: \<open>None\<close> for a value that is left out. In an array an omitted
  value becomes \<open>null\<close>, as do NaN and the infinities; an instance becomes a plain object.
\<close>

fun json_copy :: "js \<Rightarrow> js option"
  and json_items :: "js list \<Rightarrow> js list"
  and json_fields :: "(string \<times> js) list \<Rightarrow> (string \<times> js) list"
where
  "json_copy JUndef = None"
| "json_copy JNull = Some JNull"
| "json_copy (JBool b) = Some (JBool b)"
| "json_copy (JNum x) = Some (if is_finite x then JNum x else JNull)"
| "json_copy (JStr s) = Some (JStr s)"
| "json_copy (JArr xs) = Some (JArr (json_items xs))"
| "json_copy (JObj fs) = Some (JObj (json_fields fs))"
| "json_copy (JInst fs) = Some (JObj (json_fields fs))"
| "json_items [] = []"
| "json_items (x # xs) = (case json_copy x of None \<Rightarrow> JNull | Some v \<Rightarrow> v) # json_items xs"
| "json_fields [] = []"
| "json_fields ((k, x) # fs) = (case json_copy x of None \<Rightarrow> json_fields fs | Some v \<Rightarrow> (k, v) # json_fields fs)"

section \<open>Errors\<close>

datatype js_error =
    PlainError (err_name: string) (err_message: string) (err_delayMs: "rat option")
  | GlideMQError (err_message: string)
  | ConnectionError (err_message: string)
  | UnrecoverableError (err_message: string)
  | BatchError "batch_result list"
  | DelayedError rat
  | WaitingChildrenError
  | SuspendError
  | RateLimitError (err_delayMs: "rat option")
  | GroupRateLimitError rat string string string
and batch_result = BatchValue js | BatchFailure js_error

definition message_of :: "js_error \<Rightarrow> string" where
  "message_of e = (case e of
     PlainError _ m _ \<Rightarrow> m | GlideMQError m \<Rightarrow> m | ConnectionError m \<Rightarrow> m | UnrecoverableError m \<Rightarrow> m
   | BatchError _ \<Rightarrow> ''Batch processor reported per-job results''
   | DelayedError _ \<Rightarrow> ''Job moved to delayed state''
   | WaitingChildrenError \<Rightarrow> ''Job moved to waiting-children state''
   | SuspendError \<Rightarrow> ''Job suspended''
   | RateLimitError _ \<Rightarrow> ''Rate limit exceeded''
   | GroupRateLimitError _ _ _ _ \<Rightarrow> ''group rate limited'')"

definition name_of :: "js_error \<Rightarrow> string" where
  "name_of e = (case e of
     PlainError n _ _ \<Rightarrow> n | GlideMQError _ \<Rightarrow> ''GlideMQError'' | ConnectionError _ \<Rightarrow> ''ConnectionError''
   | UnrecoverableError _ \<Rightarrow> ''UnrecoverableError'' | BatchError _ \<Rightarrow> ''BatchError''
   | DelayedError _ \<Rightarrow> ''DelayedError'' | WaitingChildrenError \<Rightarrow> ''WaitingChildrenError''
   | SuspendError \<Rightarrow> ''SuspendError'' | RateLimitError _ \<Rightarrow> ''RateLimitError''
   | GroupRateLimitError _ _ _ _ \<Rightarrow> ''GroupRateLimitError'')"

text \<open>The \<open>delayMs\<close> property the failure path reads; absent on the other classes.\<close>

definition delay_of :: "js_error \<Rightarrow> rat option" where
  "delay_of e = (case e of PlainError _ _ d \<Rightarrow> d | RateLimitError d \<Rightarrow> d | GroupRateLimitError d _ _ _ \<Rightarrow> Some d
   | _ \<Rightarrow> None)"

text \<open>The constructors that check their arguments.\<close>

definition new_DelayedError :: "jsnum \<Rightarrow> js_error" where
  "new_DelayedError t =
     (case t of
        Num q \<Rightarrow> if q < 0 then GlideMQError ''DelayedError requires a finite Unix millisecond timestamp >= 0''
                 else DelayedError q
      | _ \<Rightarrow> GlideMQError ''DelayedError requires a finite Unix millisecond timestamp >= 0'')"

record group_rate_opts =
  g_currentJob :: "string option"
  g_requeuePosition :: "string option"
  g_extend :: "string option"

definition or_else :: "'a option \<Rightarrow> 'a \<Rightarrow> 'a" where
  "or_else x d = (case x of Some v \<Rightarrow> v | None \<Rightarrow> d)"

lemma or_else_simps [simp]: "or_else None d = d" "or_else (Some v) d = v"
  by (simp_all add: or_else_def)

definition new_GroupRateLimitError :: "jsnum \<Rightarrow> group_rate_opts \<Rightarrow> js_error" where
  "new_GroupRateLimitError d o' =
     (case d of
        Num q \<Rightarrow> if q \<le> 0 then GlideMQError ''GroupRateLimitError requires a positive finite duration in milliseconds''
                 else GroupRateLimitError q (or_else (g_currentJob o') ''requeue'')
                        (or_else (g_requeuePosition o') ''front'') (or_else (g_extend o') ''max'')
      | _ \<Rightarrow> GlideMQError ''GroupRateLimitError requires a positive finite duration in milliseconds'')"

definition err :: "string \<Rightarrow> js_error" where
  "err m = PlainError ''Error'' m None"

lemma message_of_err [simp]: "message_of (err m) = m"
  by (simp add: message_of_def err_def)

end
