(* ===== verification/Tq_State.thy ===== *)
theory Tq_State
  imports Js_Values Usage Schedule
begin

text \<open>
  The state of a \<open>TestQueue\<close> (\<open>src/testing.ts\<close>). Job records are mutable objects compared by
  identity, so they live in a store addressed by references: \<open>q_jobs\<close> maps an id to the reference
  of its record and \<open>q_waiting\<close> lists references. Option objects are shared between a record and
  the handles made from it, so they have a store of their own. Timers are entries of maps that
  say when they fire; events are appended to a log, and a wake-up of the workers is an event.
\<close>

section \<open>Records\<close>

datatype job_state =
  Waiting | Prioritized | Active | Completed | Failed | Delayed | Suspended | WaitingChildren

record chunk =
  c_id :: string
  c_fields :: "(string, string) jsmap"

record signal_entry =
  sg_name :: string
  sg_data :: js
  sg_receivedAt :: int

record job =
  j_id :: string
  j_name :: string
  j_data :: js
  j_opts :: nat
  j_state :: job_state
  j_attemptsMade :: nat
  j_returnvalue :: js
  j_failedReason :: "string option"
  j_timestamp :: int
  j_finishedOn :: "int option"
  j_processedOn :: "int option"
  j_expireAt :: "rat option"
  j_fallbackIndex :: nat
  j_streamChunks :: "chunk list"
  j_streamCounter :: nat
  j_signals :: "signal_entry list"
  j_suspendReason :: "string option"
  j_suspendedAt :: "int option"
  j_suspendTimeout :: "rat option"
  j_budgetKey :: "string option"
  j_usage :: "job_usage option"
  j_usageReportedAt :: "int option"
  j_vectors :: "(string, rat list) jsmap"
  j_progress :: js
  j_delayedUntil :: "rat option"
  j_logs :: "utf16 list"
  j_schedulerName :: "string option"
  j_revoked :: bool
  j_movedToFailed :: "js_error option"
  j_movedToWaitingChildren :: bool
  j_parentId :: "string option"
  j_parentQueue :: "string option"
  j_depsPrefix :: "string option"
  j_parents :: "parent_ref list"
  j_deps :: "(string, parent_ref) jsmap"
  j_depsDone :: "string list"

record budget =
  b_maxTotalTokens :: "jsnum option"
  b_maxTokens :: "(string, jsnum) jsmap option"
  b_tokenWeights :: "(string, jsnum) jsmap option"
  b_maxTotalCost :: "jsnum option"
  b_maxCosts :: "(string, jsnum) jsmap option"
  b_costUnit :: "string option"
  b_usedTokens :: rat
  b_usedCost :: rat
  b_usedTokensByCategory :: "(string, rat) jsmap"
  b_usedCostsByCategory :: "(string, rat) jsmap"
  b_exceeded :: bool
  b_pause :: bool

record scheduler_entry =
  se_schedule :: schedule
  se_limit :: "rat option"
  se_iterationCount :: nat
  se_template :: "js job_template option"
  se_lastRun :: "int option"
  se_nextRun :: rat

record metric_bucket =
  m_count :: nat
  m_totalDuration :: int

datatype queue_event =
    EvAdded string
  | EvWake
  | EvPromoted string
  | EvRemoved string
  | EvDelayChanged string rat
  | EvPriorityChanged string jsnum
  | EvRevoked string
  | EvDrained nat
  | EvResumed string string
  | EvWaitingChildren string
  | EvSuspended string "string option"
  | EvCompleted string js
  | EvFailed string js_error
  | EvRetrying string js_error

record suspend_timer =
  st_ref :: nat
  st_fireAt :: rat
  st_left :: rat

record tq =
  q_name :: string
  q_dedup :: bool
  q_serializer :: "js serializer"
  q_dlqOption :: "string option"
  q_rec :: "nat \<Rightarrow> job"
  q_next :: nat
  q_opts :: "nat \<Rightarrow> job_options"
  q_nextOpts :: nat
  q_jobs :: "(string, nat) jsmap"
  q_dedupEntries :: "(string, string \<times> int) jsmap"
  q_waiting :: "nat list"
  q_budgets :: "(string, budget) jsmap"
  q_idCounter :: nat
  q_paused :: bool
  q_dlqName :: "string option"
  q_indexField :: "string option option"
  q_completedMetrics :: "(int, metric_bucket) jsmap"
  q_failedMetrics :: "(int, metric_bucket) jsmap"
  q_workers :: "string list"
  q_schedulers :: "(string, scheduler_entry) jsmap"
  q_schedulerTimer :: "rat option"
  q_schedulerRunning :: bool
  q_suspendTimers :: "(string, suspend_timer) jsmap"
  q_promotions :: "(string, nat \<times> rat) jsmap"
  q_events :: "queue_event list"

section \<open>Reading and writing records\<close>

definition upd :: "nat \<Rightarrow> (job \<Rightarrow> job) \<Rightarrow> tq \<Rightarrow> tq" where
  "upd r f q = q\<lparr>q_rec := (q_rec q)(r := f (q_rec q r))\<rparr>"

definition set_state :: "nat \<Rightarrow> job_state \<Rightarrow> tq \<Rightarrow> tq" where
  "set_state r s = upd r (\<lambda>j. j\<lparr>j_state := s\<rparr>)"

definition emit :: "queue_event \<Rightarrow> tq \<Rightarrow> tq" where
  "emit e q = q\<lparr>q_events := q_events q @ [e]\<rparr>"

definition lookup :: "tq \<Rightarrow> string \<Rightarrow> nat option" where
  "lookup q i = jm_get (q_jobs q) i"

definition state_of :: "tq \<Rightarrow> nat \<Rightarrow> job_state" where
  "state_of q r = j_state (q_rec q r)"

definition id_of :: "tq \<Rightarrow> nat \<Rightarrow> string" where
  "id_of q r = j_id (q_rec q r)"

text \<open>\<open>this.jobs.get(record.id) === record\<close>\<close>

definition current :: "tq \<Rightarrow> nat \<Rightarrow> bool" where
  "current q r \<longleftrightarrow> lookup q (id_of q r) = Some r"

definition opts_of :: "tq \<Rightarrow> nat \<Rightarrow> job_options" where
  "opts_of q r = q_opts q (j_opts (q_rec q r))"

definition prio :: "tq \<Rightarrow> nat \<Rightarrow> rat" where
  "prio q r = num_or 0 (priority (opts_of q r))"

definition is_lifo :: "tq \<Rightarrow> nat \<Rightarrow> bool" where
  "is_lifo q r = lifo (opts_of q r)"

text \<open>The records of \<open>this.jobs.values()\<close>, in insertion order.\<close>

definition records :: "tq \<Rightarrow> nat list" where
  "records q = map snd (q_jobs q)"

definition MAX_TIMEOUT_DELAY_MS :: rat where "MAX_TIMEOUT_DELAY_MS = 2147483647"

section \<open>Well-formed queues\<close>

text \<open>
  What holds of every queue: ids map to their own records, references are allocated, the maps
  have distinct keys.
\<close>

definition tq_wf :: "tq \<Rightarrow> bool" where
  "tq_wf q \<longleftrightarrow>
     jm_wf (q_jobs q) \<and> (\<forall>i r. lookup q i = Some r \<longrightarrow> id_of q r = i \<and> r < q_next q) \<and>
     (\<forall>r \<in> set (q_waiting q). r < q_next q) \<and>
     jm_wf (q_promotions q) \<and> jm_wf (q_suspendTimers q) \<and>
     (\<forall>i r t. jm_get (q_promotions q) i = Some (r, t) \<longrightarrow> id_of q r = i \<and> r < q_next q)"

text \<open>
  No job is stranded: a waiting job has a dispatch entry or is held by a worker that claimed it
  for a batch (\<open>H\<close>), a prioritized job has a dispatch entry, a delayed job has a promotion timer
  for its record.
\<close>

definition placed :: "nat set \<Rightarrow> tq \<Rightarrow> string \<Rightarrow> nat \<Rightarrow> bool" where
  "placed H q i r \<longleftrightarrow>
     (state_of q r = Waiting \<longrightarrow> r \<in> set (q_waiting q) \<or> r \<in> H) \<and>
     (state_of q r = Prioritized \<longrightarrow> r \<in> set (q_waiting q)) \<and>
     (state_of q r = Delayed \<longrightarrow> (\<exists>t. jm_get (q_promotions q) i = Some (r, t)))"

definition dispatchable :: "nat set \<Rightarrow> tq \<Rightarrow> bool" where
  "dispatchable H q \<longleftrightarrow> (\<forall>i r. lookup q i = Some r \<longrightarrow> placed H q i r)"

lemma tq_wf_keys: "tq_wf q \<Longrightarrow> jm_wf (q_jobs q)"
  by (simp add: tq_wf_def)

lemma jobs_mem: "tq_wf q \<Longrightarrow> (i, r) \<in> set (q_jobs q) \<longleftrightarrow> lookup q i = Some r"
  unfolding lookup_def by (rule jm_mem_get) (rule tq_wf_keys)

lemma records_lookup:
  assumes "tq_wf q"
  shows "r \<in> set (records q) \<longleftrightarrow> (\<exists>i. lookup q i = Some r)"
proof -
  have "r \<in> set (records q) \<longleftrightarrow> (\<exists>i. (i, r) \<in> set (q_jobs q))"
    unfolding records_def by force
  then show ?thesis by (simp only: jobs_mem [OF assms])
qed

lemma current_iff: "tq_wf q \<Longrightarrow> current q r \<longleftrightarrow> (\<exists>i. lookup q i = Some r)"
  by (auto simp: current_def tq_wf_def)

lemma current_records: "tq_wf q \<Longrightarrow> current q r \<longleftrightarrow> r \<in> set (records q)"
  by (simp add: current_iff records_lookup)

lemma lookup_id: "tq_wf q \<Longrightarrow> lookup q i = Some r \<Longrightarrow> id_of q r = i"
  by (simp add: tq_wf_def)

lemma lookup_inj: "tq_wf q \<Longrightarrow> lookup q i = Some r \<Longrightarrow> lookup q k = Some r \<Longrightarrow> i = k"
  by (metis lookup_id)

lemma distinct_records:
  assumes "tq_wf q"
  shows "distinct (records q)"
proof -
  have d: "distinct (map fst (q_jobs q))"
    by (rule tq_wf_keys [OF assms])
  have "x = y" if "x \<in> set (q_jobs q)" "y \<in> set (q_jobs q)" "snd x = snd y" for x y
    using that lookup_inj [OF assms] jobs_mem [OF assms] by (metis prod.collapse)
  then have "inj_on snd (set (q_jobs q))"
    by (rule inj_onI)
  then show ?thesis
    using d by (simp add: records_def distinct_map)
qed

section \<open>Frame lemmas\<close>

lemma upd_sel [simp]:
  "q_jobs (upd r f q) = q_jobs q" "q_waiting (upd r f q) = q_waiting q" "q_next (upd r f q) = q_next q"
  "q_promotions (upd r f q) = q_promotions q" "q_suspendTimers (upd r f q) = q_suspendTimers q"
  "q_opts (upd r f q) = q_opts q" "q_events (upd r f q) = q_events q" "q_paused (upd r f q) = q_paused q"
  "q_rec (upd r f q) r' = (if r' = r then f (q_rec q r) else q_rec q r')"
  "lookup (upd r f q) i = lookup q i" "records (upd r f q) = records q"
  by (simp_all add: upd_def lookup_def records_def)

lemma set_state_sel [simp]:
  "q_jobs (set_state r s q) = q_jobs q" "q_waiting (set_state r s q) = q_waiting q"
  "q_next (set_state r s q) = q_next q" "q_promotions (set_state r s q) = q_promotions q"
  "q_suspendTimers (set_state r s q) = q_suspendTimers q" "q_opts (set_state r s q) = q_opts q"
  "q_events (set_state r s q) = q_events q" "q_paused (set_state r s q) = q_paused q"
  "lookup (set_state r s q) i = lookup q i" "records (set_state r s q) = records q"
  "state_of (set_state r s q) r' = (if r' = r then s else state_of q r')"
  "id_of (set_state r s q) r' = id_of q r'"
  "opts_of (set_state r s q) r' = opts_of q r'"
  "prio (set_state r s q) r' = prio q r'" "is_lifo (set_state r s q) r' = is_lifo q r'"
  "current (set_state r s q) r' = current q r'"
  by (simp_all add: set_state_def state_of_def id_of_def opts_of_def prio_def is_lifo_def current_def)

lemma emit_sel [simp]:
  "q_jobs (emit e q) = q_jobs q" "q_waiting (emit e q) = q_waiting q" "q_rec (emit e q) = q_rec q"
  "q_next (emit e q) = q_next q" "q_promotions (emit e q) = q_promotions q"
  "q_suspendTimers (emit e q) = q_suspendTimers q" "q_opts (emit e q) = q_opts q"
  "q_events (emit e q) = q_events q @ [e]" "q_paused (emit e q) = q_paused q"
  "lookup (emit e q) i = lookup q i" "records (emit e q) = records q"
  "state_of (emit e q) r = state_of q r" "id_of (emit e q) r = id_of q r"
  "opts_of (emit e q) r = opts_of q r" "prio (emit e q) r = prio q r" "is_lifo (emit e q) r = is_lifo q r"
  "current (emit e q) r = current q r"
  by (simp_all add: emit_def lookup_def records_def state_of_def id_of_def opts_of_def prio_def is_lifo_def current_def)

lemma tq_wf_emit [simp]: "tq_wf (emit e q) = tq_wf q"
  by (simp add: tq_wf_def)

lemma dispatchable_emit [simp]: "dispatchable H (emit e q) = dispatchable H q"
  by (simp add: dispatchable_def placed_def)

lemma upd_id: "(\<And>j. j_id (f j) = j_id j) \<Longrightarrow> id_of (upd r f q) r' = id_of q r'"
  by (simp add: id_of_def)

lemma tq_wf_upd: "(\<And>j. j_id (f j) = j_id j) \<Longrightarrow> tq_wf (upd r f q) = tq_wf q"
  by (simp add: tq_wf_def upd_id)

lemma tq_wf_set_state [simp]: "tq_wf (set_state r s q) = tq_wf q"
  by (simp add: set_state_def tq_wf_upd)

lemma dispatchable_upd:
  assumes "\<And>j. j_state (f j) = j_state j"
  shows "dispatchable H (upd r f q) = dispatchable H q"
proof -
  have "state_of (upd r f q) r' = state_of q r'" for r'
    by (simp add: state_of_def assms)
  then show ?thesis
    by (simp add: dispatchable_def placed_def)
qed

end
