(* ===== verification/Tq_Dispatch.thy ===== *)
theory Tq_Dispatch
  imports Tq_State
begin

text \<open>
  The dispatch queue of a \<open>TestQueue\<close> (\<open>src/testing.ts\<close>): entering and leaving it, promotion of
  prioritized and delayed jobs, which job a worker takes next, and the order in which waiting
  jobs are listed.
\<close>

section \<open>Entering and leaving the queue\<close>

definition dequeueRecord :: "nat \<Rightarrow> tq \<Rightarrow> tq" where
  "dequeueRecord r q = q\<lparr>q_waiting := filter (\<lambda>x. id_of q x \<noteq> id_of q r) (q_waiting q)\<rparr>"

definition push_waiting :: "nat \<Rightarrow> tq \<Rightarrow> tq" where
  "push_waiting r q = q\<lparr>q_waiting := q_waiting q @ [r]\<rparr>"

definition enqueueWaiting :: "nat \<Rightarrow> tq \<Rightarrow> tq" where
  "enqueueWaiting r q =
     (let q' = push_waiting r (set_state r Waiting (dequeueRecord r q))
      in if q_paused q' then q' else emit EvWake q')"

definition enqueuePrioritized :: "nat \<Rightarrow> tq \<Rightarrow> tq" where
  "enqueuePrioritized r q = emit EvWake (push_waiting r (set_state r Prioritized (dequeueRecord r q)))"

definition promote_one :: "nat \<Rightarrow> tq \<Rightarrow> tq" where
  "promote_one r q =
     (if state_of q r \<noteq> Prioritized \<or> \<not> current q r then q
      else emit (EvPromoted (id_of q r)) (set_state r Waiting q))"

definition promotePrioritized :: "tq \<Rightarrow> tq" where
  "promotePrioritized q = fold promote_one (q_waiting q) q"

section \<open>Delays\<close>

definition clearPromotion :: "string \<Rightarrow> tq \<Rightarrow> tq" where
  "clearPromotion i q = q\<lparr>q_promotions := jm_delete i (q_promotions q)\<rparr>"

definition promotion_wait :: "rat \<Rightarrow> rat" where
  "promotion_wait delayMs = min (max 0 delayMs) MAX_TIMEOUT_DELAY_MS"

definition schedulePromotion :: "nat \<Rightarrow> rat \<Rightarrow> int \<Rightarrow> tq \<Rightarrow> tq" where
  "schedulePromotion r delayMs now q =
     (let due = of_int now + promotion_wait delayMs;
          q' = upd r (\<lambda>j. j\<lparr>j_delayedUntil := Some due\<rparr>) (clearPromotion (id_of q r) q)
      in q'\<lparr>q_promotions := jm_set (id_of q r) (r, due) (q_promotions q')\<rparr>)"

text \<open>The callback of the promotion timer of the record \<open>r\<close> stored under its id.\<close>

definition promotion_fires :: "nat \<Rightarrow> tq \<Rightarrow> tq" where
  "promotion_fires r q =
     (let q1 = clearPromotion (id_of q r) q
      in if \<not> current q1 r \<or> state_of q1 r \<noteq> Delayed then q1
         else
           let q2 = dequeueRecord r (upd r (\<lambda>j. j\<lparr>j_delayedUntil := None\<rparr>) q1);
               q3 = emit (EvPromoted (id_of q r)) (push_waiting r (set_state r Waiting q2))
           in if q_paused q3 then q3 else emit EvWake q3)"

definition parkDelayed :: "nat \<Rightarrow> rat \<Rightarrow> int \<Rightarrow> tq \<Rightarrow> tq" where
  "parkDelayed r delayMs now q = schedulePromotion r delayMs now (set_state r Delayed (dequeueRecord r q))"

definition parkActiveDelayed :: "nat \<Rightarrow> rat \<Rightarrow> int \<Rightarrow> tq \<Rightarrow> tq" where
  "parkActiveDelayed r delayMs now q = emit (EvDelayChanged (id_of q r) delayMs) (parkDelayed r delayMs now q)"

definition releaseDelayed :: "nat \<Rightarrow> bool \<Rightarrow> tq \<Rightarrow> tq" where
  "releaseDelayed r toPrioritized q =
     (let q' = upd r (\<lambda>j. j\<lparr>j_delayedUntil := None\<rparr>) (clearPromotion (id_of q r) q)
      in if toPrioritized then enqueuePrioritized r q'
         else emit (EvPromoted (id_of q r)) (enqueueWaiting r q'))"

definition clearSuspendedTimeout :: "string \<Rightarrow> tq \<Rightarrow> tq" where
  "clearSuspendedTimeout i q = q\<lparr>q_suspendTimers := jm_delete i (q_suspendTimers q)\<rparr>"

definition delete_job :: "string \<Rightarrow> tq \<Rightarrow> tq" where
  "delete_job i q = q\<lparr>q_jobs := jm_delete i (q_jobs q)\<rparr>"

definition removeJob :: "string \<Rightarrow> tq \<Rightarrow> tq \<times> bool" where
  "removeJob i q =
     (case lookup q i of
        None \<Rightarrow> (q, False)
      | Some r \<Rightarrow>
          (emit (EvRemoved i)
             (delete_job i (dequeueRecord r (clearSuspendedTimeout i (clearPromotion i q)))), True))"

section \<open>Taking the next job\<close>

text \<open>The entries that still stand for a waiting job, each id once.\<close>

fun compact :: "tq \<Rightarrow> string list \<Rightarrow> nat list \<Rightarrow> nat list" where
  "compact q seen [] = []"
| "compact q seen (r # rs) =
     (if state_of q r = Waiting \<and> current q r \<and> id_of q r \<notin> set seen
      then r # compact q (id_of q r # seen) rs
      else compact q seen rs)"

text \<open>
  One step of the scan for the best entry: \<open>best\<close> with \<open>bestPriority\<close>, and the last LIFO entry.
\<close>

definition scan_entry :: "tq \<Rightarrow> nat \<times> nat \<Rightarrow> (nat \<times> rat) option \<times> nat option \<Rightarrow> (nat \<times> rat) option \<times> nat option" where
  "scan_entry q e acc =
     (if is_lifo q (snd e) then (fst acc, Some (fst e))
      else if prio q (snd e) > 0 \<and> (case fst acc of None \<Rightarrow> True | Some b \<Rightarrow> prio q (snd e) < snd b)
      then (Some (fst e, prio q (snd e)), snd acc)
      else acc)"

definition best_entry :: "tq \<Rightarrow> nat list \<Rightarrow> nat option" where
  "best_entry q rs =
     (case fold (scan_entry q) (enumerate 0 rs) (None, None) of
        (Some b, _) \<Rightarrow> Some (fst b)
      | (None, Some l) \<Rightarrow> Some l
      | (None, None) \<Rightarrow> if rs = [] then None else Some 0)"

definition compact_waiting :: "tq \<Rightarrow> tq" where
  "compact_waiting q = q\<lparr>q_waiting := compact q [] (q_waiting q)\<rparr>"

definition nextWaitingIndex :: "tq \<Rightarrow> tq \<times> nat option" where
  "nextWaitingIndex q =
     (let q' = compact_waiting (promotePrioritized q) in (q', best_entry q' (q_waiting q')))"

definition drop_at :: "nat \<Rightarrow> 'a list \<Rightarrow> 'a list" where
  "drop_at i xs = take i xs @ drop (Suc i) xs"

definition takeNextWaiting :: "tq \<Rightarrow> tq \<times> nat option" where
  "takeNextWaiting q =
     (case nextWaitingIndex q of
        (q', None) \<Rightarrow> (q', None)
      | (q', Some i) \<Rightarrow> (q'\<lparr>q_waiting := drop_at i (q_waiting q')\<rparr>, Some (q_waiting q' ! i)))"

definition hasWaiting :: "tq \<Rightarrow> tq \<times> bool" where
  "hasWaiting q = (case nextWaitingIndex q of (q', i) \<Rightarrow> (q', i \<noteq> None))"

section \<open>Listing waiting jobs\<close>

definition live_waiting :: "tq \<Rightarrow> nat list" where
  "live_waiting q =
     (let live = compact q [] (q_waiting q)
      in live @ filter (\<lambda>r. state_of q r = Waiting \<and> id_of q r \<notin> set (map (id_of q) live)) (records q))"

definition dispatch_order :: "tq \<Rightarrow> nat list \<Rightarrow> nat list" where
  "dispatch_order q live =
     sort_key (prio q) (filter (\<lambda>r. \<not> is_lifo q r \<and> prio q r > 0) live)
     @ rev (filter (is_lifo q) live)
     @ filter (\<lambda>r. \<not> is_lifo q r \<and> prio q r = 0) live"

definition waitingInDispatchOrder :: "tq \<Rightarrow> nat list" where
  "waitingInDispatchOrder q = dispatch_order q (live_waiting q)"

section \<open>Frame lemmas\<close>

lemma waiting_update_sel [simp]:
  "q_jobs (q_waiting_update f q) = q_jobs q" "q_rec (q_waiting_update f q) = q_rec q"
  "lookup (q_waiting_update f q) i = lookup q i" "state_of (q_waiting_update f q) r = state_of q r"
  "id_of (q_waiting_update f q) r = id_of q r" "current (q_waiting_update f q) r = current q r"
  "opts_of (q_waiting_update f q) r = opts_of q r" "prio (q_waiting_update f q) r = prio q r"
  "is_lifo (q_waiting_update f q) r = is_lifo q r" "records (q_waiting_update f q) = records q"
  by (simp_all add: lookup_def state_of_def id_of_def current_def opts_of_def prio_def is_lifo_def records_def)

lemma promotions_update_sel [simp]:
  "lookup (q_promotions_update f q) i = lookup q i" "state_of (q_promotions_update f q) r = state_of q r"
  "id_of (q_promotions_update f q) r = id_of q r" "current (q_promotions_update f q) r = current q r"
  "opts_of (q_promotions_update f q) r = opts_of q r" "prio (q_promotions_update f q) r = prio q r"
  "is_lifo (q_promotions_update f q) r = is_lifo q r" "records (q_promotions_update f q) = records q"
  by (simp_all add: lookup_def state_of_def id_of_def current_def opts_of_def prio_def is_lifo_def records_def)

lemma suspendTimers_update_sel [simp]:
  "lookup (q_suspendTimers_update f q) i = lookup q i" "state_of (q_suspendTimers_update f q) r = state_of q r"
  "id_of (q_suspendTimers_update f q) r = id_of q r" "current (q_suspendTimers_update f q) r = current q r"
  "opts_of (q_suspendTimers_update f q) r = opts_of q r" "records (q_suspendTimers_update f q) = records q"
  by (simp_all add: lookup_def state_of_def id_of_def current_def opts_of_def records_def)

text \<open>The fields that no operation of the dispatch queue touches.\<close>

definition same_jobs :: "tq \<Rightarrow> tq \<Rightarrow> bool" where
  "same_jobs q q' \<longleftrightarrow>
     q_jobs q' = q_jobs q \<and> q_next q' = q_next q \<and> q_opts q' = q_opts q \<and>
     (\<forall>r. id_of q' r = id_of q r \<and> j_opts (q_rec q' r) = j_opts (q_rec q r))"

lemma same_jobs_refl [simp]: "same_jobs q q"
  by (simp add: same_jobs_def)

lemma same_jobs_trans: "same_jobs a b \<Longrightarrow> same_jobs b c \<Longrightarrow> same_jobs a c"
  by (simp add: same_jobs_def)

lemma same_jobs_sel:
  assumes "same_jobs q q'"
  shows "lookup q' i = lookup q i" and "current q' r = current q r" and "opts_of q' r = opts_of q r"
    and "prio q' r = prio q r" and "is_lifo q' r = is_lifo q r" and "records q' = records q"
    and "id_of q' r = id_of q r" and "q_next q' = q_next q"
  using assms
  by (simp_all add: same_jobs_def lookup_def current_def opts_of_def prio_def is_lifo_def records_def)

text \<open>Well-formedness and placement of a queue in which only the record \<open>r\<close> has moved.\<close>

lemma tq_wf_moved:
  assumes "tq_wf q" and "same_jobs q q'" and "set (q_waiting q') \<subseteq> insert r (set (q_waiting q))"
    and "r < q_next q" and "jm_wf (q_promotions q')" and "jm_wf (q_suspendTimers q')"
    and "\<And>i x t. jm_get (q_promotions q') i = Some (x, t) \<Longrightarrow>
           jm_get (q_promotions q) i = Some (x, t) \<or> (x = r \<and> i = id_of q r)"
  shows "tq_wf q'"
proof -
  have p: "id_of q x = i \<and> x < q_next q" if "jm_get (q_promotions q') i = Some (x, t)" for i x t
    using assms(7) [OF that] assms(1,4) unfolding tq_wf_def by blast
  have w: "x < q_next q" if "x \<in> set (q_waiting q')" for x
    using that assms(1,3,4) unfolding tq_wf_def by blast
  have l: "jm_wf (q_jobs q')" using assms(1,2) by (simp add: tq_wf_def same_jobs_def)
  have k: "id_of q x = i \<and> x < q_next q" if "lookup q i = Some x" for i x
    using that assms(1) by (simp add: tq_wf_def)
  show ?thesis
    unfolding tq_wf_def same_jobs_sel [OF assms(2)]
    using p w l k assms(5,6) by blast
qed

lemma dispatchable_moved:
  assumes "dispatchable H q" and "tq_wf q" and "same_jobs q q'" and "current q r"
    and "\<And>x. x \<noteq> r \<Longrightarrow> state_of q' x = state_of q x"
    and "\<And>x. x \<in> set (q_waiting q) \<Longrightarrow> id_of q x \<noteq> id_of q r \<Longrightarrow> x \<in> set (q_waiting q')"
    and "\<And>i. i \<noteq> id_of q r \<Longrightarrow> jm_get (q_promotions q') i = jm_get (q_promotions q) i"
    and "H \<subseteq> insert r H'"
    and "placed H' q' (id_of q r) r"
  shows "dispatchable H' q'"
  unfolding dispatchable_def
proof (intro allI impI)
  fix i x
  assume "lookup q' i = Some x"
  then have l: "lookup q i = Some x" by (simp add: same_jobs_sel [OF assms(3)])
  have i: "id_of q x = i" by (rule lookup_id [OF assms(2) l])
  show "placed H' q' i x"
  proof (cases "x = r")
    case True
    with i assms(9) show ?thesis by simp
  next
    case False
    then have ni: "i \<noteq> id_of q r" using l assms(4) by (auto simp: current_def)
    have "placed H q i x" using assms(1) l by (simp add: dispatchable_def)
    then show ?thesis
      using assms(5) [OF False] assms(6) [of x] assms(7) [OF ni] assms(8) ni i False
      unfolding placed_def by auto
  qed
qed

lemma same_jobs_steps [simp]:
  "same_jobs q (set_state r s q)" "same_jobs q (emit e q)" "same_jobs q (dequeueRecord r q)"
  "same_jobs q (push_waiting r q)" "same_jobs q (clearPromotion i q)" "same_jobs q (clearSuspendedTimeout i q)"
  by (simp_all add: same_jobs_def set_state_def upd_def emit_def dequeueRecord_def push_waiting_def
      clearPromotion_def clearSuspendedTimeout_def id_of_def)

lemma same_jobs_upd: "(\<And>j. j_id (f j) = j_id j \<and> j_opts (f j) = j_opts j) \<Longrightarrow> same_jobs q (upd r f q)"
  by (simp add: same_jobs_def upd_def id_of_def)

end
