(* ===== verification/Tq_Dispatch_Inv.thy ===== *)
theory Tq_Dispatch_Inv
  imports Tq_Dispatch
begin

text \<open>
  The operations of the dispatch queue keep a \<open>TestQueue\<close> well formed and strand no job.
\<close>

section \<open>What each operation changes\<close>

lemma dequeueRecord_sel [simp]:
  "q_promotions (dequeueRecord r q) = q_promotions q" "q_suspendTimers (dequeueRecord r q) = q_suspendTimers q"
  "q_paused (dequeueRecord r q) = q_paused q" "q_next (dequeueRecord r q) = q_next q"
  "q_opts (dequeueRecord r q) = q_opts q" "q_rec (dequeueRecord r q) = q_rec q"
  "state_of (dequeueRecord r q) x = state_of q x" "id_of (dequeueRecord r q) x = id_of q x"
  "lookup (dequeueRecord r q) i = lookup q i" "current (dequeueRecord r q) x = current q x"
  "q_jobs (dequeueRecord r q) = q_jobs q"
  "q_waiting (dequeueRecord r q) = filter (\<lambda>x. id_of q x \<noteq> id_of q r) (q_waiting q)"
  by (simp_all add: dequeueRecord_def)

lemma push_waiting_sel [simp]:
  "q_promotions (push_waiting r q) = q_promotions q" "q_suspendTimers (push_waiting r q) = q_suspendTimers q"
  "q_paused (push_waiting r q) = q_paused q" "q_next (push_waiting r q) = q_next q"
  "q_opts (push_waiting r q) = q_opts q" "q_rec (push_waiting r q) = q_rec q"
  "state_of (push_waiting r q) x = state_of q x" "id_of (push_waiting r q) x = id_of q x"
  "lookup (push_waiting r q) i = lookup q i" "current (push_waiting r q) x = current q x"
  "q_jobs (push_waiting r q) = q_jobs q" "q_waiting (push_waiting r q) = q_waiting q @ [r]"
  by (simp_all add: push_waiting_def)

lemma clearPromotion_sel [simp]:
  "q_promotions (clearPromotion i q) = jm_delete i (q_promotions q)"
  "q_suspendTimers (clearPromotion i q) = q_suspendTimers q"
  "q_paused (clearPromotion i q) = q_paused q" "q_next (clearPromotion i q) = q_next q"
  "q_opts (clearPromotion i q) = q_opts q" "q_rec (clearPromotion i q) = q_rec q"
  "state_of (clearPromotion i q) x = state_of q x" "id_of (clearPromotion i q) x = id_of q x"
  "lookup (clearPromotion i q) k = lookup q k" "current (clearPromotion i q) x = current q x"
  "q_jobs (clearPromotion i q) = q_jobs q" "q_waiting (clearPromotion i q) = q_waiting q"
  by (simp_all add: clearPromotion_def)

lemma clearSuspendedTimeout_sel [simp]:
  "q_promotions (clearSuspendedTimeout i q) = q_promotions q"
  "q_suspendTimers (clearSuspendedTimeout i q) = jm_delete i (q_suspendTimers q)"
  "q_paused (clearSuspendedTimeout i q) = q_paused q" "q_next (clearSuspendedTimeout i q) = q_next q"
  "q_opts (clearSuspendedTimeout i q) = q_opts q" "q_rec (clearSuspendedTimeout i q) = q_rec q"
  "state_of (clearSuspendedTimeout i q) x = state_of q x" "id_of (clearSuspendedTimeout i q) x = id_of q x"
  "lookup (clearSuspendedTimeout i q) k = lookup q k" "current (clearSuspendedTimeout i q) x = current q x"
  "q_jobs (clearSuspendedTimeout i q) = q_jobs q" "q_waiting (clearSuspendedTimeout i q) = q_waiting q"
  by (simp_all add: clearSuspendedTimeout_def)

lemma state_upd: "(\<And>j. j_state (f j) = j_state j) \<Longrightarrow> state_of (upd r f q) x = state_of q x"
  by (simp add: state_of_def)

lemma undelay_sel [simp]:
  "state_of (upd r (j_delayedUntil_update g) q) x = state_of q x"
  "id_of (upd r (j_delayedUntil_update g) q) x = id_of q x"
  "current (upd r (j_delayedUntil_update g) q) x = current q x"
  by (simp_all add: state_of_def id_of_def current_def)

lemma same_undelay [simp]: "same_jobs q (upd r (j_delayedUntil_update g) q)"
  by (rule same_jobs_upd) simp

lemmas tq_moves = enqueueWaiting_def enqueuePrioritized_def schedulePromotion_def parkDelayed_def
  parkActiveDelayed_def releaseDelayed_def promotion_fires_def promote_one_def Let_def

lemma same_jobs_promotions [simp]:
  "same_jobs q (q_promotions_update f q') = same_jobs q q'" "same_jobs q (q_waiting_update g q') = same_jobs q q'"
  "same_jobs q (q_suspendTimers_update h q') = same_jobs q q'"
  by (simp_all add: same_jobs_def)

lemma same_jobs_emit [simp]: "same_jobs q (emit e q') = same_jobs q q'"
  by (simp add: same_jobs_def)

lemma same_jobs_moves [simp]:
  "same_jobs q (enqueueWaiting r q)" "same_jobs q (enqueuePrioritized r q)"
  "same_jobs q (schedulePromotion r d now q)" "same_jobs q (promote_one r q)"
proof -
  have a: "same_jobs q (push_waiting r (set_state r s (dequeueRecord r q)))" for s
    by (meson same_jobs_steps same_jobs_trans)
  show "same_jobs q (enqueueWaiting r q)" "same_jobs q (enqueuePrioritized r q)"
    using a by (simp_all add: tq_moves)
  show "same_jobs q (schedulePromotion r d now q)"
    unfolding schedulePromotion_def Let_def same_jobs_promotions
    by (rule same_jobs_trans [OF same_jobs_steps(5) same_undelay])
  show "same_jobs q (promote_one r q)"
    by (simp add: promote_one_def)
qed

lemma same_jobs_parks [simp]:
  "same_jobs q (parkDelayed r d now q)" "same_jobs q (parkActiveDelayed r d now q)"
  "same_jobs q (releaseDelayed r b q)" "same_jobs q (promotion_fires r q)"
proof -
  have a: "same_jobs q (set_state r s (dequeueRecord r q))" for s and q
    by (meson same_jobs_steps same_jobs_trans)
  show p: "same_jobs q (parkDelayed r d now q)"
    unfolding parkDelayed_def by (rule same_jobs_trans [OF a same_jobs_moves(3)])
  show "same_jobs q (parkActiveDelayed r d now q)"
    using p by (simp add: parkActiveDelayed_def)
  have u: "same_jobs q (upd r (j_delayedUntil_update g) (clearPromotion i q))" for g i
    by (rule same_jobs_trans [OF same_jobs_steps(5) same_undelay])
  show "same_jobs q (releaseDelayed r b q)"
    using same_jobs_trans [OF u same_jobs_moves(1)] same_jobs_trans [OF u same_jobs_moves(2)]
    by (simp add: releaseDelayed_def Let_def)
  have "same_jobs q (push_waiting r (set_state r Waiting
          (dequeueRecord r (upd r (j_delayedUntil_update g) (clearPromotion i q)))))" for g i
    by (meson same_jobs_trans [OF u] same_jobs_steps same_jobs_trans)
  then show "same_jobs q (promotion_fires r q)"
    by (simp add: promotion_fires_def Let_def)
qed

lemma same_jobs_promotePrioritized: "same_jobs q (fold promote_one rs q)"
  by (induction rs arbitrary: q) (auto intro: same_jobs_trans [OF same_jobs_moves(4)])

lemma moves_sel [simp]:
  "q_promotions (enqueueWaiting r q) = q_promotions q" "q_suspendTimers (enqueueWaiting r q) = q_suspendTimers q"
  "q_waiting (enqueueWaiting r q) = filter (\<lambda>x. id_of q x \<noteq> id_of q r) (q_waiting q) @ [r]"
  "state_of (enqueueWaiting r q) x = (if x = r then Waiting else state_of q x)"
  "q_promotions (enqueuePrioritized r q) = q_promotions q" "q_suspendTimers (enqueuePrioritized r q) = q_suspendTimers q"
  "q_waiting (enqueuePrioritized r q) = filter (\<lambda>x. id_of q x \<noteq> id_of q r) (q_waiting q) @ [r]"
  "state_of (enqueuePrioritized r q) x = (if x = r then Prioritized else state_of q x)"
  by (simp_all add: enqueueWaiting_def enqueuePrioritized_def Let_def)

lemma schedulePromotion_sel [simp]:
  "q_promotions (schedulePromotion r d now q) =
     jm_set (id_of q r) (r, of_int now + promotion_wait d) (jm_delete (id_of q r) (q_promotions q))"
  "q_suspendTimers (schedulePromotion r d now q) = q_suspendTimers q"
  "q_waiting (schedulePromotion r d now q) = q_waiting q"
  "state_of (schedulePromotion r d now q) x = state_of q x"
  by (simp_all add: schedulePromotion_def Let_def)

lemma parkDelayed_sel [simp]:
  "q_promotions (parkDelayed r d now q) =
     jm_set (id_of q r) (r, of_int now + promotion_wait d) (jm_delete (id_of q r) (q_promotions q))"
  "q_suspendTimers (parkDelayed r d now q) = q_suspendTimers q"
  "q_waiting (parkDelayed r d now q) = filter (\<lambda>x. id_of q x \<noteq> id_of q r) (q_waiting q)"
  "state_of (parkDelayed r d now q) x = (if x = r then Delayed else state_of q x)"
  by (simp_all add: parkDelayed_def)

lemma releaseDelayed_sel [simp]:
  "q_promotions (releaseDelayed r b q) = jm_delete (id_of q r) (q_promotions q)"
  "q_suspendTimers (releaseDelayed r b q) = q_suspendTimers q"
  "q_waiting (releaseDelayed r b q) = filter (\<lambda>x. id_of q x \<noteq> id_of q r) (q_waiting q) @ [r]"
  "state_of (releaseDelayed r b q) x =
     (if x = r then (if b then Prioritized else Waiting) else state_of q x)"
  by (simp_all add: releaseDelayed_def Let_def)

lemma promotion_fires_sel:
  "promotion_fires r q =
     (if \<not> current q r \<or> state_of q r \<noteq> Delayed then clearPromotion (id_of q r) q
      else promotion_fires r q)"
  "current q r \<Longrightarrow> state_of q r = Delayed \<Longrightarrow>
     q_promotions (promotion_fires r q) = jm_delete (id_of q r) (q_promotions q) \<and>
     q_suspendTimers (promotion_fires r q) = q_suspendTimers q \<and>
     q_waiting (promotion_fires r q) = filter (\<lambda>x. id_of q x \<noteq> id_of q r) (q_waiting q) @ [r] \<and>
     state_of (promotion_fires r q) x = (if x = r then Waiting else state_of q x)"
  by (simp_all add: promotion_fires_def Let_def)

section \<open>Well-formedness and placement\<close>

lemma current_next: "tq_wf q \<Longrightarrow> current q r \<Longrightarrow> r < q_next q"
  by (simp add: current_def tq_wf_def)

lemma tq_wf_maps: "tq_wf q \<Longrightarrow> jm_wf (q_promotions q) \<and> jm_wf (q_suspendTimers q)"
  by (simp add: tq_wf_def)

lemma tq_wf_clear [simp]:
  assumes "tq_wf q"
  shows "tq_wf (clearPromotion i q)" and "tq_wf (clearSuspendedTimeout i q)" and "tq_wf (dequeueRecord r q)"
  using assms by (simp_all add: tq_wf_def js_map_simps jm_wf_delete del: map_of_eq_Some_iff)

lemma tq_wf_moves [simp]:
  assumes "tq_wf q" and "r < q_next q"
  shows "tq_wf (enqueueWaiting r q)" and "tq_wf (enqueuePrioritized r q)"
    and "tq_wf (parkDelayed r d now q)" and "tq_wf (releaseDelayed r b q)" and "tq_wf (promotion_fires r q)"
proof -
  note wf = tq_wf_moved [OF assms(1) _ _ assms(2)] and m = tq_wf_maps [OF assms(1)]
  note [simp del] = map_of_eq_Some_iff
  show "tq_wf (enqueueWaiting r q)" by (rule wf) (use m in auto)
  show "tq_wf (enqueuePrioritized r q)" by (rule wf) (use m in auto)
  show "tq_wf (parkDelayed r d now q)"
    by (rule wf) (use m in \<open>auto simp: js_map_simps jm_wf_set jm_wf_delete split: if_splits\<close>)
  show "tq_wf (releaseDelayed r b q)"
    by (rule wf) (use m in \<open>auto simp: js_map_simps jm_wf_delete split: if_splits\<close>)
  show "tq_wf (promotion_fires r q)"
  proof (cases "current q r \<and> state_of q r = Delayed")
    case True
    then show ?thesis
      by (intro wf) (use m promotion_fires_sel(2) [of q r] in
          \<open>auto simp: js_map_simps jm_wf_delete split: if_splits\<close>)
  next
    case False
    then show ?thesis by (simp add: promotion_fires_def Let_def assms(1))
  qed
qed

lemma tq_wf_parkActive [simp]: "tq_wf (parkActiveDelayed r d now q) = tq_wf (parkDelayed r d now q)"
  by (simp add: parkActiveDelayed_def)

lemma dispatchable_parkActive [simp]:
  "dispatchable H (parkActiveDelayed r d now q) = dispatchable H (parkDelayed r d now q)"
  by (simp add: parkActiveDelayed_def)

lemma dispatchable_moves:
  assumes "dispatchable H q" and "tq_wf q" and "current q r"
  shows "dispatchable (H - {r}) (enqueueWaiting r q)" and "dispatchable (H - {r}) (enqueuePrioritized r q)"
    and "dispatchable (H - {r}) (parkDelayed r d now q)" and "dispatchable (H - {r}) (releaseDelayed r b q)"
proof -
  note m = dispatchable_moved [OF assms(1,2) _ assms(3)]
  note [simp del] = map_of_eq_Some_iff
  show "dispatchable (H - {r}) (enqueueWaiting r q)" by (rule m) (auto simp: placed_def)
  show "dispatchable (H - {r}) (enqueuePrioritized r q)" by (rule m) (auto simp: placed_def)
  show "dispatchable (H - {r}) (parkDelayed r d now q)"
    by (rule m) (auto simp: js_map_simps placed_def)
  show "dispatchable (H - {r}) (releaseDelayed r b q)"
    by (rule m) (auto simp: js_map_simps placed_def)
qed

lemma dispatchable_mono: "dispatchable H q \<Longrightarrow> H \<subseteq> H' \<Longrightarrow> dispatchable H' q"
  by (auto simp: dispatchable_def placed_def)

lemma dispatchable_promotion_fires:
  assumes "dispatchable H q" and "tq_wf q" and "jm_get (q_promotions q) (id_of q r) = Some (r, t)"
  shows "dispatchable H (promotion_fires r q)"
proof (cases "current q r \<and> state_of q r = Delayed")
  case True
  note [simp del] = map_of_eq_Some_iff
  show ?thesis
    by (rule dispatchable_moved [OF assms(1,2) _ True [THEN conjunct1]])
       (use True promotion_fires_sel(2) [of q r] in \<open>auto simp: js_map_simps placed_def\<close>)
next
  case False
  then have f: "promotion_fires r q = clearPromotion (id_of q r) q"
    by (simp add: promotion_fires_def Let_def)
  have "placed H (clearPromotion (id_of q r) q) i x" if l: "lookup q i = Some x" for i x
  proof -
    have p: "placed H q i x" using assms(1) l by (simp add: dispatchable_def)
    have i: "id_of q x = i" by (rule lookup_id [OF assms(2) l])
    show ?thesis
    proof (cases "i = id_of q r")
      case True
      have "state_of q x \<noteq> Delayed"
      proof
        assume "state_of q x = Delayed"
        then have "x = r" using p assms(3) True by (auto simp: placed_def)
        with False l i \<open>state_of q x = Delayed\<close> show False by (simp add: current_def)
      qed
      with p show ?thesis by (simp add: placed_def)
    next
      case False
      with p show ?thesis by (simp add: placed_def js_map_simps)
    qed
  qed
  then show ?thesis by (simp add: f dispatchable_def)
qed

end
