(* ===== verification/Tq_Order.thy ===== *)
theory Tq_Order
  imports Tq_Take
begin

text \<open>
  The order in which workers are given jobs is the order in which \<open>getJobs('waiting')\<close> lists them
  (\<open>waitingInDispatchOrder\<close>): priority jobs by number, then LIFO jobs newest first, then the rest
  in order of arrival.
\<close>

section \<open>The scan finds the head of the order\<close>

lemma hd_insort_key: "hd (insort_key f x ys) = (if ys = [] \<or> f x \<le> f (hd ys) then x else hd ys)"
  by (cases ys) auto

lemma hd_sort_key_snoc:
  "hd (sort_key f (ys @ [y])) =
     (if ys = [] \<or> f y < f (hd (sort_key f ys)) then y else hd (sort_key f ys))"
proof (induction ys)
  case (Cons a ys)
  have n: "sort_key f (ys @ [y]) \<noteq> []" using length_sort [of f "ys @ [y]"] by (metis Nil_is_append_conv list.simps(3) length_0_conv)
  have e: "sort_key f ys = [] \<longleftrightarrow> ys = []" by (metis length_sort length_0_conv)
  show ?case
    using Cons n e by (cases "ys = []") (auto simp: hd_insort_key)
qed simp

definition is_prio :: "tq \<Rightarrow> nat \<Rightarrow> bool" where
  "is_prio q r \<longleftrightarrow> \<not> is_lifo q r \<and> prio q r > 0"

definition scan_spec :: "tq \<Rightarrow> nat list \<Rightarrow> (nat \<times> rat) option \<times> nat option \<Rightarrow> bool" where
  "scan_spec q xs acc \<longleftrightarrow>
     (case fst acc of
        None \<Rightarrow> filter (is_prio q) xs = []
      | Some b \<Rightarrow> filter (is_prio q) xs \<noteq> [] \<and> fst b < length xs \<and> snd b = prio q (xs ! fst b) \<and>
                 xs ! fst b = hd (sort_key (prio q) (filter (is_prio q) xs))) \<and>
     (case snd acc of
        None \<Rightarrow> filter (is_lifo q) xs = []
      | Some l \<Rightarrow> filter (is_lifo q) xs \<noteq> [] \<and> l < length xs \<and> xs ! l = last (filter (is_lifo q) xs))"

lemma scan_spec_snoc:
  assumes "scan_spec q xs acc"
  shows "scan_spec q (xs @ [x]) (scan_entry q (length xs, x) acc)"
proof -
  obtain b l where acc: "acc = (b, l)" by (cases acc)
  show ?thesis
    using assms unfolding acc
    by (cases b; cases l) (auto simp: scan_spec_def scan_entry_def nth_append hd_sort_key_snoc is_prio_def)
qed

lemma scan_spec_enumerate: "scan_spec q xs (fold (scan_entry q) (enumerate 0 xs) (None, None))"
proof (induction xs rule: rev_induct)
  case Nil
  show ?case by (simp add: scan_spec_def)
next
  case (snoc x xs)
  have "enumerate 0 (xs @ [x]) = enumerate 0 xs @ [(length xs, x)]"
    by (simp add: enumerate_append_eq)
  then show ?case using scan_spec_snoc [OF snoc, of x] by simp
qed

lemma dispatch_order_prio: "dispatch_order q xs =
    sort_key (prio q) (filter (is_prio q) xs) @ rev (filter (is_lifo q) xs)
      @ filter (\<lambda>r. \<not> is_lifo q r \<and> prio q r = 0) xs"
  by (simp add: dispatch_order_def is_prio_def [abs_def])

lemma best_entry_hd:
  assumes "best_entry q xs = Some i" and "\<forall>r \<in> set xs. 0 \<le> prio q r"
  shows "dispatch_order q xs \<noteq> [] \<and> xs ! i = hd (dispatch_order q xs)"
proof -
  obtain b l where acc: "fold (scan_entry q) (enumerate 0 xs) (None, None) = (b, l)" by fastforce
  have spec: "scan_spec q xs (b, l)" using scan_spec_enumerate [of q xs] acc by simp
  have nil: "sort_key (prio q) ys = [] \<longleftrightarrow> ys = []" for ys by (metis length_sort length_0_conv)
  show ?thesis
  proof (cases b)
    case (Some p)
    then show ?thesis
      using spec assms(1) acc by (auto simp: best_entry_def scan_spec_def dispatch_order_prio nil)
  next
    case b: None
    show ?thesis
    proof (cases l)
      case (Some k)
      then show ?thesis
        using spec assms(1) acc b
        by (auto simp: best_entry_def scan_spec_def dispatch_order_prio hd_rev)
    next
      case None
      then have "xs \<noteq> []" "i = 0" using assms(1) acc b by (auto simp: best_entry_def split: if_splits)
      moreover have "filter (is_prio q) xs = []" "filter (is_lifo q) xs = []"
        using spec b None by (auto simp: scan_spec_def)
      then have "\<not> is_lifo q r \<and> prio q r = 0" if "r \<in> set xs" for r
        using that assms(2) by (auto simp: filter_empty_conv is_prio_def) fastforce
      then have "filter (\<lambda>r. \<not> is_lifo q r \<and> prio q r = 0) xs = xs"
        by (simp add: filter_id_conv)
      ultimately show ?thesis
        using \<open>filter (is_prio q) xs = []\<close> \<open>filter (is_lifo q) xs = []\<close>
        by (simp add: dispatch_order_prio hd_conv_nth)
    qed
  qed
qed

section \<open>Removing an entry from the order\<close>

lemma dispatch_order_filter: "dispatch_order q (filter P xs) = filter P (dispatch_order q xs)"
  by (simp add: dispatch_order_prio filter_sort rev_filter conj_commute)

lemma set_dispatch_order: "\<forall>r \<in> set xs. 0 \<le> prio q r \<Longrightarrow> set (dispatch_order q xs) = set xs"
  by (auto simp: dispatch_order_def)

lemma distinct_dispatch_order: "distinct xs \<Longrightarrow> distinct (dispatch_order q xs)"
  by (auto simp: dispatch_order_def)

lemma filter_remove_middle: "distinct (a @ x # b) \<Longrightarrow> filter (\<lambda>y. y \<noteq> x) (a @ x # b) = a @ b"
  by (auto simp: filter_id_conv intro!: arg_cong2 [where f = append] filter_True)

lemma drop_at_filter:
  assumes "distinct xs" and "i < length xs"
  shows "drop_at i xs = filter (\<lambda>x. x \<noteq> xs ! i) xs"
  using filter_remove_middle [of "take i xs" "xs ! i" "drop (Suc i) xs"] assms
  by (simp add: drop_at_def flip: id_take_nth_drop)

lemma filter_hd: "distinct xs \<Longrightarrow> xs \<noteq> [] \<Longrightarrow> filter (\<lambda>x. x \<noteq> hd xs) xs = tl xs"
  by (cases xs) (auto intro: filter_True)

lemma compact_fun_eqs [simp]:
  "prio (compact_waiting q) = prio q" "is_lifo (compact_waiting q) = is_lifo q"
  "id_of (compact_waiting q) = id_of q"
  by (simp_all add: fun_eq_iff)

lemma dispatch_order_waiting: "dispatch_order (q_waiting_update f q) = dispatch_order q"
proof -
  have "prio (q_waiting_update f q) = prio q" "is_lifo (q_waiting_update f q) = is_lifo q"
    by (simp_all add: fun_eq_iff)
  then show ?thesis by (simp add: dispatch_order_def [abs_def])
qed

section \<open>All takes in a row\<close>

fun take_all :: "nat \<Rightarrow> tq \<Rightarrow> nat list" where
  "take_all 0 q = []"
| "take_all (Suc n) q =
     (case takeNextWaiting q of (q', None) \<Rightarrow> [] | (q', Some r) \<Rightarrow> r # take_all n q')"

text \<open>A queue whose entries all stand for waiting jobs, each once.\<close>

definition compacted :: "tq \<Rightarrow> bool" where
  "compacted q \<longleftrightarrow>
     (\<forall>r \<in> set (q_waiting q). state_of q r = Waiting \<and> current q r) \<and> distinct (map (id_of q) (q_waiting q))"

lemma compacted_compact [simp]: "compacted (compact_waiting q)"
  using distinct_compact [of q "[]" "q_waiting q"] by (auto simp: compacted_def set_compact)

lemma compacted_fix:
  assumes "compacted q"
  shows "compact_waiting (promotePrioritized q) = q"
proof -
  have "fold promote_one rs q = q" if "set rs \<subseteq> set (q_waiting q)" for rs
    using that assms by (induction rs) (auto simp: promote_one_def compacted_def)
  then have "promotePrioritized q = q" by (simp add: promotePrioritized_def)
  moreover have "compact q [] (q_waiting q) = q_waiting q"
    using assms by (intro compact_idem) (auto simp: compacted_def)
  ultimately show ?thesis by (simp add: compact_waiting_def)
qed

lemma take_all_compacted:
  assumes "compacted q" and "\<forall>r \<in> set (q_waiting q). 0 \<le> prio q r" and "length (q_waiting q) \<le> n"
  shows "take_all n q = dispatch_order q (q_waiting q)"
  using assms
proof (induction n arbitrary: q)
  case 0
  then show ?case by (simp add: dispatch_order_def)
next
  case (Suc n)
  let ?xs = "q_waiting q"
  have fx: "compact_waiting (promotePrioritized q) = q" by (rule compacted_fix [OF Suc.prems(1)])
  have d: "distinct ?xs" using Suc.prems(1) by (auto simp: compacted_def distinct_map)
  show ?case
  proof (cases "best_entry q ?xs")
    case None
    then show ?thesis
      using best_entry_None [OF None] fx
      by (simp add: takeNextWaiting_def nextWaitingIndex_def dispatch_order_def)
  next
    case (Some i)
    let ?q = "q\<lparr>q_waiting := drop_at i ?xs\<rparr>"
    have i: "i < length ?xs" by (rule best_entry_index [OF Some])
    have t: "takeNextWaiting q = (?q, Some (?xs ! i))"
      using Some fx by (simp add: takeNextWaiting_def nextWaitingIndex_def)
    have sub: "set (drop_at i ?xs) \<subseteq> set ?xs" by (rule set_drop_at_subset)
    have "compacted ?q"
      using Suc.prems(1) sub drop_at_filter [OF d i]
      by (auto simp: compacted_def distinct_map inj_on_def)
    moreover have "length (drop_at i ?xs) \<le> n" using Suc.prems(3) i by (simp add: drop_at_def)
    ultimately have "take_all n ?q = dispatch_order ?q (drop_at i ?xs)"
      using Suc.IH [of ?q] Suc.prems(2) sub by auto
    also have "\<dots> = filter (\<lambda>x. x \<noteq> ?xs ! i) (dispatch_order q ?xs)"
      by (simp add: drop_at_filter [OF d i] dispatch_order_waiting dispatch_order_filter)
    finally have "take_all n ?q = tl (dispatch_order q ?xs)"
      using best_entry_hd [OF Some Suc.prems(2)] filter_hd [OF distinct_dispatch_order [OF d]] by simp
    with t best_entry_hd [OF Some Suc.prems(2)] show ?thesis by simp
  qed
qed

lemma live_waiting_dispatchable:
  assumes "tq_wf q" and "dispatchable {} q"
  shows "live_waiting q = compact q [] (q_waiting q)"
proof -
  have "r \<in> set (compact q [] (q_waiting q))" if rr: "r \<in> set (records q)" and ww: "state_of q r = Waiting" for r
  proof -
    obtain i where l: "lookup q i = Some r" using records_lookup [OF assms(1), THEN iffD1, OF rr] by (elim exE)
    then have "r \<in> set (q_waiting q)" using assms(2) ww by (auto simp: dispatchable_def placed_def)
    moreover have "current q r" using lookup_id [OF assms(1) l] l by (simp add: current_def)
    ultimately show ?thesis using ww by (simp add: set_compact)
  qed
  then show ?thesis
    by (auto simp: live_waiting_def Let_def filter_empty_conv)
qed

text \<open>
  C3: workers receive jobs in the order the queue lists them. Calling \<open>takeNextWaiting\<close> until it
  returns nothing yields exactly \<open>waitingInDispatchOrder()\<close> of the queue after the promotion pass:
  every waiting job once, priority jobs first (lowest number first, in order of arrival within a
  number), then LIFO jobs newest first, then the others in order of arrival.
\<close>

theorem take_all_dispatch_order:
  assumes "tq_wf q" and "dispatchable {} q" and "\<forall>r \<in> set (q_waiting q). 0 \<le> prio q r"
    and "length (q_waiting q) < n"
  shows "take_all n q = waitingInDispatchOrder (promotePrioritized q)"
proof -
  let ?p = "promotePrioritized q"
  let ?c = "compact_waiting ?p"
  obtain m where n: "n = Suc m" using assms(4) by (cases n) auto
  have le: "length (compact a s rs) \<le> length rs" for a s rs
    by (induction a s rs rule: compact.induct) auto
  have "take_all n q = take_all n ?c"
    using compacted_fix [of ?c] by (simp add: n takeNextWaiting_def nextWaitingIndex_def)
  also have "\<dots> = dispatch_order ?c (q_waiting ?c)"
  proof (rule take_all_compacted)
    show "\<forall>r \<in> set (q_waiting ?c). 0 \<le> prio ?c r" using assms(3) by (auto simp: set_compact)
    show "length (q_waiting ?c) \<le> n" using le [of ?p "[]" "q_waiting q"] assms(4) by simp
  qed simp
  also have "\<dots> = dispatch_order ?p (q_waiting ?c)"
    by (simp add: dispatch_order_def [abs_def])
  also have "q_waiting ?c = live_waiting ?p"
    using assms(1,2) by (simp add: live_waiting_dispatchable dispatchable_promote)
  finally show ?thesis by (simp add: waitingInDispatchOrder_def)
qed

end
