(* ===== verification/Tq_Add.thy ===== *)
theory Tq_Add
  imports Tq_Take
begin

text \<open>
  Creating queues, handles and jobs (\<open>src/testing.ts\<close>): the constructors of \<open>TestQueue\<close> and
  \<open>TestJob\<close>, deduplication, generated ids and \<open>insertRecord\<close>. An operation that may throw
  returns the queue as it left it and the error or the result.
\<close>

section \<open>Constructors\<close>

datatype tq_error =
    Invalid validation_error
  | Js js_error
  | BadUsage usage_error
  | BadSchedule schedule_error
  | RangeError string
  | TypeError string

definition blank_job :: job where
  "blank_job = \<lparr>j_id = [], j_name = [], j_data = JUndef, j_opts = 0, j_state = Waiting, j_attemptsMade = 0,
     j_returnvalue = JUndef, j_failedReason = None, j_timestamp = 0, j_finishedOn = None,
     j_processedOn = None, j_expireAt = None, j_fallbackIndex = 0, j_streamChunks = [],
     j_streamCounter = 0, j_signals = [], j_suspendReason = None, j_suspendedAt = None,
     j_suspendTimeout = None, j_budgetKey = None, j_usage = None, j_usageReportedAt = None,
     j_vectors = [], j_progress = JUndef, j_delayedUntil = None, j_logs = [], j_schedulerName = None,
     j_revoked = False, j_movedToFailed = None, j_movedToWaitingChildren = False, j_parentId = None,
     j_parentQueue = None, j_depsPrefix = None, j_parents = [], j_deps = [], j_depsDone = []\<rparr>"

definition new_TestQueue :: "string \<Rightarrow> bool \<Rightarrow> js serializer \<Rightarrow> string option \<Rightarrow> tq" where
  "new_TestQueue name dedup ser dlq =
     \<lparr>q_name = name, q_dedup = dedup, q_serializer = ser, q_dlqOption = dlq,
      q_rec = (\<lambda>_. blank_job), q_next = 0, q_opts = (\<lambda>_. default_opts), q_nextOpts = 0,
      q_jobs = [], q_dedupEntries = [], q_waiting = [], q_budgets = [], q_idCounter = 0,
      q_paused = False, q_dlqName = None, q_indexField = None, q_completedMetrics = [],
      q_failedMetrics = [], q_workers = [], q_schedulers = [], q_schedulerTimer = None,
      q_schedulerRunning = False, q_suspendTimers = [], q_promotions = [], q_events = []\<rparr>"

text \<open>
  A handle copies the scalar fields of its record; \<open>h_ref\<close> is the record it was made from and
  \<open>h_opts\<close> the option object it shares with it.
\<close>

record test_job =
  h_ref :: nat
  h_id :: string
  h_name :: string
  h_data :: js
  h_opts :: nat
  h_attemptsMade :: nat
  h_returnvalue :: js
  h_failedReason :: "string option"
  h_progress :: js
  h_timestamp :: int
  h_finishedOn :: "int option"
  h_processedOn :: "int option"
  h_expireAt :: "rat option"
  h_fallbackIndex :: nat
  h_usage :: "job_usage option"
  h_tpmTokens :: "rat option"
  h_signals :: "signal_entry list"
  h_budgetKey :: "string option"
  h_schedulerName :: "string option"
  h_parentId :: "string option"
  h_parentQueue :: "string option"
  h_discarded :: bool

definition new_TestJob :: "tq \<Rightarrow> nat \<Rightarrow> test_job" where
  "new_TestJob q r =
     (let j = q_rec q r in
      \<lparr>h_ref = r, h_id = j_id j, h_name = j_name j, h_data = j_data j, h_opts = j_opts j,
       h_attemptsMade = j_attemptsMade j, h_returnvalue = j_returnvalue j,
       h_failedReason = j_failedReason j,
       h_progress = (if j_progress j = JUndef then JNum (Num 0) else j_progress j),
       h_timestamp = j_timestamp j, h_finishedOn = j_finishedOn j, h_processedOn = j_processedOn j,
       h_expireAt = j_expireAt j, h_fallbackIndex = j_fallbackIndex j, h_usage = j_usage j,
       h_tpmTokens = None, h_signals = j_signals j, h_budgetKey = j_budgetKey j,
       h_schedulerName = j_schedulerName j, h_parentId = j_parentId j,
       h_parentQueue = j_parentQueue j, h_discarded = False\<rparr>)"

definition currentFallback :: "tq \<Rightarrow> test_job \<Rightarrow> fallback option" where
  "currentFallback q h =
     (case fallbacks (q_opts q (h_opts h)) of
        None \<Rightarrow> None
      | Some fs \<Rightarrow>
          if h_fallbackIndex h = 0 then None
          else if h_fallbackIndex h - 1 < length fs then Some (fs ! (h_fallbackIndex h - 1)) else None)"

text \<open>A new option object in the store.\<close>

definition alloc_opts :: "job_options \<Rightarrow> tq \<Rightarrow> tq \<times> nat" where
  "alloc_opts o' q =
     (q\<lparr>q_opts := (q_opts q)(q_nextOpts q := o'), q_nextOpts := Suc (q_nextOpts q)\<rparr>, q_nextOpts q)"

section \<open>Generated ids\<close>

text \<open>The counter and the id it yields; after 1000 taken ids the code throws.\<close>

fun next_id :: "nat \<Rightarrow> (string \<Rightarrow> bool) \<Rightarrow> nat \<Rightarrow> nat \<times> string option" where
  "next_id 0 taken c = (c, None)"
| "next_id (Suc n) taken c =
     (if taken (show_nat c) then (if n = 0 then (c, None) else next_id n taken (Suc c))
      else (c, Some (show_nat c)))"

definition generateJobId :: "string list \<Rightarrow> tq \<Rightarrow> tq \<times> (tq_error + string)" where
  "generateJobId reserved q =
     (case next_id 1000 (\<lambda>i. jm_has (q_jobs q) i \<or> i \<in> set reserved) (Suc (q_idCounter q)) of
        (c, None) \<Rightarrow>
          (q\<lparr>q_idCounter := c\<rparr>,
           Inl (Js (err ''Failed to generate job ID: too many collisions with custom job IDs'')))
      | (c, Some i) \<Rightarrow> (q\<lparr>q_idCounter := c\<rparr>, Inr i))"

section \<open>Deduplication\<close>

definition isDeduplicated :: "dedup_opts \<Rightarrow> int \<Rightarrow> tq \<Rightarrow> tq \<times> bool" where
  "isDeduplicated dd now q =
     (case jm_get (q_dedupEntries q) (dd_id dd) of
        None \<Rightarrow> (q, False)
      | Some (jid, timestamp) \<Rightarrow>
          if or_else (dd_mode dd) Simple = Throttle then
            (q, num_or 0 (dd_ttl dd) > 0 \<and> of_int (now - timestamp) < num_or 0 (dd_ttl dd))
          else
            (case lookup q jid of
               None \<Rightarrow> (q, False)
             | Some r \<Rightarrow>
                 if state_of q r = Completed \<or> state_of q r = Failed then (q, False)
                 else if or_else (dd_mode dd) Simple = Debounce
                         \<and> (state_of q r = Delayed \<or> state_of q r = Prioritized)
                 then (fst (removeJob (id_of q r) q), False)
                 else (q, or_else (dd_mode dd) Simple = Simple \<or> or_else (dd_mode dd) Simple = Debounce)))"

section \<open>Inserting a record\<close>

definition new_record ::
  "string \<Rightarrow> string \<Rightarrow> js \<Rightarrow> nat \<Rightarrow> int \<Rightarrow> rat \<Rightarrow> (job \<Rightarrow> job) \<Rightarrow> job"
where
  "new_record i name data o' now life init =
     init (blank_job\<lparr>j_id := i, j_name := name, j_data := data, j_opts := o', j_timestamp := now,
       j_expireAt := (if life > 0 then Some (of_int now + life) else None)\<rparr>)"

definition store_record :: "string \<Rightarrow> job \<Rightarrow> tq \<Rightarrow> tq" where
  "store_record i j q =
     q\<lparr>q_rec := (q_rec q)(q_next q := j), q_next := Suc (q_next q), q_jobs := jm_set i (q_next q) (q_jobs q)\<rparr>"

definition place_record :: "nat \<Rightarrow> rat \<Rightarrow> rat \<Rightarrow> int \<Rightarrow> tq \<Rightarrow> tq" where
  "place_record r dl pr now q =
     (if state_of q r = WaitingChildren then q
      else if dl > 0 then parkDelayed r dl now q
      else if pr > 0 then enqueuePrioritized r q
      else enqueueWaiting r q)"

definition insertRecord ::
  "string \<Rightarrow> utf16 \<Rightarrow> nat \<Rightarrow> string \<Rightarrow> int \<Rightarrow> rat \<Rightarrow> js serializer \<Rightarrow> (job \<Rightarrow> job) \<Rightarrow> tq \<Rightarrow> tq \<times> (tq_error + nat)"
where
  "insertRecord name sdata o' i now dl ser init q =
     (case deserialize ser sdata of
        None \<Rightarrow> (q, Inl (Js (err ''deserialize'')))
      | Some data \<Rightarrow>
          let r = q_next q;
              q1 = store_record i (new_record i name data o' now (num_or 0 (ttl (q_opts q o'))) init) q;
              q2 = place_record r dl (num_or 0 (priority (q_opts q o'))) now q1
          in (emit (EvAdded i) q2, Inr r))"

section \<open>Adding a job\<close>

text \<open>
  The steps of \<open>add\<close> up to the creation of the record: \<open>None\<close> when the add is dropped, otherwise the
  serialized data and the id.
\<close>

definition check_add :: "js \<Rightarrow> job_options \<Rightarrow> tq \<Rightarrow> tq_error + utf16" where
  "check_add data o' q =
     map_sum Invalid id
       (andThen (validateJobPriority (case priority o' of None \<Rightarrow> Num 0 | Some p \<Rightarrow> p)) (\<lambda>_.
        andThen (validateJobOptions o') (\<lambda>_.
        andThen (case serialize (q_serializer q) data of None \<Rightarrow> Inl SerializeFailed | Some s \<Rightarrow> Inr s) (\<lambda>s.
        andThen (validateJobDataSize s) (\<lambda>_. Inr s)))))"

definition customJobId :: "job_options \<Rightarrow> string" where
  "customJobId o' = or_else (jobId o') []"

definition dedup_of :: "job_options \<Rightarrow> tq \<Rightarrow> dedup_opts option" where
  "dedup_of o' q = (if q_dedup q then deduplication o' else None)"

definition dropped_as_duplicate :: "job_options \<Rightarrow> int \<Rightarrow> tq \<Rightarrow> tq \<times> bool" where
  "dropped_as_duplicate o' now q =
     (case dedup_of o' q of None \<Rightarrow> (q, False) | Some dd \<Rightarrow> isDeduplicated dd now q)"

definition choose_id :: "job_options \<Rightarrow> tq \<Rightarrow> tq \<times> (tq_error + string option)" where
  "choose_id o' q =
     (if customJobId o' \<noteq> [] then
        (q, Inr (if jm_has (q_jobs q) (customJobId o') then None else Some (customJobId o')))
      else (case generateJobId [] q of (q', Inl e) \<Rightarrow> (q', Inl e) | (q', Inr i) \<Rightarrow> (q', Inr (Some i))))"

definition record_dedup :: "job_options \<Rightarrow> string \<Rightarrow> int \<Rightarrow> tq \<Rightarrow> tq" where
  "record_dedup o' i now q =
     (case dedup_of o' q of None \<Rightarrow> q
      | Some dd \<Rightarrow> q\<lparr>q_dedupEntries := jm_set (dd_id dd) (i, now) (q_dedupEntries q)\<rparr>)"

definition prepare_add :: "js \<Rightarrow> job_options \<Rightarrow> int \<Rightarrow> tq \<Rightarrow> tq \<times> (tq_error + (utf16 \<times> string) option)" where
  "prepare_add data o' now q =
     (case check_add data o' q of
        Inl e \<Rightarrow> (q, Inl e)
      | Inr s \<Rightarrow>
          (case dropped_as_duplicate o' now q of
             (q1, True) \<Rightarrow> (q1, Inr None)
           | (q1, False) \<Rightarrow>
               (case choose_id o' q1 of
                  (q2, Inl e) \<Rightarrow> (q2, Inl e)
                | (q2, Inr None) \<Rightarrow> (q2, Inr None)
                | (q2, Inr (Some i)) \<Rightarrow> (record_dedup o' i now q2, Inr (Some (s, i))))))"

text \<open>\<open>add\<close> for a job without a parent; \<open>links\<close> are the record fields of a job with one.\<close>

definition finish_add ::
  "string \<Rightarrow> nat \<Rightarrow> int \<Rightarrow> (job \<Rightarrow> job) \<Rightarrow> utf16 \<times> string \<Rightarrow> tq \<Rightarrow> tq \<times> (tq_error + nat)"
where
  "finish_add name o' now links si q =
     insertRecord name (fst si) o' (snd si) now (num_or 0 (delay (q_opts q o'))) (q_serializer q) links q"

definition add_unlinked :: "string \<Rightarrow> js \<Rightarrow> nat \<Rightarrow> int \<Rightarrow> tq \<Rightarrow> tq \<times> (tq_error + nat option)" where
  "add_unlinked name data o' now q =
     (case prepare_add data (q_opts q o') now q of
        (q1, Inl e) \<Rightarrow> (q1, Inl e)
      | (q1, Inr None) \<Rightarrow> (q1, Inr None)
      | (q1, Inr (Some si)) \<Rightarrow>
          (case finish_add name o' now id si q1 of (q2, r) \<Rightarrow> (q2, map_sum id Some r)))"

end
