(* ===== verification/Tq_Query.thy ===== *)
theory Tq_Query
  imports Tq_Add
begin

text \<open>
  The reading operations of a \<open>TestQueue\<close> (\<open>src/testing.ts\<close>): job listings, counts, logs, search,
  streams, metrics and suspension information. None of them changes the queue.
\<close>

section \<open>Slices and stable sorting\<close>

text \<open>\<open>xs.slice(a, b)\<close>: negative bounds count from the end, no end is the end of the array.\<close>

definition slice_bound :: "int \<Rightarrow> int \<Rightarrow> int" where
  "slice_bound len k = (if k < 0 then max 0 (len + k) else min k len)"

definition js_slice :: "int \<Rightarrow> int option \<Rightarrow> 'a list \<Rightarrow> 'a list" where
  "js_slice a b xs =
     (let len = int (length xs); s = slice_bound len a;
          e = (case b of None \<Rightarrow> len | Some k \<Rightarrow> slice_bound len k)
      in take (nat (e - s)) (drop (nat s) xs))"

definition slice_end :: "int \<Rightarrow> int option" where
  "slice_end e = (if e \<ge> 0 then Some (e + 1) else None)"

text \<open>\<open>sort(cmp)\<close> is stable; \<open>lt a b\<close> stands for \<open>cmp(a, b) < 0\<close>.\<close>

fun insert_by :: "('a \<Rightarrow> 'a \<Rightarrow> bool) \<Rightarrow> 'a \<Rightarrow> 'a list \<Rightarrow> 'a list" where
  "insert_by lt x [] = [x]"
| "insert_by lt x (y # ys) = (if lt y x then y # insert_by lt x ys else x # y # ys)"

definition sort_by :: "('a \<Rightarrow> 'a \<Rightarrow> bool) \<Rightarrow> 'a list \<Rightarrow> 'a list" where
  "sort_by lt xs = foldr (insert_by lt) xs []"

lemma set_insert_by [simp]: "set (insert_by lt x ys) = insert x (set ys)"
  by (induction ys) auto

lemma set_sort_by [simp]: "set (sort_by lt xs) = set xs"
  by (induction xs) (simp_all add: sort_by_def)

lemma mset_insert_by [simp]: "length (insert_by lt x ys) = Suc (length ys)"
  by (induction ys) auto

lemma length_sort_by [simp]: "length (sort_by lt xs) = length xs"
  by (induction xs) (simp_all add: sort_by_def)

lemma distinct_insert_by: "distinct (insert_by lt x ys) \<longleftrightarrow> x \<notin> set ys \<and> distinct ys"
  by (induction ys) auto

lemma distinct_sort_by: "distinct xs \<Longrightarrow> distinct (sort_by lt xs)"
proof (induction xs)
  case (Cons x xs)
  have "set (foldr (insert_by lt) xs []) = set xs"
    using set_sort_by [of lt xs] by (simp add: sort_by_def)
  with Cons show ?case by (simp add: sort_by_def distinct_insert_by)
qed (simp add: sort_by_def)

text \<open>The order of a ZSET: a score, ties by member.\<close>

definition score_less :: "tq \<Rightarrow> (nat \<Rightarrow> rat) \<Rightarrow> nat \<Rightarrow> nat \<Rightarrow> bool" where
  "score_less q score a b \<longleftrightarrow> score a < score b \<or> (score a = score b \<and> str_less (id_of q a) (id_of q b))"

section \<open>Handles that are returned\<close>

definition strip_data :: "bool \<Rightarrow> test_job \<Rightarrow> test_job" where
  "strip_data excludeData h = (if excludeData then h\<lparr>h_data := JUndef, h_returnvalue := JUndef\<rparr> else h)"

definition handle :: "tq \<Rightarrow> bool \<Rightarrow> nat \<Rightarrow> test_job" where
  "handle q excludeData r = strip_data excludeData (new_TestJob q r)"

definition getJob :: "string \<Rightarrow> bool \<Rightarrow> tq \<Rightarrow> test_job option" where
  "getJob i excludeData q = map_option (handle q excludeData) (lookup q i)"

definition matchesQueueState :: "job_state \<Rightarrow> job_state \<Rightarrow> bool" where
  "matchesQueueState state queried \<longleftrightarrow> state = queried \<or> (queried = Delayed \<and> state = Prioritized)"

definition delayed_less :: "tq \<Rightarrow> nat \<Rightarrow> nat \<Rightarrow> bool" where
  "delayed_less q a b \<longleftrightarrow>
     prio q a < prio q b \<or>
     (prio q a = prio q b \<and> score_less q (\<lambda>r. or_else (j_delayedUntil (q_rec q r)) 0) a b)"

definition jobs_of_type :: "job_state \<Rightarrow> tq \<Rightarrow> nat list" where
  "jobs_of_type type q =
     (let rs = (if type = Waiting then waitingInDispatchOrder q
                else filter (\<lambda>r. matchesQueueState (state_of q r) type) (records q))
      in if type = Delayed then sort_by (delayed_less q) rs else rs)"

definition getJobs :: "job_state \<Rightarrow> int \<Rightarrow> int \<Rightarrow> bool \<Rightarrow> tq \<Rightarrow> test_job list" where
  "getJobs type start end' excludeData q =
     map (handle q excludeData) (js_slice start (slice_end end') (jobs_of_type type q))"

section \<open>Counts\<close>

record job_counts =
  n_waiting :: nat
  n_active :: nat
  n_delayed :: nat
  n_completed :: nat
  n_failed :: nat

definition no_counts :: job_counts where
  "no_counts = \<lparr>n_waiting = 0, n_active = 0, n_delayed = 0, n_completed = 0, n_failed = 0\<rparr>"

definition count_state :: "tq \<Rightarrow> nat \<Rightarrow> job_counts \<Rightarrow> job_counts" where
  "count_state q r c =
     (case state_of q r of
        Waiting \<Rightarrow> c\<lparr>n_waiting := n_waiting c + 1\<rparr>
      | Active \<Rightarrow> c\<lparr>n_active := n_active c + 1\<rparr>
      | Delayed \<Rightarrow> c\<lparr>n_delayed := n_delayed c + 1\<rparr>
      | Prioritized \<Rightarrow> c\<lparr>n_delayed := n_delayed c + 1\<rparr>
      | Completed \<Rightarrow> c\<lparr>n_completed := n_completed c + 1\<rparr>
      | Failed \<Rightarrow> c\<lparr>n_failed := n_failed c + 1\<rparr>
      | Suspended \<Rightarrow> c
      | WaitingChildren \<Rightarrow> c)"

definition getJobCounts :: "tq \<Rightarrow> job_counts" where
  "getJobCounts q = fold (count_state q) (records q) no_counts"

definition getJobCountByTypes :: "tq \<Rightarrow> job_counts" where
  "getJobCountByTypes q = getJobCounts q"

definition in_stream :: "tq \<Rightarrow> nat \<Rightarrow> bool" where
  "in_stream q r \<longleftrightarrow> (state_of q r = Waiting \<or> state_of q r = Active) \<and> \<not> is_lifo q r \<and> prio q r = 0"

definition count :: "tq \<Rightarrow> nat" where
  "count q = length (filter (in_stream q) (records q))"

definition isDrainComplete :: "tq \<Rightarrow> bool" where
  "isDrainComplete q =
     list_all (\<lambda>r. state_of q r \<noteq> Waiting \<and> state_of q r \<noteq> Prioritized \<and> state_of q r \<noteq> Delayed) (records q)"

section \<open>Logs, suspended jobs and search\<close>

definition logs_of :: "string \<Rightarrow> tq \<Rightarrow> utf16 list" where
  "logs_of i q = (case lookup q i of None \<Rightarrow> [] | Some r \<Rightarrow> j_logs (q_rec q r))"

definition getJobLogs :: "string \<Rightarrow> int \<Rightarrow> int \<Rightarrow> tq \<Rightarrow> utf16 list \<times> nat" where
  "getJobLogs i start end' q =
     (let logs = logs_of i q; len = int (length logs);
          sliceEnd = (if end' \<ge> 0 then end' + 1 else len + end' + 1)
      in (js_slice start (Some (max start sliceEnd)) logs, length logs))"

definition MAX_SAFE :: rat where "MAX_SAFE = 9007199254740991"

definition suspend_deadline :: "tq \<Rightarrow> nat \<Rightarrow> rat" where
  "suspend_deadline q r =
     (case j_suspendTimeout (q_rec q r) of
        Some t \<Rightarrow> if t > 0 then of_int (or_else (j_suspendedAt (q_rec q r)) 0) + t else MAX_SAFE
      | None \<Rightarrow> MAX_SAFE)"

definition getSuspendedJobs :: "int \<Rightarrow> int \<Rightarrow> bool \<Rightarrow> tq \<Rightarrow> test_job list" where
  "getSuspendedJobs start end' excludeData q =
     map (handle q excludeData)
       (js_slice start (slice_end end')
          (sort_by (score_less q (suspend_deadline q)) (filter (\<lambda>r. state_of q r = Suspended) (records q))))"

definition matches_search :: "string option \<Rightarrow> job_state option \<Rightarrow> (string \<times> js) list option \<Rightarrow> tq \<Rightarrow> nat \<Rightarrow> bool" where
  "matches_search name st flt q r \<longleftrightarrow>
     (case name of None \<Rightarrow> True | Some n \<Rightarrow> j_name (q_rec q r) = n) \<and>
     (case st of None \<Rightarrow> True | Some s \<Rightarrow> matchesQueueState (state_of q r) s) \<and>
     (case flt of None \<Rightarrow> True | Some f \<Rightarrow> matchesData (j_data (q_rec q r)) f)"

definition searchJobs ::
  "string option \<Rightarrow> job_state option \<Rightarrow> (string \<times> js) list option \<Rightarrow> bool \<Rightarrow> tq \<Rightarrow> test_job list"
where
  "searchJobs name st flt excludeData q =
     map (handle q excludeData) (filter (matches_search name st flt q) (records q))"

definition getSuspendInfo :: "string \<Rightarrow> tq \<Rightarrow> (string option \<times> int \<times> rat option \<times> signal_entry list) option" where
  "getSuspendInfo i q =
     (case lookup q i of
        None \<Rightarrow> None
      | Some r \<Rightarrow>
          if state_of q r \<noteq> Suspended then None
          else Some (j_suspendReason (q_rec q r), or_else (j_suspendedAt (q_rec q r)) 0,
                     j_suspendTimeout (q_rec q r), j_signals (q_rec q r)))"

section \<open>Streams\<close>

definition readChunks :: "string option \<Rightarrow> int \<Rightarrow> chunk list \<Rightarrow> chunk list" where
  "readChunks lastId n chunks =
     js_slice 0 (Some n)
       (case lastId of
          None \<Rightarrow> chunks
        | Some l \<Rightarrow>
            if l = [] then chunks
            else (case dropWhile (\<lambda>c. c_id c \<noteq> l) chunks of [] \<Rightarrow> chunks | _ # rest \<Rightarrow> rest))"

text \<open>
  A blocking read polls every 50 ms until its deadline: \<open>polls\<close> are the chunks of the job at the
  polls that happen before the deadline.
\<close>

fun first_nonempty :: "'a list list \<Rightarrow> 'a list" where
  "first_nonempty [] = []"
| "first_nonempty (x # xs) = (if x \<noteq> [] then x else first_nonempty xs)"

definition readStream :: "string \<Rightarrow> string option \<Rightarrow> int option \<Rightarrow> rat option \<Rightarrow> chunk list list \<Rightarrow> tq \<Rightarrow> chunk list" where
  "readStream i lastId n block polls q =
     (case lookup q i of
        None \<Rightarrow> []
      | Some r \<Rightarrow>
          let immediate = readChunks lastId (or_else n 100) (j_streamChunks (q_rec q r))
          in if immediate \<noteq> [] \<or> or_else block 0 \<le> 0 then immediate
             else first_nonempty (map (readChunks lastId (or_else n 100)) polls))"

section \<open>Metrics\<close>

definition metrics_of :: "job_state \<Rightarrow> tq \<Rightarrow> (int, metric_bucket) jsmap" where
  "metrics_of type q = (if type = Completed then q_completedMetrics q else q_failedMetrics q)"

definition avg_duration :: "metric_bucket \<Rightarrow> int" where
  "avg_duration b =
     (if m_count b > 0 then js_round (of_int (m_totalDuration b) / of_nat (m_count b)) else 0)"

record metrics_point =
  mp_timestamp :: int
  mp_count :: nat
  mp_avgDuration :: int

definition metrics_data :: "(int, metric_bucket) jsmap \<Rightarrow> metrics_point list" where
  "metrics_data buckets =
     map (\<lambda>(t, b). \<lparr>mp_timestamp = t, mp_count = m_count b, mp_avgDuration = avg_duration b\<rparr>)
       (sort_key fst buckets)"

definition getMetrics :: "job_state \<Rightarrow> rat option \<Rightarrow> rat option \<Rightarrow> tq \<Rightarrow> tq_error + nat \<times> metrics_point list" where
  "getMetrics type start' end' q =
     (let n = length (filter (\<lambda>r. state_of q r = type) (records q));
          pts = metrics_data (metrics_of type q);
          start = or_else start' 0; e = or_else end' (-1)
      in if \<not> is_integral start then Inl (TypeError ''start must be an integer'')
         else if \<not> is_integral e then Inl (TypeError ''end must be an integer'')
         else if start \<ge> 0 \<and> e \<ge> 0 \<and> e < start
         then Inl (RangeError ''end must be >= start when both are non-negative'')
         else Inr (n, if e = -1 then js_slice \<lfloor>start\<rfloor> None pts else js_slice \<lfloor>start\<rfloor> (Some (\<lfloor>e\<rfloor> + 1)) pts))"

end
