(* ===== verification/Tq_Ops.thy ===== *)
theory Tq_Ops
  imports Tq_Query
begin

text \<open>
  The operations of a \<open>TestQueue\<close> that change several jobs (\<open>src/testing.ts\<close>): revoke, clean,
  drain, retry, obliterate, retention and metrics of finished jobs, pause and resume, and the
  suspension of jobs with its signals and timeouts.
\<close>

section \<open>Metrics and retention\<close>

definition empty_bucket :: metric_bucket where
  "empty_bucket = \<lparr>m_count = 0, m_totalDuration = 0\<rparr>"

text \<open>A new minute appends a bucket and drops the oldest beyond 1440.\<close>

definition open_bucket :: "int \<Rightarrow> (int, metric_bucket) jsmap \<Rightarrow> (int, metric_bucket) jsmap" where
  "open_bucket minuteTs buckets =
     (if jm_has buckets minuteTs then buckets
      else let bs = jm_set minuteTs empty_bucket buckets
           in if length bs > 1440 then jm_delete (fst (hd bs)) bs else bs)"

definition bump_bucket :: "int \<Rightarrow> metric_bucket \<Rightarrow> metric_bucket" where
  "bump_bucket duration b =
     b\<lparr>m_count := m_count b + 1,
       m_totalDuration := (if duration > 0 then m_totalDuration b + duration else m_totalDuration b)\<rparr>"

definition record_in :: "int option \<Rightarrow> int \<Rightarrow> (int, metric_bucket) jsmap \<Rightarrow> (int, metric_bucket) jsmap" where
  "record_in processedOn finishedOn buckets =
     (let minuteTs = finishedOn - finishedOn mod 60000;
          bs = open_bucket minuteTs buckets;
          duration = (case processedOn of Some p \<Rightarrow> finishedOn - p | None \<Rightarrow> 0)
      in case jm_get bs minuteTs of
           None \<Rightarrow> bs
         | Some b \<Rightarrow> jm_set minuteTs (bump_bucket duration b) bs)"

definition recordMetric :: "job_state \<Rightarrow> int option \<Rightarrow> int \<Rightarrow> tq \<Rightarrow> tq" where
  "recordMetric type processedOn finishedOn q =
     (if type = Completed
      then q\<lparr>q_completedMetrics := record_in processedOn finishedOn (q_completedMetrics q)\<rparr>
      else q\<lparr>q_failedMetrics := record_in processedOn finishedOn (q_failedMetrics q)\<rparr>)"

definition finished_score :: "tq \<Rightarrow> nat \<Rightarrow> rat" where
  "finished_score q r = of_int (or_else (j_finishedOn (q_rec q r)) 0)"

definition in_state :: "job_state \<Rightarrow> tq \<Rightarrow> nat list" where
  "in_state st q = sort_by (score_less q (finished_score q)) (filter (\<lambda>r. state_of q r = st) (records q))"

definition MAX_REMOVALS :: nat where "MAX_REMOVALS = 1000"

definition delete_records :: "nat list \<Rightarrow> tq \<Rightarrow> tq" where
  "delete_records rs q = fold (\<lambda>r q. delete_job (id_of q r) q) rs q"

definition drop_older :: "job_state \<Rightarrow> rat \<Rightarrow> rat \<Rightarrow> tq \<Rightarrow> tq" where
  "drop_older st now age q =
     (if age > 0 then
        delete_records (take MAX_REMOVALS (filter (\<lambda>r. finished_score q r \<le> now - age * 1000) (in_state st q))) q
      else q)"

definition keep_newest :: "job_state \<Rightarrow> rat \<Rightarrow> tq \<Rightarrow> tq" where
  "keep_newest st n q =
     (let all = in_state st q in
      if n > 0 \<and> of_nat (length all) > n
      then delete_records (js_slice 0 (Some \<lfloor>min (of_nat (length all) - n) (of_nat MAX_REMOVALS)\<rfloor>) all) q
      else q)"

definition retention_of :: "job_state \<Rightarrow> tq \<Rightarrow> nat \<Rightarrow> retention" where
  "retention_of st q r = (if st = Completed then removeOnComplete (opts_of q r) else removeOnFail (opts_of q r))"

definition applyRetention :: "nat \<Rightarrow> job_state \<Rightarrow> int \<Rightarrow> tq \<Rightarrow> tq" where
  "applyRetention r st clock q =
     (let now = of_int (or_else (j_finishedOn (q_rec q r)) clock) in
      case retention_of st q r of
        Keep \<Rightarrow> q
      | Remove \<Rightarrow> delete_job (id_of q r) q
      | KeepCount n \<Rightarrow> keep_newest st n q
      | KeepAge age n \<Rightarrow> keep_newest st (or_else n 0) (drop_older st now (or_else age 0) q))"

section \<open>Revoke, clean, drain, retry\<close>

definition mark_failed :: "string \<Rightarrow> int \<Rightarrow> nat \<Rightarrow> tq \<Rightarrow> tq" where
  "mark_failed reason now r q =
     upd r (\<lambda>j. j\<lparr>j_state := Failed, j_failedReason := Some reason, j_finishedOn := Some now\<rparr>) q"

datatype revoke_result = NotFound | Revoked | Flagged

definition revoke :: "string \<Rightarrow> int \<Rightarrow> tq \<Rightarrow> tq \<times> revoke_result" where
  "revoke i now q =
     (case lookup q i of
        None \<Rightarrow> (q, NotFound)
      | Some r \<Rightarrow>
          let q1 = upd r (\<lambda>j. j\<lparr>j_revoked := True\<rparr>) q
          in if state_of q1 r \<in> {Waiting, Delayed, Prioritized}
             then (emit (EvRevoked i)
                     (mark_failed ''revoked'' now r
                        (upd r (\<lambda>j. j\<lparr>j_delayedUntil := None\<rparr>) (dequeueRecord r (clearPromotion i q1)))), Revoked)
             else (emit (EvRevoked i) q1, Flagged))"

definition clean_candidates :: "job_state \<Rightarrow> rat \<Rightarrow> tq \<Rightarrow> (string \<times> int) list" where
  "clean_candidates type cutoff q =
     concat (map (\<lambda>(i, r).
       case j_finishedOn (q_rec q r) of
         None \<Rightarrow> []
       | Some f \<Rightarrow> if state_of q r = type \<and> of_int f \<le> cutoff then [(i, f)] else []) (q_jobs q))"

definition clean :: "rat \<Rightarrow> int \<Rightarrow> job_state \<Rightarrow> int \<Rightarrow> tq \<Rightarrow> tq \<times> (tq_error + string list)" where
  "clean grace limit type now q =
     (if grace < 0 then (q, Inl (RangeError ''grace must be >= 0''))
      else if limit \<le> 0 then (q, Inr [])
      else let ids = map fst (take (nat limit) (sort_key snd (clean_candidates type (of_int now - grace) q)))
           in (fold delete_job ids q, Inr ids))"

definition drained_by :: "bool \<Rightarrow> job_state \<Rightarrow> bool" where
  "drained_by delayed s \<longleftrightarrow> s = Waiting \<or> (delayed \<and> (s = Delayed \<or> s = Prioritized))"

definition drain :: "bool \<Rightarrow> tq \<Rightarrow> tq" where
  "drain delayed q =
     (let toRemove = map fst (filter (\<lambda>(i, r). drained_by delayed (state_of q r)) (q_jobs q));
          q1 = fold (\<lambda>i q. delete_job i (clearPromotion i q)) toRemove q;
          q2 = q1\<lparr>q_waiting := filter (\<lambda>r. state_of q1 r = Prioritized \<and> current q1 r) (q_waiting q1)\<rparr>
      in if toRemove \<noteq> [] then emit (EvDrained (length toRemove)) q2 else q2)"

definition retryRecord :: "nat \<Rightarrow> int \<Rightarrow> tq \<Rightarrow> tq" where
  "retryRecord r now q =
     (let life = num_or 0 (ttl (opts_of q r))
      in enqueueWaiting r
           (upd r (\<lambda>j. j\<lparr>j_attemptsMade := 0, j_failedReason := None, j_finishedOn := None,
              j_expireAt := (if life > 0 then Some (of_int now + life) else None)\<rparr>) q))"

definition retryJobs :: "jsnum option \<Rightarrow> int \<Rightarrow> tq \<Rightarrow> tq \<times> (tq_error + nat)" where
  "retryJobs n now q =
     (if (case n of None \<Rightarrow> False | Some c \<Rightarrow> \<not> is_integer c \<or> c < Num 0)
      then (q, Inl (Js (err ''count must be a non-negative integer'')))
      else let limit = nat \<lfloor>num_or 0 n\<rfloor>;
               failed = filter (\<lambda>r. state_of q r = Failed) (records q);
               chosen = (if limit > 0 then take limit failed else failed)
           in (fold (\<lambda>r. retryRecord r now) chosen q, Inr (length chosen)))"

section \<open>Obliterate, close, pause and resume\<close>

definition clearSchedulerTimer :: "tq \<Rightarrow> tq" where
  "clearSchedulerTimer q = q\<lparr>q_schedulerTimer := None\<rparr>"

definition clearAllSuspendedTimeouts :: "tq \<Rightarrow> tq" where
  "clearAllSuspendedTimeouts q = q\<lparr>q_suspendTimers := []\<rparr>"

definition clear_timers :: "tq \<Rightarrow> tq" where
  "clear_timers q = (clearAllSuspendedTimeouts (clearSchedulerTimer q))\<lparr>q_promotions := []\<rparr>"

definition count_active :: "tq \<Rightarrow> nat" where
  "count_active q = length (filter (\<lambda>r. state_of q r = Active) (records q))"

definition obliterate :: "bool \<Rightarrow> tq \<Rightarrow> tq \<times> (tq_error + unit)" where
  "obliterate force q =
     (if \<not> force \<and> count_active q > 0
      then (q, Inl (Js (err (''Cannot obliterate queue '' @ [CHR 0x22] @ q_name q @ [CHR 0x22] @ '': ''
             @ show_nat (count_active q) @ '' active jobs. Use { force: true } to override.''))))
      else ((clear_timers q)\<lparr>q_jobs := [], q_dedupEntries := [], q_waiting := [], q_schedulers := [],
              q_budgets := [], q_completedMetrics := [], q_failedMetrics := [], q_indexField := None,
              q_idCounter := 0\<rparr>, Inr ()))"

definition close_queue :: "tq \<Rightarrow> tq" where
  "close_queue q = (clear_timers q)\<lparr>q_workers := []\<rparr>"

definition pause :: "tq \<Rightarrow> tq" where
  "pause q = q\<lparr>q_paused := True\<rparr>"

definition isPaused :: "tq \<Rightarrow> bool" where
  "isPaused q = q_paused q"

section \<open>Suspension\<close>

definition signal :: "string \<Rightarrow> string \<Rightarrow> js \<Rightarrow> int \<Rightarrow> tq \<Rightarrow> tq \<times> bool" where
  "signal i name data now q =
     (case lookup q i of
        None \<Rightarrow> (q, False)
      | Some r \<Rightarrow>
          if state_of q r \<noteq> Suspended then (q, False)
          else
            let d = (if data = JUndef \<or> data = JNull then JStr [] else data);
                q1 = clearSuspendedTimeout i q;
                q2 = upd r (\<lambda>j. j\<lparr>j_signals := j_signals j @ [\<lparr>sg_name = name, sg_data = d, sg_receivedAt = now\<rparr>],
                                  j_state := Waiting\<rparr>) q1
            in (emit EvWake (emit (EvResumed i name) (push_waiting r q2)), True))"

text \<open>
  A timeout longer than the longest timer is slept in chunks: \<open>st_left\<close> is what remains, and the
  entry says when the current chunk ends.
\<close>

definition scheduleNextChunk :: "nat \<Rightarrow> rat \<Rightarrow> int \<Rightarrow> tq \<Rightarrow> tq" where
  "scheduleNextChunk r remaining now q =
     q\<lparr>q_suspendTimers := jm_set (id_of q r)
        \<lparr>st_ref = r, st_fireAt = of_int now + min remaining MAX_TIMEOUT_DELAY_MS, st_left = remaining\<rparr>
        (q_suspendTimers q)\<rparr>"

definition scheduleSuspendedTimeout :: "nat \<Rightarrow> int \<Rightarrow> tq \<Rightarrow> tq" where
  "scheduleSuspendedTimeout r now q =
     (let q1 = clearSuspendedTimeout (id_of q r) q in
      case j_suspendTimeout (q_rec q1 r) of
        None \<Rightarrow> q1
      | Some t \<Rightarrow>
          if t \<le> 0 then q1
          else scheduleNextChunk r (max 0 (of_int (or_else (j_suspendedAt (q_rec q1 r)) now) + t - of_int now)) now q1)"

definition suspend_timeout_fires :: "string \<Rightarrow> int \<Rightarrow> tq \<Rightarrow> tq" where
  "suspend_timeout_fires i now q =
     (case jm_get (q_suspendTimers q) i of
        None \<Rightarrow> q
      | Some t \<Rightarrow>
          let q1 = clearSuspendedTimeout i q;
              remaining = st_left t - min (st_left t) MAX_TIMEOUT_DELAY_MS
          in if remaining > 0 then scheduleNextChunk (st_ref t) remaining now q1
             else (case lookup q1 i of
                     None \<Rightarrow> q1
                   | Some r \<Rightarrow>
                       if state_of q1 r \<noteq> Suspended then q1
                       else let q2 = mark_failed ''Suspend timeout exceeded'' now r q1
                            in emit (EvFailed i (err ''Suspend timeout exceeded''))
                                 (recordMetric Failed (j_suspendedAt (q_rec q2 r)) now q2)))"

section \<open>The job index\<close>

definition createJobIndex :: "string option \<Rightarrow> tq \<Rightarrow> tq" where
  "createJobIndex vectorField q = q\<lparr>q_indexField := Some vectorField\<rparr>"

definition dropJobIndex :: "tq \<Rightarrow> tq" where
  "dropJobIndex q = q\<lparr>q_indexField := None\<rparr>"

end
