(* ===== verification/Tq_Job.thy ===== *)
theory Tq_Job
  imports Tq_Ops
begin

text \<open>
  The methods of a \<open>TestJob\<close> handle (\<open>src/testing.ts\<close>). A method runs on a queue and a handle and
  returns both as it leaves them, with the error it throws or its result. The handle's queue is
  the queue of its record. \<open>JSON\<close> is a parameter.
\<close>

type_synonym 'a job_call = "tq \<times> test_job \<times> (tq_error + 'a)"

definition fail_call :: "tq \<Rightarrow> test_job \<Rightarrow> string \<Rightarrow> 'a job_call" where
  "fail_call q h m = (q, h, Inl (Js (err m)))"

definition set_opts :: "nat \<Rightarrow> (job_options \<Rightarrow> job_options) \<Rightarrow> tq \<Rightarrow> tq" where
  "set_opts o' f q = q\<lparr>q_opts := (q_opts q)(o' := f (q_opts q o'))\<rparr>"

section \<open>Payloads of the record\<close>

definition too_large :: "utf16 \<Rightarrow> bool" where
  "too_large s \<longleftrightarrow> byte_length s > MAX_JOB_DATA_SIZE"

definition size_message :: "string \<Rightarrow> nat \<Rightarrow> string" where
  "size_message what n =
     what @ '' exceeds maximum size ('' @ show_nat n @ '' bytes > '' @ show_nat MAX_JOB_DATA_SIZE @ '')''"

definition log_line :: "utf16 \<Rightarrow> tq \<Rightarrow> test_job \<Rightarrow> unit job_call" where
  "log_line message q h =
     (if too_large message then fail_call q h (size_message ''Log message'' (byte_length message))
      else (upd (h_ref h) (\<lambda>j. j\<lparr>j_logs := j_logs j @ [message]\<rparr>) q, h, Inr ()))"

text \<open>A number is stored as it is; its text is never longer than the limit.\<close>

definition updateProgress :: "js serializer \<Rightarrow> js \<Rightarrow> tq \<Rightarrow> test_job \<Rightarrow> unit job_call" where
  "updateProgress json p q h =
     (case p of
        JNum x \<Rightarrow> (upd (h_ref h) (\<lambda>j. j\<lparr>j_progress := p\<rparr>) q, h\<lparr>h_progress := p\<rparr>, Inr ())
      | _ \<Rightarrow>
          (case serialize json p of
             None \<Rightarrow> fail_call q h ''stringify''
           | Some s \<Rightarrow>
               if too_large s then fail_call q h (size_message ''Progress data'' (byte_length s))
               else (case deserialize json s of
                       None \<Rightarrow> fail_call q h ''parse''
                     | Some v \<Rightarrow> (upd (h_ref h) (\<lambda>j. j\<lparr>j_progress := v\<rparr>) q, h\<lparr>h_progress := p\<rparr>, Inr ()))))"

definition updateData :: "js \<Rightarrow> tq \<Rightarrow> test_job \<Rightarrow> unit job_call" where
  "updateData data q h =
     (case serialize (q_serializer q) data of
        None \<Rightarrow> fail_call q h ''serialize''
      | Some s \<Rightarrow>
          if too_large s then fail_call q h (size_message ''Job data'' (byte_length s))
          else (case deserialize (q_serializer q) s of
                  None \<Rightarrow> fail_call q h ''deserialize''
                | Some v \<Rightarrow> (upd (h_ref h) (\<lambda>j. j\<lparr>j_data := v\<rparr>) q, h\<lparr>h_data := data\<rparr>, Inr ())))"

definition reportUsage :: "job_usage \<Rightarrow> int \<Rightarrow> tq \<Rightarrow> test_job \<Rightarrow> unit job_call" where
  "reportUsage usage now q h =
     (case validateAndResolveUsage usage of
        Inl e \<Rightarrow> (q, h, Inl (BadUsage e))
      | Inr resolved \<Rightarrow>
          (upd (h_ref h) (\<lambda>j. j\<lparr>j_usage := Some resolved, j_usageReportedAt := Some now\<rparr>) q,
           h\<lparr>h_usage := Some resolved\<rparr>, Inr ()))"

definition reportTokens :: "rat \<Rightarrow> tq \<Rightarrow> test_job \<Rightarrow> unit job_call" where
  "reportTokens n q h =
     (if n < 0 then fail_call q h ''Token count must not be negative''
      else (q, h\<lparr>h_tpmTokens := Some n\<rparr>, Inr ()))"

fun chunk_bytes :: "(string, string) jsmap \<Rightarrow> nat" where
  "chunk_bytes [] = 0"
| "chunk_bytes ((k, v) # kvs) = byte_length (utf16_of k) + byte_length (utf16_of v) + chunk_bytes kvs"

definition stream :: "(string, string) jsmap \<Rightarrow> tq \<Rightarrow> test_job \<Rightarrow> string job_call" where
  "stream kvs q h =
     (if kvs = [] then fail_call q h ''Stream chunk must not be empty''
      else if chunk_bytes kvs > MAX_JOB_DATA_SIZE
      then fail_call q h (size_message ''Stream chunk'' (chunk_bytes kvs))
      else
        let n = Suc (j_streamCounter (q_rec q (h_ref h))); i = ''test-'' @ show_nat n
        in (upd (h_ref h) (\<lambda>j. j\<lparr>j_streamCounter := n,
              j_streamChunks := j_streamChunks j @ [\<lparr>c_id = i, c_fields = kvs\<rparr>]\<rparr>) q, h, Inr i))"

definition streamChunk :: "string \<Rightarrow> string option \<Rightarrow> tq \<Rightarrow> test_job \<Rightarrow> string job_call" where
  "streamChunk type content q h =
     stream (case content of None \<Rightarrow> [(''type'', type)] | Some c \<Rightarrow> [(''type'', type), (''content'', c)]) q h"

definition storeVector :: "string \<Rightarrow> rat list \<Rightarrow> tq \<Rightarrow> test_job \<Rightarrow> unit job_call" where
  "storeVector field embedding q h =
     (upd (h_ref h) (\<lambda>j. j\<lparr>j_vectors := jm_set field embedding (j_vectors j)\<rparr>) q, h, Inr ())"

section \<open>Reading\<close>

definition getState :: "tq \<Rightarrow> test_job \<Rightarrow> job_state option" where
  "getState q h = map_option (state_of q) (lookup q (h_id h))"

definition isRevoked :: "tq \<Rightarrow> test_job \<Rightarrow> bool" where
  "isRevoked q h = (case lookup q (h_id h) of None \<Rightarrow> False | Some r \<Rightarrow> j_revoked (q_rec q r))"

text \<open>\<open>polls\<close> are the states read every \<open>pollIntervalMs\<close> before the deadline.\<close>

fun waitUntilFinished :: "job_state option list \<Rightarrow> job_state option" where
  "waitUntilFinished [] = None"
| "waitUntilFinished (s # polls) =
     (if s = Some Completed \<or> s = Some Failed then s else waitUntilFinished polls)"

definition getParents :: "tq \<Rightarrow> test_job \<Rightarrow> parent_ref list" where
  "getParents q h =
     (let j = q_rec q (h_ref h) in
      if j_parents j \<noteq> [] then j_parents j
      else (case (nonempty_str (j_parentId j), nonempty_str (j_parentQueue j)) of
              (Some i, Some pq) \<Rightarrow> [\<lparr>pr_queue = pq, pr_id = i\<rparr>]
            | _ \<Rightarrow> []))"

section \<open>Moving the job\<close>

text \<open>The state a record gets from a new priority, \<open>None\<close> when it may not change.\<close>

definition reprioritized :: "job_state \<Rightarrow> rat \<Rightarrow> job_state option" where
  "reprioritized s p =
     (case s of
        Waiting \<Rightarrow> Some (if p > 0 then Prioritized else Waiting)
      | Prioritized \<Rightarrow> Some (if p = 0 then Waiting else Prioritized)
      | Delayed \<Rightarrow> Some Delayed
      | _ \<Rightarrow> None)"

definition changePriority :: "jsnum \<Rightarrow> tq \<Rightarrow> test_job \<Rightarrow> unit job_call" where
  "changePriority p q h =
     (if p < Num 0 then fail_call q h ''Priority must be >= 0''
      else if \<not> is_integer p \<or> p > Num (of_int MAX_JOB_PRIORITY)
      then fail_call q h ''Cannot change priority: invalid_priority''
      else (case lookup q (h_id h) of
              None \<Rightarrow> fail_call q h ''Cannot change priority: not_found''
            | Some r \<Rightarrow>
                (case reprioritized (state_of q r) (num_or 0 (Some p)) of
                   None \<Rightarrow> fail_call q h ''Cannot change priority: invalid_state''
                 | Some s \<Rightarrow>
                     if state_of q r = Waiting \<and> num_or 0 (Some p) = 0 \<and> prio q r = 0 then (q, h, Inr ())
                     else
                       let q1 = (if s = state_of q r then q else set_state r s q);
                           q2 = set_opts (h_opts h) (\<lambda>o'. o'\<lparr>priority := Some p\<rparr>) q1
                       in (emit (EvPriorityChanged (h_id h) p) q2, h, Inr ()))))"

definition changed_delay :: "rat \<Rightarrow> tq \<Rightarrow> test_job \<Rightarrow> tq" where
  "changed_delay d q h =
     emit (EvDelayChanged (h_id h) d) (set_opts (h_opts h) (\<lambda>o'. o'\<lparr>delay := Some (Num d)\<rparr>) q)"

definition changeDelay :: "rat \<Rightarrow> int \<Rightarrow> tq \<Rightarrow> test_job \<Rightarrow> unit job_call" where
  "changeDelay d now q h =
     (if d < 0 then fail_call q h ''Delay must be >= 0''
      else (case lookup q (h_id h) of
              None \<Rightarrow> fail_call q h ''Cannot change delay: not_found''
            | Some r \<Rightarrow>
                if state_of q r = Delayed then
                  (changed_delay d (if d = 0 then releaseDelayed r (prio q r > 0) q else parkDelayed r d now q) h,
                   h, Inr ())
                else if state_of q r = Waiting \<or> state_of q r = Prioritized then
                  (if d = 0 then (q, h, Inr ()) else (changed_delay d (parkDelayed r d now q) h, h, Inr ()))
                else fail_call q h ''Cannot change delay: invalid_state''))"

definition promote :: "tq \<Rightarrow> test_job \<Rightarrow> unit job_call" where
  "promote q h =
     (case lookup q (h_id h) of
        None \<Rightarrow> fail_call q h ''Cannot promote: not_found''
      | Some r \<Rightarrow>
          if state_of q r \<noteq> Delayed then fail_call q h ''Cannot promote: not_delayed''
          else (set_opts (h_opts h) (\<lambda>o'. o'\<lparr>delay := Some (Num 0)\<rparr>) (releaseDelayed r False q), h, Inr ()))"

definition retry :: "int \<Rightarrow> tq \<Rightarrow> test_job \<Rightarrow> unit job_call" where
  "retry now q h =
     (case lookup q (h_id h) of
        None \<Rightarrow> fail_call q h ''Cannot retry: not_found''
      | Some r \<Rightarrow>
          if state_of q r \<noteq> Failed then fail_call q h ''Cannot retry: not_failed''
          else (retryRecord r now q,
                h\<lparr>h_attemptsMade := 0, h_failedReason := None, h_finishedOn := None\<rparr>, Inr ()))"

definition moveToFailed :: "js_error \<Rightarrow> tq \<Rightarrow> test_job \<Rightarrow> unit job_call" where
  "moveToFailed e q h =
     (case lookup q (h_id h) of
        Some r \<Rightarrow>
          if state_of q r = Active then
            (upd r (\<lambda>j. j\<lparr>j_movedToFailed := Some e\<rparr>) q, h\<lparr>h_failedReason := Some (message_of e)\<rparr>, Inr ())
          else (q, h, Inl (Js (GlideMQError ''moveToFailed can only be called while job is active in a Worker'')))
      | None \<Rightarrow> (q, h, Inl (Js (GlideMQError ''moveToFailed can only be called while job is active in a Worker''))))"

definition remove :: "tq \<Rightarrow> test_job \<Rightarrow> unit job_call" where
  "remove q h = (fst (removeJob (h_id h) q), h, Inr ())"

definition discard :: "test_job \<Rightarrow> test_job" where
  "discard h = h\<lparr>h_discarded := True\<rparr>"

text \<open>The methods that end the processor: they always throw.\<close>

definition moveToDelayed :: "jsnum \<Rightarrow> string option \<Rightarrow> tq \<Rightarrow> test_job \<Rightarrow> unit job_call" where
  "moveToDelayed t nextStep q h =
     (if \<not> is_finite t \<or> t < Num 0
      then fail_call q h ''Timestamp must be a finite Unix millisecond value >= 0''
      else if state_of q (h_ref h) \<noteq> Active
      then fail_call q h ''moveToDelayed() can only be used while the job is active in a Worker''
      else
        let thrown = Inl (Js (new_DelayedError (Num (of_int (js_trunc (num_or 0 (Some t)))))))
        in (case nextStep of
              None \<Rightarrow> (q, h, thrown)
            | Some step \<Rightarrow>
                if \<not> isPlainStepPayload (h_data h)
                then fail_call q h ''moveToDelayed(nextStep) requires plain-object job data''
                else (case updateData (with_step (h_data h) step) q h of
                        (q', h', Inl e) \<Rightarrow> (q', h', Inl e)
                      | (q', h', Inr _) \<Rightarrow> (q', h', thrown))))"

definition moveToWaitingChildren :: "tq \<Rightarrow> test_job \<Rightarrow> unit job_call" where
  "moveToWaitingChildren q h =
     (if state_of q (h_ref h) \<noteq> Active
      then fail_call q h ''moveToWaitingChildren() can only be used while the job is active in a Worker''
      else (upd (h_ref h) (\<lambda>j. j\<lparr>j_movedToWaitingChildren := True\<rparr>) q, h, Inl (Js WaitingChildrenError)))"

definition suspend :: "string option \<Rightarrow> rat option \<Rightarrow> int \<Rightarrow> tq \<Rightarrow> test_job \<Rightarrow> unit job_call" where
  "suspend reason tmo now q h =
     (upd (h_ref h) (\<lambda>j. j\<lparr>j_state := Suspended, j_suspendedAt := Some now, j_suspendReason := reason,
        j_suspendTimeout := tmo\<rparr>) q, h, Inl (Js SuspendError))"

end
