(* ===== verification/Tq_Budget.thy ===== *)
theory Tq_Budget
  imports Tq_Job
begin

text \<open>
  Flow budgets (\<open>src/testing.ts\<close>): limits on tokens and costs, in total and per category, the usage
  charged against them and the flag that says a limit has been passed. Reported usage is finite
  (\<open>validateAndResolveUsage\<close>), so a charged amount is a rational.
\<close>

section \<open>Operations\<close>

record budget_limits =
  bl_maxTotalTokens :: "jsnum option"
  bl_maxTokens :: "(string, jsnum) jsmap option"
  bl_tokenWeights :: "(string, jsnum) jsmap option"
  bl_maxTotalCost :: "jsnum option"
  bl_maxCosts :: "(string, jsnum) jsmap option"
  bl_costUnit :: "string option"
  bl_pause :: "bool option"

definition setBudget :: "string \<Rightarrow> budget_limits \<Rightarrow> tq \<Rightarrow> tq" where
  "setBudget flowId l q =
     q\<lparr>q_budgets := jm_set flowId
        \<lparr>b_maxTotalTokens = bl_maxTotalTokens l, b_maxTokens = bl_maxTokens l, b_tokenWeights = bl_tokenWeights l,
         b_maxTotalCost = bl_maxTotalCost l, b_maxCosts = bl_maxCosts l, b_costUnit = bl_costUnit l,
         b_usedTokens = 0, b_usedCost = 0, b_usedTokensByCategory = [], b_usedCostsByCategory = [],
         b_exceeded = False, b_pause = or_else (bl_pause l) False\<rparr> (q_budgets q)\<rparr>"

definition limit_passed :: "jsnum option \<Rightarrow> rat \<Rightarrow> bool" where
  "limit_passed l used = (case l of None \<Rightarrow> False | Some m \<Rightarrow> Num 0 < m \<and> m < Num used)"

definition category_passed :: "(string, jsnum) jsmap option \<Rightarrow> (string, rat) jsmap \<Rightarrow> bool" where
  "category_passed limits used =
     (case limits of None \<Rightarrow> False
      | Some ls \<Rightarrow> list_ex (\<lambda>(cat, l). limit_passed (Some l) (at_or_0 used cat)) ls)"

definition budgetLimitsExceeded :: "budget \<Rightarrow> bool" where
  "budgetLimitsExceeded b \<longleftrightarrow>
     limit_passed (b_maxTotalTokens b) (b_usedTokens b) \<or>
     limit_passed (b_maxTotalCost b) (b_usedCost b) \<or>
     category_passed (b_maxTokens b) (b_usedTokensByCategory b) \<or>
     category_passed (b_maxCosts b) (b_usedCostsByCategory b)"

definition add_amounts :: "(string, rat) jsmap \<Rightarrow> (string, rat) jsmap \<Rightarrow> (string, rat) jsmap" where
  "add_amounts amounts m = fold (\<lambda>(k, v). add_at k v) amounts m"

definition charge :: "(string, rat) jsmap \<Rightarrow> (string, rat) jsmap \<Rightarrow> rat \<Rightarrow> rat \<Rightarrow> budget \<Rightarrow> budget" where
  "charge tokens costs weightedTotal totalCost b =
     b\<lparr>b_usedTokens := b_usedTokens b + weightedTotal, b_usedCost := b_usedCost b + totalCost,
       b_usedTokensByCategory := add_amounts tokens (b_usedTokensByCategory b),
       b_usedCostsByCategory := add_amounts costs (b_usedCostsByCategory b)\<rparr>"

definition flag_exceeded :: "budget \<Rightarrow> budget" where
  "flag_exceeded b = (if budgetLimitsExceeded b then b\<lparr>b_exceeded := True\<rparr> else b)"

datatype budget_status = BudgetOk | BudgetExceeded | NoBudget

definition recordBudgetUsage ::
  "string \<Rightarrow> (string, rat) jsmap \<Rightarrow> (string, rat) jsmap \<Rightarrow> rat \<Rightarrow> rat \<Rightarrow> tq \<Rightarrow> tq \<times> budget_status"
where
  "recordBudgetUsage key tokens costs weightedTotal totalCost q =
     (case jm_get (q_budgets q) key of
        None \<Rightarrow> (q, NoBudget)
      | Some b \<Rightarrow>
          let b' = charge tokens costs weightedTotal totalCost b
          in (q\<lparr>q_budgets := jm_set key (flag_exceeded b') (q_budgets q)\<rparr>,
              if budgetLimitsExceeded b' then BudgetExceeded else BudgetOk))"

definition checkBudget :: "string \<Rightarrow> tq \<Rightarrow> budget_status" where
  "checkBudget key q =
     (case jm_get (q_budgets q) key of
        None \<Rightarrow> NoBudget
      | Some b \<Rightarrow> if b_exceeded b then BudgetExceeded else BudgetOk)"

definition getFlowBudget :: "string \<Rightarrow> tq \<Rightarrow> budget option" where
  "getFlowBudget flowId q =
     map_option (\<lambda>b. b\<lparr>b_usedTokensByCategory := [], b_usedCostsByCategory := []\<rparr>) (jm_get (q_budgets q) flowId)"

text \<open>A limit in an update: not given, \<open>null\<close> or a new value.\<close>

datatype 'a limit_change = Unchanged | Deleted | SetTo 'a

definition change_limit :: "'a limit_change \<Rightarrow> 'a option \<Rightarrow> 'a option" where
  "change_limit c old = (case c of Unchanged \<Rightarrow> old | Deleted \<Rightarrow> None | SetTo v \<Rightarrow> Some v)"

record budget_changes =
  bc_maxTotalTokens :: "jsnum limit_change"
  bc_maxTokens :: "(string, jsnum) jsmap limit_change"
  bc_tokenWeights :: "(string, jsnum) jsmap limit_change"
  bc_maxTotalCost :: "jsnum limit_change"
  bc_maxCosts :: "(string, jsnum) jsmap limit_change"
  bc_costUnit :: "string limit_change"
  bc_pause :: "bool option"

definition change_budget :: "budget_changes \<Rightarrow> budget \<Rightarrow> budget" where
  "change_budget c b =
     (let b1 = b\<lparr>b_maxTotalTokens := change_limit (bc_maxTotalTokens c) (b_maxTotalTokens b),
                 b_maxTokens := change_limit (bc_maxTokens c) (b_maxTokens b),
                 b_tokenWeights := change_limit (bc_tokenWeights c) (b_tokenWeights b),
                 b_maxTotalCost := change_limit (bc_maxTotalCost c) (b_maxTotalCost b),
                 b_maxCosts := change_limit (bc_maxCosts c) (b_maxCosts b),
                 b_costUnit := change_limit (bc_costUnit c) (b_costUnit b),
                 b_pause := or_else (bc_pause c) (b_pause b)\<rparr>
      in b1\<lparr>b_exceeded := budgetLimitsExceeded b1\<rparr>)"

definition updateFlowBudget :: "string \<Rightarrow> budget_changes \<Rightarrow> tq \<Rightarrow> tq \<times> budget option" where
  "updateFlowBudget flowId c q =
     (case jm_get (q_budgets q) flowId of
        None \<Rightarrow> (q, None)
      | Some b \<Rightarrow>
          let q' = q\<lparr>q_budgets := jm_set flowId (change_budget c b) (q_budgets q)\<rparr>
          in (q', getFlowBudget flowId q'))"

section \<open>Charging completed usage\<close>

definition amounts :: "(string, jsnum) jsmap option \<Rightarrow> (string, rat) jsmap" where
  "amounts m = map (\<lambda>(k, v). (k, num_or 0 (Some v))) (or_else m [])"

definition weights_of :: "string \<Rightarrow> tq \<Rightarrow> (string, jsnum) jsmap" where
  "weights_of key q = (case jm_get (q_budgets q) key of None \<Rightarrow> [] | Some b \<Rightarrow> or_else (b_tokenWeights b) [])"

text \<open>The budget part of \<open>chargeCompletedUsage\<close>.\<close>

definition charge_usage :: "string \<Rightarrow> job_usage \<Rightarrow> tq \<Rightarrow> tq \<times> budget_status" where
  "charge_usage key u q =
     (let tokens = amounts (u_tokens u); costs = amounts (u_costs u);
          rawTotal = num_or 0 (u_totalTokens u); totalCost = num_or 0 (u_totalCost u)
      in if rawTotal > 0 \<or> tokens \<noteq> [] \<or> costs \<noteq> [] \<or> totalCost > 0
         then recordBudgetUsage key tokens costs (computeWeightedTotal tokens (weights_of key q) rawTotal) totalCost q
         else (q, NoBudget))"

section \<open>The exceeded flag\<close>

lemma at_or_0_add_amounts:
  "at_or_0 (add_amounts kvs m) k = at_or_0 m k + (\<Sum>(k', v)\<leftarrow>kvs. if k' = k then v else 0)"
  by (induction kvs arbitrary: m) (auto simp: add_amounts_def at_or_0_add_at)

lemma limit_passed_mono: "limit_passed l x \<Longrightarrow> x \<le> y \<Longrightarrow> limit_passed l y"
proof -
  have "m < Num x \<Longrightarrow> x \<le> y \<Longrightarrow> m < Num y" for m by (cases m) auto
  then show "limit_passed l x \<Longrightarrow> x \<le> y \<Longrightarrow> limit_passed l y"
    by (cases l) (auto simp: limit_passed_def)
qed

lemma limit_passed_0 [simp]: "\<not> limit_passed l 0"
proof -
  have "\<not> (Num 0 < m \<and> m < Num 0)" for m by (cases m) auto
  then show ?thesis by (cases l) (auto simp: limit_passed_def)
qed

definition nonneg_amounts :: "(string, rat) jsmap \<Rightarrow> bool" where
  "nonneg_amounts kvs \<longleftrightarrow> list_all (\<lambda>(k, v). 0 \<le> v) kvs"

lemma at_or_0_add_amounts_mono:
  assumes "nonneg_amounts kvs"
  shows "at_or_0 m k \<le> at_or_0 (add_amounts kvs m) k"
proof -
  have "0 \<le> (\<Sum>(k', v)\<leftarrow>kvs. if k' = k then v else 0)"
    using assms by (intro sum_list_nonneg) (auto simp: nonneg_amounts_def list_all_iff split: if_splits)
  then show ?thesis by (simp add: at_or_0_add_amounts)
qed

lemma category_passed_mono:
  "category_passed ls m \<Longrightarrow> nonneg_amounts kvs \<Longrightarrow> category_passed ls (add_amounts kvs m)"
  by (cases ls) (auto simp: category_passed_def list_ex_iff
      intro: limit_passed_mono [OF _ at_or_0_add_amounts_mono])

lemma budgetLimitsExceeded_charge:
  assumes "budgetLimitsExceeded b" and "nonneg_amounts tokens" and "nonneg_amounts costs" and "0 \<le> w" and "0 \<le> c"
  shows "budgetLimitsExceeded (charge tokens costs w c b)"
proof -
  have "b_usedTokens b \<le> b_usedTokens b + w" "b_usedCost b \<le> b_usedCost b + c" using assms by simp_all
  then show ?thesis
    using assms(1) limit_passed_mono category_passed_mono [OF _ assms(2)] category_passed_mono [OF _ assms(3)]
    by (auto simp: budgetLimitsExceeded_def charge_def)
qed

text \<open>The flag of a budget says exactly whether a limit is passed.\<close>

definition flag_exact :: "budget \<Rightarrow> bool" where
  "flag_exact b \<longleftrightarrow> b_exceeded b = budgetLimitsExceeded b"

definition flags_exact :: "tq \<Rightarrow> bool" where
  "flags_exact q \<longleftrightarrow> (\<forall>k b. jm_get (q_budgets q) k = Some b \<longrightarrow> flag_exact b)"

lemma limits_flag [simp]: "budgetLimitsExceeded (b\<lparr>b_exceeded := x\<rparr>) = budgetLimitsExceeded b"
  by (simp add: budgetLimitsExceeded_def)

lemma flag_exact_charge:
  assumes "flag_exact b" and "nonneg_amounts tokens" and "nonneg_amounts costs" and "0 \<le> w" and "0 \<le> c"
  shows "flag_exact (flag_exceeded (charge tokens costs w c b))"
proof -
  have "b_exceeded (charge tokens costs w c b) = b_exceeded b" by (simp add: charge_def)
  then show ?thesis
    using assms(1) budgetLimitsExceeded_charge [OF _ assms(2-5)]
    by (auto simp: flag_exact_def flag_exceeded_def)
qed

lemma flag_exact_change: "flag_exact (change_budget c b)"
  by (simp add: flag_exact_def change_budget_def Let_def)

definition valid_usage :: "job_usage \<Rightarrow> bool" where
  "valid_usage u \<longleftrightarrow> (\<exists>v. validateAndResolveUsage v = Inr u)"

datatype budget_op =
    SetBudget string budget_limits
  | ChargeUsage string job_usage
  | UpdateBudget string budget_changes

fun run_budget_op :: "budget_op \<Rightarrow> tq \<Rightarrow> tq" where
  "run_budget_op (SetBudget k l) q = setBudget k l q"
| "run_budget_op (ChargeUsage k u) q = fst (charge_usage k u q)"
| "run_budget_op (UpdateBudget k c) q = fst (updateFlowBudget k c q)"

lemma amounts_nonneg:
  assumes "case m of None \<Rightarrow> True | Some kvs \<Rightarrow> check_amounts e kvs = Inr ()"
  shows "nonneg_amounts (amounts m)"
  using assms by (cases m) (fastforce simp: nonneg_amounts_def amounts_def list_all_iff check_amounts_Inr)+

lemma not_bad_num_or: "\<not> (case t of None \<Rightarrow> False | Some v \<Rightarrow> bad_amount v) \<Longrightarrow> 0 \<le> num_or 0 t"
  by (cases t) (auto simp: bad_amount_iff)

lemma valid_usage_nonneg:
  assumes "valid_usage u"
  shows "nonneg_amounts (amounts (u_tokens u))" and "nonneg_amounts (amounts (u_costs u))"
    and "0 \<le> num_or 0 (u_totalTokens u)" and "0 \<le> num_or 0 (u_totalCost u)"
proof -
  obtain v where "validateAndResolveUsage v = Inr u" using assms by (auto simp: valid_usage_def)
  with usage_resolution_fixed have "validateAndResolveUsage u = Inr u" by blast
  note ok = this [unfolded validateAndResolveUsage_Inr]
  show "nonneg_amounts (amounts (u_tokens u))" using ok by (intro amounts_nonneg) blast
  show "nonneg_amounts (amounts (u_costs u))" using ok by (intro amounts_nonneg) blast
  show "0 \<le> num_or 0 (u_totalTokens u)" using ok by (intro not_bad_num_or) blast
  show "0 \<le> num_or 0 (u_totalCost u)" using ok by (intro not_bad_num_or) blast
qed

lemma flags_exact_set:
  "flags_exact q \<Longrightarrow> flag_exact b \<Longrightarrow> flags_exact (q\<lparr>q_budgets := jm_set k b (q_budgets q)\<rparr>)"
  by (auto simp: flags_exact_def js_map_simps)

lemma flags_exact_charge:
  assumes "flags_exact q" and "valid_usage u"
  shows "flags_exact (fst (charge_usage k u q))"
proof -
  note nn = valid_usage_nonneg [OF assms(2)]
  have "0 \<le> computeWeightedTotal (amounts (u_tokens u)) w r" for w r
    using nn(1) by (intro computeWeightedTotal_nonneg) (auto simp: nonneg_amounts_def list_all_iff)
  then have "flag_exact (flag_exceeded (charge (amounts (u_tokens u)) (amounts (u_costs u))
      (computeWeightedTotal (amounts (u_tokens u)) w r) (num_or 0 (u_totalCost u)) b))"
    if "flag_exact b" for w r b
    by (intro flag_exact_charge [OF that nn(1,2) _ nn(4)])
  moreover have "flag_exact b" if "jm_get (q_budgets q) k = Some b" for b
    using that assms(1) by (simp add: flags_exact_def)
  ultimately show ?thesis
    using assms(1) flags_exact_set [OF assms(1)]
    by (simp add: charge_usage_def recordBudgetUsage_def Let_def split: option.split)
qed

lemma flag_exact_fresh: "flags_exact q \<Longrightarrow> flags_exact (setBudget k l q)"
  unfolding setBudget_def
  by (rule flags_exact_set)
     (auto simp: flag_exact_def budgetLimitsExceeded_def category_passed_def at_or_0_def list_ex_iff split: option.splits)

text \<open>
  C4: the exceeded flag of a flow budget is exact. Whatever budgets are set, whatever valid usage
  is charged and however limits are raised, lowered or deleted, in any order, a budget is marked
  exceeded if and only if its recorded usage is beyond one of its current limits, and
  \<open>checkBudget\<close> (the gate before a job runs) reports just that.
\<close>

theorem budget_flags_exact:
  assumes "flags_exact q" and "\<forall>k u. ChargeUsage k u \<in> set ops \<longrightarrow> valid_usage u"
    and "jm_get (q_budgets (fold run_budget_op ops q)) k = Some b"
  shows "checkBudget k (fold run_budget_op ops q) = (if budgetLimitsExceeded b then BudgetExceeded else BudgetOk)"
proof -
  have "flags_exact (fold run_budget_op ops q)"
    using assms(1,2)
  proof (induction ops arbitrary: q)
    case (Cons a ops)
    have "flags_exact (run_budget_op a q)"
    proof (cases a)
      case (SetBudget k l)
      then show ?thesis using Cons.prems by (simp add: flag_exact_fresh)
    next
      case (ChargeUsage k u)
      then show ?thesis using Cons.prems by (simp add: flags_exact_charge)
    next
      case (UpdateBudget k c)
      then show ?thesis
        using Cons.prems(1) flags_exact_set [OF Cons.prems(1) flag_exact_change]
        by (simp add: updateFlowBudget_def Let_def split: option.split)
    qed
    then show ?case using Cons.IH [of "run_budget_op a q"] Cons.prems(2) by auto
  qed simp
  then have "flag_exact b" using assms(3) by (simp add: flags_exact_def)
  then show ?thesis using assms(3) by (simp add: checkBudget_def flag_exact_def)
qed

end
