(* ===== verification/Tq_Sched.thy ===== *)
theory Tq_Sched
  imports Tq_Budget
begin

text \<open>
  Job schedulers of a \<open>TestQueue\<close> (\<open>src/testing.ts\<close>): upsert and removal, the timer that wakes the
  loop at the next due run, the loop that creates the due jobs, and the re-arming of a
  \<open>repeatAfterComplete\<close> scheduler when its job finishes. The time zone tables and the check of a
  zone name are parameters.
\<close>

section \<open>The timer\<close>

text \<open>\<open>nextRun = 0\<close> marks a \<open>repeatAfterComplete\<close> scheduler that waits for its job.\<close>

definition awaits_completion :: "scheduler_entry \<Rightarrow> bool" where
  "awaits_completion e \<longleftrightarrow> nonzero (repeatAfterComplete (se_schedule e)) \<and> se_nextRun e = 0"

fun earliest :: "rat list \<Rightarrow> rat option" where
  "earliest [] = None"
| "earliest (x # xs) = (case earliest xs of None \<Rightarrow> Some x | Some y \<Rightarrow> Some (min x y))"

definition next_due :: "tq \<Rightarrow> rat option" where
  "next_due q = earliest (map se_nextRun (filter (\<lambda>e. \<not> awaits_completion e) (map snd (q_schedulers q))))"

definition ensureSchedulerLoop :: "int \<Rightarrow> tq \<Rightarrow> tq" where
  "ensureSchedulerLoop now q =
     (if q_schedulerRunning q \<or> q_workers q = [] \<or> q_schedulers q = [] then q
      else (case next_due q of
              None \<Rightarrow> q
            | Some nextDue \<Rightarrow>
                if (case q_schedulerTimer q of None \<Rightarrow> False | Some wakeAt \<Rightarrow> wakeAt \<le> nextDue) then q
                else (clearSchedulerTimer q)\<lparr>q_schedulerTimer :=
                        Some (of_int now + min (max 0 (nextDue - of_int now)) MAX_TIMEOUT_DELAY_MS)\<rparr>))"

definition onWorkerAttached :: "int \<Rightarrow> tq \<Rightarrow> tq" where
  "onWorkerAttached now q = ensureSchedulerLoop now q"

definition onWorkerDetached :: "tq \<Rightarrow> tq" where
  "onWorkerDetached q = (if q_workers q = [] then clearSchedulerTimer q else q)"

definition resume :: "int \<Rightarrow> tq \<Rightarrow> tq" where
  "resume now q = ensureSchedulerLoop now (emit EvWake (q\<lparr>q_paused := False\<rparr>))"

section \<open>Registering schedulers\<close>

record schedule_opts =
  so_pattern :: "string option"
  so_every :: "jsnum option"
  so_repeatAfterComplete :: "jsnum option"
  so_tz :: "string option"
  so_startDate :: "jsnum option"
  so_endDate :: "jsnum option"
  so_limit :: "jsnum option"

definition truthy_num :: "jsnum option \<Rightarrow> bool" where
  "truthy_num x \<longleftrightarrow> x \<noteq> None \<and> x \<noteq> Some (Num 0) \<and> x \<noteq> Some NaN"

definition mode_count :: "schedule_opts \<Rightarrow> nat" where
  "mode_count s =
     (if has_text (so_pattern s) then 1 else 0) + (if truthy_num (so_every s) then 1 else 0)
     + (if truthy_num (so_repeatAfterComplete s) then 1 else 0)"

definition finite_part :: "jsnum option \<Rightarrow> rat option" where
  "finite_part x = (case x of Some (Num v) \<Rightarrow> Some v | _ \<Rightarrow> None)"

text \<open>The checks of \<open>upsertJobScheduler\<close>, in order; the result is the normalized schedule.\<close>

definition check_schedule ::
  "(string \<Rightarrow> bool) \<Rightarrow> schedule_opts \<Rightarrow> js job_template option \<Rightarrow> js serializer \<Rightarrow> tq_error + schedule"
where
  "check_schedule valid_tz s template ser =
     andThen (map_sum Invalid id (validateSchedulerEvery (so_every s))) (\<lambda>_.
     andThen (ensure (so_repeatAfterComplete s = None \<or> isValidSchedulerEvery (so_repeatAfterComplete s))
       (Js (err ''repeatAfterComplete must be a positive safe integer''))) (\<lambda>_.
     andThen (ensure (mode_count s \<noteq> 0)
       (Js (err ''Schedule must have pattern (cron), every (ms interval), or repeatAfterComplete (ms)''))) (\<lambda>_.
     andThen (ensure (mode_count s \<le> 1)
       (Js (err ''Schedule must have only one of: pattern, every, repeatAfterComplete''))) (\<lambda>_.
     andThen (ensure (has_text (so_tz s) \<longrightarrow> valid_tz (or_else (so_tz s) []))
       (Js (err ''Invalid timezone''))) (\<lambda>_.
     andThen (map_sum Invalid id (normalizeScheduleDate (so_startDate s) ''startDate'')) (\<lambda>sd.
     andThen (map_sum Invalid id (normalizeScheduleDate (so_endDate s) ''endDate'')) (\<lambda>ed.
     andThen (map_sum Invalid id (validateSchedulerBounds sd ed (so_limit s))) (\<lambda>_.
     andThen (map_sum Invalid id (validateSchedulerTemplate template ser)) (\<lambda>_.
     Inr \<lparr>pattern = so_pattern s, every = finite_part (so_every s),
          repeatAfterComplete = finite_part (so_repeatAfterComplete s), tz = so_tz s,
          startDate = sd, endDate = ed\<rparr>)))))))))"

text \<open>
  The run time of an upserted scheduler: an unchanged schedule keeps its count and its next run, a
  switch to \<open>repeatAfterComplete\<close> is held to the run the old schedule had planned.
\<close>

definition merge_existing ::
  "scheduler_entry option \<Rightarrow> schedule \<Rightarrow> rat option \<Rightarrow> nat \<times> int option \<times> rat option"
where
  "merge_existing existing s nextRun =
     (case existing of
        None \<Rightarrow> (0, None, nextRun)
      | Some e \<Rightarrow>
          if se_schedule e = s then (se_iterationCount e, se_lastRun e, Some (se_nextRun e))
          else (case nextRun of
                  Some n \<Rightarrow>
                    if repeatAfterComplete s \<noteq> None
                    then (0, None, holdSchedulerModeSwitch (se_schedule e) (se_nextRun e) n (endDate s))
                    else (0, None, nextRun)
                | None \<Rightarrow> (0, None, None)))"

definition copy_template :: "js job_template \<Rightarrow> js job_template" where
  "copy_template t =
     t\<lparr>t_data := (case t_data t of None \<Rightarrow> None | Some d \<Rightarrow> json_copy d)\<rparr>"

definition put_scheduler :: "string \<Rightarrow> scheduler_entry \<Rightarrow> tq \<Rightarrow> tq" where
  "put_scheduler name e q =
     q\<lparr>q_schedulers := jm_set name (e\<lparr>se_template := map_option copy_template (se_template e)\<rparr>) (q_schedulers q)\<rparr>"

definition upsertJobScheduler ::
  "(string \<Rightarrow> zone) \<Rightarrow> (string \<Rightarrow> bool) \<Rightarrow> string \<Rightarrow> schedule_opts \<Rightarrow> js job_template option \<Rightarrow> int \<Rightarrow> tq
     \<Rightarrow> tq \<times> (tq_error + unit)"
where
  "upsertJobScheduler zones valid_tz name so template now q =
     (case check_schedule valid_tz so template (q_serializer q) of
        Inl e \<Rightarrow> (q, Inl e)
      | Inr s \<Rightarrow>
          (case computeInitialSchedulerNextRun zones s (of_int now) of
             Inl e \<Rightarrow> (q, Inl (BadSchedule e))
           | Inr initial \<Rightarrow>
               (case merge_existing (jm_get (q_schedulers q) name) s initial of
                  (n, lastRun, None) \<Rightarrow>
                    (q, Inl (Js (err ''Schedule has no occurrences within the configured bounds'')))
                | (n, lastRun, Some nextRun) \<Rightarrow>
                    (ensureSchedulerLoop now
                       (put_scheduler name
                          \<lparr>se_schedule = s, se_limit = finite_part (so_limit so), se_iterationCount = n,
                           se_template = template, se_lastRun = lastRun, se_nextRun = nextRun\<rparr> q), Inr ()))))"

definition drop_scheduler :: "string \<Rightarrow> tq \<Rightarrow> tq" where
  "drop_scheduler name q = q\<lparr>q_schedulers := jm_delete name (q_schedulers q)\<rparr>"

definition removeJobScheduler :: "string \<Rightarrow> int \<Rightarrow> tq \<Rightarrow> tq" where
  "removeJobScheduler name now q = ensureSchedulerLoop now (drop_scheduler name q)"

definition getJobScheduler :: "string \<Rightarrow> tq \<Rightarrow> scheduler_entry option" where
  "getJobScheduler name q = jm_get (q_schedulers q) name"

definition getRepeatableJobs :: "tq \<Rightarrow> (string \<times> scheduler_entry) list" where
  "getRepeatableJobs q = q_schedulers q"

section \<open>Running what is due\<close>

definition no_mode :: "scheduler_entry \<Rightarrow> bool" where
  "no_mode e \<longleftrightarrow> \<not> has_text (pattern (se_schedule e)) \<and> \<not> nonzero (every (se_schedule e))
     \<and> \<not> nonzero (repeatAfterComplete (se_schedule e))"

definition limit_reached :: "scheduler_entry \<Rightarrow> nat \<Rightarrow> bool" where
  "limit_reached e n = (case se_limit e of None \<Rightarrow> False | Some l \<Rightarrow> of_nat n \<ge> l)"

definition past_end :: "scheduler_entry \<Rightarrow> bool" where
  "past_end e = (case endDate (se_schedule e) of None \<Rightarrow> False | Some d \<Rightarrow> se_nextRun e > d)"

definition is_repeat :: "scheduler_entry \<Rightarrow> bool" where
  "is_repeat e = (case repeatAfterComplete (se_schedule e) of None \<Rightarrow> False | Some d \<Rightarrow> d > 0)"

definition dueNames :: "int \<Rightarrow> tq \<Rightarrow> string list" where
  "dueNames now q =
     map fst (filter (\<lambda>(n, e). no_mode e \<or> (\<not> awaits_completion e \<and> se_nextRun e \<le> of_int now)) (q_schedulers q))"

definition template_data :: "scheduler_entry \<Rightarrow> js" where
  "template_data e = (case se_template e of None \<Rightarrow> JObj [] | Some t \<Rightarrow> or_else (t_data t) (JObj []))"

definition template_name :: "string \<Rightarrow> scheduler_entry \<Rightarrow> string" where
  "template_name name e = (case se_template e of None \<Rightarrow> name | Some t \<Rightarrow> or_else (t_name t) name)"

definition template_opts :: "scheduler_entry \<Rightarrow> job_options" where
  "template_opts e = (case se_template e of None \<Rightarrow> default_opts | Some t \<Rightarrow> or_else (t_opts t) default_opts)"

text \<open>The job of a run: an id, then a plain add with delay 0.\<close>

definition create_run :: "string \<Rightarrow> scheduler_entry \<Rightarrow> utf16 \<Rightarrow> int \<Rightarrow> tq \<Rightarrow> tq \<times> (tq_error + nat)" where
  "create_run name e s now q =
     (case alloc_opts (template_opts e) q of
        (q0, o') \<Rightarrow>
          (case generateJobId [] q0 of
             (q1, Inl x) \<Rightarrow> (q1, Inl x)
           | (q1, Inr i) \<Rightarrow> insertRecord (template_name name e) s o' i now 0 (q_serializer q1) id q1))"

text \<open>What happens to the entry after its job has been created.\<close>

definition advance_entry ::
  "(string \<Rightarrow> zone) \<Rightarrow> string \<Rightarrow> scheduler_entry \<Rightarrow> int \<Rightarrow> tq \<Rightarrow> tq \<times> tq_error option"
where
  "advance_entry zones name e now q =
     (let e' = e\<lparr>se_lastRun := Some now, se_iterationCount := Suc (se_iterationCount e)\<rparr>;
          q' = q\<lparr>q_schedulers := jm_set name e' (q_schedulers q)\<rparr>
      in if limit_reached e' (se_iterationCount e') then (drop_scheduler name q', None)
         else if is_repeat e then (put_scheduler name (e'\<lparr>se_nextRun := 0\<rparr>) q', None)
         else (case computeFollowingSchedulerNextRun zones (se_schedule e') (Some (se_nextRun e')) (of_int now) of
                 Inl x \<Rightarrow> (q', Some (BadSchedule x))
               | Inr None \<Rightarrow> (drop_scheduler name q', None)
               | Inr (Some n) \<Rightarrow> (put_scheduler name (e'\<lparr>se_nextRun := n\<rparr>) q', None)))"

definition mark_scheduled :: "string \<Rightarrow> scheduler_entry \<Rightarrow> nat \<Rightarrow> tq \<Rightarrow> tq" where
  "mark_scheduled name e r q = (if is_repeat e then upd r (\<lambda>j. j\<lparr>j_schedulerName := Some name\<rparr>) q else q)"

definition run_due :: "(string \<Rightarrow> zone) \<Rightarrow> int \<Rightarrow> string \<Rightarrow> tq \<times> tq_error option \<Rightarrow> tq \<times> tq_error option" where
  "run_due zones now name st =
     (case st of
        (q, Some x) \<Rightarrow> (q, Some x)
      | (q, None) \<Rightarrow>
          (case jm_get (q_schedulers q) name of
             None \<Rightarrow> (q, None)
           | Some e \<Rightarrow>
               if no_mode e then (drop_scheduler name q, None)
               else if se_nextRun e > of_int now then (q, None)
               else if limit_reached e (se_iterationCount e) \<or> past_end e then (drop_scheduler name q, None)
               else (case serialize (q_serializer q) (template_data e) of
                       None \<Rightarrow> (drop_scheduler name q, None)
                     | Some s \<Rightarrow>
                         if too_large s then (drop_scheduler name q, None)
                         else (case create_run name e s now q of
                                 (q', Inl x) \<Rightarrow> (q', Some x)
                               | (q', Inr r) \<Rightarrow> advance_entry zones name e now (mark_scheduled name e r q')))))"

definition runDueSchedulers :: "(string \<Rightarrow> zone) \<Rightarrow> int \<Rightarrow> tq \<Rightarrow> tq \<times> tq_error option" where
  "runDueSchedulers zones now q =
     (if q_schedulerRunning q \<or> q_workers q = [] then (q, None)
      else (case fold (run_due zones now) (dueNames now q) (q\<lparr>q_schedulerRunning := True\<rparr>, None) of
              (q', x) \<Rightarrow> (ensureSchedulerLoop now (q'\<lparr>q_schedulerRunning := False\<rparr>), x)))"

text \<open>The callback of the scheduler timer.\<close>

definition scheduler_fires :: "(string \<Rightarrow> zone) \<Rightarrow> int \<Rightarrow> tq \<Rightarrow> tq \<times> tq_error option" where
  "scheduler_fires zones now q = runDueSchedulers zones now (q\<lparr>q_schedulerTimer := None\<rparr>)"

section \<open>A job of a scheduler finishes\<close>

definition onSchedulerJobFinished :: "(string \<Rightarrow> zone) \<Rightarrow> nat \<Rightarrow> int \<Rightarrow> tq \<Rightarrow> tq \<times> tq_error option" where
  "onSchedulerJobFinished zones r now q =
     (case nonempty_str (j_schedulerName (q_rec q r)) of
        None \<Rightarrow> (q, None)
      | Some name \<Rightarrow>
          (case jm_get (q_schedulers q) name of
             None \<Rightarrow> (q, None)
           | Some e \<Rightarrow>
               if \<not> awaits_completion e then (q, None)
               else (case computeFollowingSchedulerNextRun zones (se_schedule e) (Some (se_nextRun e)) (of_int now) of
                       Inl x \<Rightarrow> (q, Some (BadSchedule x))
                     | Inr None \<Rightarrow> (ensureSchedulerLoop now (drop_scheduler name q), None)
                     | Inr (Some n) \<Rightarrow>
                         if limit_reached e (se_iterationCount e)
                         then (ensureSchedulerLoop now (drop_scheduler name q), None)
                         else (ensureSchedulerLoop now (put_scheduler name (e\<lparr>se_nextRun := n\<rparr>) q), None))))"

end
