(* ===== verification/Tq_World.thy ===== *)
theory Tq_World
  imports Tq_Sched
begin

text \<open>
  The registry of open queues and the operations that reach across it (\<open>src/testing.ts\<close>): parents
  and children in different queues, flow jobs, dead-letter queues and usage summaries. A queue is
  known by its name, one open queue per name.
\<close>

type_synonym world = "(string, tq) jsmap"

section \<open>The registry\<close>

definition with_queue :: "string \<Rightarrow> (tq \<Rightarrow> tq) \<Rightarrow> world \<Rightarrow> world" where
  "with_queue n f w = (case jm_get w n of None \<Rightarrow> w | Some q \<Rightarrow> jm_set n (f q) w)"

definition find_record :: "world \<Rightarrow> string \<Rightarrow> string \<Rightarrow> (tq \<times> nat) option" where
  "find_record w n i =
     (case jm_get w n of None \<Rightarrow> None
      | Some q \<Rightarrow> (case lookup q i of None \<Rightarrow> None | Some r \<Rightarrow> Some (q, r)))"

text \<open>A queue operation that may throw, run on a queue of the registry; an absent queue is not called.\<close>

definition run_on :: "string \<Rightarrow> (tq \<Rightarrow> tq \<times> (tq_error + 'a)) \<Rightarrow> world \<Rightarrow> world \<times> (tq_error + 'a)" where
  "run_on n f w =
     (case jm_get w n of
        None \<Rightarrow> (w, Inl (Js (err ''queue is closed'')))
      | Some q \<Rightarrow> (case f q of (q', res) \<Rightarrow> (jm_set n q' w, res)))"

section \<open>Parents and children\<close>

definition deps_member :: "string \<Rightarrow> string \<Rightarrow> string \<Rightarrow> string" where
  "deps_member prefix childQueue childId = prefix @ '':{'' @ childQueue @ ''}:'' @ childId"

definition registerDependency :: "string \<Rightarrow> string \<Rightarrow> string \<Rightarrow> tq \<Rightarrow> tq" where
  "registerDependency parentId childQueue childId q =
     (case lookup q parentId of
        None \<Rightarrow> q
      | Some r \<Rightarrow>
          upd r (\<lambda>j. j\<lparr>j_deps := jm_set (deps_member (or_else (j_depsPrefix j) ''glide'') childQueue childId)
                        \<lparr>pr_queue = childQueue, pr_id = childId\<rparr> (j_deps j)\<rparr>) q)"

definition parent_links :: "parent_ref list \<Rightarrow> job \<Rightarrow> job" where
  "parent_links ps j =
     (case ps of
        [] \<Rightarrow> j
      | p # rest \<Rightarrow>
          (let j' = j\<lparr>j_parentId := Some (pr_id p), j_parentQueue := Some (pr_queue p)\<rparr>
           in if rest \<noteq> [] then j'\<lparr>j_parents := ps\<rparr> else j'))"

definition linkToParents :: "string \<Rightarrow> string \<Rightarrow> parent_ref list \<Rightarrow> world \<Rightarrow> world \<times> (job \<Rightarrow> job)" where
  "linkToParents qn childId ps w =
     (fold (\<lambda>p. with_queue (pr_queue p) (registerDependency (pr_id p) qn childId)) ps w, parent_links ps)"

definition attachParent :: "string \<Rightarrow> nat \<Rightarrow> parent_ref \<Rightarrow> world \<Rightarrow> world" where
  "attachParent qn r p w =
     (case jm_get w qn of
        None \<Rightarrow> w
      | Some q \<Rightarrow>
          with_queue (pr_queue p) (registerDependency (pr_id p) qn (id_of q r))
            (with_queue qn (upd r (\<lambda>j. j\<lparr>j_parentId := Some (pr_id p), j_parentQueue := Some (pr_queue p)\<rparr>)) w))"

definition pendingDependencies :: "nat \<Rightarrow> tq \<Rightarrow> int" where
  "pendingDependencies r q = int (length (j_deps (q_rec q r))) - int (length (j_depsDone (q_rec q r)))"

definition set_add :: "'a \<Rightarrow> 'a list \<Rightarrow> 'a list" where
  "set_add x xs = (if x \<in> set xs then xs else xs @ [x])"

definition mark_done :: "string \<Rightarrow> string \<Rightarrow> job \<Rightarrow> job" where
  "mark_done qn i j =
     j\<lparr>j_depsDone := fold (\<lambda>(member, d) done'. if pr_queue d = qn \<and> pr_id d = i then set_add member done' else done')
        (j_deps j) (j_depsDone j)\<rparr>"

text \<open>A finished child \<open>i\<close> of queue \<open>qn\<close> settles one parent.\<close>

definition settle_parent :: "string \<Rightarrow> string \<Rightarrow> string \<Rightarrow> tq \<Rightarrow> tq" where
  "settle_parent qn i parentId q =
     (case lookup q parentId of
        None \<Rightarrow> q
      | Some r \<Rightarrow>
          let q' = upd r (mark_done qn i) q
          in if state_of q' r = WaitingChildren \<and> pendingDependencies r q' \<le> 0 then enqueueWaiting r q' else q')"

definition parents_of :: "nat \<Rightarrow> tq \<Rightarrow> parent_ref list" where
  "parents_of r q =
     (let j = q_rec q r in
      if j_parents j \<noteq> [] then j_parents j
      else (case (nonempty_str (j_parentId j), nonempty_str (j_parentQueue j)) of
              (Some i, Some pq) \<Rightarrow> [\<lparr>pr_queue = pq, pr_id = i\<rparr>]
            | _ \<Rightarrow> []))"

definition settleParents :: "string \<Rightarrow> nat \<Rightarrow> world \<Rightarrow> world" where
  "settleParents qn r w =
     (case jm_get w qn of
        None \<Rightarrow> w
      | Some q \<Rightarrow> fold (\<lambda>p. with_queue (pr_queue p) (settle_parent qn (id_of q r) (pr_id p))) (parents_of r q) w)"

definition parkWaitingChildren :: "nat \<Rightarrow> tq \<Rightarrow> tq" where
  "parkWaitingChildren r q =
     (if pendingDependencies r q \<le> 0 then enqueueWaiting r q
      else emit (EvWaitingChildren (id_of q r)) (set_state r WaitingChildren q))"

definition getChildrenValues :: "world \<Rightarrow> tq \<Rightarrow> test_job \<Rightarrow> (string, js) jsmap" where
  "getChildrenValues w q h =
     concat (map (\<lambda>(member, d).
       case find_record w (pr_queue d) (pr_id d) of
         Some (cq, c) \<Rightarrow>
           if state_of cq c = Completed
           then [(member, if j_returnvalue (q_rec cq c) = JUndef then JNull else j_returnvalue (q_rec cq c))]
           else []
       | None \<Rightarrow> []) (j_deps (q_rec q (h_ref h))))"

section \<open>Adding jobs\<close>

definition add :: "string \<Rightarrow> string \<Rightarrow> js \<Rightarrow> nat \<Rightarrow> int \<Rightarrow> world \<Rightarrow> world \<times> (tq_error + nat option)" where
  "add qn name data o' now w =
     (case run_on qn (\<lambda>q. prepare_add data (q_opts q o') now q) w of
        (w1, Inl e) \<Rightarrow> (w1, Inl e)
      | (w1, Inr None) \<Rightarrow> (w1, Inr None)
      | (w1, Inr (Some (s, i))) \<Rightarrow>
          (case linkToParents qn i
                  (case jm_get w1 qn of None \<Rightarrow> [] | Some q \<Rightarrow> (case parent (q_opts q o') of None \<Rightarrow> [] | Some p \<Rightarrow> [p])) w1 of
             (w2, links) \<Rightarrow>
               (case run_on qn (finish_add name o' now links (s, i)) w2 of (w3, res) \<Rightarrow> (w3, map_sum id Some res))))"

text \<open>Adds in sequence; the first error rejects the call, with the earlier jobs in the queue.\<close>

fun addBulk :: "string \<Rightarrow> (string \<times> js \<times> nat) list \<Rightarrow> int \<Rightarrow> world \<Rightarrow> world \<times> (tq_error + nat list)" where
  "addBulk qn [] now w = (w, Inr [])"
| "addBulk qn ((name, data, o') # entries) now w =
     (case add qn name data o' now w of
        (w1, Inl e) \<Rightarrow> (w1, Inl e)
      | (w1, Inr r) \<Rightarrow>
          (case addBulk qn entries now w1 of
             (w2, Inl e) \<Rightarrow> (w2, Inl e)
           | (w2, Inr rs) \<Rightarrow> (w2, Inr ((case r of None \<Rightarrow> rs | Some x \<Rightarrow> x # rs)))))"

record flow_init =
  fi_wait :: bool
  fi_prefix :: string
  fi_reserved :: "string list"
  fi_parents :: "parent_ref list"

definition checkFlowJob :: "js \<Rightarrow> job_options \<Rightarrow> tq \<Rightarrow> tq_error + unit" where
  "checkFlowJob data o' q =
     andThen (map_sum Invalid id (validateJobOptions o')) (\<lambda>_.
     andThen (case serialize (q_serializer q) data of None \<Rightarrow> Inl (Js (err ''serialize''))
              | Some s \<Rightarrow> map_sum Invalid id (validateJobDataSize s)) (\<lambda>_.
     ensure (customJobId o' = [] \<or> \<not> jm_has (q_jobs q) (customJobId o'))
       (Js (err ''Duplicate job ID in flow''))))"

definition flow_job_init :: "flow_init \<Rightarrow> (job \<Rightarrow> job) \<Rightarrow> job \<Rightarrow> job" where
  "flow_job_init fl links j =
     (let j' = (links j)\<lparr>j_depsPrefix := Some (fi_prefix fl)\<rparr>
      in if fi_wait fl then j'\<lparr>j_state := WaitingChildren\<rparr> else j')"

definition flow_job_id :: "job_options \<Rightarrow> flow_init \<Rightarrow> tq \<Rightarrow> tq \<times> (tq_error + string)" where
  "flow_job_id o' fl q =
     (if customJobId o' \<noteq> [] then (q, Inr (customJobId o')) else generateJobId (fi_reserved fl) q)"

definition insert_flow_job ::
  "string \<Rightarrow> js \<Rightarrow> nat \<Rightarrow> flow_init \<Rightarrow> string \<Rightarrow> int \<Rightarrow> (job \<Rightarrow> job) \<Rightarrow> tq \<Rightarrow> tq \<times> (tq_error + nat)"
where
  "insert_flow_job name data o' fl i now links q =
     (case serialize (q_serializer q) data of
        None \<Rightarrow> (q, Inl (Js (err ''serialize'')))
      | Some s \<Rightarrow>
          insertRecord name s o' i now (if fi_wait fl then 0 else num_or 0 (delay (q_opts q o')))
            (q_serializer q) (flow_job_init fl links) q)"

definition addFlowJob ::
  "string \<Rightarrow> string \<Rightarrow> js \<Rightarrow> nat \<Rightarrow> flow_init \<Rightarrow> int \<Rightarrow> world \<Rightarrow> world \<times> (tq_error + nat)"
where
  "addFlowJob qn name data o' fl now w =
     (case run_on qn (\<lambda>q. flow_job_id (q_opts q o') fl q) w of
        (w1, Inl e) \<Rightarrow> (w1, Inl e)
      | (w1, Inr i) \<Rightarrow>
          (case linkToParents qn i (fi_parents fl) w1 of
             (w2, links) \<Rightarrow> run_on qn (insert_flow_job name data o' fl i now links) w2))"

section \<open>Dead-letter queues\<close>

record dead_letter =
  dl_originalQueue :: string
  dl_originalJobId :: string
  dl_data :: js
  dl_failedReason :: string
  dl_attemptsMade :: nat

definition envelope :: "dead_letter \<Rightarrow> js" where
  "envelope d = JObj
     [(''originalQueue'', JStr (dl_originalQueue d)), (''originalJobId'', JStr (dl_originalJobId d)),
      (''data'', dl_data d), (''failedReason'', JStr (dl_failedReason d)),
      (''attemptsMade'', JNum (Num (of_nat (dl_attemptsMade d))))]"

definition ensure_queue :: "js serializer \<Rightarrow> string \<Rightarrow> world \<Rightarrow> world" where
  "ensure_queue json n w =
     (case jm_get w n of Some _ \<Rightarrow> w | None \<Rightarrow> jm_set n (new_TestQueue n True json None) w)"

definition insert_dead_letter :: "js serializer \<Rightarrow> string \<Rightarrow> dead_letter \<Rightarrow> int \<Rightarrow> tq \<Rightarrow> tq \<times> (tq_error + nat)" where
  "insert_dead_letter json name d now q =
     (case serialize json (envelope d) of
        None \<Rightarrow> (q, Inl (Js (err ''stringify'')))
      | Some s \<Rightarrow>
          (case alloc_opts default_opts q of
             (q1, o') \<Rightarrow>
               (case generateJobId [] q1 of
                  (q2, Inl e) \<Rightarrow> (q2, Inl e)
                | (q2, Inr i) \<Rightarrow> insertRecord name s o' i now 0 json id q2)))"

definition addDeadLetter ::
  "js serializer \<Rightarrow> string \<Rightarrow> string \<Rightarrow> dead_letter \<Rightarrow> int \<Rightarrow> world \<Rightarrow> world \<times> (tq_error + nat)"
where
  "addDeadLetter json dlqName name d now w =
     run_on dlqName (insert_dead_letter json name d now) (ensure_queue json dlqName w)"

definition dead_letter_name :: "tq \<Rightarrow> string option" where
  "dead_letter_name q =
     (case nonempty_str (q_dlqOption q) of Some n \<Rightarrow> Some n | None \<Rightarrow> nonempty_str (q_dlqName q))"

definition resolveDeadLetterQueue :: "string \<Rightarrow> world \<Rightarrow> (string \<times> tq) option" where
  "resolveDeadLetterQueue qn w =
     (case jm_get w qn of
        None \<Rightarrow> None
      | Some q \<Rightarrow>
          (case dead_letter_name q of
             None \<Rightarrow> None
           | Some n \<Rightarrow> map_option (\<lambda>d. (n, d)) (jm_get w n)))"

definition owned_by :: "string \<Rightarrow> tq \<Rightarrow> nat \<Rightarrow> bool" where
  "owned_by qn dlq r \<longleftrightarrow> js_field (j_data (q_rec dlq r)) ''originalQueue'' = JStr qn"

definition findDeadLetterRecord :: "string \<Rightarrow> string \<Rightarrow> world \<Rightarrow> (string \<times> tq \<times> nat) option" where
  "findDeadLetterRecord qn dlId w =
     (case resolveDeadLetterQueue qn w of
        None \<Rightarrow> None
      | Some (n, dlq) \<Rightarrow>
          (case lookup dlq dlId of
             None \<Rightarrow> None
           | Some r \<Rightarrow> if owned_by qn dlq r then Some (n, dlq, r) else None))"

definition toDeadLetterJob :: "tq \<Rightarrow> bool \<Rightarrow> nat \<Rightarrow> test_job" where
  "toDeadLetterJob dlq excludeData r = strip_data excludeData (new_TestJob dlq r)"

definition getDeadLetterJobs :: "string \<Rightarrow> int \<Rightarrow> int \<Rightarrow> bool \<Rightarrow> world \<Rightarrow> test_job list" where
  "getDeadLetterJobs qn start end' excludeData w =
     (case resolveDeadLetterQueue qn w of
        None \<Rightarrow> []
      | Some (_, dlq) \<Rightarrow>
          map (toDeadLetterJob dlq excludeData)
            (js_slice start (slice_end end')
               (filter (\<lambda>r. (state_of dlq r = Waiting \<or> state_of dlq r = Active) \<and> owned_by qn dlq r) (records dlq))))"

definition getDeadLetterJob :: "string \<Rightarrow> string \<Rightarrow> bool \<Rightarrow> world \<Rightarrow> test_job option" where
  "getDeadLetterJob qn dlId excludeData w =
     (case findDeadLetterRecord qn dlId w of
        None \<Rightarrow> None | Some (_, dlq, r) \<Rightarrow> Some (toDeadLetterJob dlq excludeData r))"

definition removeDeadLetterJob :: "string \<Rightarrow> string \<Rightarrow> world \<Rightarrow> world \<times> bool" where
  "removeDeadLetterJob qn dlId w =
     (case findDeadLetterRecord qn dlId w of
        None \<Rightarrow> (w, False)
      | Some (n, _, _) \<Rightarrow> (with_queue n (\<lambda>q. fst (removeJob dlId q)) w, True))"

text \<open>The data and the options a dead-letter job is replayed with.\<close>

definition replay_payload :: "string \<Rightarrow> js \<Rightarrow> world \<Rightarrow> js \<times> job_options" where
  "replay_payload qn env w =
     (case js_field env ''originalJobId'' of
        JStr i \<Rightarrow>
          (case (if i = [] then None else find_record w qn i) of
             Some (q, r) \<Rightarrow>
               (j_data (q_rec q r),
                (opts_of q r)\<lparr>jobId := None, delay := None, deduplication := None, parent := None\<rparr>)
           | None \<Rightarrow> (js_field env ''data'', default_opts))
      | _ \<Rightarrow> (js_field env ''data'', default_opts))"

definition null_for_undefined :: "js \<Rightarrow> js" where
  "null_for_undefined v = (if v = JUndef then JNull else v)"

definition replayDeadLetterJob :: "string \<Rightarrow> string \<Rightarrow> int \<Rightarrow> world \<Rightarrow> world \<times> (tq_error + nat option)" where
  "replayDeadLetterJob qn dlId now w =
     (case getDeadLetterJob qn dlId False w of
        None \<Rightarrow> (w, Inr None)
      | Some h \<Rightarrow>
          (case replay_payload qn (h_data h) w of
             (data, opts) \<Rightarrow>
               (case run_on qn (\<lambda>q. case alloc_opts opts q of (q', o') \<Rightarrow> (q', Inr o')) w of
                  (w1, Inl e) \<Rightarrow> (w1, Inl e)
                | (w1, Inr o') \<Rightarrow>
                    (case add qn (h_name h) (null_for_undefined data) o' now w1 of
                       (w2, Inl e) \<Rightarrow> (w2, Inl e)
                     | (w2, Inr None) \<Rightarrow>
                         (w2, Inl (Js (GlideMQError
                            ''DLQ replay was skipped due to duplicate or deduplicated job constraints'')))
                     | (w2, Inr (Some r)) \<Rightarrow> (fst (removeDeadLetterJob qn dlId w2), Inr (Some r))))))"

section \<open>Usage across queues\<close>

definition merge_optional :: "job_usage option \<Rightarrow> usage_totals \<Rightarrow> usage_totals" where
  "merge_optional u t = (case u of None \<Rightarrow> t | Some v \<Rightarrow> mergeUsage v t)"

definition dep_usage :: "world \<Rightarrow> parent_ref \<Rightarrow> job_usage option" where
  "dep_usage w d = (case find_record w (pr_queue d) (pr_id d) of None \<Rightarrow> None | Some (q, r) \<Rightarrow> j_usage (q_rec q r))"

definition getFlowUsage :: "string \<Rightarrow> string \<Rightarrow> world \<Rightarrow> usage_totals" where
  "getFlowUsage qn parentJobId w =
     (case find_record w qn parentJobId of
        None \<Rightarrow> createUsageQueueSummary
      | Some (q, r) \<Rightarrow>
          fold (\<lambda>(_, d). merge_optional (dep_usage w d)) (j_deps (q_rec q r))
            (merge_optional (j_usage (q_rec q r)) createUsageQueueSummary))"

definition reported_usage :: "rat \<Rightarrow> rat \<Rightarrow> tq \<Rightarrow> nat \<Rightarrow> job_usage list" where
  "reported_usage startTime endTime q r =
     (case (j_usage (q_rec q r), j_usageReportedAt (q_rec q r)) of
        (Some u, Some t) \<Rightarrow>
          if floorUsageBucket (of_int t) < floorUsageBucket startTime
             \<or> floorUsageBucket (of_int t) > floorUsageBucket endTime then [] else [u]
      | _ \<Rightarrow> [])"

definition queue_usage :: "rat \<Rightarrow> rat \<Rightarrow> tq \<Rightarrow> job_usage list" where
  "queue_usage startTime endTime q = concat (map (reported_usage startTime endTime q) (records q))"

record usage_summary =
  us_startTime :: rat
  us_endTime :: rat
  us_queues :: "string list"
  us_total :: usage_totals
  us_perQueue :: "(string, usage_totals) jsmap"

text \<open>\<open>Array.from(new Set(xs))\<close>: the first occurrence of each element.\<close>

definition unique :: "'a list \<Rightarrow> 'a list" where
  "unique xs = fold set_add xs []"

definition selected_queues :: "string list option \<Rightarrow> world \<Rightarrow> tq list" where
  "selected_queues names w =
     (case names of
        None \<Rightarrow> map snd w
      | Some ns \<Rightarrow> concat (map (\<lambda>n. case jm_get w n of None \<Rightarrow> [] | Some q \<Rightarrow> [q]) (unique ns)))"

definition summarize_queue :: "rat \<Rightarrow> rat \<Rightarrow> tq \<Rightarrow> usage_summary \<Rightarrow> usage_summary" where
  "summarize_queue startTime endTime q s =
     (let us = queue_usage startTime endTime q in
      if us = [] then s
      else s\<lparr>us_total := fold mergeUsage us (us_total s),
             us_perQueue := jm_set (q_name q) (fold mergeUsage us createUsageQueueSummary) (us_perQueue s)\<rparr>)"

definition getUsageSummary :: "usage_query \<Rightarrow> int \<Rightarrow> world \<Rightarrow> tq_error + usage_summary" where
  "getUsageSummary opts now w =
     (case resolveUsageWindow opts (of_int now) of
        Inl e \<Rightarrow> Inl (BadUsage e)
      | Inr (startTime, endTime) \<Rightarrow>
          let s = fold (summarize_queue startTime endTime) (selected_queues (q_queues opts) w)
                    \<lparr>us_startTime = startTime, us_endTime = endTime, us_queues = [],
                     us_total = createUsageQueueSummary, us_perQueue = []\<rparr>
          in Inr (s\<lparr>us_queues := sort_by str_less (jm_keys (us_perQueue s))\<rparr>))"

end
