(* ===== verification/Tq_Worker.thy ===== *)
theory Tq_Worker
  imports Tq_World
begin

text \<open>
  \<open>TestWorker\<close> (\<open>src/testing.ts\<close>): its state, the rate and token limits, how a job is settled when
  its processor ends, the failure path, and the loop that starts waiting jobs. A processor runs
  between the steps: the job it was given is in \<open>wk_running_jobs\<close> until it resolves or rejects, and
  what it does to the queue or its handle meanwhile are calls of their own.
\<close>

section \<open>State\<close>

datatype worker_event =
    WkActive string
  | WkCompleted string js
  | WkFailed string js_error
  | WkBudgetExceeded string
  | WkDrained
  | WkError tq_error

record worker =
  wk_id :: string
  wk_startedAt :: int
  wk_queue :: string
  wk_concurrency :: nat
  wk_active :: nat
  wk_running :: bool
  wk_paused :: bool
  wk_processing :: bool
  wk_isDrained :: bool
  wk_batchMode :: bool
  wk_batchSize :: nat
  wk_batchTimeout :: rat
  wk_batchTimer :: "rat option"
  wk_pending :: "nat list"
  wk_tokenLimiter :: "(rat \<times> rat) option"
  wk_limiter :: "(rat \<times> rat) option"
  wk_backoff :: "string \<Rightarrow> (nat \<Rightarrow> js_error \<Rightarrow> rat) option"
  wk_dlq :: "string option"
  wk_tpmCounter :: rat
  wk_tpmWindowStart :: rat
  wk_rateLimitUntil :: rat
  wk_rateWindowStart :: rat
  wk_rateWindowCount :: nat
  wk_rateLimitTimer :: "rat option"
  wk_gated :: "(nat \<times> test_job) list"
  wk_running_jobs :: "(nat \<times> test_job) list"
  wk_batches :: "(nat \<times> test_job) list list"
  wk_extraTasks :: nat
  wk_events :: "worker_event list"

text \<open>The parameters: time zones, \<open>JSON\<close>, and the random number drawn for a record's backoff.\<close>

record env =
  e_zones :: "string \<Rightarrow> zone"
  e_json :: "js serializer"
  e_random :: "nat \<Rightarrow> rat"

type_synonym sys = "world \<times> worker"

definition no_queue :: tq where
  "no_queue = new_TestQueue [] True \<lparr>serialize = (\<lambda>_. None), deserialize = (\<lambda>_. None)\<rparr> None"

definition own :: "sys \<Rightarrow> tq" where
  "own st = (case jm_get (fst st) (wk_queue (snd st)) of Some q \<Rightarrow> q | None \<Rightarrow> no_queue)"

definition on_q :: "(tq \<Rightarrow> tq) \<Rightarrow> sys \<Rightarrow> sys" where
  "on_q f st = (with_queue (wk_queue (snd st)) f (fst st), snd st)"

definition on_k :: "(worker \<Rightarrow> worker) \<Rightarrow> sys \<Rightarrow> sys" where
  "on_k f st = (fst st, f (snd st))"

definition wk_emit :: "worker_event \<Rightarrow> sys \<Rightarrow> sys" where
  "wk_emit e = on_k (\<lambda>k. k\<lparr>wk_events := wk_events k @ [e]\<rparr>)"

section \<open>Construction\<close>

record worker_opts =
  wo_concurrency :: "nat option"
  wo_batch :: "(jsnum \<times> jsnum option) option"
  wo_limiter :: "(rat \<times> rat) option"
  wo_tokenLimiter :: "(rat \<times> rat) option"
  wo_backoff :: "string \<Rightarrow> (nat \<Rightarrow> js_error \<Rightarrow> rat) option"
  wo_dlq :: "string option"

definition check_batch :: "(jsnum \<times> jsnum option) option \<Rightarrow> tq_error + unit" where
  "check_batch b =
     (case b of
        None \<Rightarrow> Inr ()
      | Some (sz, tmo) \<Rightarrow>
          if \<not> is_integer sz \<or> sz < Num 1 \<or> sz > Num 1000
          then Inl (Js (GlideMQError ''batch.size must be an integer between 1 and 1000''))
          else (case tmo of
                  None \<Rightarrow> Inr ()
                | Some t \<Rightarrow>
                    if t < Num 0 \<or> \<not> is_finite t
                    then Inl (Js (GlideMQError ''batch.timeout must be a non-negative finite number''))
                    else Inr ()))"

definition batch_size_of :: "(jsnum \<times> jsnum option) option \<Rightarrow> nat" where
  "batch_size_of b = (case b of None \<Rightarrow> 0 | Some (sz, _) \<Rightarrow> nat \<lfloor>num_or 0 (Some sz)\<rfloor>)"

definition batch_timeout_of :: "(jsnum \<times> jsnum option) option \<Rightarrow> rat" where
  "batch_timeout_of b = (case b of None \<Rightarrow> 0 | Some (_, tmo) \<Rightarrow> num_or 0 tmo)"

text \<open>\<open>n\<close> is the number of workers created before; the first wake-up is already scheduled.\<close>

definition new_worker :: "nat \<Rightarrow> string \<Rightarrow> worker_opts \<Rightarrow> int \<Rightarrow> worker" where
  "new_worker n qn opts now =
     \<lparr>wk_id = ''test-worker-'' @ show_nat (Suc n), wk_startedAt = now, wk_queue = qn,
      wk_concurrency = or_else (wo_concurrency opts) 1, wk_active = 0, wk_running = True, wk_paused = False,
      wk_processing = False, wk_isDrained = True, wk_batchMode = (wo_batch opts \<noteq> None),
      wk_batchSize = batch_size_of (wo_batch opts), wk_batchTimeout = batch_timeout_of (wo_batch opts),
      wk_batchTimer = None, wk_pending = [], wk_tokenLimiter = wo_tokenLimiter opts,
      wk_limiter = wo_limiter opts, wk_backoff = wo_backoff opts, wk_dlq = wo_dlq opts,
      wk_tpmCounter = 0, wk_tpmWindowStart = 0, wk_rateLimitUntil = 0, wk_rateWindowStart = 0,
      wk_rateWindowCount = 0, wk_rateLimitTimer = None, wk_gated = [], wk_running_jobs = [],
      wk_batches = [], wk_extraTasks = 0, wk_events = []\<rparr>"

definition new_TestWorker :: "nat \<Rightarrow> string \<Rightarrow> worker_opts \<Rightarrow> int \<Rightarrow> world \<Rightarrow> tq_error + sys" where
  "new_TestWorker n qn opts now w =
     andThen (check_batch (wo_batch opts)) (\<lambda>_.
       let k = new_worker n qn opts now;
           set_dlq = (\<lambda>q. case nonempty_str (wo_dlq opts) of None \<Rightarrow> q | Some d \<Rightarrow> q\<lparr>q_dlqName := Some d\<rparr>);
           attach = (\<lambda>q. onWorkerAttached now (q\<lparr>q_workers := set_add (wk_id k) (q_workers q)\<rparr>))
       in Inr (on_k (\<lambda>k. k\<lparr>wk_processing := True\<rparr>) (on_q attach (on_q set_dlq (w, k)))))"

definition wake :: "worker \<Rightarrow> worker" where
  "wake k = k\<lparr>wk_processing := True\<rparr>"

definition onJobAdded :: "worker \<Rightarrow> worker" where
  "onJobAdded k = (if \<not> wk_running k then k else wake k)"

section \<open>Rate limit\<close>

text \<open>0 and a counted dispatch, or the time to wait.\<close>

definition acquireRateSlot :: "int \<Rightarrow> worker \<Rightarrow> worker \<times> rat" where
  "acquireRateSlot clock k =
     (let now = of_int clock in
      if wk_rateLimitUntil k > now then (k, wk_rateLimitUntil k - now)
      else (case wk_limiter k of
              None \<Rightarrow> (k, 0)
            | Some (mx, duration) \<Rightarrow>
                if mx \<le> 0 then (k, 0)
                else if now - wk_rateWindowStart k \<ge> duration
                then (k\<lparr>wk_rateWindowStart := now, wk_rateWindowCount := 1\<rparr>, 0)
                else if of_nat (wk_rateWindowCount k) \<ge> mx then (k, duration - (now - wk_rateWindowStart k))
                else (k\<lparr>wk_rateWindowCount := Suc (wk_rateWindowCount k)\<rparr>, 0)))"

definition wakeAfterRateLimit :: "rat \<Rightarrow> int \<Rightarrow> worker \<Rightarrow> worker" where
  "wakeAfterRateLimit ms now k =
     (if wk_rateLimitTimer k \<noteq> None then k
      else k\<lparr>wk_rateLimitTimer := Some (of_int now + min (max 1 ms) MAX_TIMEOUT_DELAY_MS)\<rparr>)"

definition rateLimit :: "rat \<Rightarrow> int \<Rightarrow> worker \<Rightarrow> worker" where
  "rateLimit ms now k = k\<lparr>wk_rateLimitUntil := of_int now + ms\<rparr>"

definition findNextWaiting :: "int \<Rightarrow> sys \<Rightarrow> sys \<times> nat option" where
  "findNextWaiting now st =
     (case hasWaiting (own st) of
        (q1, False) \<Rightarrow> (on_q (\<lambda>_. q1) st, None)
      | (q1, True) \<Rightarrow>
          (case acquireRateSlot now (snd st) of
             (k, wait) \<Rightarrow>
               if wait > 0 then (on_k (\<lambda>_. wakeAfterRateLimit wait now k) (on_q (\<lambda>_. q1) st), None)
               else (case takeNextWaiting q1 of (q2, r) \<Rightarrow> (on_k (\<lambda>_. k) (on_q (\<lambda>_. q2) st), r))))"

section \<open>Token limit\<close>

definition window_floor :: "rat \<Rightarrow> rat \<Rightarrow> rat" where
  "window_floor now duration = now - (now - of_int \<lfloor>now / duration\<rfloor> * duration)"

definition refresh_window :: "rat \<Rightarrow> rat \<Rightarrow> worker \<Rightarrow> worker" where
  "refresh_window now duration k =
     (if now \<ge> wk_tpmWindowStart k + duration
      then k\<lparr>wk_tpmCounter := 0, wk_tpmWindowStart := window_floor now duration\<rparr> else k)"

text \<open>One round of \<open>waitForTokenLimitIfNeeded\<close>: \<open>None\<close> lets the job start, otherwise the time to sleep.\<close>

definition token_gate :: "int \<Rightarrow> worker \<Rightarrow> worker \<times> rat option" where
  "token_gate now k =
     (case wk_tokenLimiter k of
        None \<Rightarrow> (k, None)
      | Some (maxTokens, duration) \<Rightarrow>
          let k' = refresh_window (of_int now) duration k
          in if wk_tpmCounter k' < maxTokens then (k', None)
             else (k', Some (wk_tpmWindowStart k' + duration - of_int now)))"

definition incrementLocalTpm :: "rat \<Rightarrow> int \<Rightarrow> worker \<Rightarrow> worker" where
  "incrementLocalTpm tokens now k =
     (case wk_tokenLimiter k of
        None \<Rightarrow> k
      | Some (_, duration) \<Rightarrow>
          if tokens \<le> 0 then k
          else let k' = refresh_window (of_int now) duration k
               in k'\<lparr>wk_tpmCounter := wk_tpmCounter k' + tokens\<rparr>)"

section \<open>Failure\<close>

definition isRateLimitError :: "js_error \<Rightarrow> bool" where
  "isRateLimitError e \<longleftrightarrow> name_of e = ''RateLimitError''"

definition isCurrent :: "sys \<Rightarrow> nat \<Rightarrow> bool" where
  "isCurrent st r \<longleftrightarrow> current (own st) r"

definition truthy_or :: "rat option \<Rightarrow> rat \<Rightarrow> rat" where
  "truthy_or x d = (case x of Some v \<Rightarrow> if v \<noteq> 0 then v else d | None \<Rightarrow> d)"

definition failure_delay :: "js_error \<Rightarrow> worker \<Rightarrow> rat" where
  "failure_delay e k = truthy_or (delay_of e) (truthy_or (map_option snd (wk_limiter k)) 1000)"

definition backoff_delay :: "env \<Rightarrow> nat \<Rightarrow> js_error \<Rightarrow> sys \<Rightarrow> rat" where
  "backoff_delay en r e st =
     (let q = own st; made = j_attemptsMade (q_rec q r) in
      case backoff (opts_of q r) of
        None \<Rightarrow> 0
      | Some b \<Rightarrow>
          (case wk_backoff (snd st) (bo_type b) of
             Some strategy \<Rightarrow> strategy made e
           | None \<Rightarrow> of_int (calculateBackoff (bo_type b) (num_or 0 (bo_delay b)) (int made)
                              (num_or 0 (bo_jitter b)) (e_random en r))))"

definition max_attempts :: "js_error \<Rightarrow> test_job \<Rightarrow> tq \<Rightarrow> nat \<Rightarrow> rat" where
  "max_attempts e h q r =
     (if h_discarded h \<or> name_of e = ''UnrecoverableError'' then 0 else num_or 0 (attempts (opts_of q r)))"

definition will_retry :: "js_error \<Rightarrow> test_job \<Rightarrow> tq \<Rightarrow> nat \<Rightarrow> bool" where
  "will_retry e h q r \<longleftrightarrow>
     max_attempts e h q r > 0 \<and> of_nat (j_attemptsMade (q_rec q r)) < max_attempts e h q r"

definition has_fallbacks :: "tq \<Rightarrow> nat \<Rightarrow> bool" where
  "has_fallbacks q r = (case fallbacks (opts_of q r) of None \<Rightarrow> False | Some fs \<Rightarrow> fs \<noteq> [])"

definition fail_rate_limited :: "nat \<Rightarrow> js_error \<Rightarrow> rat \<Rightarrow> int \<Rightarrow> tq \<Rightarrow> tq" where
  "fail_rate_limited r e delayMs now q =
     emit (EvRetrying (id_of q r) e)
       (parkDelayed r delayMs now
          (upd r (\<lambda>j. j\<lparr>j_failedReason := Some ''rate limited'', j_processedOn := Some now\<rparr>) q))"

definition count_attempt :: "nat \<Rightarrow> js_error \<Rightarrow> tq \<Rightarrow> tq" where
  "count_attempt r e =
     upd r (\<lambda>j. j\<lparr>j_attemptsMade := Suc (j_attemptsMade j), j_failedReason := Some (message_of e)\<rparr>)"

definition park_retry :: "nat \<Rightarrow> rat \<Rightarrow> int \<Rightarrow> tq \<Rightarrow> tq" where
  "park_retry r d now q =
     parkDelayed r d now
       (upd r (\<lambda>j. j\<lparr>j_fallbackIndex := (if has_fallbacks q r then Suc (j_fallbackIndex j) else j_fallbackIndex j),
                    j_processedOn := Some now\<rparr>) q)"

definition finish_failed :: "nat \<Rightarrow> int \<Rightarrow> tq \<Rightarrow> tq" where
  "finish_failed r now q =
     (let q1 = applyRetention r Failed now (upd r (\<lambda>j. j\<lparr>j_state := Failed, j_finishedOn := Some now\<rparr>) q)
      in recordMetric Failed (j_processedOn (q_rec q1 r)) now q1)"

definition moveToDeadLetter :: "env \<Rightarrow> nat \<Rightarrow> test_job \<Rightarrow> js_error \<Rightarrow> int \<Rightarrow> sys \<Rightarrow> sys" where
  "moveToDeadLetter en r h e now st =
     (case nonempty_str (wk_dlq (snd st)) of
        None \<Rightarrow> st
      | Some n \<Rightarrow>
          let j = q_rec (own st) r in
          (case addDeadLetter (e_json en) n (j_name j)
                  \<lparr>dl_originalQueue = q_name (own st), dl_originalJobId = j_id j, dl_data = h_data h,
                   dl_failedReason = message_of e, dl_attemptsMade = j_attemptsMade j - 1\<rparr> now (fst st) of
             (w', Inl x) \<Rightarrow> wk_emit (WkError x) (w', snd st)
           | (w', Inr _) \<Rightarrow> (w', snd st)))"

definition scheduler_finished :: "env \<Rightarrow> nat \<Rightarrow> int \<Rightarrow> tq \<Rightarrow> tq" where
  "scheduler_finished en r now q = fst (onSchedulerJobFinished (e_zones en) r now q)"

definition fail_terminally :: "env \<Rightarrow> nat \<Rightarrow> test_job \<Rightarrow> js_error \<Rightarrow> int \<Rightarrow> sys \<Rightarrow> sys" where
  "fail_terminally en r h e now st =
     on_q (scheduler_finished en r now)
       (on_q (emit (EvFailed (h_id h) e))
          (wk_emit (WkFailed (h_id h) e)
             (moveToDeadLetter en r h e now (on_q (finish_failed r now) st))))"

definition handleFailure :: "env \<Rightarrow> nat \<Rightarrow> test_job \<Rightarrow> js_error \<Rightarrow> int \<Rightarrow> sys \<Rightarrow> sys" where
  "handleFailure en r h e now st =
     (let delayMs = failure_delay e (snd st);
          st1 = (if isRateLimitError e then on_k (\<lambda>k. k\<lparr>wk_rateLimitUntil := of_int now + delayMs\<rparr>) st else st)
      in if \<not> isCurrent st1 r then
           (if isRateLimitError e then st1 else wk_emit (WkFailed (h_id h) e) st1)
         else if isRateLimitError e then on_q (fail_rate_limited r e delayMs now) st1
         else
           let st2 = on_q (count_attempt r e) st1 in
           if will_retry e h (own st2) r then
             on_q (emit (EvRetrying (h_id h) e))
               (wk_emit (WkFailed (h_id h) e) (on_q (park_retry r (backoff_delay en r e st2) now) st2))
           else fail_terminally en r h e now st2)"

section \<open>Completion\<close>

definition chargeCompletedUsage :: "nat \<Rightarrow> test_job \<Rightarrow> int \<Rightarrow> sys \<Rightarrow> sys" where
  "chargeCompletedUsage r h now st =
     (let total = (case h_usage h of None \<Rightarrow> 0 | Some u \<Rightarrow> num_or 0 (u_totalTokens u));
          st1 = on_k (incrementLocalTpm (max total (or_else (h_tpmTokens h) 0)) now) st
      in case (nonempty_str (j_budgetKey (q_rec (own st1) r)), h_usage h) of
           (Some key, Some u) \<Rightarrow>
             (case charge_usage key u (own st1) of
                (q', BudgetExceeded) \<Rightarrow> wk_emit (WkBudgetExceeded (id_of q' r)) (on_q (\<lambda>_. q') st1)
              | (q', _) \<Rightarrow> on_q (\<lambda>_. q') st1)
         | _ \<Rightarrow> st1)"

definition roundtripResult :: "js \<Rightarrow> tq \<Rightarrow> js_error + js" where
  "roundtripResult result q =
     (if result = JUndef then Inr JUndef
      else (case serialize (q_serializer q) result of
              None \<Rightarrow> Inl (err ''Serializer failed on return value: serialize'')
            | Some s \<Rightarrow>
                (case deserialize (q_serializer q) s of
                   None \<Rightarrow> Inl (err ''Serializer failed on return value: deserialize'')
                 | Some v \<Rightarrow> Inr v)))"

definition settleGoneCompletion :: "nat \<Rightarrow> test_job \<Rightarrow> js \<Rightarrow> int \<Rightarrow> sys \<Rightarrow> sys" where
  "settleGoneCompletion r h v now st = chargeCompletedUsage r h now (wk_emit (WkCompleted (h_id h) v) st)"

definition mark_completed :: "nat \<Rightarrow> js \<Rightarrow> int \<Rightarrow> tq \<Rightarrow> tq" where
  "mark_completed r v now =
     upd r (\<lambda>j. j\<lparr>j_state := Completed, j_returnvalue := v, j_finishedOn := Some now\<rparr>)"

definition record_completed :: "nat \<Rightarrow> int \<Rightarrow> tq \<Rightarrow> tq" where
  "record_completed r now q =
     (let q1 = applyRetention r Completed now q in recordMetric Completed (j_processedOn (q_rec q1 r)) now q1)"

definition complete_job :: "env \<Rightarrow> nat \<Rightarrow> test_job \<Rightarrow> js \<Rightarrow> int \<Rightarrow> sys \<Rightarrow> sys" where
  "complete_job en r h v now st =
     (let st1 = on_q (mark_completed r v now) st;
          st2 = (settleParents (wk_queue (snd st1)) r (fst st1), snd st1);
          st3 = on_q (record_completed r now) st2
      in on_q (scheduler_finished en r now)
           (on_q (emit (EvCompleted (h_id h) v)) (wk_emit (WkCompleted (h_id h) v) st3)))"

section \<open>The end of a processor\<close>

datatype outcome = Resolved js | Rejected js_error

definition take_movedToFailed :: "nat \<Rightarrow> sys \<Rightarrow> sys \<times> js_error option" where
  "take_movedToFailed r st =
     (on_q (upd r (\<lambda>j. j\<lparr>j_movedToFailed := None\<rparr>)) st, j_movedToFailed (q_rec (own st) r))"

definition park_for_children :: "nat \<Rightarrow> sys \<Rightarrow> sys" where
  "park_for_children r st =
     (if \<not> isCurrent st r then st
      else on_q (parkWaitingChildren r) (on_q (upd r (\<lambda>j. j\<lparr>j_movedToWaitingChildren := False\<rparr>)) st))"

definition settle_resolved :: "env \<Rightarrow> nat \<Rightarrow> test_job \<Rightarrow> js \<Rightarrow> int \<Rightarrow> sys \<Rightarrow> sys" where
  "settle_resolved en r h result now st =
     (case take_movedToFailed r st of
        (st', Some e) \<Rightarrow> handleFailure en r h e now st'
      | (_, None) \<Rightarrow>
          if j_movedToWaitingChildren (q_rec (own st) r) then park_for_children r st
          else (case roundtripResult result (own st) of
                  Inl e \<Rightarrow> handleFailure en r h e now st
                | Inr v \<Rightarrow>
                    if \<not> isCurrent st r then settleGoneCompletion r h v now st
                    else chargeCompletedUsage r h now (complete_job en r h v now st)))"

definition settle_rejected :: "env \<Rightarrow> nat \<Rightarrow> test_job \<Rightarrow> js_error \<Rightarrow> int \<Rightarrow> sys \<Rightarrow> sys" where
  "settle_rejected en r h e now st =
     (if name_of e = ''SuspendError'' then
        (if \<not> isCurrent st r then st
         else on_q (\<lambda>q. emit (EvSuspended (h_id h) (j_suspendReason (q_rec q r))) (scheduleSuspendedTimeout r now q)) st)
      else if e = WaitingChildrenError \<or> j_movedToWaitingChildren (q_rec (own st) r) then park_for_children r st
      else (case e of
              DelayedError until \<Rightarrow>
                if \<not> isCurrent st r then st
                else on_q (parkActiveDelayed r (max 0 (until - of_int now)) now) st
            | _ \<Rightarrow>
                (case take_movedToFailed r st of
                   (st', Some e') \<Rightarrow> handleFailure en r h e' now st'
                 | (_, None) \<Rightarrow> handleFailure en r h e now st)))"

definition settle :: "env \<Rightarrow> nat \<Rightarrow> test_job \<Rightarrow> outcome \<Rightarrow> int \<Rightarrow> sys \<Rightarrow> sys" where
  "settle en r h out now st =
     (case out of Resolved v \<Rightarrow> settle_resolved en r h v now st | Rejected e \<Rightarrow> settle_rejected en r h e now st)"

end
