(* ===== verification/Tq_Run.thy ===== *)
theory Tq_Run
  imports Tq_Worker
begin

text \<open>
  The loops of a \<open>TestWorker\<close> (\<open>src/testing.ts\<close>): starting waiting jobs up to the concurrency, batches,
  the steps after a processor ends, pause, resume and close. \<open>processAvailable\<close> calls itself when a
  job is settled without running (expired, or over budget); the fuel bounds that recursion.
\<close>

section \<open>Starting a job\<close>

definition mark_active :: "int \<Rightarrow> nat \<Rightarrow> tq \<Rightarrow> tq" where
  "mark_active now r =
     upd r (\<lambda>j. j\<lparr>j_state := Active, j_movedToWaitingChildren := False, j_movedToFailed := None,
                  j_processedOn := Some now\<rparr>)"

definition activate :: "int \<Rightarrow> nat \<Rightarrow> sys \<Rightarrow> sys" where
  "activate now r st =
     wk_emit (WkActive (id_of (own st) r))
       (on_k (\<lambda>k. k\<lparr>wk_active := Suc (wk_active k), wk_isDrained := False\<rparr>) (on_q (mark_active now r) st))"

definition is_expired :: "int \<Rightarrow> tq \<Rightarrow> nat \<Rightarrow> bool" where
  "is_expired now q r =
     (case j_expireAt (q_rec q r) of None \<Rightarrow> False | Some t \<Rightarrow> t \<noteq> 0 \<and> of_int now > t)"

definition expire :: "nat \<Rightarrow> test_job \<Rightarrow> int \<Rightarrow> sys \<Rightarrow> sys" where
  "expire r h now st =
     on_q (emit (EvFailed (h_id h) (err ''expired'')))
       (wk_emit (WkFailed (h_id h) (err ''expired''))
          (on_q (\<lambda>q. recordMetric Failed (j_processedOn (q_rec q r)) now (mark_failed ''expired'' now r q)) st))"

definition budget_exceeded :: "tq \<Rightarrow> nat \<Rightarrow> bool" where
  "budget_exceeded q r =
     (case nonempty_str (j_budgetKey (q_rec q r)) of
        None \<Rightarrow> False | Some key \<Rightarrow> checkBudget key q = BudgetExceeded)"

definition budget_pauses :: "tq \<Rightarrow> nat \<Rightarrow> bool" where
  "budget_pauses q r =
     (case nonempty_str (j_budgetKey (q_rec q r)) of
        None \<Rightarrow> False
      | Some key \<Rightarrow> (case jm_get (q_budgets q) key of None \<Rightarrow> False | Some b \<Rightarrow> b_pause b))"

definition over_budget :: "env \<Rightarrow> nat \<Rightarrow> test_job \<Rightarrow> int \<Rightarrow> sys \<Rightarrow> sys" where
  "over_budget en r h now st =
     (let st1 = wk_emit (WkBudgetExceeded (h_id h)) st in
      if budget_pauses (own st1) r then on_q (parkActiveDelayed r 86400000 now) st1
      else handleFailure en r h (err ''Budget exceeded'') now st1)"

text \<open>The synchronous part of \<open>processJob\<close>: \<open>True\<close> when the job goes on to its processor.\<close>

definition begin_job :: "env \<Rightarrow> nat \<Rightarrow> test_job \<Rightarrow> int \<Rightarrow> sys \<Rightarrow> sys \<times> bool" where
  "begin_job en r h now st =
     (if is_expired now (own st) r then (expire r h now st, False)
      else if budget_exceeded (own st) r then (over_budget en r h now st, False)
      else (on_k (\<lambda>k. k\<lparr>wk_gated := wk_gated k @ [(r, h)]\<rparr>) st, True))"

definition job_done :: "nat \<Rightarrow> sys \<Rightarrow> sys" where
  "job_done n = on_k (\<lambda>k. k\<lparr>wk_active := wk_active k - n\<rparr>)"

definition may_continue :: "sys \<Rightarrow> bool" where
  "may_continue st \<longleftrightarrow> wk_running (snd st) \<and> \<not> q_paused (own st)"

definition check_drained :: "sys \<Rightarrow> sys" where
  "check_drained st =
     (if wk_active (snd st) = 0 \<and> \<not> wk_isDrained (snd st)
      then wk_emit WkDrained (on_k (\<lambda>k. k\<lparr>wk_isDrained := True\<rparr>) st) else st)"

section \<open>Batches\<close>

definition batchRoom :: "worker \<Rightarrow> int" where
  "batchRoom k =
     (if wk_concurrency k = 1 then (if wk_active k = 0 then int (wk_batchSize k) else 0)
      else int (wk_concurrency k * wk_batchSize k) - int (wk_active k))"

definition batch_claimable :: "sys \<Rightarrow> nat \<Rightarrow> bool" where
  "batch_claimable st r \<longleftrightarrow> isCurrent st r \<and> state_of (own st) r = Waiting"

definition prune_pending :: "sys \<Rightarrow> sys" where
  "prune_pending st = on_k (\<lambda>k. k\<lparr>wk_pending := filter (batch_claimable st) (wk_pending k)\<rparr>) st"

definition takeWaitingRecord :: "int \<Rightarrow> sys \<Rightarrow> sys \<times> nat option" where
  "takeWaitingRecord now st = findNextWaiting now st"

fun fill_batch :: "nat \<Rightarrow> int \<Rightarrow> sys \<Rightarrow> sys" where
  "fill_batch 0 now st = st"
| "fill_batch (Suc n) now st =
     (case takeWaitingRecord now st of
        (st', None) \<Rightarrow> st'
      | (st', Some r) \<Rightarrow> fill_batch n now (on_k (\<lambda>k. k\<lparr>wk_pending := wk_pending k @ [r]\<rparr>) st'))"

definition clearBatchTimer :: "sys \<Rightarrow> sys" where
  "clearBatchTimer = on_k (\<lambda>k. k\<lparr>wk_batchTimer := None\<rparr>)"

definition scheduleBatchFlush :: "int \<Rightarrow> sys \<Rightarrow> sys" where
  "scheduleBatchFlush now st =
     on_k (\<lambda>k. if wk_batchTimer k \<noteq> None \<or> wk_batchTimeout k \<le> 0 \<or> wk_pending k = [] then k
               else k\<lparr>wk_batchTimer := Some (of_int now + wk_batchTimeout k)\<rparr>) st"

definition executeBatch :: "nat list \<Rightarrow> int \<Rightarrow> sys \<Rightarrow> sys" where
  "executeBatch rs now st =
     (let st1 = on_q (fold (mark_active now) rs) st;
          jobs = map (\<lambda>r. (r, new_TestJob (own st1) r)) rs
      in on_k (\<lambda>k. k\<lparr>wk_active := wk_active k + length rs, wk_isDrained := False,
                     wk_events := wk_events k @ map (\<lambda>(r, h). WkActive (h_id h)) jobs,
                     wk_batches := wk_batches k @ [jobs]\<rparr>) st1)"

definition run_pending :: "int \<Rightarrow> sys \<Rightarrow> sys" where
  "run_pending now st = executeBatch (wk_pending (snd st)) now (on_k (\<lambda>k. k\<lparr>wk_pending := []\<rparr>) st)"

definition start_batch :: "nat \<Rightarrow> int \<Rightarrow> sys \<Rightarrow> sys" where
  "start_batch cap now st =
     (if wk_pending (snd st) = [] then check_drained st
      else if length (wk_pending (snd st)) \<ge> cap then
        (let st' = run_pending now (clearBatchTimer st)
         in if q_waiting (own st') \<noteq> [] then on_k (\<lambda>k. k\<lparr>wk_extraTasks := Suc (wk_extraTasks k)\<rparr>) st' else st')
      else if wk_batchTimeout (snd st) > 0 then scheduleBatchFlush now st
      else run_pending now st)"

definition batch_cap :: "worker \<Rightarrow> nat" where
  "batch_cap k = nat (min (int (wk_batchSize k)) (batchRoom k))"

definition processAvailableBatch :: "int \<Rightarrow> sys \<Rightarrow> sys" where
  "processAvailableBatch now st =
     (if batchRoom (snd st) \<le> 0 then st
      else let st1 = prune_pending st in
           start_batch (batch_cap (snd st)) now
             (fill_batch (batch_cap (snd st) - length (wk_pending (snd st1))) now st1))"

definition flushBatch :: "int \<Rightarrow> sys \<Rightarrow> sys" where
  "flushBatch now st =
     (if \<not> wk_running (snd st) then st
      else let st1 = prune_pending st
           in if wk_pending (snd st1) = [] then st1 else run_pending now st1)"

section \<open>The main loop\<close>

fun process_available :: "nat \<Rightarrow> env \<Rightarrow> int \<Rightarrow> sys \<Rightarrow> sys option"
  and start_loop :: "nat \<Rightarrow> env \<Rightarrow> int \<Rightarrow> sys \<Rightarrow> sys option"
  and started :: "nat \<Rightarrow> env \<Rightarrow> int \<Rightarrow> sys \<times> bool \<Rightarrow> sys option"
where
  "process_available 0 en now st = None"
| "process_available (Suc n) en now st =
     (if \<not> wk_running (snd st) then Some st
      else if q_paused (own st) \<or> wk_paused (snd st) then Some (on_q promotePrioritized st)
      else if wk_batchMode (snd st) then Some (processAvailableBatch now (on_q promotePrioritized st))
      else map_option check_drained (start_loop n en now (on_q promotePrioritized st)))"
| "start_loop 0 en now st = None"
| "start_loop (Suc n) en now st =
     (if \<not> wk_active (snd st) < wk_concurrency (snd st) then Some st
      else (case findNextWaiting now st of
              (st1, None) \<Rightarrow> Some st1
            | (st1, Some r) \<Rightarrow>
                started n en now
                  (begin_job en r (new_TestJob (own (activate now r st1)) r) now (activate now r st1))))"
| "started 0 en now res = None"
| "started (Suc n) en now (st, True) = start_loop n en now st"
| "started (Suc n) en now (st, False) =
     (if may_continue st
      then (case process_available n en now (job_done 1 st) of None \<Rightarrow> None | Some st' \<Rightarrow> start_loop n en now st')
      else start_loop n en now (job_done 1 st))"

definition enough_fuel :: "sys \<Rightarrow> nat" where
  "enough_fuel st = 6 * length (q_waiting (own st)) + 2"

definition processAvailable :: "env \<Rightarrow> int \<Rightarrow> sys \<Rightarrow> sys" where
  "processAvailable en now st = or_else (process_available (enough_fuel st) en now st) st"

section \<open>Steps of the worker\<close>

text \<open>The microtask scheduled by \<open>wake\<close>, and the one scheduled after a full batch.\<close>

definition run_wake :: "env \<Rightarrow> int \<Rightarrow> sys \<Rightarrow> sys" where
  "run_wake en now st = processAvailable en now (on_k (\<lambda>k. k\<lparr>wk_processing := False\<rparr>) st)"

definition run_extra :: "env \<Rightarrow> int \<Rightarrow> sys \<Rightarrow> sys" where
  "run_extra en now st = processAvailable en now (on_k (\<lambda>k. k\<lparr>wk_extraTasks := wk_extraTasks k - 1\<rparr>) st)"

definition rate_limit_fires :: "env \<Rightarrow> int \<Rightarrow> sys \<Rightarrow> sys" where
  "rate_limit_fires en now st =
     (let st1 = on_k (\<lambda>k. k\<lparr>wk_rateLimitTimer := None\<rparr>) st
      in if wk_running (snd st1) \<and> \<not> q_paused (own st1) \<and> \<not> wk_paused (snd st1) then processAvailable en now st1 else st1)"

definition batch_timer_fires :: "int \<Rightarrow> sys \<Rightarrow> sys" where
  "batch_timer_fires now st = flushBatch now (clearBatchTimer st)"

text \<open>A gated job passes the token limit and its processor starts, or it sleeps on.\<close>

definition pass_gate :: "int \<Rightarrow> sys \<Rightarrow> sys" where
  "pass_gate now st =
     (case wk_gated (snd st) of
        [] \<Rightarrow> st
      | rh # rest \<Rightarrow>
          (case token_gate now (snd st) of
             (k, Some ms) \<Rightarrow> on_k (\<lambda>_. k) st
           | (k, None) \<Rightarrow> on_k (\<lambda>_. k\<lparr>wk_gated := rest, wk_running_jobs := wk_running_jobs k @ [rh]\<rparr>) st))"

definition continue_after :: "env \<Rightarrow> nat \<Rightarrow> int \<Rightarrow> sys \<Rightarrow> sys" where
  "continue_after en n now st =
     (let st1 = job_done n st in if may_continue st1 then processAvailable en now st1 else st1)"

text \<open>The \<open>i\<close>-th running job ends; \<open>h\<close> is its handle as the processor left it.\<close>

definition job_ends :: "env \<Rightarrow> nat \<Rightarrow> test_job \<Rightarrow> outcome \<Rightarrow> int \<Rightarrow> sys \<Rightarrow> sys" where
  "job_ends en i h out now st =
     (if i < length (wk_running_jobs (snd st)) then
        continue_after en 1 now
          (settle en (fst (wk_running_jobs (snd st) ! i)) h out now
             (on_k (\<lambda>k. k\<lparr>wk_running_jobs := drop_at i (wk_running_jobs k)\<rparr>) st))
      else st)"

section \<open>Settling a batch\<close>

definition settleMovedToFailed :: "env \<Rightarrow> nat \<Rightarrow> test_job \<Rightarrow> int \<Rightarrow> sys \<Rightarrow> sys \<times> bool" where
  "settleMovedToFailed en r h now st =
     (case take_movedToFailed r st of
        (st', Some e) \<Rightarrow> (handleFailure en r h e now st', True)
      | (_, None) \<Rightarrow> (st, False))"

definition batch_value :: "env \<Rightarrow> nat \<times> test_job \<Rightarrow> js \<Rightarrow> int \<Rightarrow> sys \<Rightarrow> sys" where
  "batch_value en rh result now st =
     (case roundtripResult result (own st) of
        Inl e \<Rightarrow> handleFailure en (fst rh) (snd rh) e now st
      | Inr v \<Rightarrow>
          if \<not> isCurrent st (fst rh) then settleGoneCompletion (fst rh) (snd rh) v now st
          else complete_job en (fst rh) (snd rh) v now st)"

definition batch_entry :: "env \<Rightarrow> int \<Rightarrow> (nat \<times> test_job) \<times> batch_result \<Rightarrow> sys \<Rightarrow> sys" where
  "batch_entry en now x st =
     (case settleMovedToFailed en (fst (fst x)) (snd (fst x)) now st of
        (st', True) \<Rightarrow> st'
      | (st', False) \<Rightarrow>
          (case snd x of
             BatchFailure e \<Rightarrow> handleFailure en (fst (fst x)) (snd (fst x)) e now st'
           | BatchValue v \<Rightarrow> batch_value en (fst x) v now st'))"

definition pad_results :: "nat \<Rightarrow> batch_result list \<Rightarrow> batch_result list" where
  "pad_results n rs = take n rs @ replicate (n - length rs) (BatchFailure (err ''No result in BatchError''))"

datatype batch_outcome = BatchResolved "js list" | BatchRejected js_error

definition count_message :: "nat \<Rightarrow> nat \<Rightarrow> string" where
  "count_message got want =
     ''Batch processor returned '' @ show_nat got @ '' results but batch had '' @ show_nat want @ '' jobs''"

definition batch_results :: "batch_outcome \<Rightarrow> nat \<Rightarrow> batch_result list" where
  "batch_results out n =
     (case out of
        BatchResolved vs \<Rightarrow>
          if length vs \<noteq> n then replicate n (BatchFailure (err (count_message (length vs) n)))
          else map BatchValue vs
      | BatchRejected e \<Rightarrow>
          (case e of BatchError rs \<Rightarrow> pad_results n rs | _ \<Rightarrow> replicate n (BatchFailure e)))"

definition settle_batch :: "env \<Rightarrow> (nat \<times> test_job) list \<Rightarrow> batch_outcome \<Rightarrow> int \<Rightarrow> sys \<Rightarrow> sys" where
  "settle_batch en jobs out now st =
     fold (batch_entry en now) (zip jobs (batch_results out (length jobs))) st"

text \<open>The \<open>i\<close>-th running batch ends; \<open>f\<close> is what its processor did to the handles.\<close>

definition batch_ends :: "env \<Rightarrow> nat \<Rightarrow> (test_job \<Rightarrow> test_job) \<Rightarrow> batch_outcome \<Rightarrow> int \<Rightarrow> sys \<Rightarrow> sys" where
  "batch_ends en i f out now st =
     (if i < length (wk_batches (snd st)) then
        let jobs = map (\<lambda>(r, h). (r, f h)) (wk_batches (snd st) ! i);
            st1 = settle_batch en jobs out now (on_k (\<lambda>k. k\<lparr>wk_batches := drop_at i (wk_batches k)\<rparr>) st);
            st2 = job_done (length jobs) st1
        in if \<not> wk_running (snd st2) then st2
           else scheduleBatchFlush now (if q_paused (own st2) then st2 else processAvailable en now st2)
      else st)"

section \<open>Pause, resume, close\<close>

definition isRunning :: "worker \<Rightarrow> bool" where
  "isRunning k \<longleftrightarrow> wk_running k \<and> \<not> wk_paused k"

definition pause_worker :: "worker \<Rightarrow> worker" where
  "pause_worker k = k\<lparr>wk_paused := True\<rparr>"

definition resume_worker :: "worker \<Rightarrow> worker" where
  "resume_worker k = wake (k\<lparr>wk_paused := False\<rparr>)"

definition getActiveCount :: "worker \<Rightarrow> nat" where
  "getActiveCount k = wk_active k"

definition detach :: "worker \<Rightarrow> tq \<Rightarrow> tq" where
  "detach k q = onWorkerDetached (q\<lparr>q_workers := removeAll (wk_id k) (q_workers q)\<rparr>)"

text \<open>Jobs claimed for a batch that never ran go back to the front of the queue; the peers are woken.\<close>

definition hand_back :: "sys \<Rightarrow> sys" where
  "hand_back st =
     (let handoff = filter (batch_claimable st) (wk_pending (snd st))
      in on_k (\<lambda>k. k\<lparr>wk_pending := []\<rparr>) (on_q (\<lambda>q. q\<lparr>q_waiting := handoff @ q_waiting q\<rparr>) st))"

definition close_worker :: "sys \<Rightarrow> sys" where
  "close_worker st =
     (let st1 = on_k (\<lambda>k. k\<lparr>wk_running := False, wk_batchTimer := None, wk_rateLimitTimer := None\<rparr>) st;
          st2 = hand_back st1
      in on_q (\<lambda>q. emit EvWake (detach (snd st2) q)) st2)"

record worker_info =
  wi_id :: string
  wi_startedAt :: int
  wi_age :: int
  wi_activeJobs :: nat
  wi_concurrency :: nat

text \<open>\<open>getWorkers\<close> without the host name and process id.\<close>

definition getWorkers :: "worker list \<Rightarrow> int \<Rightarrow> worker_info list" where
  "getWorkers ws now =
     sort_key wi_startedAt
       (map (\<lambda>k. \<lparr>wi_id = wk_id k, wi_startedAt = wk_startedAt k, wi_age = now - wk_startedAt k,
                  wi_activeJobs = getActiveCount k, wi_concurrency = wk_concurrency k\<rparr>) ws)"

end
