(* ===== verification/Tq_Add_Inv.thy ===== *)
theory Tq_Add_Inv
  imports Tq_Add Tq_Order
begin

text \<open>
  Generated ids are fresh, adding and removing jobs keeps a queue well formed and strands no job,
  and what \<open>add\<close> does to the queue.
\<close>

section \<open>Generated ids\<close>

lemma next_id_Some: "next_id n taken c = (c', Some i) \<Longrightarrow> i = show_nat c' \<and> \<not> taken i \<and> c \<le> c'"
  by (induction n taken c rule: next_id.induct) (fastforce split: if_splits)+

lemma next_id_None:
  "next_id n taken c = (c', None) \<Longrightarrow> \<forall>k < n. taken (show_nat (c + k))"
proof (induction n taken c rule: next_id.induct)
  case (2 n taken c)
  then have t: "taken (show_nat c)" by (auto split: if_splits)
  show ?case
  proof (intro allI impI)
    fix k assume "k < Suc n"
    show "taken (show_nat (c + k))"
    proof (cases k)
      case (Suc m)
      then have "n \<noteq> 0" "m < n" using \<open>k < Suc n\<close> by auto
      with 2 t Suc show ?thesis by (auto split: if_splits)
    qed (use t in simp)
  qed
qed simp

text \<open>
  1000 taken ids in a row need 1000 jobs, so generation only throws on a queue that holds that many.
\<close>

lemma next_id_total:
  assumes "finite T" and "card T < n" and "\<And>i. taken i \<longleftrightarrow> i \<in> T"
  shows "\<exists>c' i. next_id n taken c = (c', Some i)"
proof (cases "next_id n taken c")
  case (Pair c' res)
  show ?thesis
  proof (cases res)
    case None
    let ?f = "\<lambda>k. show_nat (c + k)"
    have "?f ` {..<n} \<subseteq> T"
      using next_id_None [OF Pair [unfolded None]] assms(3) by auto
    then have "card (?f ` {..<n}) \<le> card T" by (rule card_mono [OF assms(1)])
    moreover have "inj_on ?f {..<n}"
      by (simp add: inj_on_def show_nat_inj)
    then have "card (?f ` {..<n}) = n" by (simp add: card_image)
    ultimately show ?thesis using assms(2) by simp
  next
    case (Some i)
    with Pair show ?thesis by simp
  qed
qed

lemma idCounter_sel [simp]:
  "lookup (q_idCounter_update f q) i = lookup q i" "state_of (q_idCounter_update f q) r = state_of q r"
  "id_of (q_idCounter_update f q) r = id_of q r" "current (q_idCounter_update f q) r = current q r"
  "tq_wf (q_idCounter_update f q) = tq_wf q" "dispatchable H (q_idCounter_update f q) = dispatchable H q"
  by (simp_all add: lookup_def state_of_def id_of_def current_def tq_wf_def dispatchable_def placed_def)

lemma dedupEntries_sel [simp]:
  "lookup (q_dedupEntries_update f q) i = lookup q i" "state_of (q_dedupEntries_update f q) r = state_of q r"
  "id_of (q_dedupEntries_update f q) r = id_of q r" "current (q_dedupEntries_update f q) r = current q r"
  "tq_wf (q_dedupEntries_update f q) = tq_wf q" "dispatchable H (q_dedupEntries_update f q) = dispatchable H q"
  by (simp_all add: lookup_def state_of_def id_of_def current_def tq_wf_def dispatchable_def placed_def)

lemma generateJobId_frame:
  assumes "generateJobId reserved q = (q', res)"
  shows "\<exists>c. q' = q\<lparr>q_idCounter := c\<rparr>"
  using assms by (auto simp: generateJobId_def split: prod.splits option.splits)

lemma generateJobId_fresh:
  "generateJobId reserved q = (q', Inr i) \<Longrightarrow> lookup q i = None \<and> i \<notin> set reserved"
  by (auto simp: generateJobId_def jm_has_def lookup_def dest!: next_id_Some
      split: prod.splits option.splits)

section \<open>Removing a job\<close>

lemma delete_job_sel [simp]:
  "lookup (delete_job i q) k = (if k = i then None else lookup q k)"
  "state_of (delete_job i q) r = state_of q r" "id_of (delete_job i q) r = id_of q r"
  "q_waiting (delete_job i q) = q_waiting q" "q_promotions (delete_job i q) = q_promotions q"
  "q_suspendTimers (delete_job i q) = q_suspendTimers q" "q_next (delete_job i q) = q_next q"
  by (simp_all add: delete_job_def lookup_def state_of_def id_of_def js_map_simps)

lemma tq_wf_delete_job [simp]: "tq_wf q \<Longrightarrow> tq_wf (delete_job i q)"
  unfolding tq_wf_def delete_job_sel by (auto simp: delete_job_def jm_wf_delete)

lemma dispatchable_delete_job: "dispatchable H q \<Longrightarrow> dispatchable H (delete_job i q)"
  by (auto simp: dispatchable_def placed_def)

lemma removeJob_sel:
  "lookup (fst (removeJob i q)) k = (if k = i then None else lookup q k)"
  "state_of (fst (removeJob i q)) r = state_of q r" "id_of (fst (removeJob i q)) r = id_of q r"
  "q_next (fst (removeJob i q)) = q_next q"
  by (auto simp: removeJob_def split: option.splits)

lemma tq_wf_removeJob [simp]: "tq_wf q \<Longrightarrow> tq_wf (fst (removeJob i q))"
  by (auto simp: removeJob_def split: option.splits)

lemma dispatchable_removeJob:
  assumes "tq_wf q" and "dispatchable H q"
  shows "dispatchable H (fst (removeJob i q))"
proof (cases "lookup q i")
  case None
  with assms(2) show ?thesis by (simp add: removeJob_def)
next
  case (Some r)
  have i: "id_of q r = i" by (rule lookup_id [OF assms(1) Some])
  have "placed H (fst (removeJob i q)) k x" if "k \<noteq> i" "lookup q k = Some x" for k x
  proof -
    have "id_of q x = k" by (rule lookup_id [OF assms(1) that(2)])
    moreover have "placed H q k x" using assms(2) that(2) by (simp add: dispatchable_def)
    ultimately show ?thesis
      using Some i that(1) by (auto simp: removeJob_def placed_def js_map_simps simp del: map_of_eq_Some_iff)
  qed
  then show ?thesis by (simp add: dispatchable_def removeJob_sel)
qed

section \<open>Inserting a record\<close>

lemma store_record_sel [simp]:
  "lookup (store_record i j q) k = (if k = i then Some (q_next q) else lookup q k)"
  "state_of (store_record i j q) r = (if r = q_next q then j_state j else state_of q r)"
  "id_of (store_record i j q) r = (if r = q_next q then j_id j else id_of q r)"
  "q_waiting (store_record i j q) = q_waiting q" "q_promotions (store_record i j q) = q_promotions q"
  "q_suspendTimers (store_record i j q) = q_suspendTimers q" "q_next (store_record i j q) = Suc (q_next q)"
  by (simp_all add: store_record_def lookup_def state_of_def id_of_def js_map_simps)

lemma tq_wf_store_record:
  assumes "tq_wf q" and "j_id j = i"
  shows "tq_wf (store_record i j q)"
proof -
  have l: "id_of q r = k \<and> r < q_next q" if "lookup q k = Some r" for k r
    using that assms(1) by (simp add: tq_wf_def)
  have p: "id_of q r = k \<and> r < q_next q" if "jm_get (q_promotions q) k = Some (r, t)" for k r t
    using that assms(1) unfolding tq_wf_def by blast
  have w: "r < q_next q" if "r \<in> set (q_waiting q)" for r
    using that assms(1) by (simp add: tq_wf_def)
  note [simp del] = map_of_eq_Some_iff
  have a: "jm_wf (q_jobs (store_record i j q))"
    using tq_wf_keys [OF assms(1)] by (simp add: store_record_def jm_wf_set)
  have b: "id_of (store_record i j q) r = k \<and> r < q_next (store_record i j q)"
    if "lookup (store_record i j q) k = Some r" for k r
    using that l [of k r] assms(2) by (auto split: if_splits)
  have c: "id_of (store_record i j q) r = k \<and> r < q_next (store_record i j q)"
    if "jm_get (q_promotions (store_record i j q)) k = Some (r, t)" for k r t
    using that p [of k r t] by auto
  have d: "r < q_next (store_record i j q)" if "r \<in> set (q_waiting (store_record i j q))" for r
    using that w [of r] by simp
  show ?thesis
    unfolding tq_wf_def using a b c d tq_wf_maps [OF assms(1)] by simp
qed

text \<open>A queue in which every job but the newest is placed.\<close>

lemma dispatchable_place_record:
  assumes "tq_wf q" and "lookup q i = None" and "dispatchable H q" and "j_id j = i"
    and "j_state j = Waiting \<or> j_state j = WaitingChildren"
  shows "dispatchable H (place_record (q_next q) d p now (store_record i j q))"
proof -
  let ?q = "store_record i j q" and ?r = "q_next q"
  have wf: "tq_wf ?q" by (rule tq_wf_store_record [OF assms(1,4)])
  have c: "current ?q ?r" using assms(4) by (simp add: current_def)
  have "dispatchable (insert ?r H) ?q"
  proof -
    have "placed (insert ?r H) ?q k x" if "lookup ?q k = Some x" for k x
    proof (cases "x = ?r")
      case True
      then show ?thesis using assms(5) by (auto simp: placed_def)
    next
      case False
      with that have "lookup q k = Some x" by (auto split: if_splits)
      with assms(3) have "placed H q k x" by (simp add: dispatchable_def)
      with False show ?thesis by (auto simp: placed_def)
    qed
    then show ?thesis by (simp add: dispatchable_def)
  qed
  note m = dispatchable_moves [OF this wf c]
  have sub: "insert ?r H - {?r} \<subseteq> H" by auto
  show ?thesis
  proof (cases "j_state j = WaitingChildren")
    case True
    then have "dispatchable H ?q"
      using \<open>dispatchable (insert ?r H) ?q\<close>
      by (auto simp: dispatchable_def placed_def split: if_splits)
    with True show ?thesis by (simp add: place_record_def)
  next
    case False
    then show ?thesis
      using m [THEN dispatchable_mono [OF _ sub]] by (simp add: place_record_def)
  qed
qed

lemma tq_wf_place_record: "tq_wf q \<Longrightarrow> r < q_next q \<Longrightarrow> tq_wf (place_record r d p now q)"
  by (simp add: place_record_def)

lemma same_jobs_place_record: "same_jobs q (place_record r d p now q)"
  by (simp add: place_record_def)

definition plain_init :: "(job \<Rightarrow> job) \<Rightarrow> bool" where
  "plain_init init \<longleftrightarrow>
     (\<forall>j. j_id (init j) = j_id j \<and> j_opts (init j) = j_opts j \<and> j_state (init j) \<in> {j_state j, WaitingChildren})"

lemma plain_init_id [simp]: "plain_init id" "plain_init (\<lambda>j. j)"
  by (simp_all add: plain_init_def)

lemma blank_job_sel [simp]: "j_id blank_job = []" "j_state blank_job = Waiting" "j_opts blank_job = 0"
  by (simp_all add: blank_job_def)

lemma new_record_sel:
  assumes "plain_init init"
  shows "j_id (new_record i name data o' now t init) = i" and "j_opts (new_record i name data o' now t init) = o'"
    and "j_state (new_record i name data o' now t init) \<in> {Waiting, WaitingChildren}"
proof -
  define j where "j = blank_job\<lparr>j_id := i, j_name := name, j_data := data, j_opts := o', j_timestamp := now,
       j_expireAt := (if t > 0 then Some (of_int now + t) else None)\<rparr>"
  have "new_record i name data o' now t init = init j" by (simp add: new_record_def j_def)
  moreover have "j_id j = i" "j_opts j = o'" "j_state j = Waiting" by (simp_all add: j_def)
  moreover have "j_id (init j) = j_id j" "j_opts (init j) = j_opts j" "j_state (init j) \<in> {j_state j, WaitingChildren}"
    using assms [unfolded plain_init_def, THEN spec [where x = j]] by simp_all
  ultimately show "j_id (new_record i name data o' now t init) = i"
    "j_opts (new_record i name data o' now t init) = o'"
    "j_state (new_record i name data o' now t init) \<in> {Waiting, WaitingChildren}" by simp_all
qed

lemma insertRecord_inv:
  assumes "insertRecord name s o' i now d ser init q = (q', res)" and "tq_wf q" and "lookup q i = None"
    and "plain_init init"
  shows "tq_wf q'" and "dispatchable H q \<Longrightarrow> dispatchable H q'"
proof -
  let ?j = "\<lambda>t data. new_record i name data o' now t init"
  have j: "j_id (?j t data) = i" "j_state (?j t data) = Waiting \<or> j_state (?j t data) = WaitingChildren" for t data
    using new_record_sel [OF assms(4)] by simp_all
  show "tq_wf q'"
    using assms(1,2) j(1) by (auto simp: insertRecord_def Let_def tq_wf_place_record tq_wf_store_record
        split: option.splits)
  assume "dispatchable H q"
  then show "dispatchable H q'"
    using assms(1) dispatchable_place_record [OF assms(2,3) _ j]
    by (auto simp: insertRecord_def Let_def split: option.splits)
qed

lemma insertRecord_ok:
  assumes "insertRecord name s o' i now d ser init q = (q', Inr r)"
  shows "r = q_next q" and "lookup q' k = (if k = i then Some r else lookup q k)"
    and "\<exists>data. deserialize ser s = Some data"
  using assms same_jobs_sel(1) [OF same_jobs_place_record]
  by (auto simp: insertRecord_def Let_def split: option.splits)

section \<open>Adding a job\<close>

lemma isDeduplicated_inv:
  assumes "isDeduplicated dd now q = (q', b)"
  shows "tq_wf q \<Longrightarrow> tq_wf q'" and "tq_wf q \<Longrightarrow> dispatchable H q \<Longrightarrow> dispatchable H q'"
    and "q_next q' = q_next q" and "lookup q i = None \<Longrightarrow> lookup q' i = None"
proof -
  have "q' = q \<or> (\<exists>k. q' = fst (removeJob k q))"
    using assms by (auto simp: isDeduplicated_def split: option.splits if_splits prod.splits)
  then show "tq_wf q \<Longrightarrow> tq_wf q'" "tq_wf q \<Longrightarrow> dispatchable H q \<Longrightarrow> dispatchable H q'"
    "q_next q' = q_next q" "lookup q i = None \<Longrightarrow> lookup q' i = None"
    by (auto simp: dispatchable_removeJob removeJob_sel)
qed

lemma dropped_inv:
  assumes "dropped_as_duplicate o' now q = (q', b)"
  shows "tq_wf q \<Longrightarrow> tq_wf q'" and "tq_wf q \<Longrightarrow> dispatchable H q \<Longrightarrow> dispatchable H q'"
  using assms isDeduplicated_inv(1,2) by (auto simp: dropped_as_duplicate_def split: option.splits)

lemma choose_id_inv:
  assumes "choose_id o' q = (q', res)"
  shows "tq_wf q \<Longrightarrow> tq_wf q'" and "dispatchable H q \<Longrightarrow> dispatchable H q'"
    and "res = Inr (Some i) \<Longrightarrow> lookup q' i = None"
proof -
  have g: "tq_wf q' = tq_wf q \<and> dispatchable H q' = dispatchable H q \<and> lookup q' i = lookup q i" for H i
    using assms generateJobId_frame [of "[]" q q']
    by (auto simp: choose_id_def split: if_splits prod.splits sum.splits)
  then show "tq_wf q \<Longrightarrow> tq_wf q'" "dispatchable H q \<Longrightarrow> dispatchable H q'" by simp_all
  assume "res = Inr (Some i)"
  then have "lookup q i = None"
    using assms generateJobId_fresh [of "[]" q]
    by (auto simp: choose_id_def jm_has_def lookup_def split: if_splits prod.splits sum.splits option.splits)
  with g show "lookup q' i = None" by simp
qed

lemma record_dedup_sel [simp]:
  "lookup (record_dedup o' i now q) k = lookup q k" "tq_wf (record_dedup o' i now q) = tq_wf q"
  "dispatchable H (record_dedup o' i now q) = dispatchable H q" "state_of (record_dedup o' i now q) r = state_of q r"
  by (simp_all add: record_dedup_def split: option.split)

lemma prepare_add_inv:
  assumes "prepare_add data o' now q = (q', res)" and "tq_wf q"
  shows "tq_wf q'" and "dispatchable H q \<Longrightarrow> dispatchable H q'"
    and "res = Inr (Some (s, i)) \<Longrightarrow> lookup q' i = None"
proof -
  have "tq_wf q' \<and> (dispatchable H q \<longrightarrow> dispatchable H q') \<and> (res = Inr (Some (s, i)) \<longrightarrow> lookup q' i = None)"
  proof (cases "check_add data o' q")
    case (Inl e)
    with assms show ?thesis by (auto simp: prepare_add_def)
  next
    case (Inr u)
    obtain q1 b where d: "dropped_as_duplicate o' now q = (q1, b)" by fastforce
    obtain q2 c where ch: "choose_id o' q1 = (q2, c)" by fastforce
    note i1 = dropped_inv [OF d] and i2 = choose_id_inv [OF ch]
    show ?thesis
    proof (cases b)
      case True
      with assms Inr d i1 show ?thesis by (auto simp: prepare_add_def)
    next
      case False
      with assms Inr d ch i1 i2 show ?thesis
        by (auto simp: prepare_add_def split: sum.splits option.splits)
    qed
  qed
  then show "tq_wf q'" "dispatchable H q \<Longrightarrow> dispatchable H q'"
    "res = Inr (Some (s, i)) \<Longrightarrow> lookup q' i = None" by blast+
qed

lemma add_unlinked_inv:
  assumes "add_unlinked name data o' now q = (q', res)" and "tq_wf q" and "dispatchable H q"
  shows "tq_wf q' \<and> dispatchable H q'"
proof -
  obtain q1 p where p: "prepare_add data (q_opts q o') now q = (q1, p)" by fastforce
  note inv = prepare_add_inv [OF p assms(2)]
  show ?thesis
  proof (cases "\<exists>s i. p = Inr (Some (s, i))")
    case True
    then obtain s i where si: "p = Inr (Some (s, i))" by blast
    obtain q2 r where f: "finish_add name o' now id (s, i) q1 = (q2, r)" by fastforce
    have "tq_wf q2" "dispatchable H q2"
      using insertRecord_inv [OF f [unfolded finish_add_def fst_conv snd_conv] inv(1) inv(3) [OF si] plain_init_id(1)]
        inv(2) [OF assms(3)] by simp_all
    moreover have "q' = q2" using assms(1) p si f by (auto simp: add_unlinked_def split: sum.splits)
    ultimately show ?thesis by simp
  next
    case False
    then have "q' = q1" using assms(1) p by (auto simp: add_unlinked_def split: sum.splits option.splits)
    with inv(1,2) assms(3) show ?thesis by simp
  qed
qed

end
