(* ===== verification/Tq_Inv.thy ===== *)
theory Tq_Inv
  imports Tq_World Tq_Add_Inv
begin

text \<open>
  Every operation of a \<open>TestQueue\<close> keeps it well formed and strands no job: the invariant \<open>qok\<close>,
  with the records that batch workers hold as its parameter.
\<close>

definition qok :: "nat set \<Rightarrow> tq \<Rightarrow> bool" where
  "qok H q \<longleftrightarrow> tq_wf q \<and> dispatchable H q"

lemma qok_wf: "qok H q \<Longrightarrow> tq_wf q"
  by (simp add: qok_def)

lemma qok_mono: "qok H q \<Longrightarrow> H \<subseteq> H' \<Longrightarrow> qok H' q"
  by (auto simp: qok_def dispatchable_mono)

section \<open>Fields the invariant does not read\<close>

lemma qok_fields [simp]:
  "qok H (q_budgets_update f1 q) = qok H q" "qok H (q_schedulers_update f2 q) = qok H q"
  "qok H (q_schedulerTimer_update f3 q) = qok H q" "qok H (q_schedulerRunning_update f4 q) = qok H q"
  "qok H (q_paused_update f5 q) = qok H q" "qok H (q_completedMetrics_update f6 q) = qok H q"
  "qok H (q_failedMetrics_update f6 q) = qok H q" "qok H (q_workers_update f7 q) = qok H q"
  "qok H (q_indexField_update f8 q) = qok H q" "qok H (q_dlqName_update f9 q) = qok H q"
  "qok H (q_opts_update f10 q) = qok H q" "qok H (q_nextOpts_update f11 q) = qok H q"
  "qok H (q_idCounter_update f11 q) = qok H q" "qok H (q_dedupEntries_update f12 q) = qok H q"
  "qok H (q_events_update f13 q) = qok H q" "qok H (emit e q) = qok H q"
  by (simp_all add: qok_def tq_wf_def dispatchable_def placed_def lookup_def state_of_def id_of_def emit_def)

lemma qok_upd:
  assumes "\<And>j. j_id (f j) = j_id j \<and> j_state (f j) = j_state j"
  shows "qok H (upd r f q) = qok H q"
  using assms by (simp add: qok_def tq_wf_upd dispatchable_upd)

section \<open>Moving one record\<close>

definition resting :: "job_state set" where
  "resting = {Active, Completed, Failed, Suspended, WaitingChildren}"

lemma qok_rest:
  assumes "qok H q" and "\<And>j. j_id (f j) = j_id j \<and> j_state (f j) \<in> resting"
  shows "qok (H - {r}) (upd r f q)"
proof -
  have "tq_wf (upd r f q)" using assms by (simp add: qok_def tq_wf_upd)
  moreover have "placed (H - {r}) (upd r f q) i x" if "lookup q i = Some x" for i x
  proof (cases "x = r")
    case True
    have "state_of (upd r f q) r \<in> resting" using assms(2) by (simp add: state_of_def)
    with True show ?thesis by (auto simp: placed_def resting_def)
  next
    case False
    have "placed H q i x" using assms(1) that by (simp add: qok_def dispatchable_def)
    with False show ?thesis by (auto simp: placed_def state_of_def)
  qed
  ultimately show ?thesis by (simp add: qok_def dispatchable_def)
qed

lemma qok_rest': "qok H q \<Longrightarrow> (\<And>j. j_id (f j) = j_id j \<and> j_state (f j) \<in> resting) \<Longrightarrow> qok H (upd r f q)"
  by (rule qok_mono [OF qok_rest]) auto

lemma qok_moves:
  assumes "qok H q" and "current q r"
  shows "qok H (enqueueWaiting r q)" and "qok H (enqueuePrioritized r q)"
    and "qok H (parkDelayed r d now q)" and "qok H (parkActiveDelayed r d now q)"
    and "qok H (releaseDelayed r b q)"
proof -
  have wf: "tq_wf q" and dp: "dispatchable H q" using assms(1) by (simp_all add: qok_def)
  have r: "r < q_next q" by (rule current_next [OF wf assms(2)])
  note m = dispatchable_moves [OF dp wf assms(2), THEN dispatchable_mono, of H] tq_wf_moves [OF wf r]
  show "qok H (enqueueWaiting r q)" "qok H (enqueuePrioritized r q)" "qok H (parkDelayed r d now q)"
    "qok H (parkActiveDelayed r d now q)" "qok H (releaseDelayed r b q)"
    using m by (auto simp: qok_def)
qed

lemma qok_promotion_fires:
  assumes "qok H q" and "jm_get (q_promotions q) i = Some (r, t)"
  shows "qok H (promotion_fires r q)"
proof -
  have wf: "tq_wf q" using assms(1) by (simp add: qok_def)
  have i: "id_of q r = i \<and> r < q_next q"
    using wf assms(2) unfolding tq_wf_def by blast
  then show ?thesis
    using assms dispatchable_promotion_fires [of H q r t] tq_wf_moves(5) [OF wf, of r]
    by (simp add: qok_def)
qed

lemma qok_promote [simp]: "qok H q \<Longrightarrow> qok H (promotePrioritized q)"
  by (simp add: qok_def dispatchable_promote)

lemma qok_compact: "qok H q \<Longrightarrow> qok H (compact_waiting (promotePrioritized q))"
  by (simp add: qok_def dispatchable_compact tq_wf_compact)

lemma qok_hasWaiting: "qok H q \<Longrightarrow> qok H (fst (hasWaiting q))"
  by (simp add: hasWaiting_def nextWaitingIndex_def Let_def qok_compact)

lemma qok_take:
  assumes "takeNextWaiting q = (q', res)" and "qok H q"
  shows "qok (case res of None \<Rightarrow> H | Some r \<Rightarrow> insert r H) q'"
  using assms tq_wf_takeNextWaiting [OF assms(1)] takeNextWaiting_Some(3) [of q q'] takeNextWaiting_None(1) [of q q']
  by (cases res) (auto simp: qok_def)

section \<open>Deleting jobs\<close>

lemma qok_delete_job [simp]: "qok H q \<Longrightarrow> qok H (delete_job i q)"
  by (simp add: qok_def dispatchable_delete_job)

lemma qok_removeJob [simp]: "qok H q \<Longrightarrow> qok H (fst (removeJob i q))"
  by (simp add: qok_def dispatchable_removeJob)

lemma qok_fold: "(\<And>x q. qok H q \<Longrightarrow> qok H (f x q)) \<Longrightarrow> qok H q \<Longrightarrow> qok H (fold f xs q)"
  by (induction xs arbitrary: q) auto

lemma qok_delete_clear:
  assumes "qok H q"
  shows "qok H (delete_job i (clearPromotion i q))"
proof -
  have "placed H (delete_job i (clearPromotion i q)) k x" if "k \<noteq> i" "lookup q k = Some x" for k x
    using assms that by (auto simp: qok_def dispatchable_def placed_def js_map_simps simp del: map_of_eq_Some_iff)
  moreover have "tq_wf (delete_job i (clearPromotion i q))"
    using assms by (simp add: qok_def)
  ultimately show ?thesis by (simp add: qok_def dispatchable_def)
qed

section \<open>The operations\<close>

lemma qok_recordMetric [simp]: "qok H (recordMetric ty p f q) = qok H q"
  by (simp add: recordMetric_def)

lemma qok_delete_records [simp]: "qok H q \<Longrightarrow> qok H (delete_records rs q)"
  unfolding delete_records_def by (rule qok_fold) auto

lemma qok_applyRetention [simp]: "qok H q \<Longrightarrow> qok H (applyRetention r st now q)"
  by (auto simp: applyRetention_def drop_older_def keep_newest_def Let_def split: retention.splits)

lemma qok_mark_failed [simp]: "qok H q \<Longrightarrow> qok H (mark_failed m now r q)"
  unfolding mark_failed_def by (rule qok_rest') (simp_all add: resting_def)

lemma qok_clean [simp]: "qok H q \<Longrightarrow> qok H (fst (clean g l ty now q))"
  by (auto simp: clean_def Let_def intro: qok_fold)

lemma current_upd [simp]: "(\<And>j. j_id (f j) = j_id j) \<Longrightarrow> current (upd r f q) x = current q x"
  by (simp add: current_def id_of_def)

lemma qok_retryRecord: "qok H q \<Longrightarrow> current q r \<Longrightarrow> qok H (retryRecord r now q)"
  unfolding retryRecord_def Let_def by (intro qok_moves) (simp_all add: qok_upd)

lemma lookup_current: "qok H q \<Longrightarrow> lookup q i = Some r \<Longrightarrow> current q r"
  using lookup_id [of q i r] by (simp add: qok_def current_def)

lemma records_current: "qok H q \<Longrightarrow> r \<in> set (records q) \<Longrightarrow> current q r"
  using current_records [of q r] by (simp add: qok_def)

lemma same_jobs_retryRecord: "same_jobs q (retryRecord r now q)"
  unfolding retryRecord_def Let_def
  by (rule same_jobs_trans [OF same_jobs_upd same_jobs_moves(1)]) simp

lemma qok_fold_current:
  assumes "\<And>x q. qok H q \<Longrightarrow> current q x \<Longrightarrow> qok H (f x q) \<and> same_jobs q (f x q)"
    and "qok H q" and "\<forall>x \<in> set xs. current q x"
  shows "qok H (fold f xs q)"
  using assms(2,3)
proof (induction xs arbitrary: q)
  case (Cons x xs)
  then have "qok H (f x q)" "same_jobs q (f x q)" using assms(1) by simp_all
  then show ?case using Cons same_jobs_sel(2) by simp
qed simp

lemma qok_retryJobs [simp]:
  assumes "qok H q"
  shows "qok H (fst (retryJobs n now q))"
proof -
  have "qok H (fold (\<lambda>r. retryRecord r now) xs q)" if "set xs \<subseteq> set (records q)" for xs
    using assms that records_current [OF assms]
    by (intro qok_fold_current) (auto simp: qok_retryRecord same_jobs_retryRecord)
  moreover have "set (take k (filter P (records q))) \<subseteq> set (records q)" for k P
    using set_take_subset [of k "filter P (records q)"] by auto
  ultimately show ?thesis using assms by (auto simp: retryJobs_def Let_def)
qed

lemma qok_obliterate [simp]: "qok H q \<Longrightarrow> qok H (fst (obliterate force q))"
  by (auto simp: obliterate_def qok_def tq_wf_def dispatchable_def lookup_def clear_timers_def
      clearAllSuspendedTimeouts_def clearSchedulerTimer_def)

end
