(* ===== verification/Tq_Inv_Ops.thy ===== *)
theory Tq_Inv_Ops
  imports Tq_Inv
begin

text \<open>
  The invariant under the remaining queue operations: revoke, drain, suspension, the methods of a
  job handle, schedulers and adding jobs.
\<close>

section \<open>Revoke and drain\<close>

lemma qok_revoke [simp]:
  assumes "qok H q"
  shows "qok H (fst (revoke i now q))"
proof (cases "lookup q i")
  case None
  then show ?thesis using assms by (simp add: revoke_def)
next
  case (Some r)
  let ?q1 = "upd r (\<lambda>j. j\<lparr>j_revoked := True\<rparr>) q"
  let ?q2 = "dequeueRecord r (clearPromotion i ?q1)"
  let ?q3 = "mark_failed ''revoked'' now r (upd r (\<lambda>j. j\<lparr>j_delayedUntil := None\<rparr>) ?q2)"
  have q1: "qok H ?q1" using assms by (simp add: qok_upd)
  have i: "id_of q r = i" using lookup_id [OF qok_wf [OF assms] Some] .
  have id: "id_of ?q1 x = id_of q x" "id_of ?q3 x = id_of q x" for x
    by (simp_all add: id_of_def mark_failed_def)
  have wf: "tq_wf ?q3"
    using q1 unfolding mark_failed_def by (simp add: tq_wf_upd qok_def)
  have "placed H ?q3 k x" if "lookup q k = Some x" for k x
  proof (cases "x = r")
    case True
    then show ?thesis by (simp add: placed_def mark_failed_def state_of_def)
  next
    case False
    have k: "id_of q x = k" using lookup_id [OF qok_wf [OF assms] that] .
    have "k \<noteq> i" using False Some that by auto
    moreover have "placed H q k x" using assms that by (simp add: qok_def dispatchable_def)
    ultimately show ?thesis
      using False i k id(1)
      by (auto simp: placed_def mark_failed_def state_of_def js_map_simps simp del: map_of_eq_Some_iff)
  qed
  then have "qok H ?q3" using wf by (simp add: qok_def dispatchable_def mark_failed_def)
  then show ?thesis using q1 Some by (simp add: revoke_def Let_def)
qed

lemma fold_delete_clear_sel:
  "lookup (fold (\<lambda>i q. delete_job i (clearPromotion i q)) is q) k = (if k \<in> set is then None else lookup q k)"
  "state_of (fold (\<lambda>i q. delete_job i (clearPromotion i q)) is q) r = state_of q r"
  "id_of (fold (\<lambda>i q. delete_job i (clearPromotion i q)) is q) r = id_of q r"
  "q_waiting (fold (\<lambda>i q. delete_job i (clearPromotion i q)) is q) = q_waiting q"
  by (induction "is" arbitrary: q) auto

lemma qok_drain [simp]:
  assumes "qok H q"
  shows "qok H (drain delayed q)"
proof -
  define rm where "rm = map fst (filter (\<lambda>(i, r). drained_by delayed (state_of q r)) (q_jobs q))"
  define q1 where "q1 = fold (\<lambda>i q. delete_job i (clearPromotion i q)) rm q"
  let ?q2 = "q1\<lparr>q_waiting := filter (\<lambda>r. state_of q1 r = Prioritized \<and> current q1 r) (q_waiting q1)\<rparr>"
  have wf: "tq_wf q" using assms by (simp add: qok_def)
  have q1: "qok H q1"
    unfolding q1_def by (rule qok_fold) (use assms qok_delete_clear in auto)
  have "tq_wf ?q2" using q1 by (auto simp: qok_def tq_wf_def)
  moreover have "placed H ?q2 k x" if l: "lookup q1 k = Some x" for k x
  proof -
    have lq: "lookup q k = Some x" "k \<notin> set rm"
      using l by (auto simp: q1_def fold_delete_clear_sel split: if_splits)
    have "(k, x) \<in> set (q_jobs q)" using jobs_mem [OF wf] lq(1) by blast
    then have "state_of q x \<noteq> Waiting" using lq(2) by (force simp: rm_def drained_by_def)
    moreover have "current q1 x" by (rule lookup_current [OF q1 l])
    moreover have "placed H q1 k x" using q1 l by (simp add: qok_def dispatchable_def)
    ultimately show ?thesis by (auto simp: placed_def q1_def fold_delete_clear_sel)
  qed
  ultimately have "qok H ?q2" by (simp add: qok_def dispatchable_def)
  then show ?thesis unfolding drain_def Let_def rm_def [symmetric] q1_def [symmetric] by (simp only: qok_fields simp_thms split: if_split)
qed

section \<open>Suspension\<close>

lemma qok_suspendTimers:
  assumes "qok H q" and "jm_wf ts"
  shows "qok H (q\<lparr>q_suspendTimers := ts\<rparr>)"
  using assms by (simp add: qok_def tq_wf_def dispatchable_def placed_def del: map_of_eq_Some_iff)

lemma qok_clearSuspended [simp]: "qok H q \<Longrightarrow> qok H (clearSuspendedTimeout i q)"
  using tq_wf_maps [of q] unfolding clearSuspendedTimeout_def
  by (intro qok_suspendTimers) (auto simp: qok_def jm_wf_delete)

lemma qok_scheduleNextChunk [simp]: "qok H q \<Longrightarrow> qok H (scheduleNextChunk r left now q)"
  using tq_wf_maps [of q] unfolding scheduleNextChunk_def
  by (intro qok_suspendTimers) (auto simp: qok_def jm_wf_set)

lemma qok_scheduleSuspendedTimeout [simp]: "qok H q \<Longrightarrow> qok H (scheduleSuspendedTimeout r now q)"
  by (simp add: scheduleSuspendedTimeout_def Let_def split: option.split)

lemma qok_suspend_timeout_fires [simp]: "qok H q \<Longrightarrow> qok H (suspend_timeout_fires i now q)"
  by (simp add: suspend_timeout_fires_def Let_def split: option.split)

lemma qok_push:
  assumes "qok H q" and "current q r"
  shows "qok H (push_waiting r (upd r (\<lambda>j. j\<lparr>j_signals := sg j, j_state := Waiting\<rparr>) q))"
proof -
  let ?f = "\<lambda>j. j\<lparr>j_signals := sg j, j_state := Waiting\<rparr>"
  have r: "r < q_next q" using assms by (simp add: qok_def current_next)
  have "tq_wf (upd r ?f q)" using assms by (simp add: qok_def tq_wf_upd)
  then have "tq_wf (push_waiting r (upd r ?f q))" using r by (auto simp: tq_wf_def push_waiting_def)
  moreover have "placed H (push_waiting r (upd r ?f q)) i x" if "lookup q i = Some x" for i x
  proof -
    have "placed H q i x" using assms(1) that by (simp add: qok_def dispatchable_def)
    then show ?thesis by (auto simp: placed_def state_of_def)
  qed
  ultimately show ?thesis by (simp add: qok_def dispatchable_def)
qed

lemma qok_signal [simp]:
  assumes "qok H q"
  shows "qok H (fst (signal i name data now q))"
  using assms lookup_current [OF assms]
  by (auto simp: signal_def Let_def intro!: qok_push split: option.splits)

section \<open>Handles\<close>

lemmas job_call_defs = fail_call_def log_line_def updateProgress_def updateData_def reportUsage_def
  reportTokens_def stream_def streamChunk_def storeVector_def moveToFailed_def remove_def
  moveToDelayed_def moveToWaitingChildren_def suspend_def set_opts_def Let_def

lemma qok_payload [simp]:
  assumes "qok H q"
  shows "qok H (fst (log_line m q h))" and "qok H (fst (updateProgress json p q h))"
    and "qok H (fst (updateData d q h))" and "qok H (fst (reportUsage u now q h))"
    and "qok H (fst (reportTokens n q h))" and "qok H (fst (stream kvs q h))"
    and "qok H (fst (streamChunk ty c q h))" and "qok H (fst (storeVector fd v q h))"
  using assms
  by (simp_all add: job_call_defs qok_upd split: js.split option.split sum.split)

lemma qok_updateData_pair: "updateData d q h = (q', h', res) \<Longrightarrow> qok H q \<Longrightarrow> qok H q'"
  using qok_payload(3) [of H q d h] by simp

lemma qok_moves_of_job [simp]:
  assumes "qok H q"
  shows "qok H (fst (moveToFailed e q h))" and "qok H (fst (remove q h))"
    and "qok H (fst (moveToDelayed t st q h))" and "qok H (fst (moveToWaitingChildren q h))"
    and "qok H (fst (suspend rs tm now q h))" and "qok H (fst (retry now q h))"
    and "qok H (fst (promote q h))" and "qok H (fst (changeDelay d now q h))"
proof -
  note c = lookup_current [OF assms]
  show "qok H (fst (moveToFailed e q h))" "qok H (fst (remove q h))" "qok H (fst (moveToWaitingChildren q h))"
    using assms by (simp_all add: job_call_defs qok_upd split: option.split)
  show "qok H (fst (suspend rs tm now q h))"
    unfolding suspend_def fst_conv by (rule qok_rest' [OF assms]) (simp add: resting_def)
  show "qok H (fst (moveToDelayed t st q h))"
    using assms by (auto simp: moveToDelayed_def fail_call_def Let_def intro: qok_updateData_pair
        split: option.splits sum.splits prod.splits)
  show "qok H (fst (retry now q h))"
    using assms c by (auto simp: retry_def fail_call_def qok_retryRecord split: option.split)
  show "qok H (fst (promote q h))"
    using assms c by (auto simp: promote_def fail_call_def set_opts_def qok_moves split: option.split)
  show "qok H (fst (changeDelay d now q h))"
    using assms c by (auto simp: changeDelay_def changed_delay_def fail_call_def set_opts_def qok_moves split: option.split)
qed

text \<open>
  A new priority moves a waiting job to \<open>prioritized\<close> in place, so the job must have its dispatch
  entry: a record that a batch worker holds has none.
\<close>

lemma qok_set_prioritized:
  assumes "qok H q" and "lookup q i = Some r" and "state_of q r \<in> {Waiting, Prioritized}"
    and "s \<in> {Waiting, Prioritized}" and "r \<in> set (q_waiting q)"
  shows "qok H (set_state r s q)"
proof -
  have "placed H (set_state r s q) k x" if "lookup q k = Some x" for k x
  proof -
    have "placed H q k x" using assms(1) that by (simp add: qok_def dispatchable_def)
    then show ?thesis using assms(4,5) by (auto simp: placed_def)
  qed
  then show ?thesis using assms(1) by (simp add: qok_def dispatchable_def)
qed

lemma qok_changePriority:
  assumes "qok H q" and "\<And>r. lookup q (h_id h) = Some r \<Longrightarrow> r \<in> H \<Longrightarrow> r \<in> set (q_waiting q)"
  shows "qok H (fst (changePriority p q h))"
proof (cases "lookup q (h_id h)")
  case None
  then show ?thesis using assms(1) by (simp add: changePriority_def fail_call_def)
next
  case (Some r)
  have w: "r \<in> set (q_waiting q)" if "state_of q r \<in> {Waiting, Prioritized}"
    using assms Some that by (auto simp: qok_def dispatchable_def placed_def)
  have "qok H (set_state r s q)" if "reprioritized (state_of q r) x = Some s" "s \<noteq> state_of q r" for s x
  proof (rule qok_set_prioritized [OF assms(1) Some])
    show "state_of q r \<in> {Waiting, Prioritized}" "s \<in> {Waiting, Prioritized}"
      using that by (auto simp: reprioritized_def split: job_state.splits if_splits)
    then show "r \<in> set (q_waiting q)" using w by blast
  qed
  then show ?thesis
    using assms(1) Some
    by (auto simp: changePriority_def fail_call_def set_opts_def Let_def split: option.split)
qed

section \<open>Adding and schedulers\<close>

lemma qok_insertRecord:
  assumes "insertRecord name s o' i now d ser init q = (q', res)" and "qok H q" and "lookup q i = None"
    and "plain_init init"
  shows "qok H q'"
  using insertRecord_inv [OF assms(1) _ assms(3,4)] assms(2) by (simp add: qok_def)

lemma qok_generateJobId:
  "generateJobId rs q = (q', res) \<Longrightarrow> qok H q \<Longrightarrow> qok H q'"
  using generateJobId_frame [of rs q q' res] by auto

lemma generateJobId_lookup: "generateJobId rs q = (q', Inr i) \<Longrightarrow> lookup q' i = None"
  using generateJobId_fresh [of rs q q' i] generateJobId_frame [of rs q q' "Inr i"] by auto

lemma qok_alloc: "alloc_opts x q = (q', o') \<Longrightarrow> qok H q \<Longrightarrow> qok H q'"
  by (auto simp: alloc_opts_def)

lemma qok_ensure [simp]: "qok H (ensureSchedulerLoop now q) = qok H q"
  by (simp add: ensureSchedulerLoop_def clearSchedulerTimer_def split: option.split)

lemma qok_sched_fields [simp]:
  "qok H (drop_scheduler n q) = qok H q" "qok H (put_scheduler n e q) = qok H q"
  "qok H (clearSchedulerTimer q) = qok H q" "qok H (onWorkerAttached now q) = qok H q"
  "qok H (onWorkerDetached q) = qok H q" "qok H (resume now q) = qok H q" "qok H (pause q) = qok H q"
  by (simp_all add: drop_scheduler_def put_scheduler_def clearSchedulerTimer_def onWorkerAttached_def
      onWorkerDetached_def resume_def pause_def)

lemma qok_upsert [simp]: "qok H q \<Longrightarrow> qok H (fst (upsertJobScheduler z v n so t now q))"
  by (auto simp: upsertJobScheduler_def split: sum.splits option.splits prod.splits)

lemma qok_removeScheduler [simp]: "qok H (removeJobScheduler n now q) = qok H q"
  by (simp add: removeJobScheduler_def)

lemma qok_create_run:
  assumes "create_run name e s now q = (q', res)" and "qok H q"
  shows "qok H q'"
proof -
  obtain q0 o' where a: "alloc_opts (template_opts e) q = (q0, o')" by fastforce
  obtain q1 g where g: "generateJobId [] q0 = (q1, g)" by fastforce
  have q1: "qok H q1" using qok_generateJobId [OF g] qok_alloc [OF a assms(2)] .
  show ?thesis
  proof (cases g)
    case (Inl x)
    then show ?thesis using assms(1) a g q1 by (simp add: create_run_def)
  next
    case (Inr i)
    then have "insertRecord (template_name name e) s o' i now 0 (q_serializer q1) id q1 = (q', res)"
      using assms(1) a g by (simp add: create_run_def)
    from qok_insertRecord [OF this q1] g Inr generateJobId_lookup show ?thesis by simp
  qed
qed

lemma qok_advance: "qok H q \<Longrightarrow> qok H (fst (advance_entry z n e now q))"
  by (auto simp: advance_entry_def Let_def split: sum.splits option.splits)

lemma qok_mark_scheduled [simp]: "qok H (mark_scheduled n e r q) = qok H q"
  by (simp add: mark_scheduled_def qok_upd)

lemma qok_run_due:
  assumes "qok H (fst st)"
  shows "qok H (fst (run_due z now n st))"
proof -
  obtain q x where st: "st = (q, x)" by (cases st)
  have cr: "qok H q'" if "create_run n e s now q = (q', res)" for e s q' res
    using qok_create_run [OF that] assms st by simp
  show ?thesis
    using assms unfolding st run_due_def
    by (auto split: option.splits sum.splits prod.splits dest: cr intro!: qok_advance)
qed

lemma qok_runDue [simp]: "qok H q \<Longrightarrow> qok H (fst (runDueSchedulers z now q))"
proof -
  assume q: "qok H q"
  have "qok H (fst (fold (run_due z now) ns st))" if "qok H (fst st)" for ns st
    using that by (induction ns arbitrary: st) (auto simp: qok_run_due)
  from this [of "(q\<lparr>q_schedulerRunning := True\<rparr>, None)" "dueNames now q"] q show ?thesis
    by (auto simp: runDueSchedulers_def split: prod.splits)
qed

lemma qok_scheduler_fires [simp]: "qok H q \<Longrightarrow> qok H (fst (scheduler_fires z now q))"
  by (simp add: scheduler_fires_def)

lemma qok_schedulerJobFinished [simp]: "qok H q \<Longrightarrow> qok H (fst (onSchedulerJobFinished z r now q))"
  by (auto simp: onSchedulerJobFinished_def split: option.splits sum.splits)

lemma qok_budgets [simp]:
  "qok H q \<Longrightarrow> qok H (setBudget k l q)" "qok H q \<Longrightarrow> qok H (fst (updateFlowBudget k c q))"
  "qok H q \<Longrightarrow> qok H (fst (charge_usage k u q))"
  by (auto simp: setBudget_def updateFlowBudget_def charge_usage_def recordBudgetUsage_def Let_def split: option.split)

end
