(* ===== verification/Tq_Inv_World.thy ===== *)
theory Tq_Inv_World
  imports Tq_Inv_Ops
begin

text \<open>
  The invariant of a registry of queues: every queue is well formed and strands no job, and every
  operation across queues keeps it so. \<open>H n\<close> are the records of queue \<open>n\<close> that batch workers hold.
\<close>

definition world_ok :: "(string \<Rightarrow> nat set) \<Rightarrow> world \<Rightarrow> bool" where
  "world_ok H w \<longleftrightarrow> (\<forall>n q. jm_get w n = Some q \<longrightarrow> qok (H n) q)"

lemma world_okD: "world_ok H w \<Longrightarrow> jm_get w n = Some q \<Longrightarrow> qok (H n) q"
  by (simp add: world_ok_def)

lemma world_ok_put: "world_ok H w \<Longrightarrow> qok (H n) q \<Longrightarrow> world_ok H (jm_set n q w)"
  by (auto simp: world_ok_def js_map_simps split: if_splits simp del: map_of_eq_Some_iff)

lemma world_ok_with_queue:
  assumes "world_ok H w" and "\<And>q. jm_get w n = Some q \<Longrightarrow> qok (H n) q \<Longrightarrow> qok (H n) (f q)"
  shows "world_ok H (with_queue n f w)"
  using assms(1) assms(2) world_okD [OF assms(1)]
  by (auto simp: with_queue_def intro!: world_ok_put split: option.split)

lemma world_ok_run_on:
  assumes "run_on n f w = (w', res)" and "world_ok H w"
    and "\<And>q. jm_get w n = Some q \<Longrightarrow> qok (H n) q \<Longrightarrow> qok (H n) (fst (f q))"
  shows "world_ok H w'"
proof (cases "jm_get w n")
  case None
  then show ?thesis using assms(1,2) by (simp add: run_on_def)
next
  case (Some q)
  then have "w' = jm_set n (fst (f q)) w" using assms(1) by (auto simp: run_on_def split: prod.splits)
  with Some assms(2,3) world_okD [OF assms(2) Some] show ?thesis by (simp add: world_ok_put)
qed

lemma world_ok_fold: "(\<And>x w. world_ok H w \<Longrightarrow> world_ok H (f x w)) \<Longrightarrow> world_ok H w \<Longrightarrow> world_ok H (fold f xs w)"
  by (induction xs arbitrary: w) auto

section \<open>Parents\<close>

lemma qok_registerDependency [simp]: "qok H (registerDependency p cq c q) = qok H q"
  by (simp add: registerDependency_def qok_upd split: option.split)

lemma lookup_registerDependency [simp]: "lookup (registerDependency p cq c q) i = lookup q i"
  by (simp add: registerDependency_def split: option.split)

lemma world_ok_link: "world_ok H w \<Longrightarrow> world_ok H (fst (linkToParents qn i ps w))"
  unfolding linkToParents_def fst_conv by (rule world_ok_fold) (auto intro: world_ok_with_queue)

text \<open>Linking leaves the jobs of every queue where they are.\<close>

definition same_lookups :: "world \<Rightarrow> world \<Rightarrow> bool" where
  "same_lookups w w' \<longleftrightarrow>
     (\<forall>n q'. jm_get w' n = Some q' \<longrightarrow> (\<exists>q. jm_get w n = Some q \<and> (\<forall>i. lookup q' i = lookup q i)))"

lemma same_lookups_link: "same_lookups w (fst (linkToParents qn i ps w))"
proof -
  have step: "same_lookups w (with_queue n (registerDependency p cq c) w')" if "same_lookups w w'" for n p cq c w'
    using that by (fastforce simp: same_lookups_def with_queue_def js_map_simps split: option.splits if_splits
        simp del: map_of_eq_Some_iff)
  have "same_lookups w (fold (\<lambda>p. with_queue (pr_queue p) (registerDependency (pr_id p) qn i)) ps w')"
    if "same_lookups w w'" for w'
    using that by (induction ps arbitrary: w') (auto intro: step)
  then show ?thesis by (auto simp: linkToParents_def same_lookups_def)
qed

lemma plain_parent_links [simp]: "plain_init (parent_links ps)"
  by (auto simp: plain_init_def parent_links_def Let_def split: list.split)

lemma plain_flow_init [simp]: "plain_init links \<Longrightarrow> plain_init (flow_job_init fl links)"
  by (auto simp: plain_init_def flow_job_init_def Let_def)

lemma qok_settle_parent [simp]:
  assumes "qok H q"
  shows "qok H (settle_parent qn i p q)"
proof (cases "lookup q p")
  case None
  then show ?thesis using assms by (simp add: settle_parent_def)
next
  case (Some r)
  have u: "qok H (upd r (mark_done qn i) q)" using assms by (simp add: qok_upd mark_done_def)
  moreover have "current (upd r (mark_done qn i) q) r"
    using lookup_current [OF assms Some] by (simp add: mark_done_def)
  ultimately show ?thesis using Some by (simp add: settle_parent_def Let_def qok_moves)
qed

lemma world_ok_settleParents [simp]: "world_ok H w \<Longrightarrow> world_ok H (settleParents qn r w)"
  by (auto simp: settleParents_def intro!: world_ok_fold world_ok_with_queue split: option.split)

lemma qok_parkWaitingChildren: "qok H q \<Longrightarrow> current q r \<Longrightarrow> qok H (parkWaitingChildren r q)"
proof -
  assume q: "qok H q" and c: "current q r"
  have "qok H (set_state r WaitingChildren q)"
    unfolding set_state_def by (rule qok_rest' [OF q]) (simp add: resting_def)
  with q c show ?thesis by (simp add: parkWaitingChildren_def qok_moves)
qed

section \<open>Adding\<close>

lemma qok_prepare_add:
  assumes "prepare_add data o' now q = (q', res)" and "qok H q"
  shows "qok H q'" and "res = Inr (Some (s, i)) \<Longrightarrow> lookup q' i = None"
  using prepare_add_inv [OF assms(1)] assms(2) by (simp_all add: qok_def)

lemma run_on_queue:
  assumes "run_on n f w = (w', Inr x)"
  obtains q where "jm_get w n = Some q" "f q = (fst (f q), Inr x)" "jm_get w' n = Some (fst (f q))"
  using assms by (cases "jm_get w n") (auto simp: run_on_def js_map_simps split: prod.splits simp del: map_of_eq_Some_iff)

lemma world_ok_insert:
  assumes "run_on n f w = (w', res)" and "world_ok H w" and "same_lookups w0 w"
    and "\<And>q. jm_get w0 n = Some q \<Longrightarrow> lookup q i = None"
    and "\<And>q. qok (H n) q \<Longrightarrow> lookup q i = None \<Longrightarrow> qok (H n) (fst (f q))"
  shows "world_ok H w'"
proof (rule world_ok_run_on [OF assms(1,2)])
  fix q
  assume q: "jm_get w n = Some q" "qok (H n) q"
  then obtain q0 where "jm_get w0 n = Some q0" "lookup q i = lookup q0 i"
    using assms(3) unfolding same_lookups_def by blast
  with assms(4,5) q(2) show "qok (H n) (fst (f q))" by simp
qed

lemma qok_finish_add:
  assumes "qok H q" and "lookup q (snd si) = None" and "plain_init links"
  shows "qok H (fst (finish_add name o' now links si q))"
proof -
  obtain q' res where r: "finish_add name o' now links si q = (q', res)" by fastforce
  with qok_insertRecord [OF r [unfolded finish_add_def] assms] show ?thesis by simp
qed

lemma world_ok_add:
  assumes "add qn name data o' now w = (w', res)" and "world_ok H w"
  shows "world_ok H w'"
proof -
  obtain w1 p where p: "run_on qn (\<lambda>q. prepare_add data (q_opts q o') now q) w = (w1, p)" by fastforce
  have ok1: "world_ok H w1"
  proof (rule world_ok_run_on [OF p assms(2)])
    fix q assume "qok (H qn) q"
    then show "qok (H qn) (fst (prepare_add data (q_opts q o') now q))"
      using qok_prepare_add(1) [of data "q_opts q o'" now q] by (cases "prepare_add data (q_opts q o') now q") auto
  qed
  show ?thesis
  proof (cases "\<exists>s i. p = Inr (Some (s, i))")
    case True
    then obtain s i where si: "p = Inr (Some (s, i))" by blast
    from p [unfolded si] obtain q where q: "jm_get w qn = Some q"
      "prepare_add data (q_opts q o') now q = (fst (prepare_add data (q_opts q o') now q), Inr (Some (s, i)))"
      "jm_get w1 qn = Some (fst (prepare_add data (q_opts q o') now q))"
      by (rule run_on_queue)
    then have fresh: "lookup q1 i = None" if "jm_get w1 qn = Some q1" for q1
      using that qok_prepare_add(2) [OF q(2) world_okD [OF assms(2) q(1)] refl] by simp
    let ?ps = "case jm_get w1 qn of None \<Rightarrow> [] | Some q \<Rightarrow> (case parent (q_opts q o') of None \<Rightarrow> [] | Some p \<Rightarrow> [p])"
    let ?l = "linkToParents qn i ?ps w1"
    obtain w3 r where f: "run_on qn (finish_add name o' now (snd ?l) (s, i)) (fst ?l) = (w3, r)" by fastforce
    have "world_ok H w3"
    proof (rule world_ok_insert [OF f world_ok_link [OF ok1] same_lookups_link fresh])
      fix q assume "qok (H qn) q" "lookup q i = None"
      then show "qok (H qn) (fst (finish_add name o' now (snd ?l) (s, i) q))"
        by (intro qok_finish_add) (simp_all add: linkToParents_def)
    qed
    moreover have "w' = w3"
      using assms(1) p si f by (auto simp: add_def split: prod.splits)
    ultimately show ?thesis by simp
  next
    case False
    then have "w' = w1" using assms(1) p by (auto simp: add_def split: sum.splits option.splits)
    with ok1 show ?thesis by simp
  qed
qed

lemma world_ok_addBulk: "addBulk qn es now w = (w', res) \<Longrightarrow> world_ok H w \<Longrightarrow> world_ok H w'"
proof (induction qn es now w arbitrary: w' res rule: addBulk.induct)
  case (2 qn name data o' es now w)
  then show ?case
    by (auto split: prod.splits sum.splits dest: world_ok_add)
qed simp

section \<open>Flow jobs and dead letters\<close>

lemma qok_flow_job_id:
  assumes "flow_job_id o' fl q = (q', res)" and "qok H q"
    and "customJobId o' \<noteq> [] \<Longrightarrow> lookup q (customJobId o') = None"
  shows "qok H q'" and "res = Inr i \<Longrightarrow> lookup q' i = None"
  using assms qok_generateJobId generateJobId_lookup
  by (auto simp: flow_job_id_def split: if_splits)

lemma qok_insert_flow_job:
  assumes "qok H q" and "lookup q i = None" and "plain_init links"
  shows "qok H (fst (insert_flow_job name data o' fl i now links q))"
proof -
  obtain q' res where r: "insert_flow_job name data o' fl i now links q = (q', res)" by fastforce
  then show ?thesis
    using assms(1) qok_insertRecord [OF _ assms(1,2) plain_flow_init [OF assms(3)]]
    by (auto simp: insert_flow_job_def split: option.splits)
qed

lemma world_ok_addFlowJob:
  assumes "addFlowJob qn name data o' fl now w = (w', res)" and "world_ok H w"
    and "\<And>q. jm_get w qn = Some q \<Longrightarrow> customJobId (q_opts q o') \<noteq> [] \<Longrightarrow> lookup q (customJobId (q_opts q o')) = None"
  shows "world_ok H w'"
proof -
  obtain w1 p where p: "run_on qn (\<lambda>q. flow_job_id (q_opts q o') fl q) w = (w1, p)" by fastforce
  have ok1: "world_ok H w1"
  proof (rule world_ok_run_on [OF p assms(2)])
    fix q assume q: "jm_get w qn = Some q" "qok (H qn) q"
    then show "qok (H qn) (fst (flow_job_id (q_opts q o') fl q))"
      using qok_flow_job_id(1) [of "q_opts q o'" fl q _ _ "H qn"] assms(3) [OF q(1)] by (metis prod.collapse)
  qed
  show ?thesis
  proof (cases p)
    case (Inl e)
    then show ?thesis using assms(1) p ok1 by (simp add: addFlowJob_def)
  next
    case (Inr i)
    from p [unfolded Inr] obtain q where q: "jm_get w qn = Some q"
      "flow_job_id (q_opts q o') fl q = (fst (flow_job_id (q_opts q o') fl q), Inr i)"
      "jm_get w1 qn = Some (fst (flow_job_id (q_opts q o') fl q))"
      by (rule run_on_queue)
    then have fresh: "lookup q1 i = None" if "jm_get w1 qn = Some q1" for q1
      using that qok_flow_job_id(2) [OF q(2) world_okD [OF assms(2) q(1)] assms(3) [OF q(1)] refl] by simp
    let ?l = "linkToParents qn i (fi_parents fl) w1"
    have f: "run_on qn (insert_flow_job name data o' fl i now (snd ?l)) (fst ?l) = (w', res)"
      using assms(1) p Inr by (auto simp: addFlowJob_def split: prod.splits)
    show ?thesis
    proof (rule world_ok_insert [OF f world_ok_link [OF ok1] same_lookups_link fresh])
      fix q assume "qok (H qn) q" "lookup q i = None"
      then show "qok (H qn) (fst (insert_flow_job name data o' fl i now (snd ?l) q))"
        by (intro qok_insert_flow_job) (simp_all add: linkToParents_def)
    qed
  qed
qed

lemma world_ok_attachParent [simp]: "world_ok H w \<Longrightarrow> world_ok H (attachParent qn r p w)"
  by (auto simp: attachParent_def qok_upd intro!: world_ok_with_queue split: option.split)

lemma qok_new_TestQueue [simp]: "qok H (new_TestQueue n d s dlq)"
  by (simp add: qok_def tq_wf_def dispatchable_def new_TestQueue_def lookup_def)

lemma world_ok_ensure [simp]: "world_ok H w \<Longrightarrow> world_ok H (ensure_queue json n w)"
  by (auto simp: ensure_queue_def intro: world_ok_put split: option.split)

lemma qok_insert_dead_letter:
  assumes "qok H q"
  shows "qok H (fst (insert_dead_letter json name d now q))"
proof (cases "serialize json (envelope d)")
  case None
  then show ?thesis using assms by (simp add: insert_dead_letter_def)
next
  case (Some s)
  obtain q1 o' where a: "alloc_opts default_opts q = (q1, o')" by fastforce
  obtain q2 g where g: "generateJobId [] q1 = (q2, g)" by fastforce
  have q2: "qok H q2" using qok_generateJobId [OF g] qok_alloc [OF a assms] .
  show ?thesis
  proof (cases g)
    case (Inl x)
    then show ?thesis using Some a g q2 by (simp add: insert_dead_letter_def)
  next
    case (Inr i)
    obtain q3 res where r: "insertRecord name s o' i now 0 json id q2 = (q3, res)" by fastforce
    have "qok H q3" using qok_insertRecord [OF r q2] g Inr generateJobId_lookup by simp
    with Some a g Inr r show ?thesis by (simp add: insert_dead_letter_def)
  qed
qed

lemma world_ok_addDeadLetter:
  assumes "addDeadLetter json dn name d now w = (w', res)" and "world_ok H w"
  shows "world_ok H w'"
  using world_ok_run_on [OF assms(1) [unfolded addDeadLetter_def]] assms(2) qok_insert_dead_letter by simp

lemma world_ok_removeDeadLetterJob:
  "world_ok H w \<Longrightarrow> world_ok H (fst (removeDeadLetterJob qn i w))"
  by (auto simp: removeDeadLetterJob_def intro!: world_ok_with_queue split: option.split prod.split)

lemma world_ok_replay:
  assumes "replayDeadLetterJob qn i now w = (w', res)" and "world_ok H w"
  shows "world_ok H w'"
proof -
  have alloc: "world_ok H w1"
    if "run_on qn (\<lambda>q. case alloc_opts x q of (q', o') \<Rightarrow> (q', Inr o')) w = (w1, r)" for x w1 and r :: "tq_error + nat"
    by (rule world_ok_run_on [OF that assms(2)]) (auto split: prod.split dest: qok_alloc)
  show ?thesis
    using assms
    by (auto simp: replayDeadLetterJob_def split: option.splits prod.splits sum.splits
        dest!: alloc world_ok_add intro: world_ok_removeDeadLetterJob)
qed

end
