(* ===== verification/Tq_Inv_Worker.thy ===== *)
theory Tq_Inv_Worker
  imports Tq_Run Tq_Inv_World
begin

text \<open>
  The invariant under the steps of a \<open>TestWorker\<close>: whatever a job does, the queues stay well formed
  and no job is stranded. \<open>G\<close> are the records held by the other batch workers.
\<close>

definition held :: "(string \<Rightarrow> nat set) \<Rightarrow> worker \<Rightarrow> string \<Rightarrow> nat set" where
  "held G k n = G n \<union> (if n = wk_queue k then set (wk_pending k) else {})"

definition sys_ok :: "(string \<Rightarrow> nat set) \<Rightarrow> sys \<Rightarrow> bool" where
  "sys_ok G st \<longleftrightarrow> world_ok (held G (snd st)) (fst st)"

lemma on_q_worker [simp]: "snd (on_q f st) = snd st"
  by (simp add: on_q_def)

lemma on_k_world [simp]: "fst (on_k f st) = fst st" "snd (on_k f st) = f (snd st)"
  by (simp_all add: on_k_def)

lemma world_ok_mono: "world_ok H w \<Longrightarrow> (\<And>n. H n \<subseteq> H' n) \<Longrightarrow> world_ok H' w"
  unfolding world_ok_def using qok_mono by blast

lemma own_eq: "jm_get (fst st) (wk_queue (snd st)) = Some q \<Longrightarrow> own st = q"
  by (simp add: own_def)

lemma isCurrent_queue: "isCurrent st r \<Longrightarrow> \<exists>q. jm_get (fst st) (wk_queue (snd st)) = Some q \<and> current q r"
  by (cases "jm_get (fst st) (wk_queue (snd st))")
     (auto simp: isCurrent_def own_def no_queue_def new_TestQueue_def current_def lookup_def)

lemma sys_ok_on_q:
  assumes "sys_ok G st"
    and "\<And>q. own st = q \<Longrightarrow> qok (held G (snd st) (wk_queue (snd st))) q \<Longrightarrow>
           qok (held G (snd st) (wk_queue (snd st))) (f q)"
  shows "sys_ok G (on_q f st)"
  using assms unfolding sys_ok_def on_q_def fst_conv snd_conv
  by (intro world_ok_with_queue) (simp_all add: own_eq)

lemma sys_ok_on_k [simp]:
  assumes "\<And>k. wk_queue (f k) = wk_queue k \<and> wk_pending (f k) = wk_pending k"
  shows "sys_ok G (on_k f st) = sys_ok G st"
proof -
  have "held G (f k) = held G k" for k using assms by (simp add: held_def fun_eq_iff)
  then show ?thesis by (simp add: sys_ok_def)
qed

lemma sys_ok_emit [simp]: "sys_ok G (wk_emit e st) = sys_ok G st"
  by (simp add: wk_emit_def)

lemma sys_ok_simple: "sys_ok G st \<Longrightarrow> (\<And>H q. qok H q \<Longrightarrow> qok H (f q)) \<Longrightarrow> sys_ok G (on_q f st)"
  by (rule sys_ok_on_q)

lemma sys_ok_current:
  "sys_ok G st \<Longrightarrow> isCurrent st r \<Longrightarrow> (\<And>H q. qok H q \<Longrightarrow> current q r \<Longrightarrow> qok H (f q)) \<Longrightarrow> sys_ok G (on_q f st)"
  by (rule sys_ok_on_q) (auto simp: isCurrent_def)

lemma sys_ok_world: "sys_ok G st \<Longrightarrow> (\<And>H. world_ok H (fst st) \<Longrightarrow> world_ok H w') \<Longrightarrow> sys_ok G (w', snd st)"
  by (simp add: sys_ok_def)

section \<open>What the steps leave in place\<close>

lemma own_on_q:
  "own (on_q f st) = (if jm_get (fst st) (wk_queue (snd st)) = None then own st else f (own st))"
  by (auto simp: own_def on_q_def with_queue_def js_map_simps split: option.split)

lemma own_on_k [simp]: "(\<And>k. wk_queue (f k) = wk_queue k) \<Longrightarrow> own (on_k f st) = own st"
  by (simp add: own_def)

lemma own_emit [simp]: "own (wk_emit e st) = own st"
  by (simp add: wk_emit_def)

lemma isCurrent_simps [simp]:
  "isCurrent (wk_emit e st) r = isCurrent st r"
  "(\<And>k. wk_queue (f k) = wk_queue k) \<Longrightarrow> isCurrent (on_k f st) r = isCurrent st r"
  by (simp_all add: isCurrent_def)

lemma isCurrent_on_q: "(\<And>q. current (f q) r = current q r) \<Longrightarrow> isCurrent (on_q f st) r = isCurrent st r"
  by (simp add: isCurrent_def own_on_q)

section \<open>Failure and completion\<close>

lemma current_jobs: "(\<And>j. j_id (f j) = j_id j) \<Longrightarrow> current (upd r f q) x = current q x"
  by (rule current_upd)

lemma sys_ok_moveToDeadLetter [simp]:
  assumes "sys_ok G st"
  shows "sys_ok G (moveToDeadLetter en r h e now st)"
proof -
  have "sys_ok G (w', snd st)" if "addDeadLetter js dn nm d now (fst st) = (w', x)" for js dn nm d w' x
    using assms world_ok_addDeadLetter [OF that] by (auto intro: sys_ok_world)
  then show ?thesis
    using assms by (auto simp: moveToDeadLetter_def Let_def split: option.splits prod.splits sum.splits)
qed

lemma qok_park_updates:
  assumes "qok H q" and "current q r"
  shows "qok H (fail_rate_limited r e d now q)" and "qok H (park_retry r d now q)"
  unfolding fail_rate_limited_def park_retry_def qok_fields
  by (rule qok_moves; use assms in \<open>simp add: qok_upd\<close>)+

lemma qok_finish_failed [simp]: "qok H q \<Longrightarrow> qok H (finish_failed r now q)"
  unfolding finish_failed_def Let_def qok_recordMetric
  by (intro qok_applyRetention qok_rest') (simp_all add: resting_def)

lemma sys_ok_fail_terminally [simp]: "sys_ok G st \<Longrightarrow> sys_ok G (fail_terminally en r h e now st)"
  unfolding fail_terminally_def scheduler_finished_def
  by (rule sys_ok_simple, rule sys_ok_simple) (simp_all add: sys_ok_simple)

lemma current_count_attempt [simp]: "current (count_attempt r e q) x = current q x"
  by (simp add: count_attempt_def)

lemma qok_count_attempt [simp]: "qok H (count_attempt r e q) = qok H q"
  by (simp add: count_attempt_def qok_upd)

lemma sys_ok_handleFailure [simp]:
  assumes "sys_ok G st"
  shows "sys_ok G (handleFailure en r h e now st)"
proof (cases "isRateLimitError e")
  case True
  let ?st1 = "on_k (\<lambda>k. k\<lparr>wk_rateLimitUntil := of_int now + failure_delay e (snd st)\<rparr>) st"
  have s1: "sys_ok G ?st1" using assms by simp
  have "sys_ok G (on_q (fail_rate_limited r e d now) ?st1)" if "isCurrent ?st1 r" for d
    by (rule sys_ok_current [OF s1 that]) (rule qok_park_updates)
  then show ?thesis using True s1 by (simp add: handleFailure_def Let_def)
next
  case False
  let ?st2 = "on_q (count_attempt r e) st"
  have s2: "sys_ok G ?st2" by (rule sys_ok_simple [OF assms]) simp
  have c2: "isCurrent ?st2 r = isCurrent st r" by (rule isCurrent_on_q) simp
  have pr: "sys_ok G (on_q (park_retry r d now) ?st2)" if "isCurrent st r" for d
    by (rule sys_ok_current [OF s2]) (use that c2 in \<open>auto intro: qok_park_updates\<close>)
  have em: "sys_ok G (on_q (emit ev) (wk_emit e' st'))" if "sys_ok G st'" for ev e' st'
    by (rule sys_ok_simple) (use that in simp_all)
  show ?thesis using False assms s2 pr em by (simp add: handleFailure_def Let_def)
qed

lemma sys_ok_charge [simp]:
  assumes "sys_ok G st"
  shows "sys_ok G (chargeCompletedUsage r h now st)"
proof -
  have tpm: "wk_queue (incrementLocalTpm x now k) = wk_queue k \<and> wk_pending (incrementLocalTpm x now k) = wk_pending k" for x k
    by (auto simp: incrementLocalTpm_def refresh_window_def Let_def split: option.split)
  define u where "u x = on_k (incrementLocalTpm x now) st" for x
  have s: "sys_ok G (u x)" for x using assms by (simp add: u_def tpm)
  have "sys_ok G (on_q (\<lambda>_. q') (u x))" if "charge_usage key v (own (u x)) = (q', b)" for key v q' b x
    by (rule sys_ok_on_q [OF s]) (use that qok_budgets(3) in \<open>metis fst_conv\<close>)
  then show ?thesis
    using s unfolding chargeCompletedUsage_def Let_def u_def [symmetric]
    by (auto split: option.splits prod.splits budget_status.splits)
qed

lemma sys_ok_complete_job [simp]:
  assumes "sys_ok G st"
  shows "sys_ok G (complete_job en r h v now st)"
proof -
  let ?st1 = "on_q (mark_completed r v now) st"
  let ?st2 = "(settleParents (wk_queue (snd ?st1)) r (fst ?st1), snd ?st1)"
  have "sys_ok G ?st1"
    unfolding mark_completed_def by (rule sys_ok_simple [OF assms]) (rule qok_rest', simp_all add: resting_def)
  then have "sys_ok G ?st2" by (rule sys_ok_world) simp
  then have "sys_ok G (on_q (record_completed r now) ?st2)"
    by (rule sys_ok_simple) (simp add: record_completed_def Let_def)
  then show ?thesis
    unfolding complete_job_def Let_def scheduler_finished_def
    by (intro sys_ok_simple) simp_all
qed

lemma sys_ok_gone [simp]: "sys_ok G st \<Longrightarrow> sys_ok G (settleGoneCompletion r h v now st)"
  by (simp add: settleGoneCompletion_def)

lemma sys_ok_take_moved [simp]: "sys_ok G st \<Longrightarrow> sys_ok G (fst (take_movedToFailed r st))"
  unfolding take_movedToFailed_def fst_conv by (rule sys_ok_simple) (simp_all add: qok_upd)

lemma sys_ok_park_for_children [simp]:
  assumes "sys_ok G st"
  shows "sys_ok G (park_for_children r st)"
proof -
  let ?st1 = "on_q (upd r (\<lambda>j. j\<lparr>j_movedToWaitingChildren := False\<rparr>)) st"
  have "sys_ok G ?st1" by (rule sys_ok_simple [OF assms]) (simp add: qok_upd)
  moreover have "isCurrent ?st1 r = isCurrent st r" by (rule isCurrent_on_q) simp
  ultimately have "sys_ok G (on_q (parkWaitingChildren r) ?st1)" if "isCurrent st r"
    using that by (metis sys_ok_current qok_parkWaitingChildren)
  then show ?thesis using assms by (simp add: park_for_children_def)
qed

lemma sys_ok_settle_resolved [simp]:
  assumes "sys_ok G st"
  shows "sys_ok G (settle_resolved en r h v now st)"
proof -
  obtain st' m where t: "take_movedToFailed r st = (st', m)" by fastforce
  have "sys_ok G st'" using sys_ok_take_moved [OF assms, of r] t by simp
  with t assms show ?thesis by (simp add: settle_resolved_def split: option.split sum.split)
qed

lemma sys_ok_settle_rejected [simp]:
  assumes "sys_ok G st"
  shows "sys_ok G (settle_rejected en r h e now st)"
proof -
  have a: "sys_ok G (on_q (\<lambda>q. emit (ev q) (scheduleSuspendedTimeout r now q)) st)" for ev
    by (rule sys_ok_simple [OF assms]) simp
  have b: "sys_ok G (on_q (parkActiveDelayed r d now) st)" if "isCurrent st r" for d
    by (rule sys_ok_current [OF assms that]) (rule qok_moves)
  obtain st' m where t: "take_movedToFailed r st = (st', m)" by fastforce
  have "sys_ok G st'" using sys_ok_take_moved [OF assms, of r] t by simp
  with t assms a b show ?thesis by (simp add: settle_rejected_def split: option.split js_error.split)
qed

lemma sys_ok_settle [simp]: "sys_ok G st \<Longrightarrow> sys_ok G (settle en r h out now st)"
  by (cases out) (simp_all add: settle_def)

end
