(* ===== verification/Tq_Inv_Run.thy ===== *)
theory Tq_Inv_Run
  imports Tq_Inv_Worker
begin

text \<open>
  The invariant under the loops of a \<open>TestWorker\<close>, and the termination of \<open>processAvailable\<close>.
\<close>

section \<open>Claiming a job\<close>

definition add_held :: "string \<Rightarrow> nat \<Rightarrow> (string \<Rightarrow> nat set) \<Rightarrow> string \<Rightarrow> nat set" where
  "add_held n r G = G(n := insert r (G n))"

lemma acquireRateSlot_frame:
  "acquireRateSlot now k = (k', w) \<Longrightarrow> wk_queue k' = wk_queue k \<and> wk_pending k' = wk_pending k \<and>
     wk_active k' = wk_active k \<and> wk_concurrency k' = wk_concurrency k \<and> wk_running k' = wk_running k \<and>
     wk_dlq k' = wk_dlq k"
  by (auto simp: acquireRateSlot_def Let_def split: option.splits if_splits prod.splits)

lemma wakeAfterRateLimit_frame [simp]:
  "wk_queue (wakeAfterRateLimit ms now k) = wk_queue k" "wk_pending (wakeAfterRateLimit ms now k) = wk_pending k"
  "wk_active (wakeAfterRateLimit ms now k) = wk_active k"
  "wk_concurrency (wakeAfterRateLimit ms now k) = wk_concurrency k"
  "wk_running (wakeAfterRateLimit ms now k) = wk_running k" "wk_dlq (wakeAfterRateLimit ms now k) = wk_dlq k"
  by (simp_all add: wakeAfterRateLimit_def)

lemma hasWaiting_pair: "hasWaiting q = (q1, b) \<Longrightarrow> qok H q \<Longrightarrow> qok H q1"
  using qok_hasWaiting [of H q] by simp

lemma hasWaiting_no_queue: "snd (hasWaiting no_queue) = False"
  by (simp add: hasWaiting_def nextWaitingIndex_def Let_def no_queue_def new_TestQueue_def
      promotePrioritized_def compact_waiting_def best_entry_def)

text \<open>
  \<open>findNextWaiting\<close> changes the queue and the rate counters only; a job it returns is current,
  waiting and no longer in the queue.
\<close>

lemma findNextWaiting_cases:
  assumes "findNextWaiting now st = (st1, res)" and "sys_ok G st"
  obtains (none) "res = None" "sys_ok G st1" "wk_pending (snd st1) = wk_pending (snd st)"
      "wk_queue (snd st1) = wk_queue (snd st)"
    | (some) r where "res = Some r" "sys_ok (add_held (wk_queue (snd st)) r G) st1"
        "wk_pending (snd st1) = wk_pending (snd st)" "wk_queue (snd st1) = wk_queue (snd st)"
        "isCurrent st1 r"
proof -
  obtain q1 b where hw: "hasWaiting (own st) = (q1, b)" by fastforce
  obtain k w where ar: "acquireRateSlot now (snd st) = (k, w)" by fastforce
  obtain q2 tr where tk: "takeNextWaiting q1 = (q2, tr)" by fastforce
  note fr = acquireRateSlot_frame [OF ar]
  have ok1: "qok H q1" if "qok H (own st)" for H using hasWaiting_pair [OF hw that] .
  have s1: "sys_ok G (on_q (\<lambda>_. q1) st)"
    by (rule sys_ok_on_q [OF assms(2)]) (use ok1 in blast)
  have heq: "held G (f k) = held G (snd st)"
    if "wk_queue (f k) = wk_queue k \<and> wk_pending (f k) = wk_pending k" for f
    using that fr by (simp add: held_def fun_eq_iff)
  show ?thesis
  proof (cases "b \<and> \<not> w > 0 \<and> tr \<noteq> None")
    case True
    then obtain r where r: "tr = Some r" by blast
    have st1: "st1 = on_k (\<lambda>_. k) (on_q (\<lambda>_. q2) st)" and res: "res = Some r"
      using assms(1) hw ar tk True r by (auto simp: findNextWaiting_def)
    let ?G = "add_held (wk_queue (snd st)) r G"
    have hold: "held ?G k n = (if n = wk_queue (snd st) then insert r (held G (snd st) n) else held G (snd st) n)" for n
      using fr by (auto simp: held_def add_held_def)
    have "world_ok (held ?G k) (fst st1)"
      unfolding st1 on_k_world on_q_def fst_conv
    proof (rule world_ok_with_queue)
      have "world_ok (held G (snd st)) (fst st)" using assms(2) by (simp add: sys_ok_def)
      then show w: "world_ok (held ?G k) (fst st)" by (rule world_ok_mono) (auto simp: hold)
      fix q assume q: "jm_get (fst st) (wk_queue (snd st)) = Some q"
      have "qok (held G (snd st) (wk_queue (snd st))) (own st)"
        using assms(2) q own_eq [OF q] by (auto simp: sys_ok_def dest: world_okD)
      from qok_take [OF tk ok1 [OF this]] show "qok (held ?G k (wk_queue (snd st))) q2"
        by (simp add: r hold)
    qed
    then have ok: "sys_ok ?G st1" by (simp add: sys_ok_def st1)
    obtain q where q: "jm_get (fst st) (wk_queue (snd st)) = Some q"
      using hasWaiting_no_queue hw True by (cases "jm_get (fst st) (wk_queue (snd st))") (auto simp: own_def)
    then have "own st1 = q2"
      using fr by (simp add: st1 own_def on_q_def with_queue_def js_map_simps del: map_of_eq_Some_iff)
    moreover have "qok (held G (snd st) (wk_queue (snd st))) (own st)"
      using assms(2) q own_eq [OF q] by (auto simp: sys_ok_def dest: world_okD)
    then have "current q2 r"
      using takeNextWaiting_Some(1) [of q1 q2 r] tk r ok1 by (auto simp: qok_def)
    ultimately have "isCurrent st1 r" by (simp add: isCurrent_def)
    then show ?thesis using fr ok by (intro some [of r]) (simp_all add: res st1)
  next
    case False
    have q2: "sys_ok G (on_q (\<lambda>_. q2) st)" if "tr = None"
      by (rule sys_ok_on_q [OF assms(2)]) (use ok1 qok_take [OF tk] that in \<open>auto split: option.splits\<close>)
    show ?thesis
    proof (rule none)
      show "res = None" "wk_pending (snd st1) = wk_pending (snd st)" "wk_queue (snd st1) = wk_queue (snd st)"
        using assms(1) hw ar tk False fr by (auto simp: findNextWaiting_def split: bool.splits if_splits)
      show "sys_ok G st1"
        using assms(1) hw ar tk False fr s1 q2 heq [of id] heq [of "wakeAfterRateLimit w now"]
        by (auto simp: findNextWaiting_def sys_ok_def split: bool.splits if_splits)
    qed
  qed
qed

lemma qok_mark_active: "qok H q \<Longrightarrow> qok (H - {r}) (mark_active now r q)"
  unfolding mark_active_def by (rule qok_rest) (simp_all add: resting_def)

lemma sys_ok_activate:
  assumes "sys_ok (add_held (wk_queue (snd st)) r G) st"
  shows "sys_ok G (activate now r st)"
proof -
  have "world_ok (held G (snd st)) (with_queue (wk_queue (snd st)) (mark_active now r) (fst st))"
    unfolding world_ok_def
  proof (intro allI impI)
    fix n q assume q: "jm_get (with_queue (wk_queue (snd st)) (mark_active now r) (fst st)) n = Some q"
    have w: "world_ok (held (add_held (wk_queue (snd st)) r G) (snd st)) (fst st)" using assms by (simp add: sys_ok_def)
    show "qok (held G (snd st) n) q"
    proof (cases "n = wk_queue (snd st)")
      case True
      then obtain q0 where q0: "jm_get (fst st) n = Some q0" "q = mark_active now r q0"
        using q by (auto simp: with_queue_def js_map_simps split: option.splits simp del: map_of_eq_Some_iff)
      have "qok (held (add_held n r G) (snd st) n - {r}) q"
        using world_okD [OF w q0(1)] qok_mark_active True q0(2) by simp
      then show ?thesis by (rule qok_mono) (auto simp: held_def add_held_def)
    next
      case False
      then have "jm_get (fst st) n = Some q"
        using q by (auto simp: with_queue_def js_map_simps split: option.splits simp del: map_of_eq_Some_iff)
      from world_okD [OF w this] False show ?thesis by (simp add: held_def add_held_def)
    qed
  qed
  then have "sys_ok G (on_q (mark_active now r) st)" by (simp add: sys_ok_def on_q_def)
  then show ?thesis by (simp add: activate_def)
qed

section \<open>Starting a job\<close>

lemma sys_ok_expire [simp]: "sys_ok G st \<Longrightarrow> sys_ok G (expire r h now st)"
  unfolding expire_def by (intro sys_ok_simple) (simp_all add: sys_ok_simple)

lemma sys_ok_over_budget:
  assumes "sys_ok G st" and "isCurrent st r"
  shows "sys_ok G (over_budget en r h now st)"
proof -
  have "sys_ok G (on_q (parkActiveDelayed r d now) (wk_emit e st))" for d e
    by (rule sys_ok_current [where r = r]) (use assms qok_moves in auto)
  then show ?thesis using assms(1) by (simp add: over_budget_def Let_def)
qed

lemma sys_ok_begin_job:
  assumes "sys_ok G st" and "isCurrent st r"
  shows "sys_ok G (fst (begin_job en r h now st))"
  using assms sys_ok_over_budget by (simp add: begin_job_def)

lemma sys_ok_job_done [simp]: "sys_ok G (job_done n st) = sys_ok G st"
  by (simp add: job_done_def)

lemma sys_ok_check_drained [simp]: "sys_ok G (check_drained st) = sys_ok G st"
  by (simp add: check_drained_def)

lemma isCurrent_activate [simp]: "isCurrent (activate now r st) x = isCurrent st x"
  by (simp add: activate_def isCurrent_on_q mark_active_def)

lemma sys_ok_promote [simp]: "sys_ok G st \<Longrightarrow> sys_ok G (on_q promotePrioritized st)"
  by (rule sys_ok_simple) simp_all

section \<open>Batches\<close>

lemma qok_release:
  assumes "qok H q" and "\<And>r. r \<in> H \<Longrightarrow> r \<notin> H' \<Longrightarrow> \<not> (current q r \<and> state_of q r = Waiting)"
  shows "qok H' q"
proof -
  have "placed H' q i r" if l: "lookup q i = Some r" for i r
  proof -
    have "placed H q i r" using assms(1) l by (simp add: qok_def dispatchable_def)
    moreover have "current q r" by (rule lookup_current [OF assms(1) l])
    ultimately show ?thesis using assms(2) [of r] by (auto simp: placed_def)
  qed
  then show ?thesis using assms(1) by (simp add: qok_def dispatchable_def)
qed

lemma sys_ok_prune_pending [simp]:
  assumes "sys_ok G st"
  shows "sys_ok G (prune_pending st)"
  unfolding sys_ok_def world_ok_def prune_pending_def on_k_world
proof (intro allI impI)
  fix n q assume q: "jm_get (fst st) n = Some q"
  have "qok (held G (snd st) n) q" using assms q by (auto simp: sys_ok_def dest: world_okD)
  then show "qok (held G (snd st\<lparr>wk_pending := filter (batch_claimable st) (wk_pending (snd st))\<rparr>) n) q"
    by (rule qok_release)
       (use q own_eq [of st] in \<open>auto simp: held_def batch_claimable_def isCurrent_def split: if_splits\<close>)
qed

lemma sys_ok_push_pending:
  assumes "sys_ok (add_held (wk_queue (snd st)) r G) st"
  shows "sys_ok G (on_k (\<lambda>k. k\<lparr>wk_pending := wk_pending k @ [r]\<rparr>) st)"
proof -
  have "held G (snd st\<lparr>wk_pending := wk_pending (snd st) @ [r]\<rparr>) = held (add_held (wk_queue (snd st)) r G) (snd st)"
    by (auto simp: held_def add_held_def fun_eq_iff)
  then show ?thesis using assms by (simp add: sys_ok_def)
qed

lemma sys_ok_fill_batch [simp]: "sys_ok G st \<Longrightarrow> sys_ok G (fill_batch n now st)"
proof (induction n now st rule: fill_batch.induct)
  case (2 n now st)
  obtain st1 res where f: "takeWaitingRecord now st = (st1, res)" by fastforce
  from f [unfolded takeWaitingRecord_def] 2(2) show ?case
  proof (cases rule: findNextWaiting_cases)
    case none
    then show ?thesis using f by simp
  next
    case (some r)
    then show ?thesis using f 2(1) [OF f [symmetric] some(1)] sys_ok_push_pending [of st1 r G] by simp
  qed
qed simp

lemma qok_fold_mark_active: "qok H q \<Longrightarrow> qok (H - set rs) (fold (mark_active now) rs q)"
proof (induction rs arbitrary: H q)
  case (Cons r rs)
  have "qok (H - {r} - set rs) (fold (mark_active now) rs (mark_active now r q))"
    by (rule Cons.IH [OF qok_mark_active [OF Cons.prems]])
  moreover have "H - {r} - set rs = H - set (r # rs)" by auto
  ultimately show ?case by simp
qed simp

lemma sys_ok_run_pending [simp]:
  assumes "sys_ok G st"
  shows "sys_ok G (run_pending now st)"
proof -
  let ?k = "snd st" and ?k' = "snd (run_pending now st)"
  have k': "wk_queue ?k' = wk_queue ?k" "wk_pending ?k' = []"
    by (simp_all add: run_pending_def executeBatch_def Let_def)
  have w': "fst (run_pending now st) = with_queue (wk_queue ?k) (fold (mark_active now) (wk_pending ?k)) (fst st)"
    by (simp add: run_pending_def executeBatch_def Let_def on_q_def on_k_def)
  have "qok (held G ?k' n) q" if q: "jm_get (fst (run_pending now st)) n = Some q" for n q
  proof (cases "n = wk_queue ?k")
    case True
    then obtain q0 where q0: "jm_get (fst st) n = Some q0" "q = fold (mark_active now) (wk_pending ?k) q0"
      using q unfolding w' by (auto simp: with_queue_def js_map_simps split: option.splits simp del: map_of_eq_Some_iff)
    have "qok (held G ?k n) q0" using assms q0(1) by (auto simp: sys_ok_def dest: world_okD)
    then have "qok (held G ?k n - set (wk_pending ?k)) q" unfolding q0(2) by (rule qok_fold_mark_active)
    then show ?thesis by (rule qok_mono) (auto simp: held_def k')
  next
    case False
    then have "jm_get (fst st) n = Some q"
      using q unfolding w' by (auto simp: with_queue_def js_map_simps split: option.splits simp del: map_of_eq_Some_iff)
    then have "qok (held G ?k n) q" using assms by (auto simp: sys_ok_def dest: world_okD)
    with False show ?thesis by (simp add: held_def k')
  qed
  then show ?thesis by (simp add: sys_ok_def world_ok_def)
qed

lemma sys_ok_batch_timer [simp]:
  "sys_ok G (clearBatchTimer st) = sys_ok G st" "sys_ok G (scheduleBatchFlush now st) = sys_ok G st"
  by (simp_all add: clearBatchTimer_def scheduleBatchFlush_def)

lemma sys_ok_start_batch [simp]: "sys_ok G st \<Longrightarrow> sys_ok G (start_batch c now st)"
  by (simp add: start_batch_def Let_def)

lemma sys_ok_processAvailableBatch [simp]: "sys_ok G st \<Longrightarrow> sys_ok G (processAvailableBatch now st)"
  by (simp add: processAvailableBatch_def Let_def)

lemma sys_ok_flushBatch [simp]: "sys_ok G st \<Longrightarrow> sys_ok G (flushBatch now st)"
  by (simp add: flushBatch_def Let_def)

section \<open>The main loop\<close>

lemma sys_ok_loops:
  "process_available n en now st = Some st' \<Longrightarrow> sys_ok G st \<Longrightarrow> sys_ok G st'"
  "start_loop n en now st = Some st' \<Longrightarrow> sys_ok G st \<Longrightarrow> sys_ok G st'"
  "started n en now res = Some st' \<Longrightarrow> sys_ok G (fst res) \<Longrightarrow> sys_ok G st'"
proof (induction n en now st and n en now st and n en now res arbitrary: st' and st' and st'
    rule: process_available_start_loop_started.induct)
  case (2 n en now st)
  show ?case
  proof (cases "\<not> wk_running (snd st) \<or> q_paused (own st) \<or> wk_paused (snd st) \<or> wk_batchMode (snd st)")
    case True
    then show ?thesis using 2(2,3) by (auto split: if_splits)
  next
    case False
    then obtain st1 where "start_loop n en now (on_q promotePrioritized st) = Some st1" "st' = check_drained st1"
      using 2(2) by auto
    then show ?thesis using 2(1) False 2(3) by simp
  qed
next
  case (4 n en now st)
  show ?case
  proof (cases "wk_active (snd st) < wk_concurrency (snd st)")
    case False
    then show ?thesis using 4(2,3) by simp
  next
    case True
    obtain st1 res where f: "findNextWaiting now st = (st1, res)" by fastforce
    from f 4(3) show ?thesis
    proof (cases rule: findNextWaiting_cases)
      case none
      then show ?thesis using 4(2) True f by simp
    next
      case (some r)
      let ?a = "activate now r st1"
      have "sys_ok G ?a" by (rule sys_ok_activate) (use some in simp)
      moreover have "isCurrent ?a r" using some by simp
      ultimately have "sys_ok G (fst (begin_job en r (new_TestJob (own ?a) r) now ?a))"
        by (rule sys_ok_begin_job)
      then show ?thesis using 4(1) [OF _ f [symmetric] some(1)] 4(2) True f some(1) by simp
    qed
  qed
next
  case (7 n en now st)
  then show ?case by (auto split: if_splits option.splits)
qed (auto split: option.splits if_splits)

lemma sys_ok_processAvailable [simp]: "sys_ok G st \<Longrightarrow> sys_ok G (processAvailable en now st)"
  using sys_ok_loops(1) [of "enough_fuel st" en now st]
  by (cases "process_available (enough_fuel st) en now st") (auto simp: processAvailable_def)

section \<open>The steps\<close>

lemma sys_ok_steps [simp]:
  assumes "sys_ok G st"
  shows "sys_ok G (run_wake en now st)" and "sys_ok G (run_extra en now st)"
    and "sys_ok G (rate_limit_fires en now st)" and "sys_ok G (batch_timer_fires now st)"
    and "sys_ok G (continue_after en n now st)"
  using assms by (simp_all add: run_wake_def run_extra_def rate_limit_fires_def batch_timer_fires_def
      continue_after_def Let_def)

lemma token_gate_frame:
  "token_gate now k = (k', r) \<Longrightarrow> wk_queue k' = wk_queue k \<and> wk_pending k' = wk_pending k"
  by (auto simp: token_gate_def refresh_window_def Let_def split: option.splits if_splits prod.splits)

lemma sys_ok_held:
  "sys_ok G st \<Longrightarrow> wk_queue k = wk_queue (snd st) \<Longrightarrow> wk_pending k = wk_pending (snd st) \<Longrightarrow> sys_ok G (fst st, k)"
  by (simp add: sys_ok_def held_def [abs_def] cong: if_cong)

lemma sys_ok_pass_gate [simp]: "sys_ok G st \<Longrightarrow> sys_ok G (pass_gate now st)"
  by (auto simp: pass_gate_def on_k_def dest: token_gate_frame intro!: sys_ok_held split: list.split prod.split option.split)

lemma sys_ok_job_ends [simp]: "sys_ok G st \<Longrightarrow> sys_ok G (job_ends en i h out now st)"
  by (simp add: job_ends_def)

lemma sys_ok_batch_entry [simp]:
  assumes "sys_ok G st"
  shows "sys_ok G (batch_entry en now x st)"
proof -
  obtain st' m where t: "take_movedToFailed (fst (fst x)) st = (st', m)" by fastforce
  have "sys_ok G st'" using sys_ok_take_moved [OF assms, of "fst (fst x)"] t by simp
  with t assms show ?thesis
    by (simp add: batch_entry_def settleMovedToFailed_def batch_value_def split: option.split sum.split batch_result.split)
qed

lemma sys_ok_settle_batch [simp]: "sys_ok G st \<Longrightarrow> sys_ok G (settle_batch en jobs out now st)"
proof -
  have "sys_ok G st \<Longrightarrow> sys_ok G (fold (batch_entry en now) xs st)" for xs st
    by (induction xs arbitrary: st) simp_all
  then show "sys_ok G st \<Longrightarrow> sys_ok G (settle_batch en jobs out now st)" by (simp add: settle_batch_def)
qed

lemma sys_ok_batch_ends [simp]: "sys_ok G st \<Longrightarrow> sys_ok G (batch_ends en i f out now st)"
  by (simp add: batch_ends_def Let_def)

end
