(* ===== verification/Tq_Machine.thy ===== *)
theory Tq_Machine
  imports Tq_Inv_Run
begin

text \<open>
  The whole testing mode as a state machine: open queues, their workers and the clock. A step is a
  call of the public API, a timer that is due, a microtask, or the end of a processor; calls come
  in any order and at any time. The reachable states strand no job.
\<close>

section \<open>Calls\<close>

datatype queue_op =
    OpRevoke string
  | OpClean rat int job_state
  | OpDrain bool
  | OpRetryJobs "jsnum option"
  | OpObliterate bool
  | OpPause
  | OpResume
  | OpSignal string string js
  | OpRemove string
  | OpUpsertScheduler string schedule_opts "js job_template option"
  | OpRemoveScheduler string
  | OpSetBudget string budget_limits
  | OpUpdateBudget string budget_changes
  | OpCreateIndex "string option"
  | OpDropIndex

fun run_queue_op :: "env \<Rightarrow> (string \<Rightarrow> bool) \<Rightarrow> int \<Rightarrow> queue_op \<Rightarrow> tq \<Rightarrow> tq" where
  "run_queue_op en vtz now (OpRevoke i) q = fst (revoke i now q)"
| "run_queue_op en vtz now (OpClean g l ty) q = fst (clean g l ty now q)"
| "run_queue_op en vtz now (OpDrain d) q = drain d q"
| "run_queue_op en vtz now (OpRetryJobs n) q = fst (retryJobs n now q)"
| "run_queue_op en vtz now (OpObliterate f) q = fst (obliterate f q)"
| "run_queue_op en vtz now OpPause q = pause q"
| "run_queue_op en vtz now OpResume q = resume now q"
| "run_queue_op en vtz now (OpSignal i n d) q = fst (signal i n d now q)"
| "run_queue_op en vtz now (OpRemove i) q = fst (removeJob i q)"
| "run_queue_op en vtz now (OpUpsertScheduler n s t) q = fst (upsertJobScheduler (e_zones en) vtz n s t now q)"
| "run_queue_op en vtz now (OpRemoveScheduler n) q = removeJobScheduler n now q"
| "run_queue_op en vtz now (OpSetBudget k l) q = setBudget k l q"
| "run_queue_op en vtz now (OpUpdateBudget k c) q = fst (updateFlowBudget k c q)"
| "run_queue_op en vtz now (OpCreateIndex f) q = createJobIndex f q"
| "run_queue_op en vtz now OpDropIndex q = dropJobIndex q"

datatype job_op =
    JoLog utf16
  | JoUpdateProgress js
  | JoUpdateData js
  | JoReportUsage job_usage
  | JoStream "(string, string) jsmap"
  | JoStoreVector string "rat list"
  | JoMoveToFailed js_error
  | JoRemove
  | JoMoveToDelayed jsnum "string option"
  | JoMoveToWaitingChildren
  | JoSuspend "string option" "rat option"
  | JoRetry
  | JoPromote
  | JoChangeDelay rat
  | JoChangePriority jsnum

fun run_job_op :: "env \<Rightarrow> int \<Rightarrow> job_op \<Rightarrow> test_job \<Rightarrow> tq \<Rightarrow> tq" where
  "run_job_op en now (JoLog m) h q = fst (log_line m q h)"
| "run_job_op en now (JoUpdateProgress p) h q = fst (updateProgress (e_json en) p q h)"
| "run_job_op en now (JoUpdateData d) h q = fst (updateData d q h)"
| "run_job_op en now (JoReportUsage u) h q = fst (reportUsage u now q h)"
| "run_job_op en now (JoStream kvs) h q = fst (stream kvs q h)"
| "run_job_op en now (JoStoreVector f v) h q = fst (storeVector f v q h)"
| "run_job_op en now (JoMoveToFailed e) h q = fst (moveToFailed e q h)"
| "run_job_op en now JoRemove h q = fst (remove q h)"
| "run_job_op en now (JoMoveToDelayed t s) h q = fst (moveToDelayed t s q h)"
| "run_job_op en now JoMoveToWaitingChildren h q = fst (moveToWaitingChildren q h)"
| "run_job_op en now (JoSuspend r t) h q = fst (suspend r t now q h)"
| "run_job_op en now JoRetry h q = fst (retry now q h)"
| "run_job_op en now JoPromote h q = fst (promote q h)"
| "run_job_op en now (JoChangeDelay d) h q = fst (changeDelay d now q h)"
| "run_job_op en now (JoChangePriority p) h q = fst (changePriority p q h)"

datatype worker_op =
    KoWake
  | KoExtra
  | KoRateLimitTimer
  | KoBatchTimer
  | KoGate
  | KoJobEnds nat test_job outcome
  | KoBatchEnds nat "test_job \<Rightarrow> test_job" batch_outcome
  | KoJobAdded
  | KoPause
  | KoResume
  | KoRateLimit rat
  | KoClose

fun run_worker_op :: "env \<Rightarrow> int \<Rightarrow> worker_op \<Rightarrow> sys \<Rightarrow> sys" where
  "run_worker_op en now KoWake st = run_wake en now st"
| "run_worker_op en now KoExtra st = run_extra en now st"
| "run_worker_op en now KoRateLimitTimer st = rate_limit_fires en now st"
| "run_worker_op en now KoBatchTimer st = batch_timer_fires now st"
| "run_worker_op en now KoGate st = pass_gate now st"
| "run_worker_op en now (KoJobEnds i h out) st = job_ends en i h out now st"
| "run_worker_op en now (KoBatchEnds i f out) st = batch_ends en i f out now st"
| "run_worker_op en now KoJobAdded st = on_k onJobAdded st"
| "run_worker_op en now KoPause st = on_k pause_worker st"
| "run_worker_op en now KoResume st = on_k resume_worker st"
| "run_worker_op en now (KoRateLimit ms) st = on_k (rateLimit ms now) st"
| "run_worker_op en now KoClose st = close_worker st"

section \<open>The machine\<close>

record system =
  sy_world :: world
  sy_workers :: "worker list"
  sy_now :: int

text \<open>The records of queue \<open>n\<close> that its batch workers have claimed and not started.\<close>

definition held_by :: "worker list \<Rightarrow> string \<Rightarrow> nat set" where
  "held_by ws n = \<Union> (set (map (\<lambda>k. if wk_queue k = n then set (wk_pending k) else {}) ws))"

text \<open>
  \<open>changePriority\<close> is the one call with a guard: not on a job that only a batch worker's claim
  keeps reachable. Without it the job is lost, as \<open>Tq_Lost\<close> shows.
\<close>

definition may_reprioritize :: "worker list \<Rightarrow> string \<Rightarrow> test_job \<Rightarrow> tq \<Rightarrow> bool" where
  "may_reprioritize ws n h q =
     (case lookup q (h_id h) of None \<Rightarrow> True
      | Some r \<Rightarrow> r \<notin> held_by ws n \<or> r \<in> set (q_waiting q))"

definition is_changePriority :: "job_op \<Rightarrow> bool" where
  "is_changePriority op = (case op of JoChangePriority _ \<Rightarrow> True | _ \<Rightarrow> False)"

definition fresh_flow_id :: "world \<Rightarrow> string \<Rightarrow> nat \<Rightarrow> bool" where
  "fresh_flow_id w n o' =
     (case jm_get w n of None \<Rightarrow> True
      | Some q \<Rightarrow> customJobId (q_opts q o') = [] \<or> lookup q (customJobId (q_opts q o')) = None)"

definition empty_system :: system where
  "empty_system = \<lparr>sy_world = [], sy_workers = [], sy_now = 0\<rparr>"

inductive sys_step :: "env \<Rightarrow> (string \<Rightarrow> bool) \<Rightarrow> system \<Rightarrow> system \<Rightarrow> bool" for en vtz where
  tick: "sy_now s \<le> t \<Longrightarrow> sys_step en vtz s (s\<lparr>sy_now := t\<rparr>)"
| open_queue: "jm_get (sy_world s) n = None \<Longrightarrow>
    sys_step en vtz s (s\<lparr>sy_world := jm_set n (new_TestQueue n d ser dlq) (sy_world s)\<rparr>)"
| shut_queue: "sys_step en vtz s (s\<lparr>sy_world := jm_delete n (sy_world s)\<rparr>)"
| queue_call: "sys_step en vtz s (s\<lparr>sy_world := with_queue n (run_queue_op en vtz (sy_now s) op) (sy_world s)\<rparr>)"
| handle_call: "jm_get (sy_world s) n = Some q \<Longrightarrow>
    \<not> is_changePriority op \<or> may_reprioritize (sy_workers s) n h q \<Longrightarrow>
    sys_step en vtz s (s\<lparr>sy_world := with_queue n (run_job_op en (sy_now s) op h) (sy_world s)\<rparr>)"
| new_options: "sys_step en vtz s (s\<lparr>sy_world := with_queue n (\<lambda>q. fst (alloc_opts x q)) (sy_world s)\<rparr>)"
| add_call: "add n name data o' (sy_now s) (sy_world s) = (w, res) \<Longrightarrow> sys_step en vtz s (s\<lparr>sy_world := w\<rparr>)"
| bulk_call: "addBulk n es (sy_now s) (sy_world s) = (w, res') \<Longrightarrow> sys_step en vtz s (s\<lparr>sy_world := w\<rparr>)"
| flow_call: "fresh_flow_id (sy_world s) n o' \<Longrightarrow>
    addFlowJob n name data o' fl (sy_now s) (sy_world s) = (w, res'') \<Longrightarrow> sys_step en vtz s (s\<lparr>sy_world := w\<rparr>)"
| attach_call: "sys_step en vtz s (s\<lparr>sy_world := attachParent n r p (sy_world s)\<rparr>)"
| remove_dead: "sys_step en vtz s (s\<lparr>sy_world := fst (removeDeadLetterJob n i (sy_world s))\<rparr>)"
| replay_dead: "replayDeadLetterJob n i (sy_now s) (sy_world s) = (w, res) \<Longrightarrow> sys_step en vtz s (s\<lparr>sy_world := w\<rparr>)"
| promotion_due: "jm_get (sy_world s) n = Some q \<Longrightarrow> jm_get (q_promotions q) i = Some (r, t) \<Longrightarrow>
    t \<le> of_int (sy_now s) \<Longrightarrow> sys_step en vtz s (s\<lparr>sy_world := with_queue n (promotion_fires r) (sy_world s)\<rparr>)"
| suspend_due: "jm_get (sy_world s) n = Some q \<Longrightarrow> jm_get (q_suspendTimers q) i = Some t' \<Longrightarrow>
    st_fireAt t' \<le> of_int (sy_now s) \<Longrightarrow>
    sys_step en vtz s (s\<lparr>sy_world := with_queue n (suspend_timeout_fires i (sy_now s)) (sy_world s)\<rparr>)"
| scheduler_due: "jm_get (sy_world s) n = Some q \<Longrightarrow> q_schedulerTimer q = Some t \<Longrightarrow> t \<le> of_int (sy_now s) \<Longrightarrow>
    sys_step en vtz s
      (s\<lparr>sy_world := with_queue n (\<lambda>q. fst (scheduler_fires (e_zones en) (sy_now s) q)) (sy_world s)\<rparr>)"
| new_worker_call: "new_TestWorker m n wo (sy_now s) (sy_world s) = Inr (w, k) \<Longrightarrow>
    sys_step en vtz s (s\<lparr>sy_world := w, sy_workers := sy_workers s @ [k]\<rparr>)"
| worker_step: "i < length (sy_workers s) \<Longrightarrow>
    run_worker_op en (sy_now s) wop (sy_world s, sy_workers s ! i) = (w, k) \<Longrightarrow>
    sys_step en vtz s (s\<lparr>sy_world := w, sy_workers := (sy_workers s)[i := k]\<rparr>)"

inductive reachable :: "env \<Rightarrow> (string \<Rightarrow> bool) \<Rightarrow> system \<Rightarrow> bool" for en vtz where
  start: "reachable en vtz empty_system"
| steps: "reachable en vtz s \<Longrightarrow> sys_step en vtz s s' \<Longrightarrow> reachable en vtz s'"

section \<open>The invariant\<close>

definition system_ok :: "system \<Rightarrow> bool" where
  "system_ok s \<longleftrightarrow> world_ok (held_by (sy_workers s)) (sy_world s)"

definition held_by_others :: "worker list \<Rightarrow> nat \<Rightarrow> string \<Rightarrow> nat set" where
  "held_by_others ws i = held_by (take i ws @ drop (Suc i) ws)"

lemma held_by_append: "held_by (xs @ ys) n = held_by xs n \<union> held_by ys n"
  by (simp add: held_by_def)

lemma held_by_Cons: "held_by (k # ks) n = (if wk_queue k = n then set (wk_pending k) else {}) \<union> held_by ks n"
  by (simp add: held_by_def)

lemma held_split: "i < length ws \<Longrightarrow> held_by ws = held (held_by_others ws i) (ws ! i)"
proof
  fix n assume i: "i < length ws"
  have "held_by ws n = held_by (take i ws @ ws ! i # drop (Suc i) ws) n"
    using id_take_nth_drop [OF i] by simp
  then show "held_by ws n = held (held_by_others ws i) (ws ! i) n"
    by (auto simp: held_def held_by_others_def held_by_append held_by_Cons)
qed

lemma held_update: "i < length ws \<Longrightarrow> held_by (ws[i := k]) = held (held_by_others ws i) k"
proof -
  assume i: "i < length ws"
  then have "held_by_others (ws[i := k]) i = held_by_others ws i" by (simp add: held_by_others_def)
  with held_split [of i "ws[i := k]"] i show ?thesis by simp
qed

lemma qok_hand_back:
  assumes "qok H q"
  shows "qok (H - set pend) (q\<lparr>q_waiting := filter (\<lambda>r. current q r \<and> state_of q r = Waiting) pend @ q_waiting q\<rparr>)"
proof -
  let ?q = "q\<lparr>q_waiting := filter (\<lambda>r. current q r \<and> state_of q r = Waiting) pend @ q_waiting q\<rparr>"
  have wf: "tq_wf q" using assms by (simp add: qok_def)
  have "r < q_next q" if "r \<in> set (q_waiting ?q)" for r
  proof -
    have "current q r \<or> r \<in> set (q_waiting q)" using that by auto
    then show ?thesis
    proof
      assume "current q r"
      then show ?thesis by (rule current_next [OF wf])
    next
      assume "r \<in> set (q_waiting q)"
      then show ?thesis using wf by (simp add: tq_wf_def)
    qed
  qed
  then have "tq_wf ?q" using wf by (simp add: tq_wf_def del: map_of_eq_Some_iff)
  moreover have "placed (H - set pend) ?q i r" if l: "lookup q i = Some r" for i r
  proof -
    have "placed H q i r" using assms l by (simp add: qok_def dispatchable_def)
    moreover have "current q r" by (rule lookup_current [OF assms l])
    ultimately show ?thesis by (auto simp: placed_def)
  qed
  ultimately show ?thesis by (simp add: qok_def dispatchable_def)
qed

lemma sys_ok_close_worker [simp]:
  assumes "sys_ok G st"
  shows "sys_ok G (close_worker st)"
proof -
  define k1 where "k1 = (snd st)\<lparr>wk_running := False, wk_batchTimer := None, wk_rateLimitTimer := None\<rparr>"
  have ok1: "sys_ok G (fst st, k1)" by (rule sys_ok_held [OF assms]) (simp_all add: k1_def)
  define st2 where "st2 = hand_back (fst st, k1)"
  have k2: "wk_queue (snd st2) = wk_queue k1" "wk_pending (snd st2) = []"
    by (simp_all add: st2_def hand_back_def Let_def)
  have "qok (held G (snd st2) n) q" if q: "jm_get (fst st2) n = Some q" for n q
  proof (cases "n = wk_queue k1")
    case True
    then obtain q0 where q0: "jm_get (fst st) n = Some q0"
      "q = q0\<lparr>q_waiting := filter (batch_claimable (fst st, k1)) (wk_pending k1) @ q_waiting q0\<rparr>"
      using q by (auto simp: st2_def hand_back_def on_q_def with_queue_def js_map_simps Let_def
          split: option.splits simp del: map_of_eq_Some_iff)
    have c: "batch_claimable (fst st, k1) = (\<lambda>r. current q0 r \<and> state_of q0 r = Waiting)"
      using q0(1) True own_eq [of "(fst st, k1)" q0] by (simp add: batch_claimable_def isCurrent_def fun_eq_iff)
    have "qok (held G k1 n) q0" using ok1 q0(1) by (auto simp: sys_ok_def dest: world_okD)
    then have "qok (held G k1 n - set (wk_pending k1)) q" unfolding q0(2) c by (rule qok_hand_back)
    then show ?thesis by (rule qok_mono) (use True k2 in \<open>auto simp: held_def\<close>)
  next
    case False
    then have "jm_get (fst st) n = Some q"
      using q by (auto simp: st2_def hand_back_def on_q_def with_queue_def js_map_simps Let_def
          split: option.splits simp del: map_of_eq_Some_iff)
    then have "qok (held G k1 n) q" using ok1 by (auto simp: sys_ok_def dest: world_okD)
    with False k2 show ?thesis by (simp add: held_def)
  qed
  then have "sys_ok G st2" by (simp add: sys_ok_def world_ok_def)
  then have "sys_ok G (on_q (\<lambda>q. emit EvWake (detach (snd st2) q)) st2)"
    by (rule sys_ok_simple) (simp add: detach_def)
  moreover have "close_worker st = on_q (\<lambda>q. emit EvWake (detach (snd st2) q)) st2"
    by (simp add: close_worker_def Let_def st2_def k1_def on_k_def)
  ultimately show ?thesis by simp
qed

lemma sys_ok_worker_op: "sys_ok G st \<Longrightarrow> sys_ok G (run_worker_op en now wop st)"
  by (cases wop) (simp_all add: onJobAdded_def wake_def pause_worker_def resume_worker_def rateLimit_def)

lemma qok_queue_op: "qok H q \<Longrightarrow> qok H (run_queue_op en vtz now op q)"
  by (cases op) (simp_all add: createJobIndex_def dropJobIndex_def)

lemma qok_job_op:
  assumes "qok H q"
    and "is_changePriority op \<Longrightarrow> (\<And>r. lookup q (h_id h) = Some r \<Longrightarrow> r \<in> H \<Longrightarrow> r \<in> set (q_waiting q))"
  shows "qok H (run_job_op en now op h q)"
proof (cases op)
  case (JoChangePriority p)
  then show ?thesis using assms by (simp add: is_changePriority_def qok_changePriority)
qed (use assms(1) in simp_all)

lemma system_ok_world:
  "system_ok s \<Longrightarrow> (\<And>H. world_ok H (sy_world s) \<Longrightarrow> world_ok H w) \<Longrightarrow> system_ok (s\<lparr>sy_world := w\<rparr>)"
  by (simp add: system_ok_def)

lemma jm_set_twice: "jm_set k v (jm_set k v' m) = jm_set k v m"
  by (induction m) auto

lemma with_queue_twice: "with_queue n f (with_queue n g w) = with_queue n (\<lambda>q. f (g q)) w"
  by (simp add: with_queue_def js_map_simps jm_set_twice split: option.split del: map_of_eq_Some_iff)

lemma new_worker_frame:
  assumes "new_TestWorker m n wo now w = Inr (w', k)"
  shows "wk_pending k = []" and "\<exists>f. w' = with_queue n f w \<and> (\<forall>H q. qok H (f q) = qok H q)"
proof -
  let ?k = "new_worker m n wo now"
  let ?dlq = "\<lambda>q. case nonempty_str (wo_dlq wo) of None \<Rightarrow> q | Some d \<Rightarrow> q\<lparr>q_dlqName := Some d\<rparr>"
  let ?att = "\<lambda>q. onWorkerAttached now (q\<lparr>q_workers := set_add (wk_id ?k) (q_workers q)\<rparr>)"
  have k: "k = ?k\<lparr>wk_processing := True\<rparr>" and w: "w' = with_queue n ?att (with_queue n ?dlq w)"
    using assms by (auto simp: new_TestWorker_def andThen_Inr_iff Let_def on_q_def on_k_def new_worker_def)
  show "wk_pending k = []" by (simp add: k new_worker_def)
  have "with_queue n ?att (with_queue n ?dlq w) = with_queue n (\<lambda>q. ?att (?dlq q)) w"
    by (rule with_queue_twice)
  moreover have "qok H (?att (?dlq q)) = qok H q" for H q by (simp split: option.split)
  ultimately show "\<exists>f. w' = with_queue n f w \<and> (\<forall>H q. qok H (f q) = qok H q)"
    using w by (intro exI [where x = "\<lambda>q. ?att (?dlq q)"]) simp
qed

lemma system_ok_step:
  assumes "sys_step en vtz s s'" and "system_ok s"
  shows "system_ok s'"
  using assms
proof (cases rule: sys_step.cases)
  case (tick t)
  then show ?thesis using assms(2) by (simp add: system_ok_def)
next
  case (open_queue n d ser dlq)
  then show ?thesis using assms(2) by (auto intro!: system_ok_world world_ok_put)
next
  case (shut_queue n)
  then show ?thesis using assms(2)
    by (auto simp: system_ok_def world_ok_def js_map_simps simp del: map_of_eq_Some_iff)
next
  case (queue_call n op)
  then show ?thesis using assms(2) by (auto intro!: system_ok_world world_ok_with_queue qok_queue_op)
next
  case (handle_call n q op h)
  have "world_ok (held_by (sy_workers s)) (with_queue n (run_job_op en (sy_now s) op h) (sy_world s))"
  proof (rule world_ok_with_queue)
    show "world_ok (held_by (sy_workers s)) (sy_world s)" using assms(2) by (simp add: system_ok_def)
    fix q' assume q': "jm_get (sy_world s) n = Some q'" "qok (held_by (sy_workers s) n) q'"
    with handle_call show "qok (held_by (sy_workers s) n) (run_job_op en (sy_now s) op h q')"
      by (intro qok_job_op) (auto simp: may_reprioritize_def split: option.splits)
  qed
  then show ?thesis using handle_call by (simp add: system_ok_def)
next
  case (new_options n x)
  then show ?thesis using assms(2)
    by (auto intro!: system_ok_world world_ok_with_queue simp: alloc_opts_def)
next
  case (add_call n name data o' w res)
  then show ?thesis using assms(2) by (auto intro: system_ok_world world_ok_add)
next
  case (bulk_call n es w res')
  then show ?thesis using assms(2) by (auto intro: system_ok_world world_ok_addBulk)
next
  case (flow_call n o' name data fl w res'')
  have "lookup q (customJobId (q_opts q o')) = None"
    if "jm_get (sy_world s) n = Some q" "customJobId (q_opts q o') \<noteq> []" for q
    using that flow_call by (auto simp: fresh_flow_id_def)
  then show ?thesis using flow_call assms(2) by (auto intro!: system_ok_world intro: world_ok_addFlowJob)
next
  case (attach_call n r p)
  then show ?thesis using assms(2) by (auto intro: system_ok_world)
next
  case (remove_dead n i)
  then show ?thesis using assms(2) by (auto intro: system_ok_world world_ok_removeDeadLetterJob)
next
  case (replay_dead n i w res)
  then show ?thesis using assms(2) by (auto intro: system_ok_world world_ok_replay)
next
  case (promotion_due n q i r t)
  have "world_ok (held_by (sy_workers s)) (with_queue n (promotion_fires r) (sy_world s))"
  proof (rule world_ok_with_queue)
    show "world_ok (held_by (sy_workers s)) (sy_world s)" using assms(2) by (simp add: system_ok_def)
    fix q' assume "jm_get (sy_world s) n = Some q'" "qok (held_by (sy_workers s) n) q'"
    with promotion_due show "qok (held_by (sy_workers s) n) (promotion_fires r q')"
      by (auto intro: qok_promotion_fires)
  qed
  then show ?thesis using promotion_due by (simp add: system_ok_def)
next
  case (suspend_due n q i t')
  then show ?thesis using assms(2) by (auto intro!: system_ok_world world_ok_with_queue)
next
  case (scheduler_due n q t)
  then show ?thesis using assms(2) by (auto intro!: system_ok_world world_ok_with_queue)
next
  case (new_worker_call m n wo w k)
  from new_worker_frame [OF new_worker_call(2)] obtain f
    where f: "w = with_queue n f (sy_world s)" "\<And>H q. qok H (f q) = qok H q" and p: "wk_pending k = []"
    by blast
  have "held_by (sy_workers s @ [k]) = held_by (sy_workers s)"
    by (simp add: fun_eq_iff held_by_append held_by_Cons held_by_def p)
  moreover have "world_ok (held_by (sy_workers s)) w"
    unfolding f(1) by (rule world_ok_with_queue) (use assms(2) f(2) in \<open>auto simp: system_ok_def\<close>)
  ultimately show ?thesis using new_worker_call(1) by (simp add: system_ok_def)
next
  case (worker_step i wop w k)
  let ?G = "held_by_others (sy_workers s) i"
  have "sys_ok ?G (sy_world s, sy_workers s ! i)"
    using assms(2) held_split [OF worker_step(2)] by (simp add: system_ok_def sys_ok_def)
  from sys_ok_worker_op [OF this, of en "sy_now s" wop] worker_step(3) have "sys_ok ?G (w, k)" by simp
  then show ?thesis using worker_step(1) held_update [OF worker_step(2)] by (simp add: system_ok_def sys_ok_def)
qed

lemma reachable_system_ok: "reachable en vtz s \<Longrightarrow> system_ok s"
proof (induction rule: reachable.induct)
  case start
  show ?case by (simp add: empty_system_def system_ok_def world_ok_def)
next
  case (steps s s')
  then show ?case by (blast intro: system_ok_step)
qed

end
