(* ===== verification/Tq_Samples.thy ===== *)
theory Tq_Samples
  imports Tq_Machine
begin

text \<open>
  Concrete queues and runs that the witnesses of the \<open>TestQueue\<close> theorems use: a serializer that
  accepts every value, a queue with default options and plain adds to it.
\<close>

definition plain_serializer :: "js serializer" where
  "plain_serializer = \<lparr>serialize = (\<lambda>_. Some []), deserialize = (\<lambda>_. Some (JObj []))\<rparr>"

definition sample_queue :: "string \<Rightarrow> tq" where
  "sample_queue n = fst (alloc_opts default_opts (new_TestQueue n True plain_serializer None))"

definition sample_env :: env where
  "sample_env = \<lparr>e_zones = (\<lambda>_ n. utcToWall n), e_json = plain_serializer, e_random = (\<lambda>_. 0)\<rparr>"

lemma default_opts_sel [simp]:
  "priority default_opts = None" "jobId default_opts = None" "delay default_opts = None"
  "deduplication default_opts = None" "parent default_opts = None" "ttl default_opts = None"
  "lifo default_opts = False" "attempts default_opts = None" "backoff default_opts = None"
  "removeOnComplete default_opts = Keep" "removeOnFail default_opts = Keep" "fallbacks default_opts = None"
  by (simp_all add: default_opts_def)

lemma default_checks [simp]:
  "validateJobDataSize [] = Inr ()" "validateJobOptions default_opts = Inr ()" "validateJobPriority (Num 0) = Inr ()"
  by (simp_all add: validateJobDataSize_def validateJobPriority_def MAX_JOB_PRIORITY_def validateJobOptions_def
      validateJobScheduleOptions_def default_opts_def bad_nonneg_def validateTokenBucket_def token_bucket_of_def
      order_key_def validateOrderingKey_def MAX_ORDERING_KEY_LENGTH_def bad_lock_duration_def)

lemma show_nat_1 [simp]: "show_nat (Suc 0) = ''1''" "show_nat (Suc (Suc 0)) = ''2''"
  by code_simp+

lemma sample_queue_sel [simp]:
  "q_jobs (sample_queue n) = []" "q_waiting (sample_queue n) = []" "q_next (sample_queue n) = 0"
  "q_idCounter (sample_queue n) = 0" "q_serializer (sample_queue n) = plain_serializer"
  "q_opts (sample_queue n) r = default_opts" "q_promotions (sample_queue n) = []" "q_paused (sample_queue n) = False"
  "q_suspendTimers (sample_queue n) = []" "q_budgets (sample_queue n) = []" "q_name (sample_queue n) = n"
  "lookup (sample_queue n) i = None" "q_schedulers (sample_queue n) = []" "q_events (sample_queue n) = []" "q_dedup (sample_queue n) = True"
  by (simp_all add: sample_queue_def alloc_opts_def new_TestQueue_def lookup_def)

text \<open>What a plain add with default options does.\<close>

definition plain_record :: "string \<Rightarrow> string \<Rightarrow> nat \<Rightarrow> int \<Rightarrow> job" where
  "plain_record i name o' now = blank_job\<lparr>j_id := i, j_name := name, j_data := JObj [], j_opts := o', j_timestamp := now\<rparr>"

lemma plain_record_sel: "j_state (plain_record i name o' now) = Waiting" "j_id (plain_record i name o' now) = i"
  by (simp_all add: plain_record_def blank_job_def)

definition plain_added :: "string \<Rightarrow> nat \<Rightarrow> int \<Rightarrow> tq \<Rightarrow> tq" where
  "plain_added name o' now q =
     (let i = show_nat (Suc (q_idCounter q));
          q1 = store_record i (plain_record i name o' now) (q\<lparr>q_idCounter := Suc (q_idCounter q)\<rparr>)
      in emit (EvAdded i) (enqueueWaiting (q_next q) q1))"

lemma next_id_free: "0 < n \<Longrightarrow> \<not> taken (show_nat c) \<Longrightarrow> next_id n taken c = (c, Some (show_nat c))"
  by (cases n) simp_all

lemma generate_first:
  assumes "lookup q (show_nat (Suc (q_idCounter q))) = None"
  shows "generateJobId [] q = (q\<lparr>q_idCounter := Suc (q_idCounter q)\<rparr>, Inr (show_nat (Suc (q_idCounter q))))"
  using assms by (simp add: generateJobId_def next_id_free jm_has_def lookup_def)

lemma prepare_default:
  assumes "q_serializer q = plain_serializer" and "lookup q (show_nat (Suc (q_idCounter q))) = None"
  shows "prepare_add data default_opts now q =
    (q\<lparr>q_idCounter := Suc (q_idCounter q)\<rparr>, Inr (Some ([], show_nat (Suc (q_idCounter q)))))"
  using generate_first [OF assms(2)]
  by (simp add: prepare_add_def check_add_def assms(1) plain_serializer_def dropped_as_duplicate_def
      dedup_of_def choose_id_def customJobId_def record_dedup_def)

lemma add_default:
  assumes "jm_get w n = Some q" and "q_opts q o' = default_opts" and "q_serializer q = plain_serializer"
    and "lookup q (show_nat (Suc (q_idCounter q))) = None"
  shows "add n name data o' now w = (jm_set n (plain_added name o' now q) w, Inr (Some (q_next q)))"
proof -
  let ?q1 = "q\<lparr>q_idCounter := Suc (q_idCounter q)\<rparr>" and ?i = "show_nat (Suc (q_idCounter q))"
  have p: "run_on n (\<lambda>q. prepare_add data (q_opts q o') now q) w = (jm_set n ?q1 w, Inr (Some ([], ?i)))"
    using assms(1,2) prepare_default [OF assms(3,4)] by (simp add: run_on_def)
  have l: "linkToParents n ?i [] w' = (w', parent_links [])" for w' by (simp add: linkToParents_def)
  have nr: "new_record ?i name (JObj []) o' now 0 (parent_links []) = plain_record ?i name o' now"
    by (simp add: new_record_def parent_links_def plain_record_def blank_job_def)
  have st: "state_of (store_record ?i (plain_record ?i name o' now) ?q1) (q_next q) = Waiting"
    by (simp add: plain_record_def)
  have pl: "place_record (q_next q) 0 0 now (store_record ?i (plain_record ?i name o' now) ?q1)
      = enqueueWaiting (q_next q) (store_record ?i (plain_record ?i name o' now) ?q1)"
    unfolding place_record_def st by simp
  have f: "finish_add name o' now (parent_links []) ([], ?i) ?q1 = (plain_added name o' now q, Inr (q_next q))"
    using assms(2,3) nr pl
    by (simp add: finish_add_def insertRecord_def plain_serializer_def Let_def plain_added_def)
  have "run_on n (finish_add name o' now (parent_links []) ([], ?i)) (jm_set n ?q1 w)
      = (jm_set n (plain_added name o' now q) w, Inr (q_next q))"
    using f by (simp add: run_on_def js_map_simps jm_set_twice del: map_of_eq_Some_iff)
  then show ?thesis
    using p l assms(2) by (simp add: add_def js_map_simps del: map_of_eq_Some_iff)
qed

lemma plain_added_sel [simp]:
  "lookup (plain_added name o' now q) k = (if k = show_nat (Suc (q_idCounter q)) then Some (q_next q) else lookup q k)"
  "state_of (plain_added name o' now q) r = (if r = q_next q then Waiting else state_of q r)"
  "q_opts (plain_added name o' now q) = q_opts q" "q_next (plain_added name o' now q) = Suc (q_next q)"
  "q_serializer (plain_added name o' now q) = q_serializer q" "q_idCounter (plain_added name o' now q) = Suc (q_idCounter q)"
  "q_promotions (plain_added name o' now q) = q_promotions q" "q_paused (plain_added name o' now q) = q_paused q"
  "id_of (plain_added name o' now q) r = (if r = q_next q then show_nat (Suc (q_idCounter q)) else id_of q r)"
  "q_waiting (plain_added name o' now q) =
     filter (\<lambda>x. x \<noteq> q_next q \<and> id_of q x \<noteq> show_nat (Suc (q_idCounter q))) (q_waiting q) @ [q_next q]"
proof -
  let ?i = "show_nat (Suc (q_idCounter q))"
  let ?s = "store_record ?i (plain_record ?i name o' now) (q\<lparr>q_idCounter := Suc (q_idCounter q)\<rparr>)"
  have sj: "same_jobs ?s (enqueueWaiting (q_next q) ?s)" by (rule same_jobs_moves)
  note sel = same_jobs_sel [OF sj]
  show "lookup (plain_added name o' now q) k = (if k = ?i then Some (q_next q) else lookup q k)"
    "state_of (plain_added name o' now q) r = (if r = q_next q then Waiting else state_of q r)"
    "id_of (plain_added name o' now q) r = (if r = q_next q then ?i else id_of q r)"
    "q_next (plain_added name o' now q) = Suc (q_next q)"
    "q_waiting (plain_added name o' now q) =
       filter (\<lambda>x. x \<noteq> q_next q \<and> id_of q x \<noteq> ?i) (q_waiting q) @ [q_next q]"
    by (simp_all only: plain_added_def Let_def emit_sel sel) (simp_all add: plain_record_sel cong: conj_cong)
  show "q_opts (plain_added name o' now q) = q_opts q" "q_serializer (plain_added name o' now q) = q_serializer q"
    "q_idCounter (plain_added name o' now q) = Suc (q_idCounter q)"
    "q_promotions (plain_added name o' now q) = q_promotions q" "q_paused (plain_added name o' now q) = q_paused q"
    by (simp_all add: plain_added_def Let_def enqueueWaiting_def store_record_def set_state_def upd_def emit_def
        push_waiting_def dequeueRecord_def)
qed

section \<open>A reachable system with one job\<close>

definition one_job :: system where
  "one_job = \<lparr>sy_world = [(''q'', plain_added ''n'' 0 0 (sample_queue ''q''))], sy_workers = [], sy_now = 0\<rparr>"

lemma reachable_one_job: "reachable sample_env (\<lambda>_. True) one_job"
proof -
  let ?q0 = "new_TestQueue ''q'' True plain_serializer None"
  let ?s1 = "empty_system\<lparr>sy_world := jm_set ''q'' ?q0 (sy_world empty_system)\<rparr>"
  let ?s2 = "?s1\<lparr>sy_world := with_queue ''q'' (\<lambda>q. fst (alloc_opts default_opts q)) (sy_world ?s1)\<rparr>"
  have s1: "reachable sample_env (\<lambda>_. True) ?s1"
    by (rule reachable.steps [OF reachable.start sys_step.open_queue]) (simp add: empty_system_def)
  have s2: "reachable sample_env (\<lambda>_. True) ?s2"
    by (rule reachable.steps [OF s1 sys_step.new_options])
  have w2: "sy_world ?s2 = [(''q'', sample_queue ''q'')]"
    by (simp add: empty_system_def with_queue_def sample_queue_def)
  have "add ''q'' ''n'' JNull 0 (sy_now ?s2) (sy_world ?s2)
      = (jm_set ''q'' (plain_added ''n'' 0 (sy_now ?s2) (sample_queue ''q'')) (sy_world ?s2), Inr (Some 0))"
    unfolding w2
    using add_default [where q = "sample_queue ''q''" and n = "''q''" and o' = 0] by simp
  from reachable.steps [OF s2 sys_step.add_call [OF this]] w2
  show ?thesis by (simp add: one_job_def empty_system_def)
qed

text \<open>A worker on the queue with one job.\<close>

definition plain_worker_opts :: worker_opts where
  "plain_worker_opts = \<lparr>wo_concurrency = None, wo_batch = None, wo_limiter = None, wo_tokenLimiter = None,
     wo_backoff = (\<lambda>_. None), wo_dlq = None\<rparr>"

definition plain_worker :: worker where
  "plain_worker = (new_worker 0 ''q'' plain_worker_opts 0)\<lparr>wk_processing := True\<rparr>"

definition attended_queue :: tq where
  "attended_queue = (plain_added ''n'' 0 0 (sample_queue ''q''))\<lparr>q_workers := [''test-worker-1'']\<rparr>"

definition one_worker :: system where
  "one_worker = \<lparr>sy_world = [(''q'', attended_queue)], sy_workers = [plain_worker], sy_now = 0\<rparr>"

lemma plain_added_workers [simp]:
  "q_workers (plain_added name o' now q) = q_workers q" "q_schedulers (plain_added name o' now q) = q_schedulers q"
  by (simp_all add: plain_added_def Let_def enqueueWaiting_def store_record_def set_state_def upd_def emit_def
      push_waiting_def dequeueRecord_def)

lemma sample_queue_workers [simp]: "q_workers (sample_queue n) = []"
  by (simp add: sample_queue_def alloc_opts_def new_TestQueue_def)

lemma reachable_one_worker: "reachable sample_env (\<lambda>_. True) one_worker"
proof -
  have w: "new_TestWorker 0 ''q'' plain_worker_opts (sy_now one_job) (sy_world one_job) = Inr ([(''q'', attended_queue)], plain_worker)"
    by (simp add: new_TestWorker_def plain_worker_opts_def plain_worker_def check_batch_def one_job_def andThen_def
        on_q_def on_k_def with_queue_def nonempty_str_def onWorkerAttached_def ensureSchedulerLoop_def set_add_def
        new_worker_def attended_queue_def)
  from reachable.steps [OF reachable_one_job sys_step.new_worker_call [OF w]]
  show ?thesis by (simp add: one_job_def one_worker_def)
qed

end
