(* ===== verification/Tq_Props.thy ===== *)
theory Tq_Props
  imports Tq_Samples
begin

text \<open>
  Properties of the reachable states of the testing mode, and the concrete runs that show the
  hypotheses of the \<open>TestQueue\<close> theorems can hold.
\<close>

section \<open>Samples with several jobs\<close>

lemma reachable_add:
  assumes "reachable en vtz s" and "sy_world s = [(n, q)]"
    and "q_opts q o' = default_opts" and "q_serializer q = plain_serializer"
    and "lookup q (show_nat (Suc (q_idCounter q))) = None"
  shows "reachable en vtz (s\<lparr>sy_world := [(n, plain_added name o' (sy_now s) q)]\<rparr>)"
proof -
  have "add n name data o' (sy_now s) (sy_world s)
      = (jm_set n (plain_added name o' (sy_now s) q) (sy_world s), Inr (Some (q_next q)))" for data
    by (rule add_default) (use assms in simp_all)
  from reachable.steps [OF assms(1) sys_step.add_call [OF this]] assms(2) show ?thesis by simp
qed

text \<open>Two queued jobs, added one after the other.\<close>

definition two_job_queue :: tq where
  "two_job_queue = plain_added ''b'' 0 0 (plain_added ''n'' 0 0 (sample_queue ''q''))"

lemma reachable_two_jobs:
  "reachable sample_env (\<lambda>_. True) (one_job\<lparr>sy_world := [(''q'', two_job_queue)]\<rparr>)"
  using reachable_add [OF reachable_one_job, where n = "''q''" and o' = 0]
  by (simp add: one_job_def two_job_queue_def)

lemma two_job_queue_ok: "tq_wf two_job_queue" "dispatchable {} two_job_queue"
  using reachable_system_ok [OF reachable_two_jobs]
  by (simp_all add: system_ok_def one_job_def world_ok_def held_by_def qok_def)

section \<open>No job is stranded\<close>



section \<open>Witnesses of the queue theorems\<close>

lemma take_all_dispatch_order_witness:
  "take_all 3 two_job_queue = waitingInDispatchOrder (promotePrioritized two_job_queue) \<and> q_waiting two_job_queue = [0, 1]"
proof -
  have w: "q_waiting two_job_queue = [0, 1]" by (simp add: two_job_queue_def)
  moreover have "prio two_job_queue r = 0" if "r = 0 \<or> r = 1" for r
    using that by (auto simp: prio_def opts_of_def two_job_queue_def)
  ultimately show ?thesis using take_all_dispatch_order [OF two_job_queue_ok, of 3] by simp
qed

text \<open>A flow limited to 100 tokens that used 150, and the same flow after its limit was raised.\<close>

definition sample_usage :: job_usage where
  "sample_usage = \<lparr>u_model = None, u_provider = None, u_tokens = Some [(''input'', Num 150)], u_totalTokens = Some (Num 150),
     u_costs = None, u_totalCost = Some (Num 0), u_costUnit = None, u_latencyMs = None, u_cached = None\<rparr>"

definition sample_limits :: budget_limits where
  "sample_limits = \<lparr>bl_maxTotalTokens = Some (Num 100), bl_maxTokens = None, bl_tokenWeights = None,
     bl_maxTotalCost = None, bl_maxCosts = None, bl_costUnit = None, bl_pause = None\<rparr>"

definition sample_raise :: budget_changes where
  "sample_raise = \<lparr>bc_maxTotalTokens = SetTo (Num 200), bc_maxTokens = Unchanged, bc_tokenWeights = Unchanged,
     bc_maxTotalCost = Unchanged, bc_maxCosts = Unchanged, bc_costUnit = Unchanged, bc_pause = None\<rparr>"

definition sample_ops :: "budget_op list" where
  "sample_ops = [SetBudget ''f'' sample_limits, ChargeUsage ''f'' sample_usage]"

lemma sample_usage_valid: "valid_usage sample_usage"
proof -
  have "validateAndResolveUsage sample_usage = Inr sample_usage" by code_simp
  then show ?thesis unfolding valid_usage_def by (rule exI)
qed

definition charged :: "jsnum \<Rightarrow> bool \<Rightarrow> budget" where
  "charged m x = \<lparr>b_maxTotalTokens = Some m, b_maxTokens = None, b_tokenWeights = None, b_maxTotalCost = None,
     b_maxCosts = None, b_costUnit = None, b_usedTokens = 150, b_usedCost = 0,
     b_usedTokensByCategory = [(''input'', 150)], b_usedCostsByCategory = [], b_exceeded = x, b_pause = False\<rparr>"

lemma charged_exceeded: "budgetLimitsExceeded (charged m x) = (Num 0 < m \<and> m < Num 150)"
  by (auto simp: charged_def budgetLimitsExceeded_def limit_passed_def category_passed_def)

lemma sample_ops_run:
  "q_budgets (fold run_budget_op sample_ops (sample_queue ''q'')) = [(''f'', charged (Num 100) True)]"
  "q_budgets (fold run_budget_op (sample_ops @ [UpdateBudget ''f'' sample_raise]) (sample_queue ''q'')) =
     [(''f'', charged (Num 200) False)]"
  by (simp_all add: sample_ops_def setBudget_def charge_usage_def sample_limits_def sample_raise_def sample_usage_def
      amounts_def weights_of_def computeWeightedTotal_def recordBudgetUsage_def charge_def add_amounts_def
      flag_exceeded_def budgetLimitsExceeded_def limit_passed_def category_passed_def add_at_def
      updateFlowBudget_def change_budget_def charged_def num_or_def token_weight_def change_limit_def at_or_0_def or_else_def Let_def)

lemma budget_flags_exact_witness:
  "checkBudget ''f'' (fold run_budget_op sample_ops (sample_queue ''q'')) = BudgetExceeded \<and>
   checkBudget ''f'' (fold run_budget_op (sample_ops @ [UpdateBudget ''f'' sample_raise]) (sample_queue ''q'')) = BudgetOk"
proof -
  have ok: "flags_exact (sample_queue ''q'')" by (simp add: flags_exact_def)
  have v: "\<forall>k u. ChargeUsage k u \<in> set ops \<longrightarrow> valid_usage u"
    if "ops = sample_ops \<or> ops = sample_ops @ [UpdateBudget ''f'' sample_raise]" for ops
    using that sample_usage_valid by (auto simp: sample_ops_def)
  show ?thesis
    using budget_flags_exact [OF ok v, of sample_ops "''f''"] 
      budget_flags_exact [OF ok v, of "sample_ops @ [UpdateBudget ''f'' sample_raise]" "''f''"]
    by (simp add: sample_ops_run charged_exceeded del: fold_append)
qed

end
