(* ===== verification/Tq_Liveness.thy ===== *)
theory Tq_Liveness
  imports Tq_Props "HOL-Library.Multiset"
begin

text \<open>
  A pass of \<open>processAvailable\<close> ends, with the fuel the model gives it, and leaves no slot idle
  while a job can be started. The measure is the load of the queue: an entry that may be settled
  without running (it carries a time to live or a budget) counts twice, because its failure may add a
  dead letter to the same queue.
\<close>

section \<open>The load of a queue\<close>

definition may_skip :: "tq \<Rightarrow> nat \<Rightarrow> bool" where
  "may_skip q r \<longleftrightarrow> nonempty_str (j_budgetKey (q_rec q r)) \<noteq> None \<or> j_expireAt (q_rec q r) \<noteq> None"

definition job_load :: "tq \<Rightarrow> nat \<Rightarrow> nat" where
  "job_load q r = (if may_skip q r then 2 else 1)"

definition queue_load :: "tq \<Rightarrow> nat" where
  "queue_load q = sum_list (map (job_load q) (q_waiting q))"

text \<open>No entry is added and no record becomes one that may be skipped.\<close>

definition lighter :: "tq \<Rightarrow> tq \<Rightarrow> bool" where
  "lighter q q' \<longleftrightarrow> (\<forall>r. job_load q' r = job_load q r) \<and> mset (q_waiting q') \<subseteq># mset (q_waiting q)"

lemma lighter_refl [simp]: "lighter q q"
  by (simp add: lighter_def)

lemma lighter_trans: "lighter a b \<Longrightarrow> lighter b c \<Longrightarrow> lighter a c"
  by (auto simp: lighter_def intro: subset_mset.trans)

lemma lighter_load:
  assumes "lighter q q'"
  shows "queue_load q' \<le> queue_load q"
proof -
  obtain m where m: "mset (q_waiting q) = mset (q_waiting q') + m"
    using assms by (auto simp: lighter_def mset_subset_eq_exists_conv)
  have f: "job_load q' = job_load q" using assms by (auto simp: lighter_def)
  have "queue_load q = sum_mset (image_mset (job_load q) (mset (q_waiting q)))"
    by (simp add: queue_load_def sum_mset_sum_list flip: mset_map)
  also have "\<dots> = queue_load q' + sum_mset (image_mset (job_load q) m)"
    by (simp add: m queue_load_def f sum_mset_sum_list flip: mset_map)
  finally show ?thesis by simp
qed

lemma job_load_bounds: "1 \<le> job_load q r" "job_load q r \<le> 2"
  by (simp_all add: job_load_def)

lemma queue_load_bound: "queue_load q \<le> 2 * length (q_waiting q)"
proof -
  have "sum_list (map (job_load q) rs) \<le> 2 * length rs" for rs
    by (induction rs) (simp_all add: job_load_def)
  then show ?thesis by (simp add: queue_load_def)
qed

section \<open>Steps that add nothing\<close>

lemma job_load_rec: "q_rec q' = q_rec q \<Longrightarrow> job_load q' r = job_load q r"
  by (simp add: job_load_def may_skip_def)

lemma lighter_same: "q_rec q' = q_rec q \<Longrightarrow> q_waiting q' = q_waiting q \<Longrightarrow> lighter q q'"
  by (auto simp: lighter_def intro: job_load_rec)

lemma lighter_upd:
  assumes "\<And>j. j_budgetKey (f j) = j_budgetKey j \<and> j_expireAt (f j) = j_expireAt j"
  shows "lighter q (upd r f q)"
  using assms by (simp add: lighter_def job_load_def may_skip_def)

lemma lighter_set_state [simp]: "lighter q (set_state r s q)"
  unfolding set_state_def by (rule lighter_upd) simp

lemma lighter_dequeue [simp]: "lighter q (dequeueRecord r q)"
  by (simp add: lighter_def dequeueRecord_def job_load_def may_skip_def)

lemma lighter_simple [simp]:
  "lighter q (emit e q)" "lighter q (delete_job i q)" "lighter q (clearPromotion i q)"
  "lighter q (recordMetric ty p n q)" "lighter q (ensureSchedulerLoop now q)"
  "lighter q (drop_scheduler nm q)" "lighter q (put_scheduler nm x q)"
proof -
  have e: "q_rec (ensureSchedulerLoop now q) = q_rec q" "q_waiting (ensureSchedulerLoop now q) = q_waiting q"
    by (auto simp: ensureSchedulerLoop_def clearSchedulerTimer_def split: option.split)
  show "lighter q (emit e q)" by (rule lighter_same) simp_all
  show "lighter q (delete_job i q)" by (rule lighter_same) (simp_all add: delete_job_def)
  show "lighter q (clearPromotion i q)" by (rule lighter_same) (simp_all add: clearPromotion_def)
  show "lighter q (recordMetric ty p n q)" by (rule lighter_same) (simp_all add: recordMetric_def)
  show "lighter q (ensureSchedulerLoop now q)" by (rule lighter_same) (simp_all add: e)
  show "lighter q (drop_scheduler nm q)" by (rule lighter_same) (simp_all add: drop_scheduler_def)
  show "lighter q (put_scheduler nm x q)" by (rule lighter_same) (simp_all add: put_scheduler_def)
qed

lemma lighter_parkDelayed [simp]: "lighter q (parkDelayed r d now q)"
proof -
  have "lighter a (schedulePromotion r d now a)" for a
  proof -
    let ?u = "upd r (\<lambda>j. j\<lparr>j_delayedUntil := Some (of_int now + promotion_wait d)\<rparr>) (clearPromotion (id_of a r) a)"
    have "lighter a ?u" by (rule lighter_trans [OF lighter_simple(3)]) (rule lighter_upd, simp)
    moreover have "lighter ?u (schedulePromotion r d now a)"
      by (rule lighter_same) (simp_all add: schedulePromotion_def Let_def)
    ultimately show ?thesis by (rule lighter_trans)
  qed
  then show ?thesis
    unfolding parkDelayed_def by (meson lighter_dequeue lighter_set_state lighter_trans)
qed

lemma lighter_delete_records [simp]: "lighter q (delete_records rs q)"
proof -
  have "lighter q (fold (\<lambda>r q. delete_job (id_of q r) q) rs q)"
    by (induction rs arbitrary: q) (auto intro: lighter_trans [OF lighter_simple(2)])
  then show ?thesis by (simp add: delete_records_def)
qed

lemma lighter_applyRetention [simp]: "lighter q (applyRetention r st now q)"
proof -
  have k: "lighter a (keep_newest st n a)" for a n by (simp add: keep_newest_def Let_def)
  have d: "lighter a (drop_older st t n a)" for a t n by (simp add: drop_older_def)
  have "lighter q (keep_newest st n (drop_older st t a q))" for t a n
    by (rule lighter_trans [OF d k])
  then show ?thesis
    using k by (simp add: applyRetention_def Let_def split: retention.split)
qed

lemma lighter_finished [simp]: "lighter q (scheduler_finished en r now q)"
proof -
  have "lighter q (ensureSchedulerLoop now (f q))" if "lighter q (f q)" for f
    using that lighter_simple(5) by (rule lighter_trans)
  from this [of "drop_scheduler nm" for nm] this [of "put_scheduler nm x" for nm x] show ?thesis
    by (auto simp: scheduler_finished_def onSchedulerJobFinished_def split: option.split sum.split)
qed

section \<open>Dead letters\<close>

lemma load_push: "queue_load (push_waiting r q) = queue_load q + job_load q r"
proof -
  have "job_load (push_waiting r q) = job_load q" by (rule ext) (simp add: job_load_def may_skip_def push_waiting_def)
  then show ?thesis by (simp add: queue_load_def push_waiting_def)
qed

lemma load_enqueue:
  "queue_load (enqueueWaiting r q) \<le> queue_load q + job_load q r"
  "queue_load (enqueuePrioritized r q) \<le> queue_load q + job_load q r"
proof -
  have l: "lighter q (set_state r s (dequeueRecord r q))" for s
    by (rule lighter_trans [OF lighter_dequeue lighter_set_state])
  have p: "queue_load (push_waiting r (set_state r s (dequeueRecord r q))) \<le> queue_load q + job_load q r" for s
    using lighter_load [OF l, of s] l [of s] by (simp add: load_push lighter_def)
  have e: "queue_load (emit ev a) = queue_load a" for ev a
    by (simp add: queue_load_def job_load_def [abs_def] may_skip_def)
  show "queue_load (enqueueWaiting r q) \<le> queue_load q + job_load q r"
    "queue_load (enqueuePrioritized r q) \<le> queue_load q + job_load q r"
    using p by (simp_all add: enqueueWaiting_def enqueuePrioritized_def Let_def e)
qed

lemma load_place: "queue_load (place_record r d p now q) \<le> queue_load q + job_load q r"
  using load_enqueue [of r q] lighter_load [OF lighter_parkDelayed, of r d now q]
  by (simp add: place_record_def)

lemma load_store_record:
  assumes "tq_wf q"
  shows "queue_load (store_record i j q) = queue_load q"
proof -
  have "job_load (store_record i j q) r = job_load q r" if "r \<in> set (q_waiting q)" for r
    using assms that by (auto simp: tq_wf_def job_load_def may_skip_def store_record_def)
  then show ?thesis by (simp add: queue_load_def cong: map_cong)
qed

lemma load_insert_dead_letter:
  assumes "insert_dead_letter json name d now q = (q', res)" and "tq_wf q"
  shows "queue_load q' \<le> queue_load q + 1"
proof -
  define q1 where "q1 = fst (alloc_opts default_opts q)"
  define o' where "o' = snd (alloc_opts default_opts q)"
  have q1: "q_opts q1 o' = default_opts" "tq_wf q1" "queue_load q1 = queue_load q"
    using assms(2)
    by (simp_all add: q1_def o'_def alloc_opts_def tq_wf_def queue_load_def job_load_def [abs_def] may_skip_def
        lookup_def id_of_def)
  obtain q2 idr where g: "generateJobId [] q1 = (q2, idr)" by fastforce
  obtain c where q2: "q2 = q1\<lparr>q_idCounter := c\<rparr>" using generateJobId_frame [OF g] by blast
  have q2': "q_opts q2 o' = default_opts" "tq_wf q2" "queue_load q2 = queue_load q"
    using q1 by (simp_all add: q2 tq_wf_def queue_load_def job_load_def [abs_def] may_skip_def lookup_def id_of_def)
  have ins: "queue_load a \<le> queue_load q + 1"
    if "insertRecord name s o' i now 0 json id q2 = (a, r)" for s i a r
  proof (cases "deserialize json s")
    case None
    then show ?thesis using that q2'(3) by (simp add: insertRecord_def)
  next
    case (Some data)
    let ?s = "store_record i (new_record i name data o' now 0 id) q2"
    have "job_load ?s (q_next q2) = 1"
      by (simp add: job_load_def may_skip_def store_record_def new_record_def blank_job_def nonempty_str_def)
    then have "queue_load (place_record (q_next q2) 0 0 now ?s) \<le> queue_load q + 1"
      using load_place [of "q_next q2" 0 0 now ?s] load_store_record [OF q2'(2)] q2'(3) by simp
    then show ?thesis
      using that Some q2'(1) lighter_load [OF lighter_simple(1)]
      by (auto simp: insertRecord_def Let_def num_or_def intro: order_trans)
  qed
  have "alloc_opts default_opts q = (q1, o')" by (simp add: q1_def o'_def)
  then show ?thesis
    using assms(1) g ins q2'(3) by (auto simp: insert_dead_letter_def split: option.splits sum.splits)
qed

lemma load_moveToDeadLetter:
  assumes "tq_wf (own st)" and "jm_get (fst st) (wk_queue (snd st)) = Some q"
  shows "queue_load (own (moveToDeadLetter en r h e now st)) \<le> queue_load (own st) + 1"
proof -
  have "queue_load (own (w', snd st)) \<le> queue_load (own st) + 1"
    if "addDeadLetter js n nm d now (fst st) = (w', res)" for js n nm d w' res
  proof (cases "n = wk_queue (snd st)")
    case True
    obtain q' x where i: "insert_dead_letter js nm d now q = (q', x)" by fastforce
    have "w' = jm_set n q' (fst st)"
      using that True assms(2) i by (auto simp: addDeadLetter_def ensure_queue_def run_on_def split: prod.splits)
    then have "own (w', snd st) = q'" using True by (simp add: own_def js_map_simps)
    then show ?thesis using load_insert_dead_letter [OF i] assms own_eq [OF assms(2)] by simp
  next
    case False
    then have "jm_get w' (wk_queue (snd st)) = jm_get (fst st) (wk_queue (snd st))"
      using that by (auto simp: addDeadLetter_def ensure_queue_def run_on_def js_map_simps split: option.splits prod.splits)
    then have "own (w', snd st) = own st" by (simp add: own_def)
    then show ?thesis by simp
  qed
  then show ?thesis
    by (auto simp: moveToDeadLetter_def Let_def split: option.splits prod.splits sum.splits)
qed

section \<open>Settling a job that does not run\<close>

lemma lighter_on_q: "(\<And>q. lighter q (f q)) \<Longrightarrow> lighter (own st) (own (on_q f st))"
  by (simp add: own_on_q)

lemma load_on_q: "(\<And>q. lighter q (f q)) \<Longrightarrow> queue_load (own (on_q f st)) \<le> queue_load (own st)"
  by (rule lighter_load [OF lighter_on_q])

lemma lighter_failure [simp]:
  "lighter q (count_attempt r e q)" "lighter q (finish_failed r now q)"
  "lighter q (park_retry r d now q)" "lighter q (fail_rate_limited r e d now q)"
  "lighter q (parkActiveDelayed r d now q)" "lighter q (mark_active now r q)"
proof -
  have u: "lighter q (upd r f q)" if "\<And>j. j_budgetKey (f j) = j_budgetKey j \<and> j_expireAt (f j) = j_expireAt j" for f
    using that by (rule lighter_upd)
  show "lighter q (count_attempt r e q)" "lighter q (mark_active now r q)"
    unfolding count_attempt_def mark_active_def by (rule u, simp)+
  show "lighter q (finish_failed r now q)"
    unfolding finish_failed_def Let_def
    by (rule lighter_trans [OF lighter_trans [OF u lighter_applyRetention] lighter_simple(4)]) simp
  show "lighter q (park_retry r d now q)"
    unfolding park_retry_def by (rule lighter_trans [OF u lighter_parkDelayed]) simp
  show "lighter q (fail_rate_limited r e d now q)"
    unfolding fail_rate_limited_def
    by (rule lighter_trans [OF lighter_trans [OF u lighter_parkDelayed] lighter_simple(1)]) simp
  show "lighter q (parkActiveDelayed r d now q)"
    unfolding parkActiveDelayed_def by (rule lighter_trans [OF lighter_parkDelayed lighter_simple(1)])
qed

lemma load_fail_terminally:
  assumes "tq_wf (own (on_q (finish_failed r now) st))" and "jm_get (fst st) (wk_queue (snd st)) = Some q"
  shows "queue_load (own (fail_terminally en r h e now st)) \<le> queue_load (own st) + 1"
proof -
  let ?f = "on_q (finish_failed r now) st"
  obtain q' where q': "jm_get (fst ?f) (wk_queue (snd ?f)) = Some q'"
    using assms(2) by (simp add: on_q_def with_queue_def js_map_simps)
  have "queue_load (own (fail_terminally en r h e now st)) \<le> queue_load (own (moveToDeadLetter en r h e now ?f))"
    unfolding fail_terminally_def
    by (rule order_trans [OF load_on_q order_trans [OF load_on_q]]) simp_all
  also have "\<dots> \<le> queue_load (own ?f) + 1" by (rule load_moveToDeadLetter [OF assms(1) q'])
  also have "queue_load (own ?f) \<le> queue_load (own st)" by (rule load_on_q) simp
  finally show ?thesis by simp
qed

lemma sys_ok_own:
  assumes "sys_ok G st" and "jm_get (fst st) (wk_queue (snd st)) = Some q"
  shows "tq_wf (own st)"
proof -
  have "qok (held G (snd st) (wk_queue (snd st))) q"
    using assms by (auto simp: sys_ok_def dest: world_okD)
  then show ?thesis using own_eq [OF assms(2)] by (simp add: qok_def)
qed

lemma load_handleFailure:
  assumes "sys_ok G st" and "isCurrent st r"
  shows "queue_load (own (handleFailure en r h e now st)) \<le> queue_load (own st) + 1"
proof -
  obtain q where q: "jm_get (fst st) (wk_queue (snd st)) = Some q"
    using isCurrent_queue [OF assms(2)] by blast
  let ?st2 = "on_q (count_attempt r e) st"
  have q2: "jm_get (fst ?st2) (wk_queue (snd ?st2)) = Some (count_attempt r e q)"
    using q by (simp add: on_q_def with_queue_def js_map_simps)
  have "sys_ok G (on_q (finish_failed r now) ?st2)" by (intro sys_ok_simple assms(1)) simp_all
  then have wf: "tq_wf (own (on_q (finish_failed r now) ?st2))"
    by (rule sys_ok_own [where q = "finish_failed r now (count_attempt r e q)"])
       (use q2 in \<open>simp add: on_q_def with_queue_def js_map_simps\<close>)
  have l2: "queue_load (own ?st2) \<le> queue_load (own st)" by (rule load_on_q) simp
  have t: "queue_load (own (fail_terminally en r h e now ?st2)) \<le> queue_load (own st) + 1"
    using load_fail_terminally [OF wf q2, of en h e] l2 by simp
  have p: "queue_load (own (on_q (emit ev) (wk_emit we (on_q (park_retry r d now) ?st2)))) \<le> queue_load (own st)" for ev we d
    by (rule order_trans [OF load_on_q]) (simp_all add: order_trans [OF load_on_q l2])
  have rl: "queue_load (own (on_q (fail_rate_limited r e d now) (on_k f st))) \<le> queue_load (own st)"
    if "\<And>k. wk_queue (f k) = wk_queue k" for d f
    by (rule order_trans [OF load_on_q]) (simp_all add: that)
  show ?thesis
    using assms(2) t p rl by (auto simp: handleFailure_def Let_def intro: le_SucI)
qed

text \<open>A job settled without running was one that may skip; it adds at most one entry.\<close>

lemma load_begin_job:
  assumes "begin_job en r h now st = (st', False)" and "sys_ok G st" and "isCurrent st r"
  shows "may_skip (own st) r" and "queue_load (own st') \<le> queue_load (own st) + 1"
proof -
  have e: "queue_load (own (expire r h now st)) \<le> queue_load (own st)"
  proof -
    have "lighter a (recordMetric Failed p now (mark_failed m now r a))" for a p m
      unfolding mark_failed_def by (rule lighter_trans [OF lighter_upd lighter_simple(4)]) simp
    then have l: "queue_load (own (on_q (\<lambda>q. recordMetric Failed (j_processedOn (q_rec q r)) now (mark_failed ''expired'' now r q)) st))
        \<le> queue_load (own st)" by (intro load_on_q)
    show ?thesis
      unfolding expire_def by (rule order_trans [OF load_on_q]) (simp_all add: l)
  qed
  have ob: "queue_load (own (over_budget en r h now st)) \<le> queue_load (own st) + 1"
  proof -
    have "queue_load (own (on_q (parkActiveDelayed r d now) (wk_emit ev st))) \<le> queue_load (own st)" for d ev
      by (rule order_trans [OF load_on_q]) simp_all
    moreover have "queue_load (own (handleFailure en r h x now (wk_emit ev st))) \<le> queue_load (own st) + 1" for x ev
      using load_handleFailure [of G "wk_emit ev st" r en h x now] assms(2,3) by simp
    ultimately show ?thesis by (auto simp: over_budget_def Let_def intro: le_SucI)
  qed
  show "queue_load (own st') \<le> queue_load (own st) + 1"
    using assms(1) e ob by (auto simp: begin_job_def split: if_splits)
  show "may_skip (own st) r"
    using assms(1) by (auto simp: begin_job_def is_expired_def budget_exceeded_def may_skip_def split: if_splits option.splits)
qed

section \<open>Taking a job\<close>

lemma mset_compact: "mset (compact q seen rs) \<subseteq># mset rs"
proof (induction rs arbitrary: seen)
  case (Cons r rs)
  have "mset rs \<subseteq># add_mset r (mset rs)" by simp
  with Cons [of seen] have "mset (compact q seen rs) \<subseteq># add_mset r (mset rs)" by (rule subset_mset.trans)
  with Cons [of "id_of q r # seen"] show ?case by simp
qed simp

lemma lighter_next: "lighter q (compact_waiting (promotePrioritized q))"
proof -
  have "lighter a (promote_one r a)" for r a
    unfolding promote_one_def by (auto intro: lighter_trans [OF lighter_set_state lighter_simple(1)])
  then have "lighter a (fold promote_one rs a)" for rs a
    by (induction rs arbitrary: a) (auto intro: lighter_trans)
  then have "lighter q (promotePrioritized q)" by (simp add: promotePrioritized_def)
  moreover have "lighter a (compact_waiting a)" for a
    by (simp add: lighter_def mset_compact job_load_def may_skip_def compact_waiting_def)
  ultimately show ?thesis by (rule lighter_trans)
qed

lemma lighter_hasWaiting: "hasWaiting q = (q', b) \<Longrightarrow> lighter q q'"
  by (auto simp: hasWaiting_def nextWaitingIndex_def Let_def lighter_next)

lemma load_take:
  assumes "takeNextWaiting q = (q', Some r)"
  shows "queue_load q' + job_load q' r \<le> queue_load q"
  using assms
proof (cases rule: takeNextWaiting_cases)
  case (some i c)
  let ?xs = "q_waiting c"
  have "queue_load c = sum_list (map (job_load c) (take i ?xs @ ?xs ! i # drop (Suc i) ?xs))"
    unfolding queue_load_def using id_take_nth_drop [OF some(2)] by simp
  then have "queue_load c = job_load c (?xs ! i) + sum_list (map (job_load c) (drop_at i ?xs))"
    by (simp add: drop_at_def)
  moreover have "job_load q' = job_load c" by (rule ext) (simp add: some(5) job_load_def may_skip_def)
  ultimately have "queue_load q' + job_load q' r = queue_load c"
    using some(4) by (simp add: queue_load_def some(5))
  then show ?thesis using lighter_load [OF lighter_next] some(1) by simp
qed simp

text \<open>The pass stops for a reason: the worker is full, the queue is empty, or a rate limit wakes it later.\<close>

definition stopped :: "sys \<Rightarrow> bool" where
  "stopped st \<longleftrightarrow>
     wk_concurrency (snd st) \<le> wk_active (snd st) \<or> q_waiting (own st) = [] \<or> wk_rateLimitTimer (snd st) \<noteq> None"

lemma hasWaiting_queue:
  assumes "hasWaiting (own st) = (q1, True)"
  shows "\<exists>q. jm_get (fst st) (wk_queue (snd st)) = Some q"
proof (rule ccontr)
  assume "\<not> ?thesis"
  then have "own st = no_queue" by (simp add: own_def del: map_of_eq_Some_iff)
  with assms hasWaiting_no_queue show False by simp
qed

lemma load_findNextWaiting:
  assumes "findNextWaiting now st = (st1, res)"
  shows "res = Some r \<Longrightarrow> queue_load (own st1) + job_load (own st1) r \<le> queue_load (own st)"
    and "res = None \<Longrightarrow> queue_load (own st1) \<le> queue_load (own st) \<and> stopped st1"
proof -
  obtain q1 b where hw: "hasWaiting (own st) = (q1, b)" by fastforce
  obtain k w where ar: "acquireRateSlot now (snd st) = (k, w)" by fastforce
  obtain q2 tr where tk: "takeNextWaiting q1 = (q2, tr)" by fastforce
  have fr: "wk_queue k = wk_queue (snd st)" using acquireRateSlot_frame [OF ar] by blast
  have l1: "queue_load q1 \<le> queue_load (own st)" by (rule lighter_load [OF lighter_hasWaiting [OF hw]])
  have own1: "own (on_q (\<lambda>_. q1) st) = q1 \<or> own (on_q (\<lambda>_. q1) st) = own st" for q1
    by (simp add: own_on_q)
  show "queue_load (own st1) + job_load (own st1) r \<le> queue_load (own st)" if r: "res = Some r"
  proof -
    have b: "b" and st1: "st1 = on_k (\<lambda>_. k) (on_q (\<lambda>_. q2) st)" and tr: "tr = Some r"
      using assms r hw ar tk by (auto simp: findNextWaiting_def split: bool.splits if_splits)
    have "\<exists>q. jm_get (fst st) (wk_queue (snd st)) = Some q" using hasWaiting_queue b hw by simp
    then have "own st1 = q2" using fr by (auto simp: st1 own_def on_q_def with_queue_def js_map_simps simp del: map_of_eq_Some_iff)
    then show ?thesis using load_take [of q1 q2 r] tk tr l1 by simp
  qed
  show "queue_load (own st1) \<le> queue_load (own st) \<and> stopped st1" if r: "res = None"
  proof (cases "b \<and> \<not> w > 0")
    case True
    then have st1: "st1 = on_k (\<lambda>_. k) (on_q (\<lambda>_. q2) st)" and tr: "tr = None"
      using assms r hw ar tk by (auto simp: findNextWaiting_def)
    have e: "q_waiting q2 = []" using tk unfolding tr by (cases rule: takeNextWaiting_cases) auto
    have "\<exists>q. jm_get (fst st) (wk_queue (snd st)) = Some q" using hasWaiting_queue True hw by simp
    then have "own st1 = q2" using fr by (auto simp: st1 own_def on_q_def with_queue_def js_map_simps simp del: map_of_eq_Some_iff)
    then show ?thesis using e by (simp add: stopped_def queue_load_def)
  next
    case False
    define f where "f = (if b then (\<lambda>_. wakeAfterRateLimit w now k) else id)"
    have st1: "st1 = on_k f (on_q (\<lambda>_. q1) st)"
      using assms r hw ar False by (auto simp: findNextWaiting_def f_def on_k_def prod_eq_iff split: bool.splits)
    have fq: "wk_queue (f (snd st)) = wk_queue (snd st)"
      using fr by (simp add: f_def wakeAfterRateLimit_def)
    have own: "own st1 = own (on_q (\<lambda>_. q1) st)" using fq by (simp add: st1 own_def)
    have "stopped st1"
    proof (cases b)
      case True
      then show ?thesis by (simp add: stopped_def st1 f_def wakeAfterRateLimit_def)
    next
      case False
      then have "q_waiting q1 = []"
        using hw best_entry_None by (auto simp: hasWaiting_def nextWaitingIndex_def Let_def)
      moreover have "q_waiting (own st) = []" if "jm_get (fst st) (wk_queue (snd st)) = None"
        using that by (simp add: own_def no_queue_def new_TestQueue_def)
      ultimately show ?thesis by (simp add: stopped_def own own_on_q)
    qed
    then show ?thesis using own own1 [of q1] l1 by auto
  qed
qed

section \<open>Batches add nothing\<close>

lemma load_fill_batch: "queue_load (own (fill_batch n now st)) \<le> queue_load (own st)"
proof (induction n now st rule: fill_batch.induct)
  case (2 n now st)
  obtain st1 res where f: "findNextWaiting now st = (st1, res)" by fastforce
  show ?case
  proof (cases res)
    case None
    then show ?thesis using load_findNextWaiting(2) [OF f] f by (simp add: takeWaitingRecord_def)
  next
    case (Some r)
    have "queue_load (own (fill_batch n now (on_k (\<lambda>k. k\<lparr>wk_pending := wk_pending k @ [r]\<rparr>) st1))) \<le> queue_load (own st1)"
      using 2 [of st1 "Some r"] f Some by (simp add: takeWaitingRecord_def)
    then show ?thesis using load_findNextWaiting(1) [OF f Some] f Some by (simp add: takeWaitingRecord_def)
  qed
qed simp

lemma load_run_pending: "queue_load (own (run_pending now st)) \<le> queue_load (own st)"
proof -
  have "lighter q (fold (mark_active now) rs q)" for rs q
    by (induction rs arbitrary: q) (auto intro: lighter_trans [OF lighter_failure(6)])
  from load_on_q [of "fold (mark_active now) (wk_pending (snd st))", OF this, of "on_k (\<lambda>k. k\<lparr>wk_pending := []\<rparr>) st"]
  show ?thesis by (simp add: run_pending_def executeBatch_def Let_def)
qed

lemma load_processAvailableBatch: "queue_load (own (processAvailableBatch now st)) \<le> queue_load (own st)"
proof -
  have o: "own (clearBatchTimer x) = own x" "own (scheduleBatchFlush now x) = own x" "own (check_drained x) = own x"
    "own (prune_pending x) = own x" for x
    by (simp_all add: clearBatchTimer_def scheduleBatchFlush_def check_drained_def prune_pending_def)
  have "queue_load (own (start_batch c now x)) \<le> queue_load (own x)" for c x
    using load_run_pending [of now x] load_run_pending [of now "clearBatchTimer x"]
    by (simp add: start_batch_def Let_def o)
  then have "queue_load (own (start_batch c now (fill_batch n now (prune_pending st)))) \<le> queue_load (own (prune_pending st))" for c n
    using load_fill_batch by (rule order_trans)
  then have "queue_load (own (start_batch c now (fill_batch n now (prune_pending st)))) \<le> queue_load (own st)" for c n
    by (simp only: o)
  then show ?thesis by (simp add: processAvailableBatch_def Let_def)
qed

section \<open>The pass ends\<close>

definition may_start :: "sys \<Rightarrow> bool" where
  "may_start st \<longleftrightarrow> wk_running (snd st) \<and> \<not> q_paused (own st) \<and> \<not> wk_paused (snd st) \<and> \<not> wk_batchMode (snd st)"

lemma load_promote: "queue_load (own (on_q promotePrioritized st)) \<le> queue_load (own st)"
proof (rule load_on_q)
  fix q
  have "lighter a (promote_one r a)" for r a
    unfolding promote_one_def by (auto intro: lighter_trans [OF lighter_set_state lighter_simple(1)])
  then have "lighter a (fold promote_one rs a)" for rs a
    by (induction rs arbitrary: a) (auto intro: lighter_trans)
  then show "lighter q (promotePrioritized q)" by (simp add: promotePrioritized_def)
qed

lemma stopped_check_drained [simp]: "stopped (check_drained st) = stopped st"
  by (simp add: stopped_def check_drained_def wk_emit_def)

lemma own_check_drained [simp]: "own (check_drained st) = own st"
  by (simp add: check_drained_def)

lemma loops_return:
  "sys_ok G st \<Longrightarrow> 3 * queue_load (own st) + 2 \<le> n \<Longrightarrow>
     \<exists>st'. process_available n en now st = Some st' \<and> queue_load (own st') \<le> queue_load (own st) \<and>
       (may_start st \<longrightarrow> stopped st')"
  "sys_ok G st \<Longrightarrow> 3 * queue_load (own st) + 1 \<le> n \<Longrightarrow>
     \<exists>st'. start_loop n en now st = Some st' \<and> queue_load (own st') \<le> queue_load (own st) \<and> stopped st'"
  "sys_ok G (fst res) \<Longrightarrow> 3 * queue_load (own (fst res)) + 3 \<le> n \<Longrightarrow>
     \<exists>st'. started n en now res = Some st' \<and> queue_load (own st') \<le> queue_load (own (fst res)) \<and> stopped st'"
proof (induction n en now st and n en now st and n en now res
    rule: process_available_start_loop_started.induct)
  case (2 n en now st)
  show ?case
  proof (cases "may_start st")
    case True
    obtain st1 where st1: "start_loop n en now (on_q promotePrioritized st) = Some st1"
        "queue_load (own st1) \<le> queue_load (own (on_q promotePrioritized st))" "stopped st1"
      using 2 True load_promote [of st] by (auto simp: may_start_def)
    then have "process_available (Suc n) en now st = Some (check_drained st1)"
      using True by (simp add: may_start_def)
    then show ?thesis using st1 load_promote [of st] by simp
  next
    case False
    let ?p = "on_q promotePrioritized st"
    let ?x = "if \<not> wk_running (snd st) then st else if q_paused (own st) \<or> wk_paused (snd st) then ?p
              else processAvailableBatch now ?p"
    have "process_available (Suc n) en now st = Some ?x" using False by (auto simp: may_start_def)
    moreover have "queue_load (own ?x) \<le> queue_load (own st)"
      using load_promote [of st] order_trans [OF load_processAvailableBatch load_promote] by simp
    ultimately show ?thesis using False by blast
  qed
next
  case (4 n en now st)
  show ?case
  proof (cases "wk_active (snd st) < wk_concurrency (snd st)")
    case False
    then show ?thesis by (simp add: stopped_def)
  next
    case True
    obtain st1 res where f: "findNextWaiting now st = (st1, res)" by fastforce
    from f 4(2) show ?thesis
    proof (cases rule: findNextWaiting_cases)
      case none
      then show ?thesis using True f load_findNextWaiting(2) [OF f] by simp
    next
      case (some r)
      let ?a = "activate now r st1"
      let ?b = "begin_job en r (new_TestJob (own ?a) r) now ?a"
      have a: "sys_ok G ?a" by (rule sys_ok_activate) (use some in simp)
      moreover have c: "isCurrent ?a r" using some by simp
      ultimately have ok: "sys_ok G (fst ?b)" by (rule sys_ok_begin_job)
      have al: "own ?a = own (on_q (mark_active now r) st1)" by (simp add: activate_def)
      have la: "queue_load (own ?a) \<le> queue_load (own st1)" unfolding al by (rule load_on_q) simp
      have ja: "job_load (own ?a) r = job_load (own st1) r"
        using lighter_on_q [OF lighter_failure(6)] by (simp add: al lighter_def)
      have t: "queue_load (own st1) + job_load (own st1) r \<le> queue_load (own st)"
        by (rule load_findNextWaiting(1) [OF f some(1)])
      have lb: "queue_load (own (fst ?b)) + 1 \<le> queue_load (own st)"
      proof (cases "snd ?b")
        case True
        then have "own (fst ?b) = own ?a" by (auto simp: begin_job_def split: if_splits)
        then show ?thesis using la t job_load_bounds(1) [of "own st1" r] by simp
      next
        case False
        then have "?b = (fst ?b, False)" by (simp add: prod_eq_iff)
        note bj = load_begin_job [OF this a c]
        have "job_load (own st1) r = 2" using bj(1) ja by (simp add: job_load_def split: if_splits)
        then show ?thesis using bj(2) la t by simp
      qed
      have "\<exists>st'. started n en now ?b = Some st' \<and> queue_load (own st') \<le> queue_load (own (fst ?b)) \<and> stopped st'"
        using 4(1) [OF _ f [symmetric] some(1)] True ok lb 4(3) by simp
      then show ?thesis using True f some(1) lb by auto
    qed
  qed
next
  case (7 n en now st)
  have j: "sys_ok G (job_done 1 st)" "own (job_done 1 st) = own st"
    using 7(4) by (simp_all add: job_done_def)
  show ?case
  proof (cases "may_continue st")
    case True
    obtain st1 where p: "process_available n en now (job_done 1 st) = Some st1" "queue_load (own st1) \<le> queue_load (own st)"
      using 7(1) [OF True j(1)] 7(5) j(2) by auto
    have "sys_ok G st1" by (rule sys_ok_loops(1) [OF p(1) j(1)])
    then show ?thesis using 7(2) [OF True p(1)] 7(5) p True by auto
  next
    case False
    then show ?thesis using 7(3) [OF False j(1)] 7(5) j(2) by auto
  qed
qed auto

lemma reachable_sys_ok:
  assumes "reachable en vtz s" and "i < length (sy_workers s)"
  shows "sys_ok (held_by_others (sy_workers s) i) (sy_world s, sy_workers s ! i)"
  using reachable_system_ok [OF assms(1)] held_split [OF assms(2)] by (simp add: system_ok_def sys_ok_def)



end
