(* ===== verification/Tq_Slots.thy ===== *)
theory Tq_Slots
  imports Tq_Props
begin

text \<open>
  The slots of a worker: \<open>activeCount\<close> counts exactly the jobs that wait at the token gate, run, or
  run in a batch, and it never passes the concurrency, or the concurrency times the batch size.
\<close>

section \<open>The part of a worker that counts jobs\<close>

definition capacity :: "worker \<Rightarrow> nat" where
  "capacity k = (if wk_batchMode k then wk_concurrency k * wk_batchSize k else wk_concurrency k)"

definition busy :: "worker \<Rightarrow> nat" where
  "busy k = length (wk_gated k) + length (wk_running_jobs k) + sum_list (map length (wk_batches k))"

text \<open>\<open>d\<close> jobs are counted that no list holds: they are between two lists.\<close>

definition slots :: "nat \<Rightarrow> worker \<Rightarrow> bool" where
  "slots d k \<longleftrightarrow>
     wk_active k = busy k + d \<and> wk_active k + length (wk_pending k) \<le> capacity k \<and>
     (wk_batchMode k \<or> wk_pending k = [])"

definition slot_view where
  "slot_view k =
     (wk_active k, wk_gated k, wk_running_jobs k, wk_batches k, wk_pending k, wk_concurrency k, wk_batchMode k,
      wk_batchSize k)"

lemma slots_view: "slot_view k' = slot_view k \<Longrightarrow> slots d k' = slots d k"
  by (simp add: slot_view_def slots_def busy_def capacity_def)

lemma view_on_q [simp]: "slot_view (snd (on_q f st)) = slot_view (snd st)"
  by simp

lemma view_on_k: "(\<And>k. slot_view (f k) = slot_view k) \<Longrightarrow> slot_view (snd (on_k f st)) = slot_view (snd st)"
  by simp

lemma view_emit [simp]: "slot_view (snd (wk_emit e st)) = slot_view (snd st)"
  unfolding wk_emit_def by (rule view_on_k) (simp add: slot_view_def)

lemma view_dead_letter [simp]: "slot_view (snd (moveToDeadLetter en r h e now st)) = slot_view (snd st)"
  by (auto simp: moveToDeadLetter_def Let_def wk_emit_def slot_view_def split: option.split prod.split sum.split)

lemma view_failure [simp]: "slot_view (snd (handleFailure en r h e now st)) = slot_view (snd st)"
proof -
  have "slot_view (snd (on_k (\<lambda>k. k\<lparr>wk_rateLimitUntil := t\<rparr>) st)) = slot_view (snd st)" for t
    by (rule view_on_k) (simp add: slot_view_def)
  then show ?thesis by (simp add: handleFailure_def fail_terminally_def Let_def del: on_k_world)
qed

lemma view_rate: "acquireRateSlot now k = (k', w) \<Longrightarrow> slot_view k' = slot_view k"
  by (auto simp: acquireRateSlot_def Let_def slot_view_def split: option.splits if_splits prod.splits)

lemma view_find: "findNextWaiting now st = (st1, res) \<Longrightarrow> slot_view (snd st1) = slot_view (snd st)"
  using view_rate
  by (fastforce simp: findNextWaiting_def wakeAfterRateLimit_def slot_view_def split: prod.splits bool.splits if_splits)

lemma view_charge [simp]: "slot_view (snd (chargeCompletedUsage r h now st)) = slot_view (snd st)"
proof -
  have "slot_view (snd (on_k (incrementLocalTpm x now) st)) = slot_view (snd st)" for x
    by (rule view_on_k) (simp add: incrementLocalTpm_def refresh_window_def Let_def slot_view_def split: option.split)
  then show ?thesis
    by (auto simp: chargeCompletedUsage_def Let_def simp del: on_k_world split: option.split prod.split budget_status.split)
qed

lemma view_complete [simp]: "slot_view (snd (complete_job en r h v now st)) = slot_view (snd st)"
  by (simp add: complete_job_def Let_def)

lemma view_gone [simp]: "slot_view (snd (settleGoneCompletion r h v now st)) = slot_view (snd st)"
  by (simp add: settleGoneCompletion_def)

lemma view_moved: "take_movedToFailed r st = (st', m) \<Longrightarrow> slot_view (snd st') = slot_view (snd st)"
  by (auto simp: take_movedToFailed_def)

lemma view_park [simp]: "slot_view (snd (park_for_children r st)) = slot_view (snd st)"
  by (simp add: park_for_children_def)

lemma view_settle [simp]: "slot_view (snd (settle en r h out now st)) = slot_view (snd st)"
proof -
  obtain st' m where t: "take_movedToFailed r st = (st', m)" by fastforce
  with view_moved [OF t] show ?thesis
    by (simp add: settle_def settle_resolved_def settle_rejected_def split: outcome.split option.split sum.split js_error.split)
qed

lemma view_batch_entry [simp]: "slot_view (snd (batch_entry en now x st)) = slot_view (snd st)"
proof -
  obtain st' m where t: "take_movedToFailed (fst (fst x)) st = (st', m)" by fastforce
  with view_moved [OF t] show ?thesis
    by (simp add: batch_entry_def settleMovedToFailed_def batch_value_def split: option.split sum.split batch_result.split)
qed

lemma view_settle_batch [simp]: "slot_view (snd (settle_batch en jobs out now st)) = slot_view (snd st)"
proof -
  have "slot_view (snd (fold (batch_entry en now) xs st)) = slot_view (snd st)" for xs
    by (induction xs arbitrary: st) simp_all
  then show ?thesis by (simp add: settle_batch_def)
qed

lemma view_unstarted [simp]:
  "slot_view (snd (expire r h now st)) = slot_view (snd st)"
  "slot_view (snd (over_budget en r h now st)) = slot_view (snd st)"
  by (simp_all add: expire_def over_budget_def Let_def)

section \<open>Starting jobs\<close>

lemma slots_change:
  assumes "slots d k"
    and "wk_concurrency k' = wk_concurrency k" and "wk_batchMode k' = wk_batchMode k" and "wk_batchSize k' = wk_batchSize k"
    and "wk_active k' = busy k' + d'"
    and "wk_active k' + length (wk_pending k') \<le> wk_active k + length (wk_pending k)"
    and "wk_pending k = [] \<Longrightarrow> wk_pending k' = []"
  shows "slots d' k'"
proof -
  have "capacity k' = capacity k" using assms(2-4) by (simp add: capacity_def)
  then show ?thesis using assms by (auto simp: slots_def)
qed

lemma slots_active: "slots d k \<Longrightarrow> wk_active k = busy k + d"
  by (simp add: slots_def)

lemma slots_begin:
  assumes "begin_job en r h now st = (st', b)" and "slots 1 (snd st)"
  shows "slots (if b then 0 else 1) (snd st')"
proof (cases b)
  case True
  then have "snd st' = (snd st)\<lparr>wk_gated := wk_gated (snd st) @ [(r, h)]\<rparr>"
    using assms(1) by (auto simp: begin_job_def split: if_splits)
  then have "slots 0 (snd st')"
    using slots_active [OF assms(2)] by (intro slots_change [OF assms(2)]) (simp_all add: busy_def)
  then show ?thesis using True by simp
next
  case False
  then have "slot_view (snd st') = slot_view (snd st)"
    using assms(1) view_unstarted by (auto simp: begin_job_def split: if_splits)
  from slots_view [OF this] show ?thesis using assms(2) False by simp
qed

lemma slots_job_done:
  assumes "slots (d + n) (snd st)"
  shows "slots d (snd (job_done n st))"
  using slots_active [OF assms] by (intro slots_change [OF assms]) (simp_all add: job_done_def busy_def)

lemma slots_drained [simp]: "slots d (snd (check_drained st)) = slots d (snd st)"
  by (rule slots_view) (simp add: check_drained_def wk_emit_def slot_view_def)

lemma slots_fill_batch:
  assumes "wk_active (snd st) + length (wk_pending (snd st)) + n \<le> capacity (snd st)" and "slots 0 (snd st)"
    and "wk_batchMode (snd st)"
  shows "slots 0 (snd (fill_batch n now st))"
  using assms
proof (induction n now st rule: fill_batch.induct)
  case (2 n now st)
  obtain st1 res where f: "findNextWaiting now st = (st1, res)" by fastforce
  have v: "slot_view (snd st1) = slot_view (snd st)" by (rule view_find [OF f])
  then have ok: "slots 0 (snd st1)" "wk_batchMode (snd st1)" "capacity (snd st1) = capacity (snd st)"
      "wk_active (snd st1) = wk_active (snd st)" "wk_pending (snd st1) = wk_pending (snd st)"
    using 2 slots_view [OF v] by (auto simp: slot_view_def capacity_def)
  show ?case
  proof (cases res)
    case None
    then show ?thesis using f ok by (simp add: takeWaitingRecord_def)
  next
    case (Some r)
    let ?p = "on_k (\<lambda>k. k\<lparr>wk_pending := wk_pending k @ [r]\<rparr>) st1"
    have "wk_active (snd ?p) + length (wk_pending (snd ?p)) + n \<le> capacity (snd ?p)"
      using ok 2(2) by (simp add: capacity_def)
    moreover from this have "slots 0 (snd ?p)"
      using slots_active [OF ok(1)] ok(2) by (simp add: slots_def busy_def)
    ultimately have "slots 0 (snd (fill_batch n now ?p))"
      using 2(1) [of st1 "Some r" r] f Some ok(2) by (simp add: takeWaitingRecord_def)
    then show ?thesis using f Some by (simp add: takeWaitingRecord_def)
  qed
qed simp

lemma slots_run_pending:
  assumes "slots 0 (snd st)"
  shows "slots 0 (snd (run_pending now st))"
  using slots_active [OF assms]
  by (intro slots_change [OF assms]) (simp_all add: run_pending_def executeBatch_def Let_def busy_def)

lemma slots_batch_timer [simp]:
  "slots 0 (snd (clearBatchTimer st)) = slots 0 (snd st)" "slots 0 (snd (scheduleBatchFlush now st)) = slots 0 (snd st)"
  by (rule slots_view, simp add: clearBatchTimer_def scheduleBatchFlush_def slot_view_def)+

lemma slots_extra [simp]: "slots d (wk_extraTasks_update f k) = slots d k"
  by (rule slots_view) (simp add: slot_view_def)

lemma slots_start_batch:
  assumes "slots 0 (snd st)"
  shows "slots 0 (snd (start_batch c now st))"
proof -
  have "slots 0 (snd (run_pending now st))" by (rule slots_run_pending [OF assms])
  moreover have "slots 0 (snd (run_pending now (clearBatchTimer st)))" by (rule slots_run_pending) (use assms in simp)
  ultimately show ?thesis using assms by (simp add: start_batch_def Let_def)
qed

lemma slots_prune:
  assumes "slots d (snd st)"
  shows "slots d (snd (prune_pending st))"
  using slots_active [OF assms] by (intro slots_change [OF assms]) (simp_all add: prune_pending_def busy_def)

lemma slots_batch:
  assumes "slots 0 (snd st)" and "wk_batchMode (snd st)"
  shows "slots 0 (snd (processAvailableBatch now st))"
proof (cases "batchRoom (snd st) \<le> 0")
  case False
  let ?k = "snd st" and ?p = "prune_pending st"
  have p: "slots 0 (snd ?p)" by (rule slots_prune [OF assms(1)])
  have v: "wk_batchMode (snd ?p)" "wk_active (snd ?p) = wk_active ?k" "capacity (snd ?p) = capacity ?k"
    using assms(2) by (simp_all add: prune_pending_def capacity_def)
  have room: "int (batch_cap ?k) \<le> int (capacity ?k) - int (wk_active ?k)"
    using False assms(2) by (auto simp: batch_cap_def batchRoom_def capacity_def split: if_splits)
  moreover have "wk_active (snd ?p) + length (wk_pending (snd ?p)) \<le> capacity (snd ?p)"
    using p by (simp add: slots_def)
  ultimately have "wk_active (snd ?p) + length (wk_pending (snd ?p)) + (batch_cap ?k - length (wk_pending (snd ?p)))
      \<le> capacity (snd ?p)"
    unfolding v by linarith
  then have "slots 0 (snd (fill_batch (batch_cap ?k - length (wk_pending (snd ?p))) now ?p))"
    by (rule slots_fill_batch [OF _ p v(1)])
  then show ?thesis using False by (simp add: processAvailableBatch_def Let_def slots_start_batch)
qed (use assms in \<open>simp add: processAvailableBatch_def\<close>)

lemma mode_batch [simp]: "wk_batchMode (snd (processAvailableBatch now st)) = wk_batchMode (snd st)"
proof -
  have f: "wk_batchMode (snd (fill_batch n now st)) = wk_batchMode (snd st)" for n st
  proof (induction n now st rule: fill_batch.induct)
    case (2 n now st)
    obtain st1 res where f: "findNextWaiting now st = (st1, res)" by fastforce
    have "wk_batchMode (snd st1) = wk_batchMode (snd st)" using view_find [OF f] by (simp add: slot_view_def)
    then show ?case using 2 [OF f [unfolded takeWaitingRecord_def [symmetric], symmetric]] f
      by (cases res) (simp_all add: takeWaitingRecord_def)
  qed simp
  have "wk_batchMode (snd (start_batch c now st)) = wk_batchMode (snd st)" for c st
    by (simp add: start_batch_def Let_def run_pending_def executeBatch_def clearBatchTimer_def
        scheduleBatchFlush_def check_drained_def wk_emit_def)
  then show ?thesis by (simp add: processAvailableBatch_def Let_def f prune_pending_def)
qed

lemma slots_loops:
  "process_available n en now st = Some st' \<Longrightarrow> slots 0 (snd st) \<Longrightarrow>
     slots 0 (snd st') \<and> wk_batchMode (snd st') = wk_batchMode (snd st)"
  "start_loop n en now st = Some st' \<Longrightarrow> slots 0 (snd st) \<Longrightarrow> \<not> wk_batchMode (snd st) \<Longrightarrow>
     slots 0 (snd st') \<and> \<not> wk_batchMode (snd st')"
  "started n en now res = Some st' \<Longrightarrow> slots (if snd res then 0 else 1) (snd (fst res)) \<Longrightarrow>
     \<not> wk_batchMode (snd (fst res)) \<Longrightarrow> slots 0 (snd st') \<and> \<not> wk_batchMode (snd st')"
proof (induction n en now st and n en now st and n en now res arbitrary: st' and st' and st'
    rule: process_available_start_loop_started.induct)
  case (2 n en now st)
  show ?case
  proof (cases "\<not> wk_running (snd st) \<or> q_paused (own st) \<or> wk_paused (snd st) \<or> wk_batchMode (snd st)")
    case True
    then show ?thesis using 2(2,3) slots_batch [of "on_q promotePrioritized st" now] by (auto split: if_splits)
  next
    case False
    then obtain st1 where l: "start_loop n en now (on_q promotePrioritized st) = Some st1" "st' = check_drained st1"
      using 2(2) by auto
    have "slots 0 (snd st1) \<and> \<not> wk_batchMode (snd st1)"
      using 2(1) l(1) False 2(3) by simp
    moreover have "wk_batchMode (snd (check_drained x)) = wk_batchMode (snd x)" for x
      by (simp add: check_drained_def wk_emit_def)
    ultimately show ?thesis using False l(2) by simp
  qed
next
  case (4 n en now st)
  show ?case
  proof (cases "wk_active (snd st) < wk_concurrency (snd st)")
    case False
    then show ?thesis using 4(2,3,4) by simp
  next
    case True
    obtain st1 res where f: "findNextWaiting now st = (st1, res)" by fastforce
    have v: "slot_view (snd st1) = slot_view (snd st)" by (rule view_find [OF f])
    then have st1: "slots 0 (snd st1)" "\<not> wk_batchMode (snd st1)" "wk_active (snd st1) < wk_concurrency (snd st1)"
      using slots_view [OF v] 4(3,4) True by (auto simp: slot_view_def)
    show ?thesis
    proof (cases res)
      case None
      then show ?thesis using 4(2) True f st1 by simp
    next
      case (Some r)
      let ?a = "activate now r st1"
      obtain st2 b where b: "begin_job en r (new_TestJob (own ?a) r) now ?a = (st2, b)" by fastforce
      have a: "wk_active (snd ?a) = Suc (wk_active (snd st1))" "wk_pending (snd ?a) = wk_pending (snd st1)"
          "busy (snd ?a) = busy (snd st1)" "capacity (snd ?a) = capacity (snd st1)"
          "wk_batchMode (snd ?a) = wk_batchMode (snd st1)"
        by (simp_all add: activate_def wk_emit_def busy_def capacity_def)
      have "slots 1 (snd ?a)"
        using st1 a slots_active [OF st1(1)] by (auto simp: slots_def capacity_def)
      then have "slots (if b then 0 else 1) (snd st2)" by (rule slots_begin [OF b])
      moreover have "wk_batchMode (snd st2) = wk_batchMode (snd ?a)"
        using b view_unstarted(1) [of r "new_TestJob (own ?a) r" now ?a] view_unstarted(2) [of en r "new_TestJob (own ?a) r" now ?a]
        by (auto simp: begin_job_def slot_view_def split: if_splits)
      ultimately show ?thesis
        using 4(1) [OF _ f [symmetric] Some] 4(2) True f Some b st1(2) a(5) by simp
    qed
  qed
next
  case (7 n en now st)
  have j: "slots 0 (snd (job_done 1 st))" "\<not> wk_batchMode (snd (job_done 1 st))"
    using 7(5,6) slots_job_done [of 0 1 st] by (simp_all add: job_done_def)
  show ?case
  proof (cases "may_continue st")
    case True
    then obtain st1 where p: "process_available n en now (job_done 1 st) = Some st1" "start_loop n en now st1 = Some st'"
      using 7(4) by (auto split: option.splits)
    have "slots 0 (snd st1) \<and> \<not> wk_batchMode (snd st1)" using 7(1) [OF True p(1) j(1)] j(2) by simp
    then show ?thesis using 7(2) [OF True p(1) p(2)] by simp
  next
    case False
    then show ?thesis using 7(3) [OF False _ j] 7(4) by simp
  qed
qed auto

lemma slots_processAvailable [simp]: "slots 0 (snd st) \<Longrightarrow> slots 0 (snd (processAvailable en now st))"
  using slots_loops(1) [of "enough_fuel st" en now st]
  by (cases "process_available (enough_fuel st) en now st") (auto simp: processAvailable_def)

section \<open>Every step of a worker\<close>

lemma slots_continue:
  assumes "slots n (snd st)"
  shows "slots 0 (snd (continue_after en n now st))"
  using slots_job_done [of 0 n st] assms by (simp add: continue_after_def Let_def)

lemma busy_drop_running: "i < length (wk_running_jobs k) \<Longrightarrow>
    busy (k\<lparr>wk_running_jobs := drop_at i (wk_running_jobs k)\<rparr>) + 1 = busy k"
  by (simp add: busy_def drop_at_def)

lemma busy_drop_batch:
  assumes "i < length (wk_batches k)"
  shows "busy (k\<lparr>wk_batches := drop_at i (wk_batches k)\<rparr>) + length (wk_batches k ! i) = busy k"
proof -
  have "sum_list (map length (wk_batches k)) = sum_list (map length (take i (wk_batches k) @ wk_batches k ! i # drop (Suc i) (wk_batches k)))"
    using id_take_nth_drop [OF assms] by simp
  then show ?thesis by (simp add: busy_def drop_at_def)
qed

lemma slots_job_ends:
  assumes "slots 0 (snd st)"
  shows "slots 0 (snd (job_ends en i h out now st))"
proof (cases "i < length (wk_running_jobs (snd st))")
  case True
  let ?k = "(snd st)\<lparr>wk_running_jobs := drop_at i (wk_running_jobs (snd st))\<rparr>"
  have "slots 1 ?k"
    using slots_active [OF assms] busy_drop_running [OF True] by (intro slots_change [OF assms]) simp_all
  then have "slots 1 (snd (settle en r h out now (on_k (\<lambda>k. k\<lparr>wk_running_jobs := drop_at i (wk_running_jobs k)\<rparr>) st)))" for r
    using slots_view [OF view_settle] by simp
  then show ?thesis using True by (simp add: job_ends_def slots_continue)
qed (use assms in \<open>simp add: job_ends_def\<close>)

lemma slots_batch_ends:
  assumes "slots 0 (snd st)"
  shows "slots 0 (snd (batch_ends en i f out now st))"
proof (cases "i < length (wk_batches (snd st))")
  case True
  let ?k = "(snd st)\<lparr>wk_batches := drop_at i (wk_batches (snd st))\<rparr>" and ?n = "length (wk_batches (snd st) ! i)"
  let ?jobs = "map (\<lambda>(r, h). (r, f h)) (wk_batches (snd st) ! i)"
  let ?s = "settle_batch en ?jobs out now (on_k (\<lambda>k. k\<lparr>wk_batches := drop_at i (wk_batches k)\<rparr>) st)"
  have "slots ?n ?k"
    using slots_active [OF assms] busy_drop_batch [OF True] by (intro slots_change [OF assms]) simp_all
  then have "slots (0 + ?n) (snd ?s)" using slots_view [OF view_settle_batch] by simp
  then have "slots 0 (snd (job_done ?n ?s))" by (rule slots_job_done)
  then show ?thesis using True by (simp add: batch_ends_def Let_def)
qed (use assms in \<open>simp add: batch_ends_def\<close>)

lemma slots_fields [simp]:
  "slots d (wk_processing_update f1 k) = slots d k" "slots d (wk_rateLimitTimer_update f2 k) = slots d k"
  "slots d (wk_batchTimer_update f3 k) = slots d k" "slots d (wk_paused_update f4 k) = slots d k"
  "slots d (wk_running_update f5 k) = slots d k" "slots d (wk_rateLimitUntil_update f6 k) = slots d k"
  by (rule slots_view, simp add: slot_view_def)+

lemma slots_pass_gate:
  assumes "slots 0 (snd st)"
  shows "slots 0 (snd (pass_gate now st))"
proof (cases "wk_gated (snd st)")
  case (Cons rh rest)
  obtain k w where t: "token_gate now (snd st) = (k, w)" by fastforce
  have v: "slot_view k = slot_view (snd st)"
    using t by (auto simp: token_gate_def refresh_window_def Let_def slot_view_def split: option.splits if_splits prod.splits)
  have ok: "slots 0 k" using slots_view [OF v] assms by simp
  have "wk_gated k = rh # rest" using v Cons by (simp add: slot_view_def)
  then have "slots 0 (k\<lparr>wk_gated := rest, wk_running_jobs := wk_running_jobs k @ [rh]\<rparr>)"
    using slots_active [OF ok] by (intro slots_change [OF ok]) (simp_all add: busy_def)
  then show ?thesis using ok t Cons by (simp add: pass_gate_def split: option.split)
qed (use assms in \<open>simp add: pass_gate_def\<close>)

lemma slots_flush:
  assumes "slots 0 (snd st)"
  shows "slots 0 (snd (flushBatch now st))"
proof -
  have "slots 0 (snd (prune_pending st))" by (rule slots_prune [OF assms])
  then show ?thesis using assms slots_run_pending by (simp add: flushBatch_def Let_def)
qed

lemma slots_close:
  assumes "slots 0 (snd st)"
  shows "slots 0 (snd (close_worker st))"
proof -
  let ?k = "(snd st)\<lparr>wk_running := False, wk_batchTimer := None, wk_rateLimitTimer := None\<rparr>"
  have k: "slots 0 ?k" using assms by simp
  have "slots 0 (?k\<lparr>wk_pending := []\<rparr>)"
    using slots_active [OF k] by (intro slots_change [OF k]) (simp_all add: busy_def)
  then show ?thesis by (simp add: close_worker_def hand_back_def Let_def)
qed

lemma slots_worker_op: "slots 0 (snd st) \<Longrightarrow> slots 0 (snd (run_worker_op en now wop st))"
  by (cases wop)
     (simp_all add: run_wake_def run_extra_def rate_limit_fires_def Let_def batch_timer_fires_def slots_flush
       slots_pass_gate slots_job_ends slots_batch_ends onJobAdded_def wake_def pause_worker_def resume_worker_def
       rateLimit_def slots_close)

section \<open>Reachable workers\<close>

lemma slots_step:
  assumes "sys_step en vtz s s'" and "\<forall>k \<in> set (sy_workers s). slots 0 k"
  shows "\<forall>k \<in> set (sy_workers s'). slots 0 k"
  using assms(1)
proof (cases rule: sys_step.cases)
  case (new_worker_call m n wo w k)
  have "slots 0 (new_worker m n wo (sy_now s))" by (simp add: slots_def busy_def new_worker_def)
  then have "slots 0 k"
    using new_worker_call(2) by (auto simp: new_TestWorker_def andThen_Inr_iff Let_def on_q_def on_k_def)
  then show ?thesis using new_worker_call(1) assms(2) by simp
next
  case (worker_step i wop w k)
  have "slots 0 (sy_workers s ! i)" using assms(2) worker_step(2) by simp
  then have "slots 0 k" using slots_worker_op [of "(sy_world s, sy_workers s ! i)" en "sy_now s" wop] worker_step(3) by simp
  then show ?thesis using worker_step(1) assms(2) set_update_subset_insert [of "sy_workers s" i k] by auto
qed (use assms(2) in simp_all)

text \<open>
  C6: a worker never runs more jobs than it may, and its counter is exact. In every reachable state
  \<open>activeCount\<close> is the number of jobs that wait for tokens or run, alone or in a batch, and it is at
  most the concurrency; for a batch worker the running jobs and the jobs claimed for the next
  batch together are at most the concurrency times the batch size.
\<close>

theorem active_within_concurrency:
  assumes "reachable en vtz s" and "k \<in> set (sy_workers s)"
  shows "wk_active k = length (wk_gated k) + length (wk_running_jobs k) + sum_list (map length (wk_batches k)) \<and>
         wk_active k + length (wk_pending k)
           \<le> (if wk_batchMode k then wk_concurrency k * wk_batchSize k else wk_concurrency k)"
proof -
  have "\<forall>k \<in> set (sy_workers s). slots 0 k"
    using assms(1)
  proof (induction rule: reachable.induct)
    case (steps s s')
    show ?case by (rule slots_step [OF steps(2,3)])
  qed (simp add: empty_system_def)
  then show ?thesis using assms(2) by (auto simp: slots_def busy_def capacity_def)
qed

lemma active_within_concurrency_witness:
  "wk_active plain_worker = 0 \<and> wk_active plain_worker + length (wk_pending plain_worker) \<le> 1"
  using active_within_concurrency [OF reachable_one_worker, of plain_worker]
  by (simp add: one_worker_def plain_worker_def new_worker_def plain_worker_opts_def or_else_def)

end
