(* ===== verification/Tq_Rate.thy ===== *)
theory Tq_Rate
  imports Tq_Props
begin

text \<open>
  The limiter of a worker: dispatches fall into windows of the limiter's duration, each with at
  most its maximum of dispatches.
\<close>

text \<open>
  The dispatches among the calls of \<open>acquireRateSlot\<close> at the times \<open>ts\<close>, each with the start of its
  window; before a call the pause set by \<open>rateLimit\<close> or a \<open>RateLimitError\<close> is the given one.
\<close>

fun grants :: "worker \<Rightarrow> (int \<times> rat) list \<Rightarrow> (int \<times> rat) list" where
  "grants k [] = []"
| "grants k ((t, until) # ts) =
     (case acquireRateSlot t (k\<lparr>wk_rateLimitUntil := until\<rparr>) of
        (k', w) \<Rightarrow> if w > 0 then grants k' ts else (t, wk_rateWindowStart k') # grants k' ts)"

definition in_window :: "rat \<Rightarrow> (int \<times> rat) list \<Rightarrow> nat" where
  "in_window x gs = length (filter (\<lambda>g. snd g = x) gs)"

lemma in_window_simps [simp]:
  "in_window x [] = 0" "in_window x (g # gs) = (if snd g = x then Suc (in_window x gs) else in_window x gs)"
  by (simp_all add: in_window_def)

lemma in_window_none: "(\<And>g. g \<in> set gs \<Longrightarrow> snd g \<noteq> x) \<Longrightarrow> in_window x gs = 0"
  by (simp add: in_window_def filter_empty_conv)

lemma acquire_limited:
  assumes "wk_limiter k = Some (of_nat m, d)" and "0 < m"
  shows "acquireRateSlot t k =
     (if of_int t < wk_rateLimitUntil k then (k, wk_rateLimitUntil k - of_int t)
      else if d \<le> of_int t - wk_rateWindowStart k then (k\<lparr>wk_rateWindowStart := of_int t, wk_rateWindowCount := 1\<rparr>, 0)
      else if m \<le> wk_rateWindowCount k then (k, d - (of_int t - wk_rateWindowStart k))
      else (k\<lparr>wk_rateWindowCount := Suc (wk_rateWindowCount k)\<rparr>, 0))"
  using assms by (simp add: acquireRateSlot_def Let_def)

text \<open>The windows: \<open>s\<close> is the start of the current one, \<open>c\<close> its dispatches so far.\<close>

definition windows_ok :: "nat \<Rightarrow> rat \<Rightarrow> rat \<Rightarrow> nat \<Rightarrow> (int \<times> rat) list \<Rightarrow> bool" where
  "windows_ok m d s c gs \<longleftrightarrow>
     (\<forall>x. in_window x gs \<le> (if x = s then m - c else m)) \<and>
     (\<forall>g \<in> set gs. snd g \<le> of_int (fst g) \<and> of_int (fst g) < snd g + d \<and> (snd g = s \<or> s + d \<le> snd g)) \<and>
     (\<forall>g \<in> set gs. \<forall>h \<in> set gs. snd g < snd h \<longrightarrow> snd g + d \<le> snd h)"

lemma windows_okD:
  assumes "windows_ok m d s c gs"
  shows "in_window x gs \<le> (if x = s then m - c else m)"
    and "g \<in> set gs \<Longrightarrow> snd g \<le> of_int (fst g) \<and> of_int (fst g) < snd g + d \<and> (snd g = s \<or> s + d \<le> snd g)"
    and "g \<in> set gs \<Longrightarrow> h \<in> set gs \<Longrightarrow> snd g < snd h \<Longrightarrow> snd g + d \<le> snd h"
  using assms unfolding windows_ok_def by blast+

lemma grants_windows:
  assumes "wk_limiter k = Some (of_nat m, d)" and "0 < m" and "0 < d" and "wk_rateWindowCount k \<le> m"
    and "sorted (map fst ts)" and "\<forall>x \<in> set ts. wk_rateWindowStart k \<le> of_int (fst x)"
  shows "windows_ok m d (wk_rateWindowStart k) (wk_rateWindowCount k) (grants k ts)"
  using assms
proof (induction ts arbitrary: k)
  case (Cons x ts)
  obtain t u where x: "x = (t, u)" by fastforce
  let ?k = "k\<lparr>wk_rateLimitUntil := u\<rparr>" and ?s = "wk_rateWindowStart k" and ?c = "wk_rateWindowCount k"
  have st: "?s \<le> of_int t" "sorted (map fst ts)" "\<forall>y \<in> set ts. t \<le> fst y"
    using Cons.prems(5,6) by (auto simp: x)
  consider (denied) "grants k (x # ts) = grants ?k ts"
    | (opened) "?s + d \<le> of_int t" "grants k (x # ts) = (t, of_int t) # grants (?k\<lparr>wk_rateWindowStart := of_int t, wk_rateWindowCount := 1\<rparr>) ts"
    | (counted) "of_int t < ?s + d" "?c < m" "grants k (x # ts) = (t, ?s) # grants (?k\<lparr>wk_rateWindowCount := Suc ?c\<rparr>) ts"
  proof -
    have lim: "wk_limiter ?k = Some (of_nat m, d)" using Cons.prems(1) by simp
    note a = acquire_limited [OF lim Cons.prems(2), of t]
    show ?thesis
    proof (cases "of_int t < u \<or> (\<not> d \<le> of_int t - ?s \<and> m \<le> ?c)")
      case True
      then have "grants k (x # ts) = grants ?k ts" by (auto simp: x a)
      then show ?thesis by (rule denied)
    next
      case False
      then show ?thesis by (cases "d \<le> of_int t - ?s") (auto simp: x a intro: opened counted)
    qed
  qed
  then show ?case
  proof cases
    case denied
    show ?thesis unfolding denied using Cons.IH [of ?k] Cons.prems st by simp
  next
    case opened
    let ?k' = "?k\<lparr>wk_rateWindowStart := of_int t, wk_rateWindowCount := 1\<rparr>"
    have "windows_ok m d (of_int t) 1 (grants ?k' ts)"
      using Cons.IH [of ?k'] Cons.prems st by simp
    note ih = windows_okD [OF this]
    have z: "in_window ?s (grants ?k' ts) = 0"
      using ih(2) opened(1) Cons.prems(3) by (intro in_window_none) fastforce
    have "in_window y ((t, of_int t) # grants ?k' ts) \<le> (if y = ?s then m - ?c else m)" for y
      using ih(1) [of y] z opened(1) Cons.prems(2,3) by (cases "y = ?s") (auto split: if_splits)
    moreover have "snd g \<le> of_int (fst g) \<and> of_int (fst g) < snd g + d \<and> (snd g = ?s \<or> ?s + d \<le> snd g)"
      if "g \<in> set ((t, of_int t) # grants ?k' ts)" for g
      using that ih(2) [of g] opened(1) Cons.prems(3) by auto
    moreover have "snd g + d \<le> snd h"
      if "g \<in> set ((t, of_int t) # grants ?k' ts)" "h \<in> set ((t, of_int t) # grants ?k' ts)" "snd g < snd h" for g h
      using that ih(2) [of g] ih(2) [of h] ih(3) [of g h] Cons.prems(3) by auto
    ultimately show ?thesis unfolding opened(2) windows_ok_def by blast
  next
    case counted
    let ?k' = "?k\<lparr>wk_rateWindowCount := Suc ?c\<rparr>"
    have "windows_ok m d ?s (Suc ?c) (grants ?k' ts)"
      using Cons.IH [of ?k'] Cons.prems counted(2) st by simp
    note ih = windows_okD [OF this]
    have "in_window y ((t, ?s) # grants ?k' ts) \<le> (if y = ?s then m - ?c else m)" for y
      using ih(1) [of y] counted(2) by (auto split: if_splits)
    moreover have "snd g \<le> of_int (fst g) \<and> of_int (fst g) < snd g + d \<and> (snd g = ?s \<or> ?s + d \<le> snd g)"
      if "g \<in> set ((t, ?s) # grants ?k' ts)" for g
      using that ih(2) [of g] counted(1) st(1) by auto
    moreover have "snd g + d \<le> snd h"
      if "g \<in> set ((t, ?s) # grants ?k' ts)" "h \<in> set ((t, ?s) # grants ?k' ts)" "snd g < snd h" for g h
      using that ih(2) [of g] ih(2) [of h] ih(3) [of g h] Cons.prems(3) by auto
    ultimately show ?thesis unfolding counted(3) windows_ok_def by blast
  qed
qed (simp add: windows_ok_def)

lemma filter_two_windows:
  assumes "\<forall>g \<in> set gs. P g \<longrightarrow> snd g = w \<or> snd g = v"
  shows "length (filter P gs) \<le> in_window w gs + in_window v gs"
  using assms by (induction gs) auto

text \<open>An interval as long as a window meets at most two windows.\<close>

lemma two_windows:
  fixes W :: "rat set"
  assumes "finite W" and "\<forall>x \<in> W. a - d < x \<and> x < a + d" and "\<forall>x \<in> W. \<forall>y \<in> W. x < y \<longrightarrow> x + d \<le> y"
  shows "\<exists>w v. W \<subseteq> {w, v}"
proof (cases "W = {}")
  case False
  let ?w = "Min W" and ?v = "Max W"
  have w: "?w \<in> W" "?v \<in> W" using assms(1) False by simp_all
  have "x = ?w \<or> x = ?v" if x: "x \<in> W" for x
  proof (rule ccontr)
    assume n: "\<not> ?thesis"
    moreover have "?w \<le> x" "x \<le> ?v" using assms(1) x by simp_all
    ultimately have "?w < x" "x < ?v" by auto
    then have "?w + d \<le> x" "x + d \<le> ?v" using assms(3) w x by blast+
    moreover have "a - d < ?w" "?v < a + d" using assms(2) w by blast+
    ultimately show False by linarith
  qed
  then show ?thesis by blast
qed simp

text \<open>
  C17: the limiter bounds the rate of dispatch. Whatever the times at which a worker asks for a slot
  and whatever pauses rate limit errors impose in between, at most \<open>max\<close> dispatches are
  counted to one window, and any interval as long as the limiter's duration holds at most twice
  \<open>max\<close> dispatches.
\<close>

theorem rate_limit_bound:
  assumes "wk_limiter k = Some (of_nat m, d)" and "0 < m" and "0 < d"
    and "wk_rateWindowStart k = 0" and "wk_rateWindowCount k = 0"
    and "sorted (map fst ts)" and "\<forall>x \<in> set ts. 0 \<le> fst x"
  shows "in_window x (grants k ts) \<le> m \<and>
         length (filter (\<lambda>g. a \<le> of_int (fst g) \<and> of_int (fst g) < a + d) (grants k ts)) \<le> 2 * m"
proof -
  let ?gs = "grants k ts"
  let ?P = "\<lambda>g. a \<le> of_int (fst g) \<and> of_int (fst g) < a + d"
  have ok: "windows_ok m d 0 0 ?gs"
    using grants_windows [OF assms(1-3), of ts] assms(4-7) by simp
  note w = windows_okD [OF ok]
  have m: "in_window x ?gs \<le> m" for x using w(1) [of x] by (simp split: if_splits)
  let ?W = "snd ` set (filter ?P ?gs)"
  have "\<exists>u v. ?W \<subseteq> {u, v}"
  proof (rule two_windows [of _ a d])
    show "\<forall>x \<in> ?W. a - d < x \<and> x < a + d" using w(2) by fastforce
    show "\<forall>x \<in> ?W. \<forall>y \<in> ?W. x < y \<longrightarrow> x + d \<le> y" using w(3) by auto
  qed simp
  then obtain u v where "?W \<subseteq> {u, v}" by blast
  then have "\<forall>g \<in> set ?gs. ?P g \<longrightarrow> snd g = u \<or> snd g = v" by auto
  then have "length (filter ?P ?gs) \<le> in_window u ?gs + in_window v ?gs" by (rule filter_two_windows)
  with m [of u] m [of v] m [of x] show ?thesis by simp
qed

text \<open>Two dispatches per second, asked for at 1000, 1001, 1002 and 2500 ms.\<close>

definition limited_worker :: worker where
  "limited_worker = plain_worker\<lparr>wk_limiter := Some (2, 1000)\<rparr>"

lemma rate_limit_bound_witness:
  "map fst (grants limited_worker [(1000, 0), (1001, 0), (1002, 0), (2500, 0)]) = [1000, 1001, 2500] \<and>
   length (filter (\<lambda>g. (1000 :: rat) \<le> of_int (fst g) \<and> of_int (fst g) < (1000 :: rat) + 1000)
     (grants limited_worker [(1000, 0), (1001, 0), (1002, 0), (2500, 0)])) \<le> 2 * 2"
proof -
  have k: "wk_limiter limited_worker = Some (of_nat 2, 1000)" "wk_rateWindowStart limited_worker = 0"
    "wk_rateWindowCount limited_worker = 0"
    by (simp_all add: limited_worker_def plain_worker_def new_worker_def)
  have "map fst (grants limited_worker [(1000, 0), (1001, 0), (1002, 0), (2500, 0)]) = [1000, 1001, 2500]"
    by (simp add: acquireRateSlot_def k Let_def)
  moreover have "length (filter (\<lambda>g. (1000 :: rat) \<le> of_int (fst g) \<and> of_int (fst g) < (1000 :: rat) + 1000)
     (grants limited_worker [(1000, 0), (1001, 0), (1002, 0), (2500, 0)])) \<le> 2 * 2"
    by (rule rate_limit_bound [THEN conjunct2]) (simp_all add: k)
  ultimately show ?thesis by blast
qed

end
