(* ===== verification/Tq_Attempts.thy ===== *)
theory Tq_Attempts
  imports Tq_Liveness
begin

text \<open>
  Retries: a job whose processor keeps throwing is run exactly as often as its \<open>attempts\<close> allow,
  parked between the runs, and then fails for good.
\<close>

definition ordinary_error :: "js_error \<Rightarrow> bool" where
  "ordinary_error e \<longleftrightarrow> \<not> isRateLimitError e \<and> name_of e \<noteq> ''UnrecoverableError''"

text \<open>One run that throws: the job is activated and its failure handled.\<close>

definition failing_run :: "env \<Rightarrow> nat \<Rightarrow> int \<times> test_job \<times> js_error \<Rightarrow> sys \<Rightarrow> sys" where
  "failing_run en r x st =
     (case x of (now, h, e) \<Rightarrow> handleFailure en r h e now (activate now r st))"

definition allowed :: "tq \<Rightarrow> nat \<Rightarrow> rat" where
  "allowed q r = num_or 0 (attempts (opts_of q r))"

section \<open>What a run leaves of the record\<close>

lemma parkDelayed_keeps [simp]:
  "j_attemptsMade (q_rec (parkDelayed r d now q) x) = j_attemptsMade (q_rec q x)"
  "j_opts (q_rec (parkDelayed r d now q) x) = j_opts (q_rec q x)" "q_opts (parkDelayed r d now q) = q_opts q"
  by (simp_all add: parkDelayed_def schedulePromotion_def Let_def clearPromotion_def set_state_def dequeueRecord_def upd_def)

lemma allowed_cong: "q_opts q' = q_opts q \<Longrightarrow> j_opts (q_rec q' r) = j_opts (q_rec q r) \<Longrightarrow> allowed q' r = allowed q r"
  by (simp add: allowed_def opts_of_def)

lemma retry_parks:
  "state_of (park_retry r d now (count_attempt r e q)) r = Delayed"
  "j_attemptsMade (q_rec (park_retry r d now (count_attempt r e q)) r) = Suc (j_attemptsMade (q_rec q r))"
  "allowed (park_retry r d now (count_attempt r e q)) r = allowed q r"
  "current (park_retry r d now (count_attempt r e q)) r = current q r"
proof -
  let ?q' = "park_retry r d now (count_attempt r e q)"
  show "state_of ?q' r = Delayed" "j_attemptsMade (q_rec ?q' r) = Suc (j_attemptsMade (q_rec q r))"
    by (simp_all add: park_retry_def count_attempt_def)
  show "allowed ?q' r = allowed q r"
    by (rule allowed_cong) (simp_all add: park_retry_def count_attempt_def)
  show "current ?q' r = current q r"
  proof -
    have "same_jobs a (parkDelayed r d now a)" for a by simp
    note c = same_jobs_sel(2) [OF this]
    show ?thesis unfolding park_retry_def c by (simp add: current_jobs)
  qed
qed

lemma active_keeps:
  "allowed (mark_active now r q) r = allowed q r" "j_attemptsMade (q_rec (mark_active now r q) x) = j_attemptsMade (q_rec q x)"
  "current (mark_active now r q) x = current q x"
  by (simp_all add: mark_active_def allowed_def opts_of_def current_jobs)

lemma place_record_rec: "x \<noteq> r \<Longrightarrow> q_rec (place_record r d p now q) x = q_rec q x"
  by (simp add: place_record_def parkDelayed_def schedulePromotion_def Let_def clearPromotion_def set_state_def
      dequeueRecord_def upd_def enqueuePrioritized_def enqueueWaiting_def push_waiting_def)

lemma dead_letter_rec:
  assumes "insert_dead_letter json name d now q = (q', res)" and "r < q_next q"
  shows "q_rec q' r = q_rec q r"
proof -
  obtain q1 o' where a: "alloc_opts default_opts q = (q1, o')" by fastforce
  then have q1: "q_rec q1 = q_rec q" "q_next q1 = q_next q" by (auto simp: alloc_opts_def)
  obtain q2 idr where g: "generateJobId [] q1 = (q2, idr)" by fastforce
  then have q2: "q_rec q2 = q_rec q" "q_next q2 = q_next q"
    using generateJobId_frame [OF g] q1 by auto
  have "q_rec x r = q_rec q r" if "insertRecord name s o' i now 0 json id q2 = (x, y)" for s i x y
    using that q2 assms(2)
    by (auto simp: insertRecord_def Let_def place_record_rec store_record_def split: option.splits)
  then show ?thesis
    using assms(1) a g q2 by (auto simp: insert_dead_letter_def split: option.splits sum.splits)
qed

lemma moveToDeadLetter_rec:
  assumes "r < q_next (own st)" and "jm_get (fst st) (wk_queue (snd st)) = Some q"
  shows "q_rec (own (moveToDeadLetter en x h e now st)) r = q_rec (own st) r"
proof -
  have "q_rec (own (w', snd st)) r = q_rec (own st) r"
    if "addDeadLetter js n nm d now (fst st) = (w', res)" for js n nm d w' res
  proof (cases "n = wk_queue (snd st)")
    case True
    obtain q' y where i: "insert_dead_letter js nm d now q = (q', y)" by fastforce
    have "w' = jm_set n q' (fst st)"
      using that True assms(2) i by (auto simp: addDeadLetter_def ensure_queue_def run_on_def split: prod.splits)
    then have "own (w', snd st) = q'" using True by (simp add: own_def js_map_simps)
    then show ?thesis using dead_letter_rec [OF i] assms(1) own_eq [OF assms(2)] by simp
  next
    case False
    then have "jm_get w' (wk_queue (snd st)) = jm_get (fst st) (wk_queue (snd st))"
      using that by (auto simp: addDeadLetter_def ensure_queue_def run_on_def js_map_simps split: option.splits prod.splits)
    then have "own (w', snd st) = own st" by (simp add: own_def)
    then show ?thesis by simp
  qed
  then show ?thesis
    by (auto simp: moveToDeadLetter_def Let_def split: option.splits prod.splits sum.splits)
qed

lemma retention_rec [simp]: "q_rec (applyRetention r ty now q) = q_rec q" "q_next (applyRetention r ty now q) = q_next q"
proof -
  have d: "q_rec (delete_job i a) = q_rec a" "q_next (delete_job i a) = q_next a" for i a by (simp_all add: delete_job_def)
  then have f: "q_rec (delete_records rs a) = q_rec a" "q_next (delete_records rs a) = q_next a" for rs a
    unfolding delete_records_def by (induction rs arbitrary: a) simp_all
  show "q_rec (applyRetention r ty now q) = q_rec q" "q_next (applyRetention r ty now q) = q_next q"
    by (simp_all add: applyRetention_def Let_def keep_newest_def drop_older_def d f split: retention.split)
qed

lemma finished_rec [simp]: "q_rec (scheduler_finished en r now q) = q_rec q"
proof -
  have e: "q_rec (ensureSchedulerLoop now a) = q_rec a" for a
    by (auto simp: ensureSchedulerLoop_def clearSchedulerTimer_def split: option.split)
  show ?thesis
    by (auto simp: scheduler_finished_def onSchedulerJobFinished_def e drop_scheduler_def put_scheduler_def
        split: option.split sum.split)
qed

lemma own_some: "jm_get (fst st) (wk_queue (snd st)) = Some q \<Longrightarrow> own (on_q f st) = f (own st)"
  by (simp add: own_on_q)

lemma some_on_q: "jm_get (fst st) (wk_queue (snd st)) = Some q \<Longrightarrow>
    jm_get (fst (on_q f st)) (wk_queue (snd (on_q f st))) = Some (f q)"
  by (simp add: on_q_def with_queue_def js_map_simps)

lemma own_emit_some:
  "jm_get (fst st) (wk_queue (snd st)) = Some q \<Longrightarrow> own (on_q f (wk_emit ev st)) = f (own st)"
  by (simp add: own_on_q) (simp add: wk_emit_def)

lemma failed_terminally:
  assumes q: "jm_get (fst st) (wk_queue (snd st)) = Some q" and "r < q_next (own st)"
  shows "state_of (own (fail_terminally en r h e now st)) r = Failed"
    and "j_attemptsMade (q_rec (own (fail_terminally en r h e now st)) r) = j_attemptsMade (q_rec (own st) r)"
proof -
  let ?f = "on_q (finish_failed r now) st"
  note f = some_on_q [OF q, of "finish_failed r now"]
  have n: "q_next (finish_failed r now (own st)) = q_next (own st)"
    by (simp add: finish_failed_def Let_def recordMetric_def)
  have o: "own ?f = finish_failed r now (own st)" by (rule own_some [OF q])
  have m: "q_rec (own (moveToDeadLetter en r h e now ?f)) r = q_rec (finish_failed r now (own st)) r"
    using moveToDeadLetter_rec [OF _ f, of r] o n assms(2) by simp
  have "q_rec (own (on_q g x)) r = q_rec (own x) r" if "\<And>a. q_rec (g a) = q_rec a" for g x
    using that by (simp add: own_on_q)
  then have "q_rec (own (fail_terminally en r h e now st)) r = q_rec (finish_failed r now (own st)) r"
    by (simp add: fail_terminally_def m)
  then show "state_of (own (fail_terminally en r h e now st)) r = Failed"
    "j_attemptsMade (q_rec (own (fail_terminally en r h e now st)) r) = j_attemptsMade (q_rec (own st) r)"
    by (simp_all add: state_of_def finish_failed_def Let_def recordMetric_def)
qed

section \<open>A run after the other\<close>

lemma next_keeps:
  "q_next (park_retry r d now q) = q_next q" "q_next (count_attempt r e q) = q_next q" "q_next (mark_active now r q) = q_next q"
  by (simp_all add: park_retry_def count_attempt_def mark_active_def parkDelayed_def schedulePromotion_def Let_def
      clearPromotion_def set_state_def dequeueRecord_def)

lemma failing_run_step:
  fixes en :: env and now :: int and h :: test_job and e :: js_error and st :: sys and r :: nat
  assumes "isCurrent st r" and "r < q_next (own st)" and "ordinary_error e" and "\<not> h_discarded h"
    and "allowed (own st) r = of_nat n" and "made = Suc (j_attemptsMade (q_rec (own st) r))"
  defines "st' \<equiv> failing_run en r (now, h, e) st"
  shows "j_attemptsMade (q_rec (own st') r) = made"
    and "made < n \<Longrightarrow> isCurrent st' r \<and> r < q_next (own st') \<and> state_of (own st') r = Delayed \<and> allowed (own st') r = of_nat n"
    and "\<not> made < n \<Longrightarrow> state_of (own st') r = Failed"
proof -
  obtain q where q: "jm_get (fst st) (wk_queue (snd st)) = Some q" using isCurrent_queue [OF assms(1)] by blast
  let ?a = "activate now r st"
  have aq: "jm_get (fst ?a) (wk_queue (snd ?a)) = Some (mark_active now r q)"
    using some_on_q [OF q, of "mark_active now r"] by (simp add: activate_def wk_emit_def)
  have ao: "own ?a = mark_active now r (own st)" using own_eq [OF aq] own_eq [OF q] by simp
  let ?c = "on_q (count_attempt r e) ?a"
  note cq = some_on_q [OF aq, of "count_attempt r e"]
  have co: "own ?c = count_attempt r e (mark_active now r (own st))" using own_some [OF aq] ao by simp
  have cur: "isCurrent ?a r" using assms(1) by simp
  have w: "will_retry e h (own ?c) r \<longleftrightarrow> made < n"
  proof -
    have "num_or 0 (attempts (opts_of (own ?c) r)) = allowed (own st) r"
      unfolding co by (simp add: allowed_def opts_of_def count_attempt_def mark_active_def)
    moreover have "j_attemptsMade (q_rec (own ?c) r) = made"
      unfolding co using assms(6) by (simp add: count_attempt_def mark_active_def)
    ultimately show ?thesis
      using assms(3,4,5) by (auto simp: will_retry_def max_attempts_def ordinary_error_def)
  qed
  have hf: "st' = (if made < n
      then on_q (emit (EvRetrying (h_id h) e))
             (wk_emit (WkFailed (h_id h) e) (on_q (park_retry r (backoff_delay en r e ?c) now) ?c))
      else fail_terminally en r h e now ?c)"
    using assms(3) cur w by (simp add: st'_def failing_run_def handleFailure_def Let_def ordinary_error_def)
  have made: "Suc (j_attemptsMade (q_rec (mark_active now r (own st)) r)) = made"
    using assms(6) by (simp add: active_keeps)
  have retry: "isCurrent st' r \<and> r < q_next (own st') \<and> state_of (own st') r = Delayed \<and> allowed (own st') r = of_nat n \<and>
      j_attemptsMade (q_rec (own st') r) = made" if "made < n"
  proof -
    let ?p = "park_retry r (backoff_delay en r e ?c) now (count_attempt r e (mark_active now r (own st)))"
    have o: "own st' = emit (EvRetrying (h_id h) e) ?p"
      using that own_emit_some [OF some_on_q [OF cq]] own_some [OF cq] by (simp add: hf co)
    have "allowed (emit ev a) r = allowed a r" for ev a by (rule allowed_cong) simp_all
    then show ?thesis
      using assms(1,2,5) made
      by (simp add: isCurrent_def o retry_parks active_keeps next_keeps)
  qed
  have fail: "state_of (own st') r = Failed \<and> j_attemptsMade (q_rec (own st') r) = made" if "\<not> made < n"
  proof -
    have "r < q_next (own ?c)" using assms(2) by (simp add: co next_keeps)
    moreover have "j_attemptsMade (q_rec (own ?c) r) = made" unfolding co using made by (simp add: count_attempt_def)
    ultimately show ?thesis using that failed_terminally [OF cq, of r en h e now] by (simp add: hf)
  qed
  show "j_attemptsMade (q_rec (own st') r) = made"
    "made < n \<Longrightarrow> isCurrent st' r \<and> r < q_next (own st') \<and> state_of (own st') r = Delayed \<and> allowed (own st') r = of_nat n"
    "\<not> made < n \<Longrightarrow> state_of (own st') r = Failed"
    using retry fail by blast+
qed

text \<open>
  C7: \<open>attempts\<close> bounds the runs of a job exactly. If every run of a job throws an ordinary error,
  whatever the errors, times and backoff, then after each of the first \<open>attempts - 1\<close> failures it is
  parked in \<open>delayed\<close> to be run again, and after failure number \<open>attempts\<close> (or the first,
  when no attempts are set) it is failed.
\<close>

theorem attempts_exhausted:
  assumes "isCurrent st r" and "tq_wf (own st)" and "allowed (own st) r = of_nat n"
    and "j_attemptsMade (q_rec (own st) r) = 0"
    and "\<forall>(now, h, e) \<in> set xs. ordinary_error e \<and> \<not> h_discarded h"
    and "xs \<noteq> []" and "length xs \<le> max 1 n"
  shows "state_of (own (fold (failing_run en r) xs st)) r = (if length xs < n then Delayed else Failed) \<and>
         j_attemptsMade (q_rec (own (fold (failing_run en r) xs st)) r) = length xs"
proof -
  have "isCurrent st' r \<Longrightarrow> r < q_next (own st') \<Longrightarrow> allowed (own st') r = of_nat n \<Longrightarrow>
      j_attemptsMade (q_rec (own st') r) = m \<Longrightarrow> \<forall>(now, h, e) \<in> set ys. ordinary_error e \<and> \<not> h_discarded h \<Longrightarrow>
      ys \<noteq> [] \<Longrightarrow> m + length ys \<le> max 1 n \<Longrightarrow>
      state_of (own (fold (failing_run en r) ys st')) r = (if m + length ys < n then Delayed else Failed) \<and>
      j_attemptsMade (q_rec (own (fold (failing_run en r) ys st')) r) = m + length ys" for ys st' m
  proof (induction ys arbitrary: st' m)
    case (Cons y ys)
    obtain now h e where y: "y = (now, h, e)" by (cases y)
    have ok: "ordinary_error e" "\<not> h_discarded h" using Cons.prems(5) by (simp_all add: y)
    note step = failing_run_step [OF Cons.prems(1,2) ok Cons.prems(3), of "Suc m" en now, folded y, unfolded Cons.prems(4), OF refl]
    show ?case
    proof (cases "ys = []")
      case True
      show ?thesis unfolding True using step by simp
    next
      case False
      then have "Suc m < n" using Cons.prems(7) by (cases ys) auto
      note s = step(1) step(2) [OF this]
      have "state_of (own (fold (failing_run en r) ys (failing_run en r y st'))) r = (if Suc m + length ys < n then Delayed else Failed) \<and>
          j_attemptsMade (q_rec (own (fold (failing_run en r) ys (failing_run en r y st'))) r) = Suc m + length ys"
        by (rule Cons.IH) (use s Cons.prems(5,7) False in simp_all)
      then show ?thesis by simp
    qed
  qed simp
  from this [OF assms(1) _ assms(3,4,5,6)] show ?thesis
    using assms(7) current_next [OF assms(2), of r] assms(1) by (simp add: isCurrent_def)
qed

text \<open>A job with two attempts: parked after the first failure, failed after the second.\<close>

definition two_attempts :: sys where
  "two_attempts = ([(''q'', attended_queue\<lparr>q_opts := (\<lambda>_. default_opts\<lparr>attempts := Some (Num 2)\<rparr>)\<rparr>)], plain_worker)"

definition sample_run :: "int \<times> test_job \<times> js_error" where
  "sample_run = (5, new_TestJob (own two_attempts) 0, err ''boom'')"

lemma attempts_exhausted_witness:
  "state_of (own (fold (failing_run sample_env 0) [sample_run] two_attempts)) 0 = Delayed \<and>
   state_of (own (fold (failing_run sample_env 0) [sample_run, sample_run] two_attempts)) 0 = Failed"
proof -
  have "tq_wf attended_queue"
    using reachable_system_ok [OF reachable_one_worker] by (simp add: system_ok_def one_worker_def world_ok_def qok_def)
  then have wf: "tq_wf (own two_attempts)"
    by (simp add: own_def two_attempts_def plain_worker_def new_worker_def tq_wf_def lookup_def id_of_def)
  have o: "own two_attempts = attended_queue\<lparr>q_opts := (\<lambda>_. default_opts\<lparr>attempts := Some (Num 2)\<rparr>)\<rparr>"
    by (simp add: own_def two_attempts_def plain_worker_def new_worker_def)
  have c: "isCurrent two_attempts 0"
    by (simp add: isCurrent_def o current_def lookup_def id_of_def attended_queue_def plain_added_sel [unfolded lookup_def id_of_def])
  have a: "allowed (own two_attempts) 0 = of_nat 2" by (simp add: allowed_def opts_of_def o)
  have m: "j_attemptsMade (q_rec (own two_attempts) 0) = 0"
    by (simp add: o attended_queue_def plain_added_def Let_def enqueueWaiting_def store_record_def set_state_def upd_def
        emit_def push_waiting_def dequeueRecord_def plain_record_def blank_job_def)
  have r: "\<forall>(now, h, e) \<in> set xs. ordinary_error e \<and> \<not> h_discarded h" if "set xs \<subseteq> {sample_run}" for xs
  proof
    fix x assume "x \<in> set xs"
    then have "x = sample_run" using that by blast
    then show "case x of (now, h, e) \<Rightarrow> ordinary_error e \<and> \<not> h_discarded h"
      by (simp add: sample_run_def ordinary_error_def isRateLimitError_def new_TestJob_def Let_def name_of_def err_def)
  qed
  show ?thesis
    using attempts_exhausted [OF c wf a m r, of "[sample_run]" sample_env]
      attempts_exhausted [OF c wf a m r, of "[sample_run, sample_run]" sample_env] by simp
qed

end
