(* ===== verification/Tq_Parents.thy ===== *)
theory Tq_Parents
  imports Tq_Props
begin

text \<open>
  Flows: a parent that waits for its children is put back into its queue by the child that settles
  last, whatever the order of the children and however often one is reported.
\<close>

section \<open>Marking dependencies done\<close>

text \<open>The dependencies that the finished children \<open>cs\<close> (queue and id) settle.\<close>

definition deps_settled :: "(string, parent_ref) jsmap \<Rightarrow> (string \<times> string) list \<Rightarrow> string set" where
  "deps_settled deps cs = {m. \<exists>d. (m, d) \<in> set deps \<and> (pr_queue d, pr_id d) \<in> set cs}"

lemma deps_settled_snoc: "deps_settled deps (cs @ [(cq, ci)]) = deps_settled deps cs \<union> {m. \<exists>d. (m, d) \<in> set deps \<and> pr_queue d = cq \<and> pr_id d = ci}"
  by (auto simp: deps_settled_def)

lemma deps_settled_keys: "deps_settled deps cs \<subseteq> set (jm_keys deps)"
  by (force simp: deps_settled_def)

lemma set_set_add [simp]: "set (set_add x xs) = insert x (set xs)"
  by (auto simp: set_add_def)

lemma distinct_set_add [simp]: "distinct (set_add x xs) = distinct xs"
  by (auto simp: set_add_def)

lemma mark_done_sel:
  "j_deps (mark_done cq ci j) = j_deps j" "j_state (mark_done cq ci j) = j_state j" "j_id (mark_done cq ci j) = j_id j"
  "set (j_depsDone (mark_done cq ci j)) = set (j_depsDone j) \<union> {m. \<exists>d. (m, d) \<in> set (j_deps j) \<and> pr_queue d = cq \<and> pr_id d = ci}"
  "distinct (j_depsDone (mark_done cq ci j)) = distinct (j_depsDone j)"
proof -
  let ?f = "\<lambda>(member :: string, d :: parent_ref) done'. if pr_queue d = cq \<and> pr_id d = ci then set_add member done' else done'"
  have "set (fold ?f ds done') = set done' \<union> {m. \<exists>d. (m, d) \<in> set ds \<and> pr_queue d = cq \<and> pr_id d = ci} \<and>
      distinct (fold ?f ds done') = distinct done'" for ds done'
    by (induction ds arbitrary: done') (auto split: if_splits)
  then show "set (j_depsDone (mark_done cq ci j)) = set (j_depsDone j) \<union> {m. \<exists>d. (m, d) \<in> set (j_deps j) \<and> pr_queue d = cq \<and> pr_id d = ci}"
    "distinct (j_depsDone (mark_done cq ci j)) = distinct (j_depsDone j)"
    by (simp_all add: mark_done_def)
qed (simp_all add: mark_done_def)

lemma pending_done:
  assumes "jm_wf (j_deps (q_rec q r))" and "distinct (j_depsDone (q_rec q r))"
    and "set (j_depsDone (q_rec q r)) = deps_settled (j_deps (q_rec q r)) cs"
  shows "pendingDependencies r q \<le> 0 \<longleftrightarrow> deps_settled (j_deps (q_rec q r)) cs = set (jm_keys (j_deps (q_rec q r)))"
proof -
  let ?d = "j_deps (q_rec q r)"
  have "length ?d = card (set (jm_keys ?d))" using assms(1) distinct_card [of "jm_keys ?d"] by simp
  moreover have "length (j_depsDone (q_rec q r)) = card (deps_settled ?d cs)" using assms(2,3) distinct_card by metis
  moreover have "card (set (jm_keys ?d)) \<le> card (deps_settled ?d cs) \<longleftrightarrow> deps_settled ?d cs = set (jm_keys ?d)"
    using deps_settled_keys [of ?d cs] card_seteq [of "set (jm_keys ?d)" "deps_settled ?d cs"] by auto
  ultimately show ?thesis by (simp add: pendingDependencies_def)
qed

section \<open>The release of the parent\<close>

definition settle_all :: "string \<Rightarrow> (string \<times> string) list \<Rightarrow> tq \<Rightarrow> tq" where
  "settle_all p cs q = fold (\<lambda>(cq, ci). settle_parent cq ci p) cs q"

text \<open>
  C8: a parent is released by its last child. Take a parent that waits for a set of children and let
  children finish in any order, with repetitions and with children of other parents in between.
  The parent stays in \<open>waiting-children\<close> until each of its dependencies has finished; the one that
  finishes last moves it to \<open>waiting\<close>, and it has a dispatch entry from then on.
\<close>

theorem parent_released_by_last:
  assumes "lookup q p = Some r" and "state_of q r = WaitingChildren"
    and "jm_wf (j_deps (q_rec q r))" and "j_deps (q_rec q r) \<noteq> []" and "j_depsDone (q_rec q r) = []"
  shows "state_of (settle_all p cs q) r =
           (if \<forall>(m, d) \<in> set (j_deps (q_rec q r)). (pr_queue d, pr_id d) \<in> set cs then Waiting else WaitingChildren) \<and>
         (state_of (settle_all p cs q) r = Waiting \<longrightarrow> r \<in> set (q_waiting (settle_all p cs q)))"
proof -
  let ?deps = "j_deps (q_rec q r)"
  define all where "all xs \<longleftrightarrow> deps_settled ?deps xs = set (jm_keys ?deps)" for xs
  have inv: "lookup (settle_all p cs q) p = Some r \<and> j_deps (q_rec (settle_all p cs q) r) = ?deps \<and>
      distinct (j_depsDone (q_rec (settle_all p cs q) r)) \<and>
      set (j_depsDone (q_rec (settle_all p cs q) r)) = deps_settled ?deps cs \<and>
      state_of (settle_all p cs q) r = (if all cs then Waiting else WaitingChildren) \<and>
      (all cs \<longrightarrow> r \<in> set (q_waiting (settle_all p cs q)))"
  proof (induction cs rule: rev_induct)
    case Nil
    have "deps_settled ?deps [] = {}" by (simp add: deps_settled_def)
    then show ?case using assms by (simp add: settle_all_def all_def)
  next
    case (snoc c cs)
    obtain cq ci where c: "c = (cq, ci)" by (cases c)
    let ?a = "settle_all p cs q"
    let ?u = "upd r (mark_done cq ci) ?a"
    have s: "settle_all p (cs @ [c]) q = settle_parent cq ci p ?a" by (simp add: settle_all_def c)
    have e: "settle_parent cq ci p ?a = (if state_of ?u r = WaitingChildren \<and> pendingDependencies r ?u \<le> 0 then enqueueWaiting r ?u else ?u)"
      using snoc by (simp add: settle_parent_def Let_def)
    have u: "j_deps (q_rec ?u r) = ?deps" "distinct (j_depsDone (q_rec ?u r))"
        "set (j_depsDone (q_rec ?u r)) = deps_settled ?deps (cs @ [c])" "lookup ?u p = Some r"
        "state_of ?u r = state_of ?a r" "q_waiting ?u = q_waiting ?a"
      using snoc by (simp_all add: mark_done_sel c deps_settled_snoc state_of_def)
    have pd: "pendingDependencies r ?u \<le> 0 \<longleftrightarrow> all (cs @ [c])"
      using pending_done [of ?u r "cs @ [c]"] u assms(3) by (simp add: all_def)
    have mono: "all cs \<Longrightarrow> all (cs @ [c])"
      using deps_settled_keys [of ?deps "cs @ [c]"] unfolding all_def c deps_settled_snoc by blast
    have eq: "j_deps (q_rec (enqueueWaiting r ?u) r) = ?deps"
        "j_depsDone (q_rec (enqueueWaiting r ?u) r) = j_depsDone (q_rec ?u r)"
        "lookup (enqueueWaiting r ?u) p = Some r"
      using u by (simp_all add: enqueueWaiting_def Let_def push_waiting_def dequeueRecord_def set_state_def)
    show ?case
    proof (cases "all cs")
      case True
      then have "settle_all p (cs @ [c]) q = ?u" using s e u snoc by simp
      then show ?thesis using True mono u snoc by simp
    next
      case False
      then have w: "state_of ?u r = WaitingChildren" using u snoc by simp
      show ?thesis
      proof (cases "all (cs @ [c])")
        case True
        then have "settle_all p (cs @ [c]) q = enqueueWaiting r ?u" using s e w pd by simp
        then show ?thesis using True u eq by simp
      next
        case False
        then have "settle_all p (cs @ [c]) q = ?u" using s e pd by simp
        then show ?thesis using False u w by simp
      qed
    qed
  qed
  have "all cs \<longleftrightarrow> (\<forall>(m, d) \<in> set ?deps. (pr_queue d, pr_id d) \<in> set cs)"
  proof
    assume a: "all cs"
    have "(pr_queue d, pr_id d) \<in> set cs" if md: "(m, d) \<in> set ?deps" for m d
    proof -
      have "m \<in> deps_settled ?deps cs" using a md unfolding all_def by force
      then obtain d' where "(m, d') \<in> set ?deps" "(pr_queue d', pr_id d') \<in> set cs" by (auto simp: deps_settled_def)
      moreover have "d' = d" using assms(3) md calculation(1) eq_key_imp_eq_value by metis
      ultimately show ?thesis by simp
    qed
    then show "\<forall>(m, d) \<in> set ?deps. (pr_queue d, pr_id d) \<in> set cs" by blast
  next
    assume a: "\<forall>(m, d) \<in> set ?deps. (pr_queue d, pr_id d) \<in> set cs"
    then have "set (jm_keys ?deps) \<subseteq> deps_settled ?deps cs" by (force simp: deps_settled_def)
    then show "all cs" using deps_settled_keys [of ?deps cs] by (simp add: all_def subset_antisym)
  qed
  with inv show ?thesis by simp
qed

text \<open>A parent of the children 2 and 3 of queue \<open>q\<close>.\<close>

definition family :: tq where
  "family = upd 0 (\<lambda>j. j\<lparr>j_state := WaitingChildren,
       j_deps := [(''c2'', \<lparr>pr_queue = ''q'', pr_id = ''2''\<rparr>), (''c3'', \<lparr>pr_queue = ''q'', pr_id = ''3''\<rparr>)]\<rparr>) two_job_queue"

lemma parent_released_by_last_witness:
  "state_of (settle_all ''1'' [(''q'', ''3''), (''q'', ''3'')] family) 0 = WaitingChildren \<and>
   state_of (settle_all ''1'' [(''q'', ''3''), (''q'', ''2'')] family) 0 = Waiting \<and>
   0 \<in> set (q_waiting (settle_all ''1'' [(''q'', ''3''), (''q'', ''2'')] family))"
proof -
  have l: "lookup family ''1'' = Some 0" by (simp add: family_def two_job_queue_def)
  have s: "state_of family 0 = WaitingChildren" by (simp add: family_def state_of_def)
  have d: "j_deps (q_rec family 0) = [(''c2'', \<lparr>pr_queue = ''q'', pr_id = ''2''\<rparr>), (''c3'', \<lparr>pr_queue = ''q'', pr_id = ''3''\<rparr>)]"
    by (simp add: family_def)
  have n: "j_depsDone (q_rec family 0) = []"
    by (simp add: family_def two_job_queue_def plain_added_def Let_def enqueueWaiting_def store_record_def set_state_def
        upd_def emit_def push_waiting_def dequeueRecord_def plain_record_def blank_job_def)
  note r = parent_released_by_last [OF l s _ _ n]
  show ?thesis
    using r [of "[(''q'', ''3''), (''q'', ''3'')]"] r [of "[(''q'', ''3''), (''q'', ''2'')]"] by (simp add: d)
qed

end
