(* ===== verification/Tq_Vector.thy ===== *)
theory Tq_Vector
  imports Complex_Main Tq_Props "HOL-Library.Multiset"
begin

text \<open>
  Vector search of a \<open>TestQueue\<close> (\<open>src/testing.ts\<close>): brute-force cosine similarity over the vectors
  stored on the jobs. Components are exact rationals and the similarity is an exact real; the
  rounding of doubles is not modelled.
\<close>

section \<open>Similarity\<close>

fun dot :: "rat list \<Rightarrow> rat list \<Rightarrow> rat" where
  "dot (x # xs) (y # ys) = x * y + dot xs ys"
| "dot xs ys = 0"

definition cosineSimilarity :: "rat list \<Rightarrow> rat list \<Rightarrow> real" where
  "cosineSimilarity a b =
     (let denom = sqrt (of_rat (dot a a)) * sqrt (of_rat (dot b b))
      in if denom = 0 then 0 else of_rat (dot a b) / denom)"

section \<open>Search\<close>

text \<open>The states as the strings of \<open>record.state\<close>.\<close>

definition state_name :: "job_state \<Rightarrow> string" where
  "state_name s = (case s of
     Waiting \<Rightarrow> ''waiting'' | Prioritized \<Rightarrow> ''prioritized'' | Active \<Rightarrow> ''active'' | Completed \<Rightarrow> ''completed''
   | Failed \<Rightarrow> ''failed'' | Delayed \<Rightarrow> ''delayed'' | Suspended \<Rightarrow> ''suspended'' | WaitingChildren \<Rightarrow> ''waiting-children'')"

definition word_char :: "char \<Rightarrow> bool" where
  "word_char c \<longleftrightarrow> (CHR ''a'' \<le> c \<and> c \<le> CHR ''z'') \<or> (CHR ''A'' \<le> c \<and> c \<le> CHR ''Z'')
     \<or> (CHR ''0'' \<le> c \<and> c \<le> CHR ''9'') \<or> c = CHR ''_''"

text \<open>The first match of \<open>@state:{word}\<close> in the filter.\<close>

fun stateMatch :: "string \<Rightarrow> string option" where
  "stateMatch [] = None"
| "stateMatch (c # cs) =
     (if take 8 (c # cs) = ''@state:{''
         \<and> takeWhile word_char (drop 8 (c # cs)) \<noteq> []
         \<and> take 1 (dropWhile word_char (drop 8 (c # cs))) = ''}''
      then Some (takeWhile word_char (drop 8 (c # cs)))
      else stateMatch cs)"

definition filtered_out :: "string option \<Rightarrow> tq \<Rightarrow> nat \<Rightarrow> bool" where
  "filtered_out flt q r =
     (case flt of
        None \<Rightarrow> False
      | Some f \<Rightarrow> (case stateMatch f of None \<Rightarrow> False | Some s \<Rightarrow> f \<noteq> [] \<and> state_name (state_of q r) \<noteq> s))"

definition candidate :: "rat list \<Rightarrow> string \<Rightarrow> string option \<Rightarrow> tq \<Rightarrow> nat \<Rightarrow> (nat \<times> real) list" where
  "candidate query fieldName flt q r =
     (if filtered_out flt q r then []
      else (case jm_get (j_vectors (q_rec q r)) fieldName of
              None \<Rightarrow> []
            | Some vec \<Rightarrow> if length vec \<noteq> length query then [] else [(r, 1 - cosineSimilarity query vec)]))"

definition candidates :: "rat list \<Rightarrow> string \<Rightarrow> string option \<Rightarrow> tq \<Rightarrow> (nat \<times> real) list" where
  "candidates query fieldName flt q = concat (map (candidate query fieldName flt q) (records q))"

definition vectorSearch :: "rat list \<Rightarrow> int option \<Rightarrow> string option \<Rightarrow> tq \<Rightarrow> tq_error + (test_job \<times> real) list" where
  "vectorSearch embedding k flt q =
     (case q_indexField q of
        None \<Rightarrow> Inl (Js (err ''No index created. Call createJobIndex() first.''))
      | Some vectorField \<Rightarrow>
          Inr (map (\<lambda>(r, score). (new_TestJob q r, score))
                 (js_slice 0 (Some (or_else k 10))
                    (sort_key snd (candidates embedding (or_else vectorField ''_vec'') flt q)))))"

section \<open>The nearest vectors\<close>

lemma dot_self [simp]: "0 \<le> dot a a"
  by (induction a) (simp_all add: add_nonneg_nonneg)

lemma mixed_term_bound:
  fixes x y A B C :: rat
  assumes "C\<^sup>2 \<le> A * B" and "0 \<le> A" and "0 \<le> B"
  shows "2 * x * y * C \<le> x\<^sup>2 * B + y\<^sup>2 * A"
proof (rule power2_le_imp_le)
  have "(2 * x * y * C)\<^sup>2 = 4 * x\<^sup>2 * y\<^sup>2 * C\<^sup>2" by (simp add: power2_eq_square)
  also have "\<dots> \<le> 4 * x\<^sup>2 * y\<^sup>2 * (A * B)" using assms(1) by (intro mult_left_mono) simp_all
  also have "\<dots> \<le> (x\<^sup>2 * B + y\<^sup>2 * A)\<^sup>2"
  proof -
    have "0 \<le> (x\<^sup>2 * B - y\<^sup>2 * A)\<^sup>2" by simp
    then show ?thesis by (simp add: power2_eq_square algebra_simps)
  qed
  finally show "(2 * x * y * C)\<^sup>2 \<le> (x\<^sup>2 * B + y\<^sup>2 * A)\<^sup>2" .
  show "0 \<le> x\<^sup>2 * B + y\<^sup>2 * A" using assms by simp
qed

lemma cauchy_schwarz: "(dot a b)\<^sup>2 \<le> dot a a * dot b b"
proof (induction a b rule: dot.induct)
  case (1 x xs y ys)
  have "2 * x * y * dot xs ys \<le> x\<^sup>2 * dot ys ys + y\<^sup>2 * dot xs xs"
    using 1 by (rule mixed_term_bound) simp_all
  with 1 show ?case by (simp add: power2_eq_square algebra_simps)
qed simp_all

lemma cosineSimilarity_bounds: "\<bar>cosineSimilarity a b\<bar> \<le> 1"
proof (cases "sqrt (of_rat (dot a a)) * sqrt (of_rat (dot b b)) = 0")
  case False
  let ?d = "sqrt (of_rat (dot a a)) * sqrt (of_rat (dot b b))"
  have pos: "0 < ?d" using False by (simp add: less_le)
  have "(of_rat (dot a b) :: real)\<^sup>2 = of_rat ((dot a b)\<^sup>2)" by (simp add: of_rat_power)
  also have "\<dots> \<le> of_rat (dot a a * dot b b)" using cauchy_schwarz by (simp only: of_rat_less_eq)
  also have "\<dots> = ?d\<^sup>2" by (simp add: power_mult_distrib of_rat_mult)
  finally have "\<bar>of_rat (dot a b) :: real\<bar> \<le> ?d"
    using pos by (simp add: abs_le_square_iff [symmetric])
  then show ?thesis using pos False by (simp add: cosineSimilarity_def Let_def)
qed (simp add: cosineSimilarity_def)

lemma candidates_score: "x \<in> set (candidates e f flt q) \<Longrightarrow> 0 \<le> snd x \<and> snd x \<le> 2"
proof -
  assume "x \<in> set (candidates e f flt q)"
  then obtain v where "snd x = 1 - cosineSimilarity e v"
    by (auto simp: candidates_def candidate_def split: if_splits option.splits)
  then show ?thesis using cosineSimilarity_bounds [of e v] by (simp add: abs_le_iff)
qed

lemma js_slice_prefix: "0 \<le> k \<Longrightarrow> js_slice 0 (Some k) xs = take (nat k) xs"
  by (simp add: js_slice_def slice_bound_def Let_def min_def nat_le_iff)


text \<open>Two jobs with the vectors (1, 0) and (0, 1), searched for (1, 0).\<close>

definition embedded_queue :: tq where
  "embedded_queue = createJobIndex None
     (upd 0 (\<lambda>j. j\<lparr>j_vectors := [(''_vec'', [0, 1])]\<rparr>)
       (upd 1 (\<lambda>j. j\<lparr>j_vectors := [(''_vec'', [1, 0])]\<rparr>) two_job_queue))"

lemma records_plain_added:
  assumes "lookup q (show_nat (Suc (q_idCounter q))) = None"
  shows "records (plain_added name o' now q) = records q @ [q_next q]"
proof -
  have "show_nat (Suc (q_idCounter q)) \<notin> set (jm_keys (q_jobs q))"
    using assms by (simp add: lookup_def map_of_eq_None_iff)
  then show ?thesis
    by (simp add: plain_added_def Let_def records_def enqueueWaiting_def set_state_def push_waiting_def dequeueRecord_def
        store_record_def jm_keys_set_new)
qed

lemma embedded_queue_sel:
  "q_indexField embedded_queue = Some None" "records embedded_queue = [0, 1]"
  "j_vectors (q_rec embedded_queue 0) = [(''_vec'', [0, 1])]" "j_vectors (q_rec embedded_queue 1) = [(''_vec'', [1, 0])]"
proof -
  have "records two_job_queue = [0, 1]"
    by (simp add: two_job_queue_def records_plain_added) (simp add: records_def)
  then show "records embedded_queue = [0, 1]" by (simp add: embedded_queue_def createJobIndex_def records_def)
qed (simp_all add: embedded_queue_def createJobIndex_def)


end
