(* ===== verification/Tq_Wait.thy ===== *)
theory Tq_Wait
  imports Tq_Props
begin

text \<open>
  Waiting for jobs of a \<open>TestQueue\<close> (\<open>src/testing.ts\<close>): \<open>waitForJobs\<close>, \<open>waitForJobResult\<close> and
  \<open>addAndWait\<close>. A wait is a state that the events of the queue, its timer and the closing of the
  queue drive until it has a result; a handler sees the queue as it is when its event is emitted.
  After the result the listeners are gone, so further events change nothing.
\<close>

section \<open>Events and results\<close>

text \<open>
  What reaches a wait: an event of the queue, the sweep of \<open>obliterate\<close>, the timer and the
  rejection by \<open>close\<close>.
\<close>

datatype wait_input = Emitted queue_event | Swept | TimedOut | Closing

datatype wait_error = NotFinished jsnum "string list" | WaitFailed js_error | WaitInvalid js_error

datatype 'a wait_outcome = Pending | Rejected wait_error | Resolved 'a

section \<open>Several jobs\<close>

record waiter =
  wt_timeout :: jsnum
  wt_pending :: "string list"
  wt_outcome :: "unit wait_outcome"

definition check_timeout :: "jsnum \<Rightarrow> wait_error + unit" where
  "check_timeout t =
     ensure (is_finite t \<and> Num 0 < t \<and> t \<le> Num 2147483647)
       (WaitInvalid (err ''timeout must be a positive finite number no greater than 2147483647''))"

definition reject_wait :: "wait_error \<Rightarrow> waiter \<Rightarrow> waiter" where
  "reject_wait e w = w\<lparr>wt_outcome := Rejected e\<rparr>"

definition settle_wait :: "string \<Rightarrow> waiter \<Rightarrow> waiter" where
  "settle_wait i w =
     (if i \<notin> set (wt_pending w) then w
      else let w' = w\<lparr>wt_pending := removeAll i (wt_pending w)\<rparr>
           in if wt_pending w' = [] then w'\<lparr>wt_outcome := Resolved ()\<rparr> else w')"

definition onFailed :: "string \<Rightarrow> js_error \<Rightarrow> waiter \<Rightarrow> waiter" where
  "onFailed i e w = (if i \<notin> set (wt_pending w) then w else reject_wait (WaitFailed e) w)"

definition failed_record :: "tq \<Rightarrow> string \<Rightarrow> bool" where
  "failed_record q i = (case lookup q i of None \<Rightarrow> False | Some r \<Rightarrow> state_of q r = Failed)"

definition onRevoked :: "tq \<Rightarrow> string \<Rightarrow> waiter \<Rightarrow> waiter" where
  "onRevoked q i w =
     (if i \<in> set (wt_pending w) \<and> failed_record q i then reject_wait (WaitFailed (err ''revoked'')) w else w)"

definition sweep :: "tq \<Rightarrow> waiter \<Rightarrow> waiter" where
  "sweep q w = fold (\<lambda>i w. if jm_has (q_jobs q) i then w else settle_wait i w) (wt_pending w) w"

definition handle_event :: "tq \<Rightarrow> queue_event \<Rightarrow> waiter \<Rightarrow> waiter" where
  "handle_event q ev w =
     (case ev of
        EvCompleted i v \<Rightarrow> settle_wait i w
      | EvFailed i e \<Rightarrow> onFailed i e w
      | EvRevoked i \<Rightarrow> onRevoked q i w
      | EvRemoved i \<Rightarrow> sweep q w
      | EvDrained n \<Rightarrow> sweep q w
      | _ \<Rightarrow> w)"

definition wait_step :: "tq \<times> wait_input \<Rightarrow> waiter \<Rightarrow> waiter" where
  "wait_step = (\<lambda>(q, x) w.
     if wt_outcome w \<noteq> Pending then w
     else (case x of
             Emitted ev \<Rightarrow> handle_event q ev w
           | Swept \<Rightarrow> sweep q w
           | TimedOut \<Rightarrow> reject_wait (NotFinished (wt_timeout w) (wt_pending w)) w
           | Closing \<Rightarrow> reject_wait (WaitFailed (GlideMQError ''Queue is closing'')) w))"

text \<open>The scan of the records that settled before the listeners were there.\<close>

fun initial_scan :: "tq \<Rightarrow> string list \<Rightarrow> waiter \<Rightarrow> waiter" where
  "initial_scan q [] w = sweep q w"
| "initial_scan q (i # ids) w =
     (case lookup q i of
        None \<Rightarrow> initial_scan q ids w
      | Some r \<Rightarrow>
          if state_of q r = Completed then initial_scan q ids (settle_wait i w)
          else if state_of q r = Failed then onFailed i (err (or_else (j_failedReason (q_rec q r)) [])) w
          else initial_scan q ids w)"

definition waitForJobs :: "tq \<Rightarrow> string option list \<Rightarrow> jsnum option \<Rightarrow> waiter" where
  "waitForJobs q jobs to =
     (let t = or_else to (Num 30000);
          pending = fold (\<lambda>j ids. case j of None \<Rightarrow> ids | Some i \<Rightarrow> js_add i ids) jobs [];
          w = \<lparr>wt_timeout = t, wt_pending = pending, wt_outcome = Pending\<rparr>
      in case check_timeout t of
           Inl e \<Rightarrow> w\<lparr>wt_pending := [], wt_outcome := Rejected e\<rparr>
         | Inr u \<Rightarrow> if pending = [] then w\<lparr>wt_outcome := Resolved ()\<rparr> else initial_scan q pending w)"

definition run_wait :: "(tq \<times> wait_input) list \<Rightarrow> waiter \<Rightarrow> waiter" where
  "run_wait h w = fold wait_step h w"

section \<open>The result of one job\<close>

record result_waiter =
  rw_id :: string
  rw_timeout :: jsnum
  rw_outcome :: "js wait_outcome"

definition result_failed :: "js_error \<Rightarrow> result_waiter \<Rightarrow> result_waiter" where
  "result_failed e w = w\<lparr>rw_outcome := Rejected (WaitFailed (err (message_of e)))\<rparr>"

definition result_step :: "wait_input \<Rightarrow> result_waiter \<Rightarrow> result_waiter" where
  "result_step x w =
     (if rw_outcome w \<noteq> Pending then w
      else (case x of
              Emitted (EvCompleted i v) \<Rightarrow> if i \<noteq> rw_id w then w else w\<lparr>rw_outcome := Resolved v\<rparr>
            | Emitted (EvFailed i e) \<Rightarrow> if i \<noteq> rw_id w then w else result_failed e w
            | Emitted (EvRevoked i) \<Rightarrow>
                if i \<noteq> rw_id w then w else w\<lparr>rw_outcome := Rejected (WaitFailed (err ''revoked''))\<rparr>
            | TimedOut \<Rightarrow> w\<lparr>rw_outcome := Rejected (NotFinished (rw_timeout w) [rw_id w])\<rparr>
            | Closing \<Rightarrow> w\<lparr>rw_outcome := Rejected (WaitFailed (GlideMQError ''Queue is closing''))\<rparr>
            | _ \<Rightarrow> w))"

definition waitForJobResult :: "tq \<Rightarrow> string \<Rightarrow> jsnum \<Rightarrow> result_waiter" where
  "waitForJobResult q i t =
     (let w = \<lparr>rw_id = i, rw_timeout = t, rw_outcome = Pending\<rparr>
      in case lookup q i of
           None \<Rightarrow> w
         | Some r \<Rightarrow>
             if state_of q r = Completed then w\<lparr>rw_outcome := Resolved (j_returnvalue (q_rec q r))\<rparr>
             else if state_of q r = Failed then result_failed (err (or_else (j_failedReason (q_rec q r)) [])) w
             else w)"

text \<open>\<open>addAndWait\<close>: the job is added, then its result is awaited.\<close>

definition wait_options :: "jsnum \<Rightarrow> job_options \<Rightarrow> wait_error + unit" where
  "wait_options t o' =
     andThen (ensure (is_finite t \<and> Num 0 < t) (WaitInvalid (err ''waitTimeout must be a positive finite number''))) (\<lambda>_.
       ensure (removeOnComplete o' \<in> {Keep, KeepCount 0} \<and> removeOnFail o' \<in> {Keep, KeepCount 0})
         (WaitInvalid (GlideMQError
           ''Queue.addAndWait does not support removeOnComplete/removeOnFail because it may need the job hash as a fallback.'')))"

datatype add_and_wait = NotAdded tq_error | NotWaiting wait_error | Awaiting result_waiter

definition addAndWait :: "string \<Rightarrow> string \<Rightarrow> js \<Rightarrow> nat \<Rightarrow> jsnum option \<Rightarrow> int \<Rightarrow> world \<Rightarrow> world \<times> add_and_wait" where
  "addAndWait qn name data o' to now w =
     (case jm_get w qn of
        None \<Rightarrow> (w, NotWaiting (WaitInvalid (err ''queue is closed'')))
      | Some q \<Rightarrow>
          (case wait_options (or_else to (Num 30000)) (q_opts q o') of
             Inl e \<Rightarrow> (w, NotWaiting e)
           | Inr u \<Rightarrow>
               (case add qn name data o' now w of
                  (w1, Inl e) \<Rightarrow> (w1, NotAdded e)
                | (w1, Inr None) \<Rightarrow>
                    (w1, NotWaiting (WaitInvalid (GlideMQError
                       ''Queue.addAndWait() cannot wait on a deduplicated/skipped/duplicate-ID add that returned null.'')))
                | (w1, Inr (Some r)) \<Rightarrow>
                    (w1, case jm_get w1 qn of
                           None \<Rightarrow> NotWaiting (WaitInvalid (err ''queue is closed''))
                         | Some q1 \<Rightarrow> Awaiting (waitForJobResult q1 (id_of q1 r) (or_else to (Num 30000)))))))"

section \<open>When a wait ends\<close>

text \<open>The ids an input settles, and the error with which it ends a wait for the ids \<open>pend\<close>.\<close>

definition settles :: "tq \<times> wait_input \<Rightarrow> string \<Rightarrow> bool" where
  "settles = (\<lambda>(q, x) i. case x of
     Emitted (EvCompleted j v) \<Rightarrow> j = i
   | Emitted (EvRemoved j) \<Rightarrow> \<not> jm_has (q_jobs q) i
   | Emitted (EvDrained n) \<Rightarrow> \<not> jm_has (q_jobs q) i
   | Swept \<Rightarrow> \<not> jm_has (q_jobs q) i
   | _ \<Rightarrow> False)"

definition ends_with :: "jsnum \<Rightarrow> string list \<Rightarrow> tq \<times> wait_input \<Rightarrow> wait_error option" where
  "ends_with t pend = (\<lambda>(q, x). case x of
     Emitted (EvFailed j e) \<Rightarrow> if j \<in> set pend then Some (WaitFailed e) else None
   | Emitted (EvRevoked j) \<Rightarrow> if j \<in> set pend \<and> failed_record q j then Some (WaitFailed (err ''revoked'')) else None
   | TimedOut \<Rightarrow> Some (NotFinished t pend)
   | Closing \<Rightarrow> Some (WaitFailed (GlideMQError ''Queue is closing''))
   | _ \<Rightarrow> None)"

text \<open>The ids still awaited after a history.\<close>

definition left :: "string list \<Rightarrow> (tq \<times> wait_input) list \<Rightarrow> string list" where
  "left ids h = filter (\<lambda>i. \<forall>x \<in> set h. \<not> settles x i) ids"

lemma left_Nil [simp]: "left ids [] = ids"
  by (simp add: left_def)

lemma left_snoc: "left ids (h @ [x]) = filter (\<lambda>i. \<not> settles x i) (left ids h)"
  by (auto simp: left_def filter_filter intro: filter_cong)

lemma set_left_append: "set (left ids (h @ h')) \<subseteq> set (left ids h)"
  by (auto simp: left_def)

definition settled_to :: "string list \<Rightarrow> waiter \<Rightarrow> waiter" where
  "settled_to p w = w\<lparr>wt_pending := p, wt_outcome := (if p = [] then Resolved () else wt_outcome w)\<rparr>"

lemma settle_wait_eq: "wt_pending w \<noteq> [] \<Longrightarrow> settle_wait i w = settled_to (removeAll i (wt_pending w)) w"
  by (simp add: settle_wait_def settled_to_def Let_def)

lemma settled_to_sel [simp]:
  "wt_pending (settled_to p w) = p" "wt_timeout (settled_to p w) = wt_timeout w"
  "p \<noteq> [] \<Longrightarrow> wt_outcome (settled_to p w) = wt_outcome w"
  "wt_outcome (settled_to [] w) = Resolved ()"
  by (simp_all add: settled_to_def)

lemma settled_to_again [simp]: "p \<noteq> [] \<Longrightarrow> settled_to p' (settled_to p w) = settled_to p' w"
  by (simp add: settled_to_def)

lemma settled_to_same: "wt_pending w \<noteq> [] \<Longrightarrow> settled_to (wt_pending w) w = w"
  by (simp add: settled_to_def)

lemma fold_settle:
  "wt_pending w \<noteq> [] \<Longrightarrow> fold (\<lambda>i w. if P i then w else settle_wait i w) ids w =
     settled_to (filter (\<lambda>i. i \<notin> set ids \<or> P i) (wt_pending w)) w"
proof (induction ids arbitrary: w)
  case Nil
  then show ?case by (simp add: settled_to_same)
next
  case (Cons i ids)
  show ?case
  proof (cases "P i")
    case True
    then have "filter (\<lambda>j. j \<notin> set (i # ids) \<or> P j) (wt_pending w) = filter (\<lambda>j. j \<notin> set ids \<or> P j) (wt_pending w)"
      by (auto intro: filter_cong)
    with True Cons show ?thesis by simp
  next
    case False
    let ?p = "removeAll i (wt_pending w)"
    have eq: "filter (\<lambda>j. j \<notin> set (i # ids) \<or> P j) (wt_pending w) = filter (\<lambda>j. j \<notin> set ids \<or> P j) ?p"
      using False by (auto simp: filter_neq_removeAll [symmetric] filter_filter intro: filter_cong)
    have step: "settle_wait i w = settled_to ?p w" using Cons.prems by (rule settle_wait_eq)
    show ?thesis
    proof (cases "?p = []")
      case True
      have "fold (\<lambda>i w. if P i then w else settle_wait i w) js (settled_to [] w) = settled_to [] w" for js
        by (induction js) (simp_all add: settle_wait_def)
      then show ?thesis unfolding eq using False True by (simp add: step)
    next
      case False2: False
      then show ?thesis unfolding eq using False Cons.IH [of "settled_to ?p w"] by (simp add: step)
    qed
  qed
qed

lemma sweep_eq:
  "wt_pending w \<noteq> [] \<Longrightarrow> sweep q w = settled_to (filter (jm_has (q_jobs q)) (wt_pending w)) w"
  unfolding sweep_def fold_settle by (auto intro: filter_cong arg_cong [of _ _ "\<lambda>p. settled_to p w"])

lemma wait_step_eq:
  assumes "wt_outcome w = Pending" and "wt_pending w \<noteq> []"
  shows "wait_step x w =
     (case ends_with (wt_timeout w) (wt_pending w) x of
        Some e \<Rightarrow> reject_wait e w
      | None \<Rightarrow> settled_to (filter (\<lambda>i. \<not> settles x i) (wt_pending w)) w)"
proof -
  have same: "settled_to (wt_pending w) w = w" using assms by (simp add: settled_to_def)
  obtain q a where x: "x = (q, a)" by (cases x)
  show ?thesis
  proof (cases a)
    case (Emitted ev)
    then show ?thesis using assms same
      by (cases ev) (auto simp: x wait_step_def handle_event_def settles_def ends_with_def settle_wait_eq onFailed_def
          onRevoked_def sweep_eq filter_neq_removeAll [symmetric] intro!: arg_cong [of _ _ "\<lambda>p. settled_to p w"] filter_cong)
  qed (use assms same in \<open>simp_all add: x wait_step_def settles_def ends_with_def sweep_eq\<close>)
qed

text \<open>No input of the history ends the wait.\<close>

fun quiet :: "jsnum \<Rightarrow> string list \<Rightarrow> (tq \<times> wait_input) list \<Rightarrow> bool" where
  "quiet t ids [] = True"
| "quiet t ids (x # h) = (ends_with t ids x = None \<and> quiet t (left ids [x]) h)"

lemma left_Cons: "left ids (x # h) = left (left ids [x]) h"
  by (auto simp: left_def filter_filter intro: filter_cong)

lemma run_wait_done: "wt_outcome w \<noteq> Pending \<Longrightarrow> run_wait h w = w"
  unfolding run_wait_def by (induction h) (auto simp: wait_step_def)

lemma run_wait_Cons: "run_wait (x # h) w = run_wait h (wait_step x w)"
  by (simp add: run_wait_def)

lemma left_empty [simp]: "left [] h = []"
  by (simp add: left_def)

lemma ex_le_Suc: "(\<exists>n \<le> Suc m. P n) \<longleftrightarrow> P 0 \<or> (\<exists>n \<le> m. P (Suc n))"
  by (metis Suc_le_mono le0 not0_implies_Suc)

lemma ex_less_Suc: "(\<exists>n < Suc m. P n) \<longleftrightarrow> P 0 \<or> (\<exists>n < m. P (Suc n))"
  by (metis Suc_less_eq not0_implies_Suc zero_less_Suc)

lemma resolves_iff:
  assumes "wt_outcome w = Pending" and "wt_pending w \<noteq> []"
  shows "wt_outcome (run_wait h w) = Resolved () \<longleftrightarrow>
     (\<exists>n \<le> length h. left (wt_pending w) (take n h) = [] \<and> quiet (wt_timeout w) (wt_pending w) (take n h))"
  using assms
proof (induction h arbitrary: w)
  case Nil
  then show ?case by (simp add: run_wait_def)
next
  case (Cons x h)
  show ?case
  proof (cases "ends_with (wt_timeout w) (wt_pending w) x")
    case None
    let ?w = "settled_to (filter (\<lambda>i. \<not> settles x i) (wt_pending w)) w"
    have step: "wait_step x w = ?w" using Cons.prems None by (simp add: wait_step_eq)
    have l: "wt_pending ?w = left (wt_pending w) [x]" "wt_timeout ?w = wt_timeout w"
      by (simp_all add: settled_to_def left_def)
    show ?thesis
    proof (cases "wt_pending ?w = []")
      case True
      then have "wt_outcome ?w = Resolved ()" by simp
      moreover have "\<exists>n \<le> length (x # h). left (wt_pending w) (take n (x # h)) = [] \<and>
          quiet (wt_timeout w) (wt_pending w) (take n (x # h))"
        using True l None by (intro exI [of _ "Suc 0"]) simp
      ultimately show ?thesis by (simp add: run_wait_Cons step run_wait_done)
    next
      case False
      then have "wt_outcome ?w = Pending" using Cons.prems by (simp add: settled_to_def)
      with False Cons.IH [of ?w] Cons.prems None show ?thesis
        unfolding run_wait_Cons step l by (simp add: ex_le_Suc) (subst left_Cons, simp)
    qed
  next
    case (Some e)
    then have "wait_step x w = reject_wait e w" using Cons.prems by (simp add: wait_step_eq)
    then show ?thesis using Cons.prems Some
      by (simp add: run_wait_Cons run_wait_done reject_wait_def ex_le_Suc)
  qed
qed

lemma rejects_iff:
  assumes "wt_outcome w = Pending" and "wt_pending w \<noteq> []"
  shows "wt_outcome (run_wait h w) = Rejected e \<longleftrightarrow>
     (\<exists>n < length h. quiet (wt_timeout w) (wt_pending w) (take n h) \<and> left (wt_pending w) (take n h) \<noteq> [] \<and>
        ends_with (wt_timeout w) (left (wt_pending w) (take n h)) (h ! n) = Some e)"
  using assms
proof (induction h arbitrary: w)
  case Nil
  then show ?case by (simp add: run_wait_def)
next
  case (Cons x h)
  show ?case
  proof (cases "ends_with (wt_timeout w) (wt_pending w) x")
    case None
    let ?w = "settled_to (filter (\<lambda>i. \<not> settles x i) (wt_pending w)) w"
    have step: "wait_step x w = ?w" using Cons.prems None by (simp add: wait_step_eq)
    have l: "wt_pending ?w = left (wt_pending w) [x]" "wt_timeout ?w = wt_timeout w"
      by (simp_all add: left_def)
    show ?thesis
    proof (cases "wt_pending ?w = []")
      case True
      then have "left (wt_pending w) (x # xs) = []" for xs using l left_Cons [of "wt_pending w" x xs] by simp
      with True None show ?thesis by (simp add: run_wait_Cons step run_wait_done ex_less_Suc)
    next
      case False
      then have "wt_outcome ?w = Pending" using Cons.prems by simp
      with False Cons.IH [of ?w] Cons.prems None show ?thesis
        unfolding run_wait_Cons step l
        by (simp add: ex_less_Suc) (subst (3 4) left_Cons, simp)
    qed
  next
    case (Some e')
    then have "wait_step x w = reject_wait e' w" using Cons.prems by (simp add: wait_step_eq)
    then show ?thesis using Cons.prems Some
      by (simp add: run_wait_Cons run_wait_done reject_wait_def ex_less_Suc)
  qed
qed

definition completed_record :: "tq \<Rightarrow> string \<Rightarrow> bool" where
  "completed_record q i = (case lookup q i of None \<Rightarrow> False | Some r \<Rightarrow> state_of q r = Completed)"

lemma initial_scan_pending:
  assumes "wt_outcome w = Pending" and "wt_pending w \<noteq> []" and "set ids \<subseteq> set (wt_pending w)" and "distinct ids"
    and "wt_outcome (initial_scan q ids w) = Pending"
  shows "wt_pending (initial_scan q ids w) =
           filter (\<lambda>i. jm_has (q_jobs q) i \<and> \<not> (i \<in> set ids \<and> completed_record q i)) (wt_pending w) \<and>
         wt_pending (initial_scan q ids w) \<noteq> [] \<and> wt_timeout (initial_scan q ids w) = wt_timeout w \<and>
         (\<forall>i \<in> set ids. \<not> failed_record q i)"
  using assms
proof (induction ids arbitrary: w)
  case Nil
  then show ?case
    by (cases "filter (jm_has (q_jobs q)) (wt_pending w) = []") (auto simp: sweep_eq)
next
  case (Cons i ids)
  have skip: ?case if c: "\<not> completed_record q i" and f: "\<not> failed_record q i" and
      eq: "initial_scan q (i # ids) w = initial_scan q ids w"
  proof -
    have flt: "filter (\<lambda>j. jm_has (q_jobs q) j \<and> \<not> (j \<in> set (i # ids) \<and> completed_record q j)) (wt_pending w) =
          filter (\<lambda>j. jm_has (q_jobs q) j \<and> \<not> (j \<in> set ids \<and> completed_record q j)) (wt_pending w)"
      using c by (auto intro: filter_cong)
    have "set ids \<subseteq> set (wt_pending w)" "distinct ids" "wt_outcome (initial_scan q ids w) = Pending"
      using Cons.prems unfolding eq by simp_all
    from Cons.IH [OF Cons.prems(1,2) this] f show ?thesis unfolding eq flt by - (elim conjE, simp)
  qed
  show ?case
  proof (cases "lookup q i")
    case None
    then show ?thesis by (intro skip) (simp_all add: completed_record_def failed_record_def)
  next
    case (Some r)
    consider "state_of q r = Completed" | "state_of q r = Failed" | "state_of q r \<noteq> Completed \<and> state_of q r \<noteq> Failed"
      by blast
    then show ?thesis
    proof cases
      case 1
      let ?p = "removeAll i (wt_pending w)"
      have eq: "initial_scan q (i # ids) w = initial_scan q ids (settled_to ?p w)"
        using 1 Some Cons.prems(2) by (simp add: settle_wait_eq)
      have ne: "?p \<noteq> []"
      proof
        assume e: "?p = []"
        then have "set (wt_pending w) - {i} = {}" by (simp flip: set_removeAll)
        then have "ids = []" using Cons.prems(3,4) by (cases ids) auto
        then show False using Cons.prems(5) e unfolding eq by (simp add: sweep_def)
      qed
      have f: "filter (\<lambda>j. jm_has (q_jobs q) j \<and> \<not> (j \<in> set (i # ids) \<and> completed_record q j)) (wt_pending w) =
          filter (\<lambda>j. jm_has (q_jobs q) j \<and> \<not> (j \<in> set ids \<and> completed_record q j)) ?p"
        using 1 Some unfolding filter_neq_removeAll [symmetric] filter_filter
        by (intro filter_cong refl) (auto simp: completed_record_def)
      have "\<not> failed_record q i" using 1 Some by (simp add: failed_record_def)
      moreover have "set ids \<subseteq> set ?p" "wt_outcome (initial_scan q ids (settled_to ?p w)) = Pending"
        using Cons.prems(3,4,5) unfolding eq by auto
      moreover have "wt_pending (settled_to ?p w) \<noteq> []" "wt_outcome (settled_to ?p w) = Pending" using ne Cons.prems(1) by simp_all
      moreover note Cons.IH [of "settled_to ?p w"] Cons.prems(4)
      ultimately show ?thesis unfolding eq f using ne by auto
    next
      case 2
      then show ?thesis using Some Cons.prems by (simp add: onFailed_def reject_wait_def)
    next
      case 3
      then show ?thesis using Some by (intro skip) (simp_all add: completed_record_def failed_record_def)
    qed
  qed
qed

definition awaited :: "string option list \<Rightarrow> string list" where
  "awaited jobs = fold (\<lambda>j ids. case j of None \<Rightarrow> ids | Some i \<Rightarrow> js_add i ids) jobs []"

lemma awaited_distinct: "distinct (awaited jobs)"
proof -
  have "distinct ids \<Longrightarrow> distinct (fold (\<lambda>j ids. case j of None \<Rightarrow> ids | Some i \<Rightarrow> js_add i ids) jobs ids)" for ids :: "string list"
    by (induction jobs arbitrary: ids) (auto split: option.splits)
  then show ?thesis by (simp add: awaited_def)
qed

lemma waitForJobs_pending:
  assumes "wt_outcome (waitForJobs q jobs to) = Pending"
  shows "wt_pending (waitForJobs q jobs to) = filter (\<lambda>i. jm_has (q_jobs q) i \<and> \<not> completed_record q i) (awaited jobs) \<and>
         wt_pending (waitForJobs q jobs to) \<noteq> [] \<and> wt_timeout (waitForJobs q jobs to) = or_else to (Num 30000) \<and>
         (\<forall>i \<in> set (awaited jobs). \<not> failed_record q i)"
proof -
  let ?w = "\<lparr>wt_timeout = or_else to (Num 30000), wt_pending = awaited jobs, wt_outcome = Pending\<rparr>"
  have eq: "waitForJobs q jobs to = initial_scan q (awaited jobs) ?w" and ne: "awaited jobs \<noteq> []"
    using assms unfolding waitForJobs_def Let_def awaited_def [symmetric] by (auto split: sum.splits if_splits)
  have "filter (\<lambda>i. jm_has (q_jobs q) i \<and> \<not> (i \<in> set (awaited jobs) \<and> completed_record q i)) (awaited jobs) =
        filter (\<lambda>i. jm_has (q_jobs q) i \<and> \<not> completed_record q i) (awaited jobs)"
    by (rule filter_cong) auto
  then show ?thesis
    using initial_scan_pending [of ?w "awaited jobs" q] assms ne awaited_distinct [of jobs] unfolding eq by auto
qed

text \<open>
  C34: \<open>waitForJobs\<close> waits exactly for the jobs that have not settled. A wait that does not end at
  once waits for the given jobs that have a record that is not completed, none of them failed. It
  resolves exactly when some beginning of the history settles all of them (a completion, or a sweep
  that finds the record gone) and contains nothing that rejects: a terminal failure or a revocation
  of a job still awaited, the timeout, or the closing of the queue. Otherwise it is rejected with
  the first of these errors, or stays pending.
\<close>

theorem waitForJobs_settles:
  assumes "wt_outcome (waitForJobs q jobs to) = Pending" and "t = or_else to (Num 30000)"
    and "ids = filter (\<lambda>i. jm_has (q_jobs q) i \<and> \<not> completed_record q i) (awaited jobs)"
  shows "(wt_outcome (run_wait h (waitForJobs q jobs to)) = Resolved () \<longleftrightarrow>
            (\<exists>n \<le> length h. left ids (take n h) = [] \<and> quiet t ids (take n h))) \<and>
         (wt_outcome (run_wait h (waitForJobs q jobs to)) = Rejected e \<longleftrightarrow>
            (\<exists>n < length h. quiet t ids (take n h) \<and> left ids (take n h) \<noteq> [] \<and>
               ends_with t (left ids (take n h)) (h ! n) = Some e)) \<and>
         ids \<noteq> [] \<and> (\<forall>i \<in> set (awaited jobs). \<not> failed_record q i)"
proof -
  have p: "wt_pending (waitForJobs q jobs to) = ids" "wt_timeout (waitForJobs q jobs to) = t" "ids \<noteq> []"
    "\<forall>i \<in> set (awaited jobs). \<not> failed_record q i"
    using waitForJobs_pending [OF assms(1)] unfolding assms(2,3) by - (elim conjE, simp)+
  then have "wt_pending (waitForJobs q jobs to) \<noteq> []" by simp
  from resolves_iff [OF assms(1) this, of h] rejects_iff [OF assms(1) this, of h e] p show ?thesis by simp
qed

text \<open>Waiting for the two jobs of the sample queue: they complete one after the other.\<close>

definition both_complete :: "(tq \<times> wait_input) list" where
  "both_complete = [(two_job_queue, Emitted (EvCompleted ''1'' JNull)), (two_job_queue, Emitted (EvCompleted ''2'' JNull))]"

lemma two_jobs_there:
  "lookup two_job_queue ''1'' = Some 0" "lookup two_job_queue ''2'' = Some 1"
  "state_of two_job_queue 0 = Waiting" "state_of two_job_queue 1 = Waiting"
  by (simp_all add: two_job_queue_def)

lemma waitForJobs_settles_witness:
  "wt_outcome (run_wait both_complete (waitForJobs two_job_queue [Some ''1'', None, Some ''2''] None)) = Resolved () \<and>
   wt_outcome (run_wait (take 1 both_complete) (waitForJobs two_job_queue [Some ''1'', None, Some ''2''] None)) \<noteq> Resolved ()"
proof -
  let ?w = "waitForJobs two_job_queue [Some ''1'', None, Some ''2''] None"
  have has: "jm_has (q_jobs two_job_queue) ''1''" "jm_has (q_jobs two_job_queue) ''2''"
    using two_jobs_there by (simp_all add: lookup_def jm_has_def)
  have out: "wt_outcome ?w = Pending"
    using has by (simp add: waitForJobs_def check_timeout_def js_add_def two_jobs_there two_jobs_there [unfolded One_nat_def]
        sweep_def Let_def)
  have c: "\<not> completed_record two_job_queue ''1''" "\<not> completed_record two_job_queue ''2''"
    by (simp_all add: completed_record_def two_jobs_there two_jobs_there [unfolded One_nat_def])
  have ids: "[''1'', ''2''] = filter (\<lambda>i. jm_has (q_jobs two_job_queue) i \<and> \<not> completed_record two_job_queue i)
      (awaited [Some ''1'', None, Some ''2''])"
    using has c by (simp add: awaited_def js_add_def)
  show ?thesis
    unfolding conjunct1 [OF waitForJobs_settles [OF out refl ids]]
    by (simp add: both_complete_def ex_le_Suc left_def settles_def ends_with_def)
qed

end
