(* ===== verification/Tq_Lost.thy ===== *)
theory Tq_Lost
  imports Tq_Slots
begin

text \<open>
  Why \<open>changePriority\<close> is restricted in the transition system of \<open>Tq_Machine\<close>: a batch worker holds the
  jobs it has claimed outside the dispatch list while they are still \<open>waiting\<close> (\<open>src/testing.ts\<close>).
\<close>

lemma set_opts_sel [simp]:
  "state_of (set_opts o' f q) r = state_of q r" "q_waiting (set_opts o' f q) = q_waiting q" "lookup (set_opts o' f q) i = lookup q i"
  by (simp_all add: set_opts_def state_of_def lookup_def)


text \<open>The first job of the sample queue, claimed and then given priority 5.\<close>

definition claimed_queue :: tq where
  "claimed_queue = two_job_queue\<lparr>q_waiting := [1]\<rparr>"

lemma first_job_claimed: "takeNextWaiting two_job_queue = (claimed_queue, Some 0)"
proof -
  have w: "q_waiting two_job_queue = [0, 1]" "state_of two_job_queue 0 = Waiting" "state_of two_job_queue 1 = Waiting"
    by (simp_all add: two_job_queue_def)
  have p: "prio two_job_queue 0 = 0" "prio two_job_queue 1 = 0" "\<not> is_lifo two_job_queue 0" "\<not> is_lifo two_job_queue 1"
    by (simp_all add: prio_def is_lifo_def opts_of_def two_job_queue_def)
  have ids: "id_of two_job_queue 0 = ''1''" "id_of two_job_queue 1 = ''2''" by (simp_all add: two_job_queue_def)
  have "promotePrioritized two_job_queue = two_job_queue"
    using w by (simp add: promotePrioritized_def promote_one_def w [unfolded One_nat_def])
  moreover have "compact two_job_queue [] [0, 1] = [0, 1]"
    using w ids by (simp add: current_def two_job_queue_def)
  moreover have "two_job_queue\<lparr>q_waiting := [0, 1]\<rparr> = two_job_queue" using w(1) by simp
  ultimately have "nextWaitingIndex two_job_queue = (two_job_queue, best_entry two_job_queue [0, 1])"
    unfolding nextWaitingIndex_def compact_waiting_def Let_def w(1) by (simp only: w(1))
  moreover have "best_entry two_job_queue [0, 1] = Some 0"
    using p by (simp add: best_entry_def scan_entry_def)
  ultimately show ?thesis using w(1) by (simp add: takeNextWaiting_def claimed_queue_def drop_at_def)
qed


end
