(* ===== verification/Workflows.thy ===== *)
theory Workflows
  imports Js_Values
begin

text \<open>
  Flows of jobs and the helpers that build them: \<open>chain\<close>, \<open>group\<close> and \<open>chord\<close> of \<open>src/workflows.ts\<close>, and
  the helpers of the same names for the testing mode in \<open>src/testing-workflows.ts\<close>. What a helper
  submits to its producer is a value here, or the error it throws before it submits anything.
\<close>

section \<open>Flows\<close>

text \<open>A job of a flow with its children; absent children are an empty list, as both producers treat them.\<close>

datatype flow_job =
  FlowJob (fj_name: string) (fj_queue: string) (fj_data: js) (fj_opts: "job_options option") (fj_children: "flow_job list")

record workflow_job =
  wj_name :: string
  wj_data :: js
  wj_opts :: "job_options option"

definition toFlowJob :: "string \<Rightarrow> workflow_job \<Rightarrow> flow_job list \<Rightarrow> flow_job" where
  "toFlowJob queueName d cs = FlowJob (wj_name d) queueName (wj_data d) (wj_opts d) cs"

section \<open>The helpers over Valkey\<close>

text \<open>One turn of the loop of \<open>chain\<close>, which goes from the last job but one down to the first.\<close>

definition wrap_flow :: "string \<Rightarrow> workflow_job \<Rightarrow> flow_job \<Rightarrow> flow_job" where
  "wrap_flow queueName d flow = FlowJob (wj_name d) queueName (wj_data d) (wj_opts d) [flow]"

definition chain :: "string \<Rightarrow> workflow_job list \<Rightarrow> js_error + flow_job" where
  "chain queueName jobs =
     (if length jobs = 0 then Inl (err ''chain() requires at least one job'')
      else if length jobs = 1
      then Inr (FlowJob (wj_name (jobs ! 0)) queueName (wj_data (jobs ! 0)) (wj_opts (jobs ! 0)) [])
      else (let l = jobs ! (length jobs - 1)
            in Inr (fold (wrap_flow queueName) (rev (take (length jobs - 1) jobs))
                 (FlowJob (wj_name l) queueName (wj_data l) (wj_opts l) []))))"

definition group_parent :: workflow_job where
  "group_parent = \<lparr>wj_name = ''__group__'', wj_data = JObj [], wj_opts = None\<rparr>"

definition group :: "string \<Rightarrow> workflow_job list \<Rightarrow> js_error + flow_job" where
  "group queueName jobs =
     (if length jobs = 0 then Inl (err ''group() requires at least one job'')
      else Inr (FlowJob ''__group__'' queueName (JObj []) None
             (map (\<lambda>j. FlowJob (wj_name j) queueName (wj_data j) (wj_opts j) []) jobs)))"

definition chord :: "string \<Rightarrow> workflow_job list \<Rightarrow> workflow_job \<Rightarrow> js_error + flow_job" where
  "chord queueName groupJobs callback =
     (if length groupJobs = 0 then Inl (err ''chord() requires at least one group job'')
      else Inr (FlowJob (wj_name callback) queueName (wj_data callback) (wj_opts callback)
             (map (\<lambda>j. FlowJob (wj_name j) queueName (wj_data j) (wj_opts j) []) groupJobs)))"

section \<open>The helpers of the testing mode\<close>

definition test_chain :: "string \<Rightarrow> workflow_job list \<Rightarrow> js_error + flow_job" where
  "test_chain queueName jobs =
     (if length jobs = 0 then Inl (err ''chain() requires at least one job'')
      else Inr (fold (\<lambda>d flow. toFlowJob queueName d [flow]) (rev (take (length jobs - 1) jobs))
             (toFlowJob queueName (jobs ! (length jobs - 1)) [])))"

definition test_group :: "string \<Rightarrow> workflow_job list \<Rightarrow> js_error + flow_job" where
  "test_group queueName jobs =
     (if length jobs = 0 then Inl (err ''group() requires at least one job'')
      else Inr (toFlowJob queueName group_parent (map (\<lambda>d. toFlowJob queueName d []) jobs)))"

definition test_chord :: "string \<Rightarrow> workflow_job list \<Rightarrow> workflow_job \<Rightarrow> js_error + flow_job" where
  "test_chord queueName groupJobs callback =
     (if length groupJobs = 0 then Inl (err ''chord() requires at least one group job'')
      else Inr (toFlowJob queueName callback (map (\<lambda>d. toFlowJob queueName d []) groupJobs)))"

section \<open>What they build\<close>

text \<open>
  The order in which the jobs of a flow can run: a parent waits for its children, so the children
  come first, each after its own children.
\<close>

fun run_order :: "flow_job \<Rightarrow> string list" and run_orders :: "flow_job list \<Rightarrow> string list" where
  "run_order (FlowJob n qn d o' cs) = run_orders cs @ [n]"
| "run_orders [] = []"
| "run_orders (c # cs) = run_order c @ run_orders cs"

fun flow_depth :: "flow_job \<Rightarrow> nat" where
  "flow_depth (FlowJob n qn d o' cs) = Suc (foldr max (map flow_depth cs) 0)"

lemma run_orders_leaves: "run_orders (map (\<lambda>j. FlowJob (wj_name j) qn (wj_data j) (wj_opts j) []) jobs) = map wj_name jobs"
  by (induction jobs) simp_all

lemma run_order_wrap: "run_order (fold (wrap_flow qn) ds f) = run_order f @ map wj_name ds"
  by (induction ds arbitrary: f) (simp_all add: wrap_flow_def)

lemma depth_wrap: "flow_depth (fold (wrap_flow qn) ds f) = length ds + flow_depth f"
  by (induction ds arbitrary: f) (simp_all add: wrap_flow_def)

lemma last_and_init: "jobs \<noteq> [] \<Longrightarrow> rev (take (length jobs - 1) jobs) = tl (rev jobs) \<and> jobs ! (length jobs - 1) = hd (rev jobs)"
  by (cases jobs rule: rev_cases) simp_all

lemma chain_fold: "jobs \<noteq> [] \<Longrightarrow> chain qn jobs = Inr (fold (wrap_flow qn) (tl (rev jobs)) (toFlowJob qn (hd (rev jobs)) []))"
proof -
  assume ne: "jobs \<noteq> []"
  show ?thesis
  proof (cases "length jobs = 1")
    case True
    then obtain j where "jobs = [j]" by (cases jobs) auto
    then show ?thesis by (simp add: chain_def toFlowJob_def)
  next
    case False
    then show ?thesis using ne last_and_init [OF ne] by (simp add: chain_def Let_def toFlowJob_def)
  qed
qed



text \<open>
  C12: the helpers of the testing mode submit the same flows as those over Valkey, and throw the same
  errors.
\<close>

theorem test_workflows_agree:
  "test_chain qn jobs = chain qn jobs \<and> test_group qn jobs = group qn jobs \<and> test_chord qn jobs cb = chord qn jobs cb"
proof -
  have "(\<lambda>d flow. toFlowJob qn d [flow]) = wrap_flow qn" by (simp add: fun_eq_iff toFlowJob_def wrap_flow_def)
  then have "test_chain qn jobs = chain qn jobs"
    by (cases "jobs = []") (simp_all add: chain_fold, simp_all add: test_chain_def chain_def last_and_init [simplified])
  then show ?thesis by (simp add: test_group_def group_def test_chord_def chord_def toFlowJob_def group_parent_def)
qed

end
