(* ===== verification/Tq_Flow.thy ===== *)
theory Tq_Flow
  imports Tq_World Dag Workflows
begin

text \<open>
  \<open>TestFlowProducer\<close> (\<open>src/testing-flow.ts\<close>): trees and DAGs of jobs over the registry of open queues.
  Each node of a flow brings its options as a value and gets an option object of its own. The budget
  of a flow is left out: its jobs in several queues share one budget object, and budgets are values here.
\<close>

section \<open>Steps over the registry\<close>

text \<open>A step may throw; what it changed before stays.\<close>

datatype flow_error = FlowTq tq_error | FlowDag dag_error

type_synonym 'a flow_step = "world \<Rightarrow> world \<times> (flow_error + 'a)"

definition retW :: "'a \<Rightarrow> 'a flow_step" where
  "retW x = (\<lambda>w. (w, Inr x))"

definition bindW :: "'a flow_step \<Rightarrow> ('a \<Rightarrow> 'b flow_step) \<Rightarrow> 'b flow_step" where
  "bindW m f = (\<lambda>w. case m w of (w', Inl e) \<Rightarrow> (w', Inl e) | (w', Inr x) \<Rightarrow> f x w')"

lemma bindW_Inr: "bindW m f w = (w', Inr y) \<longleftrightarrow> (\<exists>w1 x. m w = (w1, Inr x) \<and> f x w1 = (w', Inr y))"
  by (auto simp: bindW_def split: prod.splits sum.splits)

lemma retW_Inr: "retW x w = (w', Inr y) \<longleftrightarrow> w' = w \<and> y = x"
  by (auto simp: retW_def)

section \<open>The producer\<close>

record producer =
  fp_prefix :: string
  fp_closing :: bool

definition new_TestFlowProducer :: "string option \<Rightarrow> producer" where
  "new_TestFlowProducer p = \<lparr>fp_prefix = or_else p ''glide'', fp_closing = False\<rparr>"

definition close_producer :: "producer \<Rightarrow> producer" where
  "close_producer p = p\<lparr>fp_closing := True\<rparr>"

definition assertOpen :: "producer \<Rightarrow> unit flow_step" where
  "assertOpen p = (\<lambda>w. (w, ensure (\<not> fp_closing p) (FlowTq (Js (GlideMQError ''FlowProducer is closing'')))))"

definition queueOf :: "string \<Rightarrow> tq flow_step" where
  "queueOf n = (\<lambda>w. (w, case jm_get w n of
     None \<Rightarrow> Inl (FlowTq (Js (GlideMQError
       (''TestQueue '' @ [CHR 0x22] @ n @ [CHR 0x22] @ '' is not open. Create it before adding a flow.''))))
   | Some q \<Rightarrow> Inr q))"

section \<open>Checking\<close>

type_synonym reserved = "(string, string list) jsmap"

definition flow_opts :: "job_options option \<Rightarrow> job_options" where
  "flow_opts o' = or_else o' default_opts"

definition reserve_id :: "string \<Rightarrow> string \<Rightarrow> reserved \<Rightarrow> flow_error + reserved" where
  "reserve_id qn i res =
     (if i = [] then Inr res
      else let ids = or_else (jm_get res qn) []
           in if i \<in> set ids then Inl (FlowTq (Js (err ''Duplicate job ID in flow'')))
              else Inr (jm_set qn (js_add i ids) res))"

definition checkJob :: "string \<Rightarrow> js \<Rightarrow> job_options option \<Rightarrow> reserved \<Rightarrow> reserved flow_step" where
  "checkJob qn data o' res =
     bindW (\<lambda>w. (w, map_sum (FlowTq \<circ> Invalid) id (validateQueueName qn))) (\<lambda>_.
     bindW (queueOf qn) (\<lambda>q.
     bindW (\<lambda>w. (w, map_sum FlowTq id (checkFlowJob data (flow_opts o') q))) (\<lambda>_.
     (\<lambda>w. (w, reserve_id qn (customJobId (flow_opts o')) res)))))"

fun checkTree :: "flow_job \<Rightarrow> reserved \<Rightarrow> reserved flow_step"
  and checkTrees :: "flow_job list \<Rightarrow> reserved \<Rightarrow> reserved flow_step"
where
  "checkTree (FlowJob n qn d o' cs) res = bindW (checkJob qn d o' res) (\<lambda>res'. checkTrees cs res')"
| "checkTrees [] res = retW res"
| "checkTrees (c # cs) res = bindW (checkTree c res) (\<lambda>res'. checkTrees cs res')"

section \<open>Building a tree\<close>

datatype job_node = JobNode (jn_queue: string) (jn_job: test_job) (jn_children: "job_node list")

definition node_ref :: "job_node \<Rightarrow> parent_ref" where
  "node_ref k = \<lparr>pr_queue = jn_queue k, pr_id = h_id (jn_job k)\<rparr>"

definition flowInit :: "string \<Rightarrow> string \<Rightarrow> bool \<Rightarrow> reserved \<Rightarrow> parent_ref list \<Rightarrow> flow_init" where
  "flowInit prefix qn wait res ps =
     \<lparr>fi_wait = wait, fi_prefix = prefix, fi_reserved = or_else (jm_get res qn) [], fi_parents = ps\<rparr>"

text \<open>\<open>queue.addFlowJob\<close> with an option object of its own; the handle is made when the record is in.\<close>

definition store_opts :: "string \<Rightarrow> job_options \<Rightarrow> world \<Rightarrow> world \<times> (tq_error + nat)" where
  "store_opts qn x = run_on qn (\<lambda>q. case alloc_opts x q of (q', o') \<Rightarrow> (q', Inr o'))"

definition handle_of :: "string \<Rightarrow> nat \<Rightarrow> world \<Rightarrow> world \<times> (tq_error + test_job)" where
  "handle_of qn r = run_on qn (\<lambda>q. (q, Inr (new_TestJob q r)))"

definition liftW :: "(world \<Rightarrow> world \<times> (tq_error + 'a)) \<Rightarrow> 'a flow_step" where
  "liftW m = (\<lambda>w. case m w of (w', res) \<Rightarrow> (w', map_sum FlowTq id res))"

definition newNode :: "string \<Rightarrow> string \<Rightarrow> js \<Rightarrow> job_options option \<Rightarrow> flow_init \<Rightarrow> int \<Rightarrow> test_job flow_step" where
  "newNode qn name data o' fl now =
     bindW (queueOf qn) (\<lambda>_.
     bindW (liftW (store_opts qn (flow_opts o'))) (\<lambda>x.
     bindW (liftW (addFlowJob qn name data x fl now)) (\<lambda>r.
     liftW (handle_of qn r))))"

text \<open>A sub-flow root exists before its parent and is linked afterwards.\<close>

definition attachRoot :: "parent_ref \<Rightarrow> string \<Rightarrow> job_node \<Rightarrow> job_node flow_step" where
  "attachRoot p qn node =
     bindW (queueOf qn) (\<lambda>q. \<lambda>w.
       (case lookup q (h_id (jn_job node)) of
          None \<Rightarrow> (w, Inl (FlowTq (TypeError ''child'')))
        | Some r \<Rightarrow>
            (attachParent qn r p w,
             Inr (JobNode (jn_queue node) ((jn_job node)\<lparr>h_parentId := Some (pr_id p), h_parentQueue := Some (pr_queue p)\<rparr>)
                    (jn_children node)))))"

definition child_node :: "string \<Rightarrow> reserved \<Rightarrow> int \<Rightarrow> parent_ref \<Rightarrow> flow_job \<Rightarrow> job_node option \<Rightarrow> job_node flow_step" where
  "child_node prefix res now p c sub =
     (case sub of
        Some node \<Rightarrow> attachRoot p (fj_queue c) node
      | None \<Rightarrow>
          bindW (newNode (fj_queue c) (fj_name c) (fj_data c) (fj_opts c) (flowInit prefix (fj_queue c) False res [p]) now)
            (\<lambda>h. retW (JobNode (fj_queue c) h [])))"

fun child_nodes :: "string \<Rightarrow> reserved \<Rightarrow> int \<Rightarrow> parent_ref \<Rightarrow> flow_job list \<Rightarrow> job_node option list \<Rightarrow> job_node list flow_step"
where
  "child_nodes prefix res now p (c # cs) (s # ss) =
     bindW (child_node prefix res now p c s) (\<lambda>k. bindW (child_nodes prefix res now p cs ss) (\<lambda>ks. retW (k # ks)))"
| "child_nodes prefix res now p cs ss = retW []"

fun buildTree :: "string \<Rightarrow> reserved \<Rightarrow> int \<Rightarrow> flow_job \<Rightarrow> job_node flow_step"
  and buildSubs :: "string \<Rightarrow> reserved \<Rightarrow> int \<Rightarrow> flow_job list \<Rightarrow> job_node option list flow_step"
where
  "buildTree prefix res now (FlowJob n qn d o' cs) =
     bindW (queueOf qn) (\<lambda>_.
     if cs = [] then bindW (newNode qn n d o' (flowInit prefix qn False res []) now) (\<lambda>h. retW (JobNode qn h []))
     else bindW (buildSubs prefix res now cs) (\<lambda>subs.
          bindW (newNode qn n d o' (flowInit prefix qn True res []) now) (\<lambda>h.
          bindW (child_nodes prefix res now \<lparr>pr_queue = qn, pr_id = h_id h\<rparr> cs subs) (\<lambda>ks.
          retW (JobNode qn h ks)))))"
| "buildSubs prefix res now [] = retW []"
| "buildSubs prefix res now (c # cs) =
     bindW (if fj_children c = [] then retW None else bindW (buildTree prefix res now c) (\<lambda>k. retW (Some k))) (\<lambda>s.
     bindW (buildSubs prefix res now cs) (\<lambda>ss. retW (s # ss)))"

definition add_flow :: "producer \<Rightarrow> flow_job \<Rightarrow> int \<Rightarrow> job_node flow_step" where
  "add_flow p f now =
     bindW (assertOpen p) (\<lambda>_.
     bindW (checkTree f []) (\<lambda>res.
     buildTree (fp_prefix p) res now f))"

text \<open>Every flow is checked before the first is built; one set of reserved ids serves them all.\<close>

fun buildTrees :: "string \<Rightarrow> reserved \<Rightarrow> int \<Rightarrow> flow_job list \<Rightarrow> job_node list flow_step" where
  "buildTrees prefix res now [] = retW []"
| "buildTrees prefix res now (f # fs) =
     bindW (buildTree prefix res now f) (\<lambda>k. bindW (buildTrees prefix res now fs) (\<lambda>ks. retW (k # ks)))"

definition add_flows :: "producer \<Rightarrow> flow_job list \<Rightarrow> int \<Rightarrow> job_node list flow_step" where
  "add_flows p fs now =
     bindW (assertOpen p) (\<lambda>_.
     bindW (checkTrees fs []) (\<lambda>res.
     buildTrees (fp_prefix p) res now fs))"

section \<open>Adding a DAG\<close>

record flow_node = dag_node +
  fn_queue :: string
  fn_data :: js
  fn_opts :: "job_options option"

definition bare :: "flow_node \<Rightarrow> dag_node" where
  "bare n = dag_node.truncate n"

fun check_nodes :: "flow_node list \<Rightarrow> reserved \<Rightarrow> reserved flow_step" where
  "check_nodes [] res = retW res"
| "check_nodes (n # ns) res = bindW (checkJob (fn_queue n) (fn_data n) (fn_opts n) res) (\<lambda>res'. check_nodes ns res')"

text \<open>The nodes that wait for the node \<open>v\<close>, in submission order.\<close>

definition dependents_of :: "flow_node list \<Rightarrow> string \<Rightarrow> flow_node list" where
  "dependents_of nodes v = filter (\<lambda>n. v \<in> set (deps (bare n))) nodes"

definition node_parents :: "flow_node list \<Rightarrow> (string, test_job) jsmap \<Rightarrow> flow_node \<Rightarrow> parent_ref list" where
  "node_parents nodes jobs n =
     map (\<lambda>d. \<lparr>pr_queue = fn_queue d, pr_id = (case jm_get jobs (node_name d) of Some h \<Rightarrow> h_id h | None \<Rightarrow> [])\<rparr>)
       (dependents_of nodes (node_name n))"

definition add_node :: "string \<Rightarrow> reserved \<Rightarrow> int \<Rightarrow> flow_node list \<Rightarrow> flow_node \<Rightarrow> (string, test_job) jsmap \<Rightarrow> (string, test_job) jsmap flow_step" where
  "add_node prefix res now nodes n jobs =
     bindW (newNode (fn_queue n) (node_name n) (fn_data n) (fn_opts n)
              (flowInit prefix (fn_queue n) (deps (bare n) \<noteq> []) res (node_parents nodes jobs n)) now)
       (\<lambda>h. retW (jm_set (node_name n) h jobs))"

fun add_nodes :: "string \<Rightarrow> reserved \<Rightarrow> int \<Rightarrow> flow_node list \<Rightarrow> flow_node list \<Rightarrow> (string, test_job) jsmap \<Rightarrow> (string, test_job) jsmap flow_step" where
  "add_nodes prefix res now nodes [] jobs = retW jobs"
| "add_nodes prefix res now nodes (n # ns) jobs =
     bindW (add_node prefix res now nodes n jobs) (\<lambda>jobs'. add_nodes prefix res now nodes ns jobs')"

definition named :: "flow_node list \<Rightarrow> string \<Rightarrow> flow_node" where
  "named nodes v = hd (filter (\<lambda>n. node_name n = v) nodes)"

definition addDAG :: "producer \<Rightarrow> flow_node list \<Rightarrow> int \<Rightarrow> (string, test_job) jsmap flow_step" where
  "addDAG p nodes now =
     bindW (assertOpen p) (\<lambda>_.
     bindW (\<lambda>w. (w, map_sum FlowDag id (validateDAG (map bare nodes)))) (\<lambda>_.
     bindW (check_nodes nodes []) (\<lambda>res.
     bindW (\<lambda>w. (w, map_sum FlowDag id (topoSort (map bare nodes)))) (\<lambda>order.
     add_nodes (fp_prefix p) res now nodes (map (\<lambda>n. named nodes (node_name n)) (rev order)) []))))"

section \<open>The workflow helpers of the testing mode\<close>

text \<open>Each builds its flow and submits it to a producer of its own.\<close>

definition submit :: "string option \<Rightarrow> js_error + flow_job \<Rightarrow> int \<Rightarrow> job_node flow_step" where
  "submit prefix r now =
     bindW (\<lambda>w. (w, map_sum (FlowTq \<circ> Js) id r)) (\<lambda>f. add_flow (new_TestFlowProducer prefix) f now)"

definition run_chain :: "string \<Rightarrow> workflow_job list \<Rightarrow> string option \<Rightarrow> int \<Rightarrow> job_node flow_step" where
  "run_chain qn jobs prefix now = submit prefix (test_chain qn jobs) now"

definition run_group :: "string \<Rightarrow> workflow_job list \<Rightarrow> string option \<Rightarrow> int \<Rightarrow> job_node flow_step" where
  "run_group qn jobs prefix now = submit prefix (test_group qn jobs) now"

definition run_chord :: "string \<Rightarrow> workflow_job list \<Rightarrow> workflow_job \<Rightarrow> string option \<Rightarrow> int \<Rightarrow> job_node flow_step" where
  "run_chord qn jobs callback prefix now = submit prefix (test_chord qn jobs callback) now"

definition run_dag :: "flow_node list \<Rightarrow> string option \<Rightarrow> int \<Rightarrow> (string, test_job) jsmap flow_step" where
  "run_dag nodes prefix now =
     (if length nodes = 0 then (\<lambda>w. (w, Inl (FlowTq (Js (err ''dag() requires at least one node'')))))
      else addDAG (new_TestFlowProducer prefix) nodes now)"

end
