(* ===== verification/Tq_Flow_Inv.thy ===== *)
theory Tq_Flow_Inv
  imports Tq_Flow Tq_Inv_World
begin

text \<open>
  What building a flow does to the records of the open queues (\<open>src/testing-flow.ts\<close>): the jobs that
  were there stay as they are, and the new ones form the tree or the DAG that was asked for.
\<close>

section \<open>Records by queue and id\<close>

definition rec_at :: "world \<Rightarrow> string \<Rightarrow> string \<Rightarrow> job option" where
  "rec_at w n i = (case jm_get w n of None \<Rightarrow> None | Some q \<Rightarrow> map_option (q_rec q) (lookup q i))"

lemma rec_at_put:
  "rec_at (jm_set m q w) n i = (if n = m then map_option (q_rec q) (lookup q i) else rec_at w n i)"
  by (simp add: rec_at_def js_map_simps)

definition add_dep :: "string \<Rightarrow> string \<Rightarrow> job \<Rightarrow> job" where
  "add_dep cq c j = j\<lparr>j_deps := jm_set (deps_member (or_else (j_depsPrefix j) ''glide'') cq c)
     \<lparr>pr_queue = cq, pr_id = c\<rparr> (j_deps j)\<rparr>"

lemma add_dep_twice [simp]: "add_dep cq c (add_dep cq c j) = add_dep cq c j"
proof -
  have "jm_set k v (jm_set k v m) = jm_set k v m" for k v and m :: "(string, parent_ref) jsmap"
    by (induction m) auto
  then show ?thesis by (simp add: add_dep_def)
qed

lemma add_dep_sel [simp]:
  "j_name (add_dep cq c j) = j_name j" "j_state (add_dep cq c j) = j_state j" "j_id (add_dep cq c j) = j_id j"
  "j_parentId (add_dep cq c j) = j_parentId j" "j_parentQueue (add_dep cq c j) = j_parentQueue j"
  "j_depsPrefix (add_dep cq c j) = j_depsPrefix j"
  by (simp_all add: add_dep_def)

lemma rec_registerDependency:
  assumes "tq_wf q"
  shows "map_option (q_rec (registerDependency p cq c q)) (lookup q i) =
     (if i = p then map_option (add_dep cq c) (map_option (q_rec q) (lookup q i)) else map_option (q_rec q) (lookup q i))"
proof (cases "lookup q i")
  case None
  then show ?thesis by auto
next
  case (Some r)
  then have "i = p" if "lookup q p = Some r" using lookup_inj [OF assms] that by blast
  with Some show ?thesis by (auto simp: registerDependency_def upd_def add_dep_def split: option.split)
qed

section \<open>Linking\<close>

definition link_one :: "string \<Rightarrow> string \<Rightarrow> parent_ref \<Rightarrow> world \<Rightarrow> world" where
  "link_one qn c p = with_queue (pr_queue p) (registerDependency (pr_id p) qn c)"

lemma world_ok_link_one: "world_ok H w \<Longrightarrow> world_ok H (link_one qn c p w)"
  unfolding link_one_def by (auto intro: world_ok_with_queue)

lemma rec_at_link_one:
  assumes "world_ok H w"
  shows "rec_at (link_one qn c p w) n i =
     (if p = \<lparr>pr_queue = n, pr_id = i\<rparr> then map_option (add_dep qn c) (rec_at w n i) else rec_at w n i)"
proof (cases "jm_get w (pr_queue p)")
  case None
  then show ?thesis by (auto simp: link_one_def with_queue_def rec_at_def simp del: map_of_eq_Some_iff)
next
  case (Some q)
  then have "tq_wf q" using world_okD [OF assms] qok_wf by blast
  from rec_registerDependency [OF this, of "pr_id p" qn c i] Some show ?thesis
    by (cases p) (auto simp: link_one_def with_queue_def rec_at_def js_map_simps simp del: map_of_eq_Some_iff)
qed

lemma linkToParents_fold: "fst (linkToParents qn c ps w) = fold (link_one qn c) ps w"
  unfolding linkToParents_def fst_conv by (rule arg_cong [of _ _ "\<lambda>f. fold f ps w"]) (simp add: fun_eq_iff link_one_def)

lemma rec_at_links:
  assumes "world_ok H w"
  shows "world_ok H (fold (link_one qn c) ps w) \<and>
     rec_at (fold (link_one qn c) ps w) n i =
     (if \<lparr>pr_queue = n, pr_id = i\<rparr> \<in> set ps then map_option (add_dep qn c) (rec_at w n i) else rec_at w n i)"
  using assms
proof (induction ps arbitrary: w)
  case (Cons p ps)
  have ok: "world_ok H (link_one qn c p w)" using Cons.prems by (rule world_ok_link_one)
  show ?case using Cons.IH [OF ok] rec_at_link_one [OF Cons.prems, of qn c p n i]
    by (auto simp: option.map_comp comp_def)
qed simp

section \<open>Inserting\<close>

definition same_links :: "job \<Rightarrow> job \<Rightarrow> bool" where
  "same_links j j' \<longleftrightarrow> j_name j' = j_name j \<and> j_deps j' = j_deps j \<and> j_depsPrefix j' = j_depsPrefix j \<and>
     j_parentId j' = j_parentId j \<and> j_parentQueue j' = j_parentQueue j \<and> j_parents j' = j_parents j"

lemma place_record_links:
  "r' \<noteq> r \<Longrightarrow> q_rec (place_record r d p now q) r' = q_rec q r'"
  "same_links (q_rec q r) (q_rec (place_record r d p now q) r)"
  "j_state (q_rec (place_record r d p now q) r) = WaitingChildren \<longleftrightarrow> j_state (q_rec q r) = WaitingChildren"
  by (simp_all add: place_record_def same_links_def parkDelayed_def schedulePromotion_def clearPromotion_def enqueuePrioritized_def
      enqueueWaiting_def push_waiting_def dequeueRecord_def set_state_def upd_def emit_def state_of_def Let_def)

definition flow_record :: "string \<Rightarrow> flow_init \<Rightarrow> job \<Rightarrow> bool" where
  "flow_record name fl j \<longleftrightarrow> j_name j = name \<and> (j_state j = WaitingChildren \<longleftrightarrow> fi_wait fl) \<and> j_deps j = [] \<and>
     j_depsPrefix j = Some (fi_prefix fl) \<and>
     j_parentId j = (case fi_parents fl of [] \<Rightarrow> None | p # ps \<Rightarrow> Some (pr_id p)) \<and>
     j_parentQueue j = (case fi_parents fl of [] \<Rightarrow> None | p # ps \<Rightarrow> Some (pr_queue p)) \<and>
     j_parents j = (if tl (fi_parents fl) = [] then [] else fi_parents fl)"

lemma insert_flow_job_rec:
  assumes "insert_flow_job name data o' fl i now (parent_links (fi_parents fl)) q = (q', Inr r)"
  shows "lookup q' k = (if k = i then Some r else lookup q k)" and "r = q_next q"
    and "x \<noteq> r \<Longrightarrow> q_rec q' x = q_rec q x" and "flow_record name fl (q_rec q' r)" and "id_of q' r = i"
proof -
  obtain s where s: "insertRecord name s o' i now (if fi_wait fl then 0 else num_or 0 (delay (q_opts q o')))
      (q_serializer q) (flow_job_init fl (parent_links (fi_parents fl))) q = (q', Inr r)"
    using assms by (auto simp: insert_flow_job_def split: option.splits)
  then obtain dat where d: "deserialize (q_serializer q) s = Some dat" using insertRecord_ok(3) by blast
  let ?j = "new_record i name dat o' now (num_or 0 (ttl (q_opts q o'))) (flow_job_init fl (parent_links (fi_parents fl)))"
  let ?q1 = "store_record i ?j q"
  have r: "r = q_next q" by (rule insertRecord_ok(1) [OF s])
  have q': "q' = emit (EvAdded i) (place_record r (if fi_wait fl then 0 else num_or 0 (delay (q_opts q o')))
      (num_or 0 (priority (q_opts q o'))) now ?q1)"
    using s d r by (simp add: insertRecord_def Let_def)
  have j1: "q_rec ?q1 r = ?j" by (simp add: store_record_def r)
  have fr: "flow_record name fl ?j"
    by (auto simp: flow_record_def new_record_def flow_job_init_def parent_links_def blank_job_def Let_def split: list.split)
  show "lookup q' k = (if k = i then Some r else lookup q k)" by (rule insertRecord_ok(2) [OF s])
  show "r = q_next q" by (rule r)
  show "x \<noteq> r \<Longrightarrow> q_rec q' x = q_rec q x" by (simp add: q' place_record_links(1) store_record_def r)
  show "flow_record name fl (q_rec q' r)"
    using fr place_record_links(2,3) [where r = r and q = ?q1] j1 unfolding q' by (simp add: flow_record_def same_links_def)
  have "j_id ?j = i" using new_record_sel(1) [OF plain_flow_init [OF plain_parent_links]] by simp
  then show "id_of q' r = i" using same_jobs_place_record [of ?q1] j1 unfolding q' by (auto simp: id_of_def same_jobs_def)
qed

lemma rec_at_queue: "jm_get w n = Some q \<Longrightarrow> rec_at w n i = map_option (q_rec q) (lookup q i)"
  by (simp add: rec_at_def)

lemma run_on_put: "run_on n f w = (w', Inr x) \<Longrightarrow> \<exists>q. jm_get w n = Some q \<and> f q = (fst (f q), Inr x) \<and> w' = jm_set n (fst (f q)) w"
  by (auto simp: run_on_def split: option.splits prod.splits)

lemma flow_job_id_same: "flow_job_id o' fl q = (q', res) \<Longrightarrow> q_jobs q' = q_jobs q \<and> q_rec q' = q_rec q"
  by (auto simp: flow_job_id_def generateJobId_def split: if_splits prod.splits option.splits)

lemma addFlowJob_rec:
  assumes "addFlowJob qn name data x fl now w = (w', Inr r)" and "world_ok H w"
    and "\<And>q. jm_get w qn = Some q \<Longrightarrow> customJobId (q_opts q x) \<noteq> [] \<Longrightarrow> lookup q (customJobId (q_opts q x)) = None"
  shows "\<exists>i q'. jm_get w' qn = Some q' \<and> id_of q' r = i \<and> rec_at w qn i = None \<and> rec_at w' qn i = Some (q_rec q' r) \<and>
     flow_record name fl (q_rec q' r) \<and>
     (\<forall>n k. (n, k) \<noteq> (qn, i) \<longrightarrow> rec_at w' n k =
        (if \<lparr>pr_queue = n, pr_id = k\<rparr> \<in> set (fi_parents fl) then map_option (add_dep qn i) (rec_at w n k) else rec_at w n k))"
proof -
  obtain w1 p where p: "run_on qn (\<lambda>q. flow_job_id (q_opts q x) fl q) w = (w1, p)" by fastforce
  then obtain i where i: "p = Inr i" using assms(1) by (cases p) (auto simp: addFlowJob_def)
  from run_on_put [OF p [unfolded i]] obtain q1 where q: "jm_get w qn = Some q1"
    and f: "flow_job_id (q_opts q1 x) fl q1 = (fst (flow_job_id (q_opts q1 x) fl q1), Inr i)"
    and w1: "w1 = jm_set qn (fst (flow_job_id (q_opts q1 x) fl q1)) w" by blast
  let ?q2 = "fst (flow_job_id (q_opts q1 x) fl q1)"
  have q2: "q_jobs ?q2 = q_jobs q1" "q_rec ?q2 = q_rec q1" using flow_job_id_same [OF f] by simp_all
  note idf = qok_flow_job_id [OF f world_okD [OF assms(2) q] assms(3) [OF q]]
  have ok1: "world_ok H w1" unfolding w1 using assms(2) idf(1) by (rule world_ok_put)
  have same1: "rec_at w1 n k = rec_at w n k" for n k
    using q2 by (auto simp: w1 rec_at_put rec_at_queue [OF q] lookup_def)
  have none: "rec_at w qn i = None" using idf(2) q2 by (simp add: rec_at_queue [OF q] lookup_def)
  define w2 where "w2 = fold (link_one qn i) (fi_parents fl) w1"
  have l: "linkToParents qn i (fi_parents fl) w1 = (w2, parent_links (fi_parents fl))"
    unfolding w2_def linkToParents_fold [symmetric] by (simp add: linkToParents_def)
  note r2 = rec_at_links [OF ok1, of qn i "fi_parents fl", folded w2_def]
  have ins: "run_on qn (insert_flow_job name data x fl i now (parent_links (fi_parents fl))) w2 = (w', Inr r)"
    using assms(1) p i l by (simp add: addFlowJob_def)
  from run_on_put [OF ins] obtain q3 where q3: "jm_get w2 qn = Some q3"
    and f3: "insert_flow_job name data x fl i now (parent_links (fi_parents fl)) q3 =
      (fst (insert_flow_job name data x fl i now (parent_links (fi_parents fl)) q3), Inr r)"
    and w': "w' = jm_set qn (fst (insert_flow_job name data x fl i now (parent_links (fi_parents fl)) q3)) w2" by blast
  let ?q4 = "fst (insert_flow_job name data x fl i now (parent_links (fi_parents fl)) q3)"
  note ii = insert_flow_job_rec [OF f3]
  have wf3: "tq_wf q3" using r2 q3 world_okD qok_wf by blast
  have lt: "lookup q3 k = Some y \<Longrightarrow> y \<noteq> r" for k y using wf3 ii(2) unfolding tq_wf_def by (metis less_irrefl)
  have new: "rec_at w' qn i = Some (q_rec ?q4 r)" by (simp add: w' rec_at_put ii(1))
  have old: "rec_at w' n k = rec_at w2 n k" if "(n, k) \<noteq> (qn, i)" for n k
  proof (cases "n = qn")
    case True
    then have "k \<noteq> i" using that by simp
    then show ?thesis using True lt [of k] ii(3) by (cases "lookup q3 k") (simp_all add: w' rec_at_put ii(1) rec_at_queue [OF q3])
  qed (simp add: w' rec_at_put)
  show ?thesis
  proof (intro exI conjI)
    show "jm_get w' qn = Some ?q4" by (simp add: w' js_map_simps del: map_of_eq_Some_iff)
    show "id_of ?q4 r = i" "flow_record name fl (q_rec ?q4 r)" by (rule ii(5), rule ii(4))
    show "rec_at w qn i = None" "rec_at w' qn i = Some (q_rec ?q4 r)" by (rule none, rule new)
    show "\<forall>n k. (n, k) \<noteq> (qn, i) \<longrightarrow> rec_at w' n k =
        (if \<lparr>pr_queue = n, pr_id = k\<rparr> \<in> set (fi_parents fl) then map_option (add_dep qn i) (rec_at w n k) else rec_at w n k)"
      using old r2 same1 by simp
  qed
qed

lemma liftW_Inr: "liftW m w = (w', Inr y) \<longleftrightarrow> m w = (w', Inr y)"
  by (cases "m w"; cases "snd (m w)") (auto simp: liftW_def)

lemma queueOf_Inr: "queueOf n w = (w', Inr q) \<longleftrightarrow> w' = w \<and> jm_get w n = Some q"
  by (auto simp: queueOf_def split: option.split)

lemmas step_Inr = bindW_Inr retW_Inr liftW_Inr queueOf_Inr

lemma newNode_rec:
  assumes "newNode qn name data o' fl now w = (w', Inr h)" and "world_ok H w"
    and "customJobId (flow_opts o') \<noteq> [] \<Longrightarrow> rec_at w qn (customJobId (flow_opts o')) = None"
  shows "world_ok H w'" and "rec_at w qn (h_id h) = None" and "\<exists>j. rec_at w' qn (h_id h) = Some j \<and> flow_record name fl j"
    and "(n, k) \<noteq> (qn, h_id h) \<Longrightarrow> rec_at w' n k =
      (if \<lparr>pr_queue = n, pr_id = k\<rparr> \<in> set (fi_parents fl) then map_option (add_dep qn (h_id h)) (rec_at w n k) else rec_at w n k)"
proof -
  obtain w1 x w2 r where a: "store_opts qn (flow_opts o') w = (w1, Inr x)"
    and b: "addFlowJob qn name data x fl now w1 = (w2, Inr r)" and c: "handle_of qn r w2 = (w', Inr h)"
    using assms(1) unfolding newNode_def step_Inr by blast
  from run_on_put [OF a [unfolded store_opts_def]] obtain q where q: "jm_get w qn = Some q"
    and x: "x = q_nextOpts q" and w1: "w1 = jm_set qn (fst (alloc_opts (flow_opts o') q)) w"
    by (auto simp: alloc_opts_def)
  have ok1: "world_ok H w1"
    unfolding w1 using assms(2) qok_alloc [of "flow_opts o'" q] world_okD [OF assms(2) q] by (intro world_ok_put) (auto simp: alloc_opts_def)
  have same1: "rec_at w1 n k = rec_at w n k" for n k
    by (simp add: w1 rec_at_put rec_at_queue [OF q] alloc_opts_def lookup_def)
  have fresh: "lookup q' (customJobId (q_opts q' x)) = None" if "jm_get w1 qn = Some q'" "customJobId (q_opts q' x) \<noteq> []" for q'
  proof -
    have "q' = fst (alloc_opts (flow_opts o') q)" using that(1) by (simp add: w1 js_map_simps del: map_of_eq_Some_iff)
    then have "q_opts q' x = flow_opts o'" "lookup q' k = lookup q k" for k by (simp_all add: alloc_opts_def x lookup_def)
    then show ?thesis using assms(3) that(2) by (simp add: rec_at_queue [OF q])
  qed
  from addFlowJob_rec [OF b ok1 fresh] obtain i q' where q': "jm_get w2 qn = Some q'" and i: "id_of q' r = i"
    and rest: "rec_at w1 qn i = None" "rec_at w2 qn i = Some (q_rec q' r)" "flow_record name fl (q_rec q' r)"
      "\<forall>n k. (n, k) \<noteq> (qn, i) \<longrightarrow> rec_at w2 n k =
        (if \<lparr>pr_queue = n, pr_id = k\<rparr> \<in> set (fi_parents fl) then map_option (add_dep qn i) (rec_at w1 n k) else rec_at w1 n k)"
    by blast
  have h: "h = new_TestJob q' r" "w' = jm_set qn q' w2" using c q' by (auto simp: handle_of_def run_on_def)
  have hid: "h_id h = i" using i by (simp add: h new_TestJob_def Let_def id_of_def)
  have ok2: "world_ok H w2" by (rule world_ok_addFlowJob [OF b ok1 fresh])
  have same2: "rec_at w' n k = rec_at w2 n k" for n k by (simp add: h rec_at_put rec_at_queue [OF q'])
  show "world_ok H w'" unfolding h using ok2 world_okD [OF ok2 q'] by (intro world_ok_put)
  show "rec_at w qn (h_id h) = None" using rest(1) by (simp add: hid same1)
  show "\<exists>j. rec_at w' qn (h_id h) = Some j \<and> flow_record name fl j" using rest(2,3) by (simp add: hid same2)
  show "(n, k) \<noteq> (qn, h_id h) \<Longrightarrow> rec_at w' n k =
      (if \<lparr>pr_queue = n, pr_id = k\<rparr> \<in> set (fi_parents fl) then map_option (add_dep qn (h_id h)) (rec_at w n k) else rec_at w n k)"
    using rest(4) by (simp add: hid same1 same2)
qed

section \<open>Nodes by reference\<close>

abbreviation ref_at :: "world \<Rightarrow> parent_ref \<Rightarrow> job option" where
  "ref_at w p \<equiv> rec_at w (pr_queue p) (pr_id p)"

abbreviation ref :: "string \<Rightarrow> string \<Rightarrow> parent_ref" where
  "ref n i \<equiv> \<lparr>pr_queue = n, pr_id = i\<rparr>"

lemma next_id_unused: "next_id n used c = (c', Some i) \<Longrightarrow> \<not> used i"
  by (induction n used c rule: next_id.induct) (auto simp: Let_def split: if_splits)

lemma flow_job_id_choice:
  assumes "flow_job_id o' fl q = (q', Inr i)"
  shows "if customJobId o' \<noteq> [] then i = customJobId o' else i \<notin> set (fi_reserved fl)"
  using assms next_id_unused by (fastforce simp: flow_job_id_def generateJobId_def split: if_splits prod.splits option.splits)

lemma addFlowJob_id:
  assumes "addFlowJob qn name data x fl now w = (w', Inr r)" and "jm_get w qn = Some q"
    and "jm_get w' qn = Some q'"
  shows "if customJobId (q_opts q x) \<noteq> [] then id_of q' r = customJobId (q_opts q x) else id_of q' r \<notin> set (fi_reserved fl)"
proof -
  obtain w1 i where p: "run_on qn (\<lambda>q. flow_job_id (q_opts q x) fl q) w = (w1, Inr i)"
    and ins: "run_on qn (insert_flow_job name data x fl i now (snd (linkToParents qn i (fi_parents fl) w1)))
      (fst (linkToParents qn i (fi_parents fl) w1)) = (w', Inr r)"
    using assms(1) by (auto simp: addFlowJob_def split: prod.splits sum.splits)
  from run_on_put [OF p] assms(2) have c: "if customJobId (q_opts q x) \<noteq> [] then i = customJobId (q_opts q x) else i \<notin> set (fi_reserved fl)"
    using flow_job_id_choice by (metis option.inject)
  from run_on_put [OF ins] assms(3) have "id_of q' r = i"
    by (auto simp: linkToParents_def js_map_simps insert_flow_job_rec(5) simp del: map_of_eq_Some_iff)
  with c show ?thesis by simp
qed

lemma newNode_id:
  assumes "newNode qn name data o' fl now w = (w', Inr h)"
  shows "if customJobId (flow_opts o') \<noteq> [] then h_id h = customJobId (flow_opts o') else h_id h \<notin> set (fi_reserved fl)"
proof -
  obtain w1 x w2 r where a: "store_opts qn (flow_opts o') w = (w1, Inr x)"
    and b: "addFlowJob qn name data x fl now w1 = (w2, Inr r)" and c: "handle_of qn r w2 = (w', Inr h)"
    using assms(1) unfolding newNode_def step_Inr by blast
  from run_on_put [OF a [unfolded store_opts_def]] obtain q where
    x: "x = q_nextOpts q" and w1: "w1 = jm_set qn (fst (alloc_opts (flow_opts o') q)) w"
    by (auto simp: alloc_opts_def)
  have q1: "jm_get w1 qn = Some (fst (alloc_opts (flow_opts o') q))" by (simp add: w1 js_map_simps del: map_of_eq_Some_iff)
  have o1: "q_opts (fst (alloc_opts (flow_opts o') q)) x = flow_opts o'" by (simp add: alloc_opts_def x)
  from run_on_put [OF c [unfolded handle_of_def]] obtain q' where q': "jm_get w2 qn = Some q'" and h: "h = new_TestJob q' r"
    by auto
  have "h_id h = id_of q' r" by (simp add: h new_TestJob_def Let_def id_of_def)
  with addFlowJob_id [OF b q1 q'] o1 show ?thesis by simp
qed

text \<open>One node, as the trees and DAGs use it.\<close>

lemma newNode_at:
  assumes "newNode qn name data o' fl now w = (w', Inr h)" and "world_ok H w"
    and "customJobId (flow_opts o') \<noteq> [] \<Longrightarrow> ref_at w (ref qn (customJobId (flow_opts o'))) = None"
  shows "world_ok H w'" and "ref_at w (ref qn (h_id h)) = None" and "\<exists>j. ref_at w' (ref qn (h_id h)) = Some j \<and> flow_record name fl j"
    and "p \<noteq> ref qn (h_id h) \<Longrightarrow> ref_at w' p = (if p \<in> set (fi_parents fl) then map_option (add_dep qn (h_id h)) (ref_at w p) else ref_at w p)"
proof -
  have c: "customJobId (flow_opts o') \<noteq> [] \<Longrightarrow> rec_at w qn (customJobId (flow_opts o')) = None" using assms(3) by simp
  note n = newNode_rec [OF assms(1,2) c]
  show "world_ok H w'" by (rule n(1))
  show "ref_at w (ref qn (h_id h)) = None" using n(2) by simp
  show "\<exists>j. ref_at w' (ref qn (h_id h)) = Some j \<and> flow_record name fl j" using n(3) by simp
  show "p \<noteq> ref qn (h_id h) \<Longrightarrow> ref_at w' p = (if p \<in> set (fi_parents fl) then map_option (add_dep qn (h_id h)) (ref_at w p) else ref_at w p)"
    using n(4) [of "pr_queue p" "pr_id p"] by (cases p) simp
qed

end
