(* ===== verification/Tq_Flow_Tree.thy ===== *)
theory Tq_Flow_Tree
  imports Tq_Flow_Inv
begin

text \<open>
  The records a tree of jobs becomes (\<open>buildTree\<close> of \<open>src/testing-flow.ts\<close>): the tree that was asked
  for, linked both ways, in records that are new, with every other record as it was.
\<close>

section \<open>What a built tree is\<close>

fun refs :: "job_node \<Rightarrow> parent_ref list" where
  "refs (JobNode q h ks) = ref q (h_id h) # concat (map refs ks)"

abbreviation kid_refs :: "job_node list \<Rightarrow> parent_ref list" where
  "kid_refs ks \<equiv> concat (map refs ks)"

lemma refs_node: "refs k = node_ref k # kid_refs (jn_children k)"
  by (cases k) (simp add: node_ref_def)

definition parent_is :: "world \<Rightarrow> job_node \<Rightarrow> parent_ref \<Rightarrow> bool" where
  "parent_is w k p \<longleftrightarrow> (case ref_at w (node_ref k) of None \<Rightarrow> False
     | Some j \<Rightarrow> j_parentId j = Some (pr_id p) \<and> j_parentQueue j = Some (pr_queue p))"

definition add_kid :: "job_node \<Rightarrow> job \<Rightarrow> job" where
  "add_kid k = add_dep (jn_queue k) (h_id (jn_job k))"

text \<open>A node with children waits for exactly them, in their order; one without waits for nothing.\<close>

definition record_of :: "string \<Rightarrow> job_node list \<Rightarrow> job \<Rightarrow> bool" where
  "record_of n ks j \<longleftrightarrow> j_name j = n \<and> (j_state j = WaitingChildren \<longleftrightarrow> ks \<noteq> []) \<and>
     map snd (j_deps j) = map node_ref ks"

fun built :: "world \<Rightarrow> flow_job \<Rightarrow> job_node \<Rightarrow> bool" where
  "built w (FlowJob n qn d o' cs) (JobNode q h ks) \<longleftrightarrow>
     q = qn \<and> (\<exists>j. ref_at w (ref qn (h_id h)) = Some j \<and> record_of n ks j) \<and>
     list_all2 (\<lambda>c k. built w c k \<and> parent_is w k (ref qn (h_id h))) cs ks"

section \<open>Built trees in later worlds\<close>

lemma list_all2_right: "list_all2 P xs ys \<Longrightarrow> y \<in> set ys \<Longrightarrow> \<exists>x\<in>set xs. P x y"
proof (induction xs arbitrary: ys)
  case (Cons x xs)
  then obtain z zs where "ys = z # zs" "P x z" "list_all2 P xs zs" unfolding list_all2_Cons1 by blast
  then show ?case using Cons(1) [of zs] Cons(3) by fastforce
qed simp

lemma list_all2_cong_set:
  assumes "\<And>x y. x \<in> set xs \<Longrightarrow> y \<in> set ys \<Longrightarrow> P x y \<longleftrightarrow> Q x y"
  shows "list_all2 P xs ys = list_all2 Q xs ys"
  using assms list.rel_mono_strong [of P xs ys Q] list.rel_mono_strong [of Q xs ys P] by blast

lemma builtD:
  assumes "built w (FlowJob n qn d o' cs) (JobNode q h ks)"
  shows "q = qn" and "\<exists>j. ref_at w (ref qn (h_id h)) = Some j \<and> record_of n ks j"
    and "list_all2 (\<lambda>c k. built w c k \<and> parent_is w k (ref qn (h_id h))) cs ks"
proof -
  note b = assms [unfolded built.simps]
  show "q = qn" using b by (rule conjunct1)
  show "\<exists>j. ref_at w (ref qn (h_id h)) = Some j \<and> record_of n ks j" using b [THEN conjunct2] by (rule conjunct1)
  show "list_all2 (\<lambda>c k. built w c k \<and> parent_is w k (ref qn (h_id h))) cs ks" using b [THEN conjunct2] by (rule conjunct2)
qed

lemma refs_cases:
  assumes "p \<in> set (refs (JobNode q h ks))"
  shows "p = ref q (h_id h) \<or> (\<exists>k\<in>set ks. p \<in> set (refs k))"
  using assms by (simp only: refs.simps set_simps set_concat set_map insert_iff UN_iff image_iff Union_iff bex_simps)

lemma built_refs: "built w f k \<Longrightarrow> p \<in> set (refs k) \<Longrightarrow> ref_at w p \<noteq> None"
proof (induction w f k rule: built.induct)
  case (1 w n qn d o' cs q h ks)
  note b = builtD [OF 1(2)]
  from refs_cases [OF 1(3)] show ?case
  proof
    assume "p = ref q (h_id h)"
    then show ?thesis using b(1,2) by (metis option.distinct(1))
  next
    assume "\<exists>k\<in>set ks. p \<in> set (refs k)"
    then obtain k where k: "k \<in> set ks" "p \<in> set (refs k)" by (rule bexE)
    from list_all2_right [OF b(3) k(1)] obtain c where c: "c \<in> set cs" "built w c k" by (elim bexE conjE)
    show ?thesis by (rule 1(1) [OF c(1) k(1) c(2) k(2)])
  qed
qed

lemma built_queue: "built w f k \<Longrightarrow> jn_queue k = fj_queue f"
  by (cases f; cases k) (simp only: built.simps job_node.sel flow_job.sel)

lemma parent_is_cong: "ref_at w' (node_ref k) = ref_at w (node_ref k) \<Longrightarrow> parent_is w' k p = parent_is w k p"
  unfolding parent_is_def by (simp only:)

lemma kid_subset: "k \<in> set ks \<Longrightarrow> p \<in> set (refs k) \<Longrightarrow> p \<in> set (kid_refs ks)"
  by (simp only: set_concat set_map) blast

lemma node_ref_in: "node_ref k \<in> set (refs k)"
  by (cases k) (simp add: node_ref_def)

text \<open>A tree is still built in a world with the same records for its nodes.\<close>

lemma built_kids_cong:
  assumes "\<And>c k. c \<in> set cs \<Longrightarrow> k \<in> set ks \<Longrightarrow> built w' c k = built w c k"
    and "\<And>p. p \<in> set (kid_refs ks) \<Longrightarrow> ref_at w' p = ref_at w p"
  shows "list_all2 (\<lambda>c k. built w' c k \<and> parent_is w' k r) cs ks =
    list_all2 (\<lambda>c k. built w c k \<and> parent_is w k r) cs ks"
proof (rule list_all2_cong_set)
  fix c k assume ck: "c \<in> set cs" "k \<in> set ks"
  have "parent_is w' k r = parent_is w k r"
    by (rule parent_is_cong [OF assms(2)]) (rule kid_subset [OF ck(2) node_ref_in])
  then show "(built w' c k \<and> parent_is w' k r) = (built w c k \<and> parent_is w k r)"
    using assms(1) [OF ck] by simp
qed

lemma built_cong: "(\<And>p. p \<in> set (refs k) \<Longrightarrow> ref_at w' p = ref_at w p) \<Longrightarrow> built w' f k = built w f k"
proof (induction w f k rule: built.induct)
  case (1 w n qn d o' cs q h ks)
  have kid: "p \<in> set (kid_refs ks) \<Longrightarrow> ref_at w' p = ref_at w p" for p by (rule 1(2)) simp
  have "list_all2 (\<lambda>c k. built w' c k \<and> parent_is w' k (ref qn (h_id h))) cs ks =
      list_all2 (\<lambda>c k. built w c k \<and> parent_is w k (ref qn (h_id h))) cs ks"
  proof (rule built_kids_cong [OF _ kid])
    fix c k assume ck: "c \<in> set cs" "k \<in> set ks"
    show "built w' c k = built w c k" by (rule 1(1) [OF ck kid]) (rule kid_subset [OF ck(2)])
  qed
  moreover have "ref_at w' (ref q (h_id h)) = ref_at w (ref q (h_id h))" by (rule 1(2)) simp
  then have "ref_at w' (ref qn (h_id h)) = ref_at w (ref qn (h_id h))" if "q = qn" using that by simp
  ultimately show ?case unfolding built.simps by (cases "q = qn") (simp_all only: simp_thms)
qed

text \<open>The record of a root may get a parent, and is otherwise left alone.\<close>

definition set_parent :: "parent_ref \<Rightarrow> job \<Rightarrow> job" where
  "set_parent p j = j\<lparr>j_parentId := Some (pr_id p), j_parentQueue := Some (pr_queue p)\<rparr>"

lemma record_of_set_parent [simp]: "record_of n ks (set_parent p j) = record_of n ks j"
  by (simp add: record_of_def set_parent_def)

lemma built_set_parent:
  assumes "built w f k" and "ref_at w' (node_ref k) = map_option (set_parent p) (ref_at w (node_ref k))"
    and "\<And>r. r \<in> set (kid_refs (jn_children k)) \<Longrightarrow> ref_at w' r = ref_at w r"
  shows "built w' f k" and "parent_is w' k p"
proof -
  obtain n qn d o' cs where f: "f = FlowJob n qn d o' cs" by (cases f)
  obtain q h ks where k: "k = JobNode q h ks" by (cases k)
  note b = builtD [OF assms(1) [unfolded f k]]
  obtain j where j: "ref_at w (ref qn (h_id h)) = Some j" "record_of n ks j" using b(2) by blast
  have nr: "node_ref k = ref qn (h_id h)" using b(1) by (simp add: k node_ref_def)
  have kid: "p \<in> set (kid_refs ks) \<Longrightarrow> ref_at w' p = ref_at w p" for p by (rule assms(3)) (simp add: k)
  have "list_all2 (\<lambda>c k. built w' c k \<and> parent_is w' k (ref qn (h_id h))) cs ks =
      list_all2 (\<lambda>c k. built w c k \<and> parent_is w k (ref qn (h_id h))) cs ks"
  proof (rule built_kids_cong [OF _ kid])
    fix c k assume ck: "c \<in> set cs" "k \<in> set ks"
    show "built w' c k = built w c k" by (rule built_cong [OF kid]) (rule kid_subset [OF ck(2)])
  qed
  then have "list_all2 (\<lambda>c k. built w' c k \<and> parent_is w' k (ref qn (h_id h))) cs ks" using b(3) by simp
  moreover have j': "ref_at w' (ref qn (h_id h)) = Some (set_parent p j)" using assms(2) j(1) unfolding nr by simp
  ultimately show "built w' f k" using b(1) j(2) unfolding f k built.simps
    by (intro conjI exI [of _ "set_parent p j"]) (simp_all only: record_of_set_parent)
  show "parent_is w' k p" using j' unfolding parent_is_def nr by (simp add: set_parent_def)
qed

section \<open>Ids the flow chose itself\<close>

definition own_of :: "string \<Rightarrow> job_options option \<Rightarrow> parent_ref list" where
  "own_of qn o' = (if customJobId (flow_opts o') = [] then [] else [ref qn (customJobId (flow_opts o'))])"

fun custom_refs :: "flow_job \<Rightarrow> parent_ref list" where
  "custom_refs (FlowJob n qn d o' cs) = own_of qn o' @ concat (map custom_refs cs)"

abbreviation customs :: "flow_job list \<Rightarrow> parent_ref list" where
  "customs cs \<equiv> concat (map custom_refs cs)"

abbreviation leaf :: "flow_job \<Rightarrow> bool" where
  "leaf c \<equiv> fj_children c = []"

definition sub_customs :: "flow_job list \<Rightarrow> parent_ref list" where
  "sub_customs cs = customs (filter (\<lambda>c. \<not> leaf c) cs)"

definition leaf_customs :: "flow_job list \<Rightarrow> parent_ref list" where
  "leaf_customs cs = concat (map (\<lambda>c. own_of (fj_queue c) (fj_opts c)) (filter leaf cs))"

lemma custom_refs_leaf: "leaf c \<Longrightarrow> custom_refs c = own_of (fj_queue c) (fj_opts c)"
  by (cases c) simp

lemma customs_split: "set (customs cs) = set (sub_customs cs) \<union> set (leaf_customs cs)"
  by (induction cs) (auto simp: sub_customs_def leaf_customs_def custom_refs_leaf)

lemma customs_distinct:
  "distinct (customs cs) \<Longrightarrow> distinct (sub_customs cs) \<and> distinct (leaf_customs cs) \<and> set (sub_customs cs) \<inter> set (leaf_customs cs) = {}"
proof (induction cs)
  case (Cons c cs)
  have c: "set (custom_refs c) \<inter> (set (sub_customs cs) \<union> set (leaf_customs cs)) = {}" "distinct (custom_refs c)"
    using Cons.prems unfolding customs_split [symmetric] by simp_all
  have ih: "distinct (sub_customs cs)" "distinct (leaf_customs cs)" "set (sub_customs cs) \<inter> set (leaf_customs cs) = {}"
    using Cons by simp_all
  show ?case
  proof (cases "leaf c")
    case True
    then have "sub_customs (c # cs) = sub_customs cs" "leaf_customs (c # cs) = custom_refs c @ leaf_customs cs"
      by (simp_all add: sub_customs_def leaf_customs_def custom_refs_leaf)
    then show ?thesis using c ih by auto
  next
    case False
    then have "sub_customs (c # cs) = custom_refs c @ sub_customs cs" "leaf_customs (c # cs) = leaf_customs cs"
      by (simp_all add: sub_customs_def leaf_customs_def)
    then show ?thesis using c ih by auto
  qed
qed (simp add: sub_customs_def leaf_customs_def)

text \<open>The ids the flow has reserved, as references.\<close>

definition taken :: "reserved \<Rightarrow> parent_ref set" where
  "taken res = {p. pr_id p \<in> set (or_else (jm_get res (pr_queue p)) [])}"

text \<open>A set of new nodes: fresh before, and among the reserved ids only their own.\<close>

definition fresh_refs :: "world \<Rightarrow> reserved \<Rightarrow> parent_ref list \<Rightarrow> parent_ref list \<Rightarrow> bool" where
  "fresh_refs w res own ps \<longleftrightarrow> distinct ps \<and> (\<forall>p\<in>set ps. ref_at w p = None \<and> (p \<in> taken res \<longrightarrow> p \<in> set own))"

definition free_refs :: "world \<Rightarrow> reserved \<Rightarrow> parent_ref list \<Rightarrow> bool" where
  "free_refs w res own \<longleftrightarrow> distinct own \<and> set own \<subseteq> taken res \<and> (\<forall>p\<in>set own. ref_at w p = None)"

text \<open>One new node.\<close>

lemma newNode_fresh:
  assumes "newNode qn name data o' (flowInit prefix qn wait res ps) now w = (w', Inr h)" and "world_ok H w"
    and "free_refs w res (own_of qn o')"
  shows "world_ok H w'" and "ref_at w (ref qn (h_id h)) = None" and "ref qn (h_id h) \<in> taken res \<Longrightarrow> ref qn (h_id h) \<in> set (own_of qn o')"
    and "\<exists>j. ref_at w' (ref qn (h_id h)) = Some j \<and> flow_record name (flowInit prefix qn wait res ps) j"
    and "p \<noteq> ref qn (h_id h) \<Longrightarrow> ref_at w' p = (if p \<in> set ps then map_option (add_dep qn (h_id h)) (ref_at w p) else ref_at w p)"
proof -
  have c: "customJobId (flow_opts o') \<noteq> [] \<Longrightarrow> ref_at w (ref qn (customJobId (flow_opts o'))) = None"
    using assms(3) by (simp add: free_refs_def own_of_def)
  note n = newNode_at [OF assms(1,2) c]
  show "world_ok H w'" by (rule n(1))
  show "ref_at w (ref qn (h_id h)) = None" by (rule n(2))
  show "\<exists>j. ref_at w' (ref qn (h_id h)) = Some j \<and> flow_record name (flowInit prefix qn wait res ps) j" by (rule n(3))
  show "p \<noteq> ref qn (h_id h) \<Longrightarrow> ref_at w' p = (if p \<in> set ps then map_option (add_dep qn (h_id h)) (ref_at w p) else ref_at w p)"
    using n(4) [of p] by (simp add: flowInit_def)
  show "ref qn (h_id h) \<in> set (own_of qn o')" if "ref qn (h_id h) \<in> taken res"
    using newNode_id [OF assms(1)] that by (auto simp: taken_def flowInit_def own_of_def split: if_splits)
qed

end
