(* ===== verification/Tq_Flow_Build.thy ===== *)
theory Tq_Flow_Build
  imports Tq_Flow_Tree
begin

text \<open>
  \<open>buildTree\<close> step by step: a sub-flow root gets its parent, a leaf is created with it, and the tree
  that comes out is the flow that went in.
\<close>

section \<open>Attaching a sub-flow root\<close>

lemma rec_upd:
  assumes "tq_wf q" and "lookup q c = Some r"
  shows "map_option (q_rec (upd r f q)) (lookup q i) =
     (if i = c then map_option f (map_option (q_rec q) (lookup q i)) else map_option (q_rec q) (lookup q i))"
proof (cases "lookup q i")
  case (Some r')
  then have "r' = r \<longleftrightarrow> i = c" using lookup_inj [OF assms(1)] assms(2) by auto
  with Some show ?thesis by (cases "i = c") (simp_all add: upd_def)
qed auto

definition link_root :: "string \<Rightarrow> nat \<Rightarrow> parent_ref \<Rightarrow> world \<Rightarrow> world" where
  "link_root qn r p = with_queue qn (upd r (set_parent p))"

lemma attachParent_steps:
  assumes "jm_get w qn = Some q"
  shows "attachParent qn r p w = link_one qn (id_of q r) p (link_root qn r p w)"
proof -
  have "(\<lambda>j. j\<lparr>j_parentId := Some (pr_id p), j_parentQueue := Some (pr_queue p)\<rparr>) = set_parent p"
    by (simp add: fun_eq_iff set_parent_def)
  then show ?thesis using assms by (simp add: attachParent_def link_one_def link_root_def)
qed

lemma link_root_rec:
  assumes "world_ok H w" and "jm_get w qn = Some q" and "lookup q c = Some r"
  shows "world_ok H (link_root qn r p w)"
    and "ref_at (link_root qn r p w) x = (if x = ref qn c then map_option (set_parent p) (ref_at w x) else ref_at w x)"
proof -
  have wf: "tq_wf q" using world_okD [OF assms(1,2)] by (rule qok_wf)
  show "world_ok H (link_root qn r p w)"
    unfolding link_root_def using assms(1) by (rule world_ok_with_queue) (simp add: qok_upd set_parent_def)
  have w': "link_root qn r p w = jm_set qn (upd r (set_parent p) q) w" using assms(2) by (simp add: link_root_def with_queue_def)
  show "ref_at (link_root qn r p w) x = (if x = ref qn c then map_option (set_parent p) (ref_at w x) else ref_at w x)"
    using rec_upd [OF wf assms(3), of "set_parent p" "pr_id x"] rec_at_queue [OF assms(2), of "pr_id x"] unfolding w' rec_at_put
    by (cases x) auto
qed

definition with_parent :: "parent_ref \<Rightarrow> job_node \<Rightarrow> job_node" where
  "with_parent p k = JobNode (jn_queue k) ((jn_job k)\<lparr>h_parentId := Some (pr_id p), h_parentQueue := Some (pr_queue p)\<rparr>) (jn_children k)"

lemma with_parent_refs [simp]: "refs (with_parent p k) = refs k" "node_ref (with_parent p k) = node_ref k"
  by (cases k; simp add: with_parent_def node_ref_def)+

lemma built_with_parent [simp]: "built w f (with_parent p k) = built w f k"
  by (cases f; cases k) (simp add: with_parent_def)

lemma parent_is_with_parent [simp]: "parent_is w (with_parent p k) = parent_is w k"
  by (simp add: fun_eq_iff parent_is_def)

lemma attachRoot_rec:
  assumes "attachRoot p (jn_queue k) k w = (w', Inr k')" and "world_ok H w" and "p \<noteq> node_ref k"
  shows "world_ok H w'" and "k' = with_parent p k"
    and "ref_at w' x = (if x = node_ref k then map_option (set_parent p) (ref_at w x)
           else if x = p then map_option (add_kid k) (ref_at w x) else ref_at w x)"
proof -
  obtain q r where q: "jm_get w (jn_queue k) = Some q" and r: "lookup q (h_id (jn_job k)) = Some r"
    and w': "w' = attachParent (jn_queue k) r p w" and k': "k' = with_parent p k"
    using assms(1) by (auto simp: attachRoot_def step_Inr with_parent_def split: option.splits)
  have i: "id_of q r = h_id (jn_job k)" using qok_wf [OF world_okD [OF assms(2) q]] r by (simp add: tq_wf_def)
  note s = link_root_rec [OF assms(2) q r, of p]
  have w'': "w' = link_one (jn_queue k) (h_id (jn_job k)) p (link_root (jn_queue k) r p w)"
    using attachParent_steps [OF q] i w' by simp
  show "world_ok H w'" unfolding w'' using s(1) by (rule world_ok_link_one)
  show "k' = with_parent p k" by (rule k')
  have nr: "ref (jn_queue k) (h_id (jn_job k)) = node_ref k" by (simp add: node_ref_def)
  have "ref_at w' x = (if p = x then map_option (add_kid k) (ref_at (link_root (jn_queue k) r p w) x)
      else ref_at (link_root (jn_queue k) r p w) x)"
    unfolding w'' add_kid_def using rec_at_link_one [OF s(1), of "jn_queue k" "h_id (jn_job k)" p "pr_queue x" "pr_id x"] by simp
  then show "ref_at w' x = (if x = node_ref k then map_option (set_parent p) (ref_at w x)
           else if x = p then map_option (add_kid k) (ref_at w x) else ref_at w x)"
    unfolding s(2) nr using assms(3) by auto
qed

section \<open>The children of a node\<close>

fun sub_ok :: "world \<Rightarrow> flow_job \<Rightarrow> job_node option \<Rightarrow> bool" where
  "sub_ok w c None = leaf c"
| "sub_ok w c (Some k) = (\<not> leaf c \<and> built w c k)"

fun opt_refs :: "job_node option \<Rightarrow> parent_ref list" where
  "opt_refs None = []"
| "opt_refs (Some k) = refs k"

abbreviation sub_refs :: "job_node option list \<Rightarrow> parent_ref list" where
  "sub_refs ss \<equiv> concat (map opt_refs ss)"

lemma sub_ok_refs: "sub_ok w c s \<Longrightarrow> x \<in> set (opt_refs s) \<Longrightarrow> ref_at w x \<noteq> None"
  by (cases s) (auto dest: built_refs)

lemma sub_ok_cong: "sub_ok w c s \<Longrightarrow> (\<And>x. x \<in> set (opt_refs s) \<Longrightarrow> ref_at w' x = ref_at w x) \<Longrightarrow> sub_ok w' c s"
  by (cases s) (auto simp: built_cong [of _ w' w])

definition child_done :: "parent_ref \<Rightarrow> flow_job \<Rightarrow> world \<Rightarrow> world \<Rightarrow> job_node \<Rightarrow> bool" where
  "child_done p c w w' k \<longleftrightarrow> built w' c k \<and> parent_is w' k p \<and>
     ref_at w' p = map_option (add_kid k) (ref_at w p) \<and>
     (\<forall>x. x \<notin> set (refs k) \<longrightarrow> x \<noteq> p \<longrightarrow> ref_at w' x = ref_at w x)"

lemma child_node_sub:
  assumes "child_node prefix res now p c (Some k0) w = (w', Inr k)" and "world_ok H w" and "built w c k0"
    and "p \<notin> set (refs k0)" and "distinct (refs k0)"
  shows "world_ok H w'" and "refs k = refs k0" and "child_done p c w w' k"
proof -
  have at: "attachRoot p (jn_queue k0) k0 w = (w', Inr k)" using assms(1) built_queue [OF assms(3)] by (simp add: child_node_def)
  have ne: "p \<noteq> node_ref k0" using assms(4) node_ref_in [of k0] by blast
  note a = attachRoot_rec [OF at assms(2) ne]
  show "world_ok H w'" by (rule a(1))
  show "refs k = refs k0" by (simp add: a(2))
  have kids: "x \<in> set (kid_refs (jn_children k0)) \<Longrightarrow> ref_at w' x = ref_at w x" for x
    using assms(4,5) refs_node [of k0] a(3) [of x] by auto
  have root: "ref_at w' (node_ref k0) = map_option (set_parent p) (ref_at w (node_ref k0))" using a(3) [of "node_ref k0"] by simp
  note b = built_set_parent [OF assms(3) root kids]
  have "ref_at w' p = map_option (add_kid k) (ref_at w p)"
    using a(3) [of p] ne by (simp add: a(2) add_kid_def with_parent_def)
  moreover have "ref_at w' x = ref_at w x" if "x \<notin> set (refs k)" "x \<noteq> p" for x
    using a(3) [of x] that node_ref_in [of k0] by (auto simp: a(2))
  ultimately show "child_done p c w w' k" using b by (simp add: child_done_def a(2))
qed

lemma child_node_leaf:
  assumes "child_node prefix res now p c None w = (w', Inr k)" and "world_ok H w" and "leaf c"
    and "free_refs w res (own_of (fj_queue c) (fj_opts c))" and "ref_at w p \<noteq> None"
  shows "world_ok H w'" and "refs k = [node_ref k]" and "fresh_refs w res (own_of (fj_queue c) (fj_opts c)) (refs k)"
    and "child_done p c w w' k"
proof -
  obtain h where n: "newNode (fj_queue c) (fj_name c) (fj_data c) (fj_opts c) (flowInit prefix (fj_queue c) False res [p]) now w = (w', Inr h)"
    and k: "k = JobNode (fj_queue c) h []"
    using assms(1) by (auto simp: child_node_def step_Inr)
  note f = newNode_fresh [OF n assms(2,4)]
  have nr: "node_ref k = ref (fj_queue c) (h_id h)" by (simp add: k node_ref_def)
  have ne: "p \<noteq> node_ref k" using f(2) assms(5) nr by metis
  show "world_ok H w'" by (rule f(1))
  show r: "refs k = [node_ref k]" by (simp add: k node_ref_def)
  show "fresh_refs w res (own_of (fj_queue c) (fj_opts c)) (refs k)"
    unfolding r fresh_refs_def nr using f(2,3) by simp
  obtain j where j: "ref_at w' (node_ref k) = Some j" "flow_record (fj_name c) (flowInit prefix (fj_queue c) False res [p]) j"
    using f(4) unfolding nr by blast
  have "record_of (fj_name c) [] j" "j_parentId j = Some (pr_id p)" "j_parentQueue j = Some (pr_queue p)"
    using j(2) by (simp_all add: flow_record_def flowInit_def record_of_def)
  then have "built w' c k" "parent_is w' k p"
    using j(1) assms(3) by (cases c, simp_all add: k parent_is_def node_ref_def)
  moreover have "ref_at w' p = map_option (add_kid k) (ref_at w p)"
    using f(5) [of p] ne nr by (simp add: add_kid_def k)
  moreover have "ref_at w' x = ref_at w x" if "x \<notin> set (refs k)" "x \<noteq> p" for x
    using f(5) [of x] that by (simp add: r nr)
  ultimately show "child_done p c w w' k" by (simp add: child_done_def)
qed

lemma child_node_step:
  assumes "child_node prefix res now p c s w = (w', Inr k)" and "world_ok H w" and "sub_ok w c s"
    and "p \<notin> set (opt_refs s)" and "distinct (opt_refs s)" and "ref_at w p \<noteq> None"
    and "s = None \<Longrightarrow> free_refs w res (own_of (fj_queue c) (fj_opts c))"
  shows "world_ok H w'" and "child_done p c w w' k" and "distinct (refs k)" and "p \<notin> set (refs k)"
    and "s \<noteq> None \<Longrightarrow> refs k = opt_refs s" and "s = None \<Longrightarrow> fresh_refs w res (own_of (fj_queue c) (fj_opts c)) (refs k)"
proof -
  have "world_ok H w' \<and> child_done p c w w' k \<and> distinct (refs k) \<and> p \<notin> set (refs k) \<and>
    (s \<noteq> None \<longrightarrow> refs k = opt_refs s) \<and> (s = None \<longrightarrow> fresh_refs w res (own_of (fj_queue c) (fj_opts c)) (refs k))"
  proof (cases s)
    case None
    note l = child_node_leaf [OF assms(1) [unfolded None] assms(2) _ assms(7) [OF None] assms(6)]
    have lf: "leaf c" using assms(3) None by simp
    have "p \<notin> set (refs k)" using l(3) [OF lf] assms(6) unfolding fresh_refs_def by metis
    then show ?thesis using l [OF lf] None by (simp add: fresh_refs_def)
  next
    case (Some k0)
    have b: "built w c k0" using assms(3) Some by simp
    have d: "p \<notin> set (refs k0)" "distinct (refs k0)" using assms(4,5) Some by simp_all
    show ?thesis using child_node_sub [OF assms(1) [unfolded Some] assms(2) b d] d Some by simp
  qed
  then show "world_ok H w'" "child_done p c w w' k" "distinct (refs k)" "p \<notin> set (refs k)"
    "s \<noteq> None \<Longrightarrow> refs k = opt_refs s" "s = None \<Longrightarrow> fresh_refs w res (own_of (fj_queue c) (fj_opts c)) (refs k)" by simp_all
qed

definition kids_done :: "parent_ref \<Rightarrow> flow_job list \<Rightarrow> world \<Rightarrow> world \<Rightarrow> job_node list \<Rightarrow> bool" where
  "kids_done p cs w w' ks \<longleftrightarrow> list_all2 (\<lambda>c k. built w' c k \<and> parent_is w' k p) cs ks \<and>
     ref_at w' p = map_option (fold add_kid ks) (ref_at w p) \<and>
     (\<forall>x. x \<notin> set (kid_refs ks) \<longrightarrow> x \<noteq> p \<longrightarrow> ref_at w' x = ref_at w x)"

definition kids_new :: "world \<Rightarrow> reserved \<Rightarrow> flow_job list \<Rightarrow> job_node option list \<Rightarrow> job_node list \<Rightarrow> bool" where
  "kids_new w res cs ss ks \<longleftrightarrow> distinct (kid_refs ks) \<and> set (sub_refs ss) \<subseteq> set (kid_refs ks) \<and>
     (\<forall>x\<in>set (kid_refs ks). x \<in> set (sub_refs ss) \<or> ref_at w x = None \<and> (x \<in> taken res \<longrightarrow> x \<in> set (leaf_customs cs)))"

lemma leaf_customs_Cons:
  "leaf_customs (c # cs) = (if leaf c then own_of (fj_queue c) (fj_opts c) else []) @ leaf_customs cs"
  by (simp add: leaf_customs_def)

lemma free_refs_append: "free_refs w res (xs @ ys) \<longleftrightarrow> free_refs w res xs \<and> free_refs w res ys \<and> set xs \<inter> set ys = {}"
  by (auto simp: free_refs_def)

lemma child_nodes_built:
  assumes "child_nodes prefix res now p cs ss w = (w', Inr ks)" and "world_ok H w" and "list_all2 (sub_ok w) cs ss"
    and "distinct (sub_refs ss)" and "p \<notin> set (sub_refs ss)" and "ref_at w p \<noteq> None" and "free_refs w res (leaf_customs cs)"
  shows "world_ok H w' \<and> kids_done p cs w w' ks \<and> kids_new w res cs ss ks"
  using assms
proof (induction cs arbitrary: ss w ks)
  case Nil
  then show ?case by (simp add: retW_Inr kids_done_def kids_new_def option.map_id leaf_customs_def)
next
  case (Cons c cs)
  obtain s ss' where ss: "ss = s # ss'" and sk: "sub_ok w c s" and sks: "list_all2 (sub_ok w) cs ss'"
    using Cons.prems(3) by (auto simp: list_all2_Cons1)
  obtain w1 k ks' where k: "child_node prefix res now p c s w = (w1, Inr k)"
    and rest: "child_nodes prefix res now p cs ss' w1 = (w', Inr ks')" and ks: "ks = k # ks'"
    using Cons.prems(1) by (auto simp: ss step_Inr)
  have fr: "free_refs w res (leaf_customs cs)" "leaf c \<Longrightarrow> free_refs w res (own_of (fj_queue c) (fj_opts c))"
    "leaf c \<Longrightarrow> set (own_of (fj_queue c) (fj_opts c)) \<inter> set (leaf_customs cs) = {}"
    using Cons.prems(7) unfolding leaf_customs_Cons free_refs_append by (simp_all add: free_refs_def)
  have lf: "s = None \<Longrightarrow> leaf c" using sk by simp
  have d: "p \<notin> set (opt_refs s)" "distinct (opt_refs s)" "distinct (sub_refs ss')" "p \<notin> set (sub_refs ss')"
    "set (opt_refs s) \<inter> set (sub_refs ss') = {}"
    using Cons.prems(4,5) by (simp_all add: ss)
  note st = child_node_step [OF k Cons.prems(2) sk d(1,2) Cons.prems(6) fr(2) [OF lf]]
  note cd = st(2) [unfolded child_done_def]
  have frame: "x \<notin> set (refs k) \<Longrightarrow> x \<noteq> p \<Longrightarrow> ref_at w1 x = ref_at w x" for x using cd by blast
  have there: "ref_at w x \<noteq> None" if x: "x \<in> set (sub_refs ss')" for x
  proof -
    obtain s' where s': "s' \<in> set ss'" "x \<in> set (opt_refs s')" using x by (simp only: set_concat set_map) blast
    with list_all2_right [OF sks] show ?thesis using sub_ok_refs by blast
  qed
  have apart: "set (refs k) \<inter> set (sub_refs ss') = {}"
  proof (cases s)
    case None
    then show ?thesis using st(6) [OF None] there unfolding fresh_refs_def by (metis disjoint_iff)
  qed (use st(5) d(5) in simp)
  have "list_all2 (sub_ok w1) cs ss'"
  proof (rule list.rel_mono_strong [OF sks])
    fix c' s' assume s': "c' \<in> set cs" "s' \<in> set ss'" "sub_ok w c' s'"
    then have "set (opt_refs s') \<subseteq> set (sub_refs ss')" by (simp only: set_concat set_map) blast
    then show "sub_ok w1 c' s'" using apart d(4) by (intro sub_ok_cong [OF s'(3)] frame) blast+
  qed
  moreover have p1: "ref_at w1 p \<noteq> None" using cd Cons.prems(6) by simp
  moreover have "free_refs w1 res (leaf_customs cs)"
  proof -
    have "ref_at w1 x = None" if x: "x \<in> set (leaf_customs cs)" for x
    proof -
      have xn: "ref_at w x = None" "x \<in> taken res" using fr(1) x by (auto simp: free_refs_def)
      have "x \<notin> set (refs k)"
      proof (cases s)
        case None
        then show ?thesis using st(6) [OF None] fr(3) [OF lf [OF None]] xn x unfolding fresh_refs_def by blast
      next
        case (Some k0)
        then show ?thesis using st(5) sub_ok_refs [OF sk, of x] xn by auto
      qed
      moreover have "x \<noteq> p" using xn Cons.prems(6) by auto
      ultimately show ?thesis using frame xn by simp
    qed
    then show ?thesis using fr(1) by (simp add: free_refs_def)
  qed
  ultimately have ih: "world_ok H w'" "kids_done p cs w1 w' ks'" "kids_new w1 res cs ss' ks'"
    using Cons.IH [OF rest st(1) _ d(3,4)] by blast+
  have new: "x \<in> set (kid_refs ks') \<Longrightarrow> x \<notin> set (sub_refs ss') \<Longrightarrow> ref_at w1 x = None \<and> (x \<in> taken res \<longrightarrow> x \<in> set (leaf_customs cs))" for x
    using ih(3) unfolding kids_new_def by blast
  have bk: "x \<in> set (refs k) \<Longrightarrow> ref_at w1 x \<noteq> None" for x using cd built_refs by blast
  have dis: "set (refs k) \<inter> set (kid_refs ks') = {}" using bk new apart by blast
  have pk: "x \<in> set (refs k) \<Longrightarrow> ref_at w' x = ref_at w1 x" for x
    using ih(2) dis st(4) unfolding kids_done_def by blast
  have "built w' c k \<and> parent_is w' k p"
    using cd built_cong [of k w' w1 c] parent_is_cong [of w' k w1 p] pk node_ref_in by metis
  then have "list_all2 (\<lambda>c k. built w' c k \<and> parent_is w' k p) (c # cs) ks"
    using ih(2) by (simp add: kids_done_def ks)
  moreover have "ref_at w' p = map_option (fold add_kid ks) (ref_at w p)"
    using ih(2) cd by (simp add: kids_done_def ks option.map_comp)
  moreover have "x \<notin> set (kid_refs ks) \<Longrightarrow> x \<noteq> p \<Longrightarrow> ref_at w' x = ref_at w x" for x
    using ih(2) frame by (simp add: kids_done_def ks)
  ultimately have "kids_done p (c # cs) w w' ks" by (simp add: kids_done_def)
  moreover have "distinct (kid_refs ks)" using ih(3) st(3) dis by (simp add: kids_new_def ks)
  moreover have "set (sub_refs ss) \<subseteq> set (kid_refs ks)"
    using ih(3) st(5) by (cases s) (auto simp: kids_new_def ks ss)
  moreover have "x \<in> set (sub_refs ss) \<or> ref_at w x = None \<and> (x \<in> taken res \<longrightarrow> x \<in> set (leaf_customs (c # cs)))"
    if x: "x \<in> set (kid_refs ks)" for x
  proof (cases "x \<in> set (refs k)")
    case True
    show ?thesis
    proof (cases s)
      case None
      then show ?thesis using st(6) [OF None] lf True unfolding fresh_refs_def leaf_customs_Cons by auto
    qed (use st(5) True ss in simp)
  next
    case False
    then have x': "x \<in> set (kid_refs ks')" using x by (simp add: ks)
    show ?thesis
    proof (cases "x \<in> set (sub_refs ss')")
      case False
      with new [OF x'] p1 have "ref_at w1 x = None" "x \<noteq> p" "x \<in> taken res \<longrightarrow> x \<in> set (leaf_customs cs)" by auto
      then show ?thesis using frame [OF \<open>x \<notin> set (refs k)\<close>] by (simp add: leaf_customs_Cons)
    qed (simp add: ss)
  qed
  ultimately show ?case using ih(1) unfolding kids_new_def by blast
qed

end
