(* ===== verification/Tq_Flow_Props.thy ===== *)
theory Tq_Flow_Props
  imports Tq_Flow_Build Tq_Samples
begin

text \<open>
  A flow that \<open>add\<close> accepts becomes exactly the tree of jobs it describes: the induction over the tree,
  the checks that come before it, and the property of \<open>TestFlowProducer.add\<close>.
\<close>

section \<open>The dependencies of a parent\<close>

lemma jm_set_new: "k \<notin> fst ` set m \<Longrightarrow> jm_set k v m = m @ [(k, v)]"
  using jm_keys_set_new [of k m v] by simp

lemma split_at_brace:
  assumes "q @ CHR ''}'' # s = q' @ CHR ''}'' # s'" and "CHR ''}'' \<notin> set q" and "CHR ''}'' \<notin> set q'"
  shows "q = q' \<and> s = s'"
proof -
  have t: "takeWhile (\<lambda>c. c \<noteq> CHR ''}'') (x @ CHR ''}'' # y) = x" if "CHR ''}'' \<notin> set x" for x y
    using that by (induction x) auto
  have "q = q'" using t [OF assms(2), of s] t [OF assms(3), of s'] assms(1) by metis
  with assms(1) show ?thesis by simp
qed

definition plain_name :: "string \<Rightarrow> bool" where
  "plain_name q \<longleftrightarrow> CHR ''}'' \<notin> set q"

lemma valid_plain: "validateQueueName q = Inr () \<Longrightarrow> plain_name q"
  by (auto simp: validateQueueName_def plain_name_def bad_queue_name_char_def list_ex_iff split: if_splits)

lemma deps_member_inj:
  assumes "plain_name q" and "plain_name q'"
  shows "deps_member prefix q i = deps_member prefix q' i' \<longleftrightarrow> q = q' \<and> i = i'"
  using split_at_brace [of q "CHR '':'' # i" q' "CHR '':'' # i'"] assms by (auto simp: deps_member_def plain_name_def)

lemma fold_add_kid_sel:
  "j_name (fold add_kid ks j) = j_name j" "j_state (fold add_kid ks j) = j_state j" "j_depsPrefix (fold add_kid ks j) = j_depsPrefix j"
  by (induction ks arbitrary: j) (simp_all add: add_kid_def)

definition kid_entry :: "string \<Rightarrow> job_node \<Rightarrow> string \<times> parent_ref" where
  "kid_entry prefix k = (deps_member prefix (jn_queue k) (h_id (jn_job k)), node_ref k)"

lemma fold_add_kid_deps:
  assumes "j_depsPrefix j = Some prefix" and "\<forall>k\<in>set ks. plain_name (jn_queue k)" and "distinct (map node_ref ks)"
    and "fst ` set (j_deps j) \<inter> fst ` kid_entry prefix ` set ks = {}"
  shows "j_deps (fold add_kid ks j) = j_deps j @ map (kid_entry prefix) ks"
  using assms
proof (induction ks arbitrary: j)
  case (Cons k ks)
  have d: "j_deps (add_kid k j) = j_deps j @ [kid_entry prefix k]"
    using Cons.prems(1,4) by (simp add: add_kid_def add_dep_def kid_entry_def node_ref_def jm_set_new)
  have "fst (kid_entry prefix k') \<noteq> fst (kid_entry prefix k)" if k': "k' \<in> set ks" for k'
  proof -
    have "node_ref k' \<noteq> node_ref k" using Cons.prems(3) k' by (auto simp: image_iff)
    moreover have "plain_name (jn_queue k)" "plain_name (jn_queue k')" using Cons.prems(2) k' by simp_all
    ultimately show ?thesis using deps_member_inj by (auto simp: kid_entry_def node_ref_def)
  qed
  then have "fst (kid_entry prefix k) \<notin> fst ` kid_entry prefix ` set ks" by (metis imageE)
  then have "fst ` set (j_deps (add_kid k j)) \<inter> fst ` kid_entry prefix ` set ks = {}"
    using Cons.prems(4) by (simp add: d)
  moreover have "j_depsPrefix (add_kid k j) = Some prefix" using Cons.prems(1) by (simp add: add_kid_def)
  ultimately have "j_deps (fold add_kid ks (add_kid k j)) = j_deps (add_kid k j) @ map (kid_entry prefix) ks"
    using Cons.IH Cons.prems(2,3) by simp
  then show ?case by (simp add: d)
qed simp

lemma distinct_node_refs: "distinct (kid_refs ks) \<Longrightarrow> distinct (map node_ref ks)"
proof (induction ks)
  case (Cons k ks)
  have "node_ref k \<notin> set (map node_ref ks)"
  proof
    assume "node_ref k \<in> set (map node_ref ks)"
    then obtain k' where "k' \<in> set ks" "node_ref k = node_ref k'" by auto
    then have "node_ref k \<in> set (kid_refs ks)" using kid_subset [OF _ node_ref_in] by metis
    then show False using Cons.prems node_ref_in [of k] by auto
  qed
  then show ?case using Cons by simp
qed simp

lemma parent_record:
  assumes "flow_record n (flowInit prefix qn True res []) j" and "\<forall>k\<in>set ks. plain_name (jn_queue k)"
    and "distinct (kid_refs ks)" and "ks \<noteq> []"
  shows "record_of n ks (fold add_kid ks j)"
proof -
  have j: "j_depsPrefix j = Some prefix" "j_deps j = []" "j_name j = n" "j_state j = WaitingChildren"
    using assms(1) by (simp_all add: flow_record_def flowInit_def)
  have "map snd (j_deps (fold add_kid ks j)) = map node_ref ks"
    using fold_add_kid_deps [OF j(1) assms(2) distinct_node_refs [OF assms(3)]] j(2) by (simp add: kid_entry_def)
  then show ?thesis using j assms(4) by (simp add: record_of_def fold_add_kid_sel)
qed

section \<open>The induction\<close>

fun names_ok :: "flow_job \<Rightarrow> bool" where
  "names_ok (FlowJob n qn d o' cs) \<longleftrightarrow> plain_name qn \<and> (\<forall>c\<in>set cs. names_ok c)"

lemma names_ok_queue: "names_ok f \<Longrightarrow> plain_name (fj_queue f)"
  by (cases f) simp

definition tree_done :: "reserved \<Rightarrow> flow_job \<Rightarrow> world \<Rightarrow> world \<Rightarrow> job_node \<Rightarrow> bool" where
  "tree_done res f w w' k \<longleftrightarrow> built w' f k \<and> fresh_refs w res (custom_refs f) (refs k) \<and>
     (\<forall>x. x \<notin> set (refs k) \<longrightarrow> ref_at w' x = ref_at w x)"

definition subs_done :: "reserved \<Rightarrow> flow_job list \<Rightarrow> world \<Rightarrow> world \<Rightarrow> job_node option list \<Rightarrow> bool" where
  "subs_done res cs w w' ss \<longleftrightarrow> list_all2 (sub_ok w') cs ss \<and> fresh_refs w res (sub_customs cs) (sub_refs ss) \<and>
     (\<forall>x. x \<notin> set (sub_refs ss) \<longrightarrow> ref_at w' x = ref_at w x)"

text \<open>A node without children.\<close>

lemma leaf_done:
  assumes "newNode qn n d o' (flowInit prefix qn False res []) now w = (w', Inr h)" and "world_ok H w"
    and "free_refs w res (custom_refs (FlowJob n qn d o' []))"
  shows "world_ok H w' \<and> tree_done res (FlowJob n qn d o' []) w w' (JobNode qn h [])"
proof -
  note f = newNode_fresh [OF assms(1,2) assms(3) [simplified]]
  obtain j where j: "ref_at w' (ref qn (h_id h)) = Some j" "flow_record n (flowInit prefix qn False res []) j"
    using f(4) by blast
  have "record_of n [] j" using j(2) by (simp add: flow_record_def flowInit_def record_of_def)
  then have "built w' (FlowJob n qn d o' []) (JobNode qn h [])" using j(1) by simp
  moreover have "fresh_refs w res (custom_refs (FlowJob n qn d o' [])) [ref qn (h_id h)]"
    using f(2,3) by (simp add: fresh_refs_def)
  moreover have "x \<noteq> ref qn (h_id h) \<Longrightarrow> ref_at w' x = ref_at w x" for x using f(5) [of x] by simp
  ultimately show ?thesis using f(1) by (simp add: tree_done_def)
qed

text \<open>A node with children: its sub-flows are there, then it is created, then its children are linked.\<close>

lemma parent_done:
  assumes "subs_done res cs w w1 ss" and "world_ok H w1"
    and "newNode qn n d o' (flowInit prefix qn True res []) now w1 = (w2, Inr h)"
    and "child_nodes prefix res now (ref qn (h_id h)) cs ss w2 = (w3, Inr ks)"
    and "free_refs w res (custom_refs (FlowJob n qn d o' cs))" and "names_ok (FlowJob n qn d o' cs)" and "cs \<noteq> []"
  shows "world_ok H w3 \<and> tree_done res (FlowJob n qn d o' cs) w w3 (JobNode qn h ks)"
proof -
  let ?p = "ref qn (h_id h)" and ?f = "FlowJob n qn d o' cs"
  have fr: "free_refs w res (own_of qn o')" "free_refs w res (customs cs)" "set (own_of qn o') \<inter> set (customs cs) = {}"
    using assms(5) by (simp_all add: free_refs_append)
  have lc: "distinct (leaf_customs cs)" "set (sub_customs cs) \<inter> set (leaf_customs cs) = {}"
    using customs_distinct [of cs] fr(2) by (simp_all add: free_refs_def)
  have sd: "list_all2 (sub_ok w1) cs ss" "distinct (sub_refs ss)"
    "\<And>x. x \<in> set (sub_refs ss) \<Longrightarrow> ref_at w x = None \<and> (x \<in> taken res \<longrightarrow> x \<in> set (sub_customs cs))"
    "\<And>x. x \<notin> set (sub_refs ss) \<Longrightarrow> ref_at w1 x = ref_at w x"
    using assms(1) unfolding subs_done_def fresh_refs_def by blast+
  have own_sub: "x \<notin> set (sub_refs ss)" if "x \<in> set (own_of qn o')" for x
    using sd(3) [of x] that fr(1,3) unfolding free_refs_def customs_split by blast
  have own1: "free_refs w1 res (own_of qn o')"
    using fr(1) sd(4) own_sub by (simp add: free_refs_def)
  note nn = newNode_fresh [OF assms(3,2) own1]
  have same2: "x \<noteq> ?p \<Longrightarrow> ref_at w2 x = ref_at w1 x" for x using nn(5) [of x] by simp
  have there: "ref_at w1 x \<noteq> None" if x: "x \<in> set (sub_refs ss)" for x
  proof -
    obtain s' where s': "s' \<in> set ss" "x \<in> set (opt_refs s')" using x by (simp only: set_concat set_map) blast
    with list_all2_right [OF sd(1)] show ?thesis using sub_ok_refs by blast
  qed
  have pn: "?p \<notin> set (sub_refs ss)" using there nn(2) by blast
  have subs2: "list_all2 (sub_ok w2) cs ss"
  proof (rule list.rel_mono_strong [OF sd(1)])
    fix c' s' assume s': "c' \<in> set cs" "s' \<in> set ss" "sub_ok w1 c' s'"
    then have "set (opt_refs s') \<subseteq> set (sub_refs ss)" by (simp only: set_concat set_map) blast
    then show "sub_ok w2 c' s'" using pn by (intro sub_ok_cong [OF s'(3)] same2) blast
  qed
  have p2: "ref_at w2 ?p \<noteq> None" using nn(4) by auto
  have leaf2: "free_refs w2 res (leaf_customs cs)"
  proof -
    have "ref_at w2 x = None" if x: "x \<in> set (leaf_customs cs)" for x
    proof -
      have xn: "ref_at w x = None" "x \<in> taken res" "x \<notin> set (own_of qn o')"
        using fr(2,3) x unfolding free_refs_def customs_split by blast+
      have "x \<notin> set (sub_refs ss)" using sd(3) [of x] xn lc(2) x by blast
      then have "ref_at w1 x = None" using sd(4) xn by simp
      moreover have "x \<noteq> ?p" using nn(3) xn by blast
      ultimately show ?thesis using same2 by simp
    qed
    moreover have "set (leaf_customs cs) \<subseteq> taken res" using fr(2) unfolding free_refs_def customs_split by blast
    ultimately show ?thesis using lc(1) by (simp add: free_refs_def)
  qed
  from child_nodes_built [OF assms(4) nn(1) subs2 sd(2) pn p2 leaf2]
  have kd: "world_ok H w3" "kids_done ?p cs w2 w3 ks" "kids_new w2 res cs ss ks" by blast+
  note kd' = kd(2) [unfolded kids_done_def] and kn = kd(3) [unfolded kids_new_def]
  have all: "list_all2 (\<lambda>c k. built w3 c k \<and> parent_is w3 k ?p) cs ks" using kd' by blast
  have ne: "ks \<noteq> []" using list_all2_lengthD [OF all] assms(7) by auto
  have plain: "\<forall>k\<in>set ks. plain_name (jn_queue k)"
  proof
    fix k assume "k \<in> set ks"
    with list_all2_right [OF all] obtain c where "c \<in> set cs" "built w3 c k" by blast
    then show "plain_name (jn_queue k)" using assms(6) names_ok_queue built_queue by fastforce
  qed
  have kid: "x \<in> set (sub_refs ss) \<or> ref_at w2 x = None \<and> (x \<in> taken res \<longrightarrow> x \<in> set (leaf_customs cs))"
    if "x \<in> set (kid_refs ks)" for x using kn that by (elim conjE) (rule bspec)
  have pk: "?p \<notin> set (kid_refs ks)"
  proof
    assume "?p \<in> set (kid_refs ks)"
    from kid [OF this] show False using pn p2 by (elim disjE conjE) (erule notE, assumption)+
  qed
  obtain j where j: "ref_at w2 ?p = Some j" "flow_record n (flowInit prefix qn True res []) j" using nn(4) by blast
  have "record_of n ks (fold add_kid ks j)" using parent_record [OF j(2) plain _ ne] kn by blast
  moreover have "ref_at w3 ?p = Some (fold add_kid ks j)" using kd' j(1) by simp
  ultimately have "built w3 ?f (JobNode qn h ks)" using all unfolding built.simps by blast
  moreover have "fresh_refs w res (custom_refs ?f) (refs (JobNode qn h ks))"
  proof -
    have "ref_at w x = None \<and> (x \<in> taken res \<longrightarrow> x \<in> set (customs cs))" if x: "x \<in> set (kid_refs ks)" for x
    proof (cases "x \<in> set (sub_refs ss)")
      case False
      then have new: "ref_at w2 x = None" "x \<in> taken res \<longrightarrow> x \<in> set (leaf_customs cs)" using kid [OF x] by simp_all
      have "x \<noteq> ?p" using x pk by blast
      then have "ref_at w x = None" using new(1) same2 sd(4) [OF False] by simp
      with new(2) show ?thesis unfolding customs_split by blast
    next
      case True
      from sd(3) [OF True] show ?thesis unfolding customs_split by blast
    qed
    moreover have "ref_at w ?p = None" using nn(2) sd(4) [OF pn] by simp
    moreover have "distinct (?p # kid_refs ks)" using kn pk by simp
    moreover have "?p \<in> taken res \<longrightarrow> ?p \<in> set (custom_refs ?f)" using nn(3) by simp
    ultimately show ?thesis unfolding fresh_refs_def refs.simps custom_refs.simps set_append list.set by blast
  qed
  moreover have "ref_at w3 x = ref_at w x" if "x \<notin> set (refs (JobNode qn h ks))" for x
  proof -
    have x: "x \<noteq> ?p" "x \<notin> set (kid_refs ks)" using that by simp_all
    then have "x \<notin> set (sub_refs ss)" using kn by blast
    then show ?thesis using kd' x same2 [OF x(1)] sd(4) [of x] by simp
  qed
  ultimately show ?thesis using kd(1) by (simp only: tree_done_def simp_thms) blast
qed

lemma sub_customs_Cons: "sub_customs (c # cs) = (if leaf c then [] else custom_refs c) @ sub_customs cs"
  by (simp add: sub_customs_def)

lemma subs_step:
  assumes "s = None \<Longrightarrow> leaf c \<and> w1 = w" and "\<And>k. s = Some k \<Longrightarrow> \<not> leaf c \<and> tree_done res c w w1 k"
    and "free_refs w res (sub_customs (c # cs))"
    and "free_refs w1 res (sub_customs cs) \<Longrightarrow> world_ok H w2 \<and> subs_done res cs w1 w2 ss"
  shows "world_ok H w2 \<and> subs_done res (c # cs) w w2 (s # ss)"
proof -
  have frame: "x \<notin> set (opt_refs s) \<Longrightarrow> ref_at w1 x = ref_at w x" for x
    using assms(1) assms(2) by (cases s) (auto simp: tree_done_def)
  have ok1: "sub_ok w1 c s" using assms(1) assms(2) by (cases s) (auto simp: tree_done_def)
  have own: "fresh_refs w res (if leaf c then [] else custom_refs c) (opt_refs s)"
    using assms(1) assms(2) by (cases s) (auto simp: tree_done_def fresh_refs_def)
  have fr: "free_refs w res (sub_customs cs)" "set (if leaf c then [] else custom_refs c) \<inter> set (sub_customs cs) = {}"
    using assms(3) unfolding sub_customs_Cons free_refs_append by blast+
  have none: "x \<notin> set (opt_refs s)" if "x \<in> set (sub_customs cs)" for x
    using that own fr unfolding fresh_refs_def free_refs_def by blast
  then have "free_refs w1 res (sub_customs cs)" using fr(1) frame by (simp add: free_refs_def)
  from assms(4) [OF this] have rest: "world_ok H w2" "list_all2 (sub_ok w2) cs ss" "fresh_refs w1 res (sub_customs cs) (sub_refs ss)"
    "\<And>x. x \<notin> set (sub_refs ss) \<Longrightarrow> ref_at w2 x = ref_at w1 x"
    unfolding subs_done_def by blast+
  have dis: "x \<notin> set (sub_refs ss)" if "x \<in> set (opt_refs s)" for x
  proof
    assume "x \<in> set (sub_refs ss)"
    then have "ref_at w1 x = None" using rest(3) unfolding fresh_refs_def by blast
    with sub_ok_refs [OF ok1 that] show False by contradiction
  qed
  have "sub_ok w2 c s" by (rule sub_ok_cong [OF ok1]) (rule rest(4) [OF dis])
  then have all: "list_all2 (sub_ok w2) (c # cs) (s # ss)" using rest(2) by simp
  have each: "ref_at w x = None \<and> (x \<in> taken res \<longrightarrow> x \<in> set (sub_customs (c # cs)))"
    if x: "x \<in> set (sub_refs (s # ss))" for x
  proof (cases "x \<in> set (opt_refs s)")
    case True
    then have "ref_at w x = None \<and> (x \<in> taken res \<longrightarrow> x \<in> set (if leaf c then [] else custom_refs c))"
      using own unfolding fresh_refs_def by (elim conjE) (rule bspec)
    then show ?thesis unfolding sub_customs_Cons set_append by blast
  next
    case False
    then have "x \<in> set (sub_refs ss)" using x by simp
    then have "ref_at w1 x = None \<and> (x \<in> taken res \<longrightarrow> x \<in> set (sub_customs cs))"
      using rest(3) unfolding fresh_refs_def by (elim conjE) (rule bspec)
    then show ?thesis unfolding sub_customs_Cons set_append frame [OF False] by blast
  qed
  have "distinct (sub_refs (s # ss))"
    using own rest(3) dis by (auto simp: fresh_refs_def simp del: set_concat)
  then have "fresh_refs w res (sub_customs (c # cs)) (sub_refs (s # ss))" using each unfolding fresh_refs_def by blast
  moreover have "ref_at w2 x = ref_at w x" if "x \<notin> set (sub_refs (s # ss))" for x
    using that rest(4) [of x] frame [of x] by simp
  ultimately show ?thesis using all rest(1) unfolding subs_done_def by blast
qed

theorem tree_built:
  "buildTree prefix res now f w = (w', Inr k) \<Longrightarrow> world_ok H w \<Longrightarrow> free_refs w res (custom_refs f) \<Longrightarrow> names_ok f \<Longrightarrow>
     world_ok H w' \<and> tree_done res f w w' k"
  "buildSubs prefix res now cs w = (w', Inr ss) \<Longrightarrow> world_ok H w \<Longrightarrow> free_refs w res (sub_customs cs) \<Longrightarrow> (\<forall>c\<in>set cs. names_ok c) \<Longrightarrow>
     world_ok H w' \<and> subs_done res cs w w' ss"
proof (induction prefix res now f and prefix res now cs arbitrary: w w' k and w w' ss rule: buildTree_buildSubs.induct)
  case (1 prefix res now n qn d o' cs)
  show ?case
  proof (cases "cs = []")
    case True
    then obtain h where "newNode qn n d o' (flowInit prefix qn False res []) now w = (w', Inr h)" "k = JobNode qn h []"
      using 1(2) by (auto simp: step_Inr)
    then show ?thesis using leaf_done 1(3,4) True by blast
  next
    case False
    obtain w1 ss w2 h ks where s: "buildSubs prefix res now cs w = (w1, Inr ss)"
      and h: "newNode qn n d o' (flowInit prefix qn True res []) now w1 = (w2, Inr h)"
      and ks: "child_nodes prefix res now (ref qn (h_id h)) cs ss w2 = (w', Inr ks)" and k: "k = JobNode qn h ks"
      using 1(2) False by (auto simp: step_Inr)
    have "distinct (customs cs) \<and> free_refs w res (customs cs)" using 1(4) by (simp add: free_refs_def)
    then have "free_refs w res (sub_customs cs)" using customs_distinct [of cs] unfolding free_refs_def customs_split by blast
    then have "world_ok H w1 \<and> subs_done res cs w w1 ss" using 1(1) [OF False s 1(3)] 1(5) by simp
    then show ?thesis using parent_done [OF _ _ h ks 1(4,5) False] k by blast
  qed
next
  case (2 prefix res now)
  then show ?case by (simp add: retW_Inr subs_done_def fresh_refs_def)
next
  case (3 prefix res now c cs)
  obtain s w1 ss' where s: "(if leaf c then retW None else bindW (buildTree prefix res now c) (\<lambda>k. retW (Some k))) w = (w1, Inr s)"
    and rest: "buildSubs prefix res now cs w1 = (w', Inr ss')" and ss: "ss = s # ss'"
    using 3(3) by (auto simp: bindW_Inr retW_Inr)
  have none: "s = None \<Longrightarrow> leaf c \<and> w1 = w" using s by (auto simp: step_Inr split: if_splits)
  have names: "names_ok c" "\<forall>c\<in>set cs. names_ok c" using 3(6) by simp_all
  have tree: "\<not> leaf c \<and> world_ok H w1 \<and> tree_done res c w w1 k" if k: "s = Some k" for k
  proof -
    have nl: "\<not> leaf c" and b: "buildTree prefix res now c w = (w1, Inr k)" using s k by (auto simp: step_Inr split: if_splits)
    have "free_refs w res (custom_refs c)" using 3(5) nl unfolding sub_customs_Cons by (simp add: free_refs_append)
    then show ?thesis using 3(1) [OF nl b 3(4) _ names(1)] nl by blast
  qed
  have ok1: "world_ok H w1" using none tree 3(4) by (cases s) auto
  show ?case unfolding ss
    by (rule subs_step [OF none _ 3(5)]) (use tree 3(2) [OF rest ok1 _ names(2)] in blast)+
qed

section \<open>The checks before it\<close>

lemma taken_set: "taken (jm_set qn ids res) = {p. pr_id p \<in> set (if pr_queue p = qn then ids else or_else (jm_get res (pr_queue p)) [])}"
  by (auto simp: taken_def js_map_simps)

lemma reserve_id_taken:
  assumes "reserve_id qn (customJobId (flow_opts o')) res = Inr res'"
  shows "taken res' = taken res \<union> set (own_of qn o') \<and> taken res \<inter> set (own_of qn o') = {} \<and> distinct (own_of qn o')"
proof (cases "customJobId (flow_opts o') = []")
  case True
  then show ?thesis using assms by (simp add: reserve_id_def own_of_def)
next
  case False
  then have i: "customJobId (flow_opts o') \<notin> set (or_else (jm_get res qn) [])"
    "res' = jm_set qn (js_add (customJobId (flow_opts o')) (or_else (jm_get res qn) [])) res"
    using assms by (auto simp: reserve_id_def Let_def split: if_splits)
  have "taken res' = insert (ref qn (customJobId (flow_opts o'))) (taken res)"
    unfolding i(2) taken_set by (auto simp: taken_def)
  then show ?thesis using False i(1) by (auto simp: own_of_def taken_def)
qed

lemma map_sum_Inr: "map_sum f id x = Inr y \<longleftrightarrow> x = Inr y"
  by (cases x) auto

lemma checkJob_ok:
  assumes "checkJob qn d o' res w = (w', Inr res')"
  shows "w' = w" and "plain_name qn" and "reserve_id qn (customJobId (flow_opts o')) res = Inr res'"
    and "\<forall>p\<in>set (own_of qn o'). ref_at w p = None"
proof -
  obtain u q v where v: "validateQueueName qn = Inr u" and q: "jm_get w qn = Some q"
    and c: "checkFlowJob d (flow_opts o') q = Inr v" and r: "reserve_id qn (customJobId (flow_opts o')) res = Inr res'"
    and w: "w' = w"
    using assms unfolding checkJob_def step_Inr by (auto simp: map_sum_Inr)
  show "w' = w" by (rule w)
  show "plain_name qn" using v by (intro valid_plain) simp
  show "reserve_id qn (customJobId (flow_opts o')) res = Inr res'" by (rule r)
  have "customJobId (flow_opts o') = [] \<or> \<not> jm_has (q_jobs q) (customJobId (flow_opts o'))"
    using c by (auto simp: checkFlowJob_def andThen_Inr_iff ensure_def split: option.splits if_splits)
  then show "\<forall>p\<in>set (own_of qn o'). ref_at w p = None"
    by (auto simp: own_of_def rec_at_queue [OF q] lookup_def jm_has_get)
qed

definition checked :: "world \<Rightarrow> parent_ref list \<Rightarrow> reserved \<Rightarrow> reserved \<Rightarrow> bool" where
  "checked w cs res res' \<longleftrightarrow> taken res' = taken res \<union> set cs \<and> taken res \<inter> set cs = {} \<and> distinct cs \<and>
     (\<forall>p\<in>set cs. ref_at w p = None)"

lemma checked_append: "checked w xs res res1 \<Longrightarrow> checked w ys res1 res2 \<Longrightarrow> checked w (xs @ ys) res res2"
  unfolding checked_def by auto

lemma checkTree_ok:
  "checkTree f res w = (w', Inr res') \<Longrightarrow> w' = w \<and> names_ok f \<and> checked w (custom_refs f) res res'"
  "checkTrees cs res w = (w', Inr res') \<Longrightarrow> w' = w \<and> (\<forall>c\<in>set cs. names_ok c) \<and> checked w (customs cs) res res'"
proof (induction f res and cs res arbitrary: w w' res' and w w' res' rule: checkTree_checkTrees.induct)
  case (1 n qn d o' cs res)
  obtain w1 res1 where a: "checkJob qn d o' res w = (w1, Inr res1)" and b: "checkTrees cs res1 w1 = (w', Inr res')"
    using 1(2) by (auto simp: bindW_Inr)
  note j = checkJob_ok [OF a]
  have "checked w (own_of qn o') res res1" using reserve_id_taken [OF j(3)] j(4) by (simp add: checked_def)
  then show ?case using 1(1) [OF b] j(1,2) checked_append by auto
next
  case (2 res)
  then show ?case by (simp add: retW_Inr checked_def)
next
  case (3 c cs res)
  obtain w1 res1 where a: "checkTree c res w = (w1, Inr res1)" and b: "checkTrees cs res1 w1 = (w', Inr res')"
    using 3(3) by (auto simp: bindW_Inr)
  show ?case using 3(1) [OF a] 3(2) [OF b] checked_append by auto
qed

section \<open>A flow that is accepted\<close>

text \<open>A flow of default jobs in one queue whose next ids are free is accepted.\<close>

definition ready :: "nat \<Rightarrow> tq \<Rightarrow> bool" where
  "ready c q \<longleftrightarrow> q_serializer q = plain_serializer \<and> q_idCounter q = c \<and> (\<forall>k>c. lookup q (show_nat k) = None)"

lemma place_record_fields:
  "q_serializer (place_record r d p now q) = q_serializer q" "q_idCounter (place_record r d p now q) = q_idCounter q"
  "q_jobs (place_record r d p now q) = q_jobs q"
  by (simp_all add: place_record_def parkDelayed_def schedulePromotion_def clearPromotion_def enqueuePrioritized_def
      enqueueWaiting_def push_waiting_def dequeueRecord_def set_state_def upd_def emit_def state_of_def Let_def)

lemma insert_flow_job_ready:
  assumes "q_serializer q = plain_serializer" "q_idCounter q = Suc c" "\<forall>k>c. lookup q (show_nat k) = None"
  shows "\<exists>q'. insert_flow_job name d o' fl (show_nat (Suc c)) now links q = (q', Inr (q_next q)) \<and> ready (Suc c) q'"
  using assms
  by (auto simp: insert_flow_job_def insertRecord_def plain_serializer_def Let_def ready_def place_record_fields emit_def
      store_record_def lookup_def js_map_simps show_nat_inj simp del: map_of_eq_Some_iff)

definition ready_in :: "string \<Rightarrow> nat \<Rightarrow> world \<Rightarrow> bool" where
  "ready_in n c w \<longleftrightarrow> (\<exists>q. jm_get w n = Some q \<and> ready c q)"

lemma registerDependency_fields:
  "q_serializer (registerDependency p cq i q) = q_serializer q" "q_idCounter (registerDependency p cq i q) = q_idCounter q"
  by (simp_all add: registerDependency_def upd_def split: option.split)

lemma links_fields:
  assumes "jm_get w n = Some q" and "\<forall>p\<in>set ps. pr_queue p = n"
  shows "\<exists>q'. jm_get (fold (link_one cq i) ps w) n = Some q' \<and> q_serializer q' = q_serializer q \<and> q_idCounter q' = q_idCounter q \<and>
    (\<forall>k. lookup q' k = lookup q k)"
  using assms
proof (induction ps arbitrary: w q)
  case (Cons p ps)
  have "jm_get (link_one cq i p w) n = Some (registerDependency (pr_id p) cq i q)"
    using Cons.prems by (simp add: link_one_def with_queue_def js_map_simps del: map_of_eq_Some_iff)
  from Cons.IH [OF this] Cons.prems(2) show ?case by (simp add: registerDependency_fields)
qed simp

lemma newNode_ready:
  assumes "ready_in n c w" and "\<forall>p\<in>set ps. pr_queue p = n"
  shows "\<exists>w' h. newNode n name d None (flowInit prefix n wait [] ps) now w = (w', Inr h) \<and> ready_in n (Suc c) w'"
proof -
  let ?fl = "flowInit prefix n wait [] ps"
  obtain q where q: "jm_get w n = Some q" and r: "ready c q" using assms(1) by (auto simp: ready_in_def)
  let ?o = "q_nextOpts q" and ?q1 = "fst (alloc_opts default_opts q)"
  let ?w1 = "jm_set n ?q1 w" and ?i = "show_nat (Suc c)"
  have a: "store_opts n (flow_opts None) w = (?w1, Inr ?o)"
    using q by (simp add: store_opts_def run_on_def alloc_opts_def flow_opts_def)
  have r1: "q_opts ?q1 ?o = default_opts" "q_serializer ?q1 = plain_serializer" "q_idCounter ?q1 = c"
    "lookup ?q1 k = lookup q k" for k using r by (simp_all add: alloc_opts_def ready_def lookup_def)
  let ?w2 = "jm_set n (?q1\<lparr>q_idCounter := Suc c\<rparr>) ?w1"
  have free: "\<not> (jm_has (q_jobs ?q1) ?i \<or> ?i \<in> set (fi_reserved ?fl))"
    using r r1(4) by (simp add: jm_has_def ready_def lookup_def flowInit_def)
  have id: "flow_job_id default_opts ?fl ?q1 = (?q1\<lparr>q_idCounter := Suc c\<rparr>, Inr ?i)"
    using next_id_free [of 1000 "\<lambda>i. jm_has (q_jobs ?q1) i \<or> i \<in> set (fi_reserved ?fl)" "Suc c", OF _ free]
    by (simp add: flow_job_id_def customJobId_def generateJobId_def r1(3))
  then have b: "run_on n (\<lambda>q. flow_job_id (q_opts q ?o) ?fl q) ?w1 = (?w2, Inr ?i)"
    by (simp add: run_on_def js_map_simps r1(1) del: map_of_eq_Some_iff)
  have q2: "jm_get ?w2 n = Some (?q1\<lparr>q_idCounter := Suc c\<rparr>)" by (simp add: js_map_simps del: map_of_eq_Some_iff)
  have ps: "fi_parents ?fl = ps" by (simp add: flowInit_def)
  obtain q3 where q3: "jm_get (fold (link_one n ?i) ps ?w2) n = Some q3" "q_serializer q3 = plain_serializer" "q_idCounter q3 = Suc c"
    "\<forall>k. lookup q3 k = lookup q k"
    using links_fields [OF q2 assms(2), of n ?i] r1 by (auto simp: lookup_def)
  have "\<forall>k>c. lookup q3 (show_nat k) = None" using q3(4) r by (simp add: ready_def)
  from insert_flow_job_ready [OF q3(2,3) this] obtain q4 where
    q4: "insert_flow_job name d ?o ?fl ?i now (parent_links ps) q3 = (q4, Inr (q_next q3))" "ready (Suc c) q4" by blast
  have l: "linkToParents n ?i ps ?w2 = (fold (link_one n ?i) ps ?w2, parent_links ps)"
    unfolding linkToParents_fold [symmetric] by (simp add: linkToParents_def)
  have "addFlowJob n name d ?o ?fl now ?w1 = (jm_set n q4 (fold (link_one n ?i) ps ?w2), Inr (q_next q3))"
    unfolding addFlowJob_def b ps using q3(1) q4(1) by (simp only: l prod.case sum.case) (simp add: run_on_def)
  then have "\<exists>w' h. newNode n name d None ?fl now w = (w', Inr h) \<and> jm_get w' n = Some q4"
    using q a by (simp add: newNode_def bindW_def queueOf_def liftW_def handle_of_def run_on_def js_map_simps del: map_of_eq_Some_iff)
  then show ?thesis using q4(2) unfolding ready_in_def by blast
qed

text \<open>A root with two leaves.\<close>

definition sample_flow :: flow_job where
  "sample_flow = FlowJob ''root'' ''q'' JNull None [FlowJob ''leaf'' ''q'' JNull None [], FlowJob ''last'' ''q'' JNull None []]"

lemma sample_flow_checked: "checkTree sample_flow [] [(''q'', sample_queue ''q'')] = ([(''q'', sample_queue ''q'')], Inr [])"
  by (simp add: sample_flow_def retW_def checkJob_def bindW_def queueOf_def checkFlowJob_def flow_opts_def plain_serializer_def
      customJobId_def reserve_id_def validateQueueName_def bad_queue_name_char_def)

lemma sample_flow_added: "\<exists>w' k. add_flow (new_TestFlowProducer None) sample_flow 0 [(''q'', sample_queue ''q'')] = (w', Inr k)"
proof -
  let ?w = "[(''q'', sample_queue ''q'')]"
  have r0: "ready_in ''q'' 0 ?w" by (simp add: ready_in_def ready_def)
  obtain w1 h1 where n1: "newNode ''q'' ''root'' JNull None (flowInit ''glide'' ''q'' True [] []) 0 ?w = (w1, Inr h1)" "ready_in ''q'' 1 w1"
    using newNode_ready [OF r0, of "[]" "''root''" JNull "''glide''" True 0] by auto
  let ?p = "ref ''q'' (h_id h1)"
  obtain w2 h2 where n2: "newNode ''q'' ''leaf'' JNull None (flowInit ''glide'' ''q'' False [] [?p]) 0 w1 = (w2, Inr h2)" "ready_in ''q'' 2 w2"
    using newNode_ready [OF n1(2), of "[?p]" "''leaf''" JNull "''glide''" False 0] by (auto simp: numeral_2_eq_2)
  obtain w3 h3 where n3: "newNode ''q'' ''last'' JNull None (flowInit ''glide'' ''q'' False [] [?p]) 0 w2 = (w3, Inr h3)"
    using newNode_ready [OF n2(2), of "[?p]" "''last''" JNull "''glide''" False 0] by auto
  have c: "checkTree sample_flow [] ?w = (?w, Inr [])" by (rule sample_flow_checked)
  have "\<exists>w' k. buildTree ''glide'' [] 0 sample_flow ?w = (w', Inr k)"
    by (simp add: sample_flow_def bindW_def retW_def queueOf_def child_node_def n1(1) n2(1) n3)
  then show ?thesis
    by (simp add: add_flow_def assertOpen_def new_TestFlowProducer_def bindW_def c)
qed

lemma sample_world_ok: "world_ok (\<lambda>_. {}) [(''q'', sample_queue ''q'')]"
proof -
  have q: "qok {} (sample_queue ''q'')"
    unfolding sample_queue_def by (rule qok_alloc [OF prod.collapse [symmetric] qok_new_TestQueue])
  then show ?thesis by (auto simp: world_ok_def split: if_splits)
qed

section \<open>Adding a flow\<close>

text \<open>
  C9: a flow that \<open>TestFlowProducer.add\<close> accepts becomes exactly its tree: every node has a new record
  with the node's name in the node's queue, a node with children is in \<open>waiting-children\<close> and waits for
  exactly them, every child names its parent, the nodes are all distinct, and no other record changes.
\<close>

theorem flow_becomes_tree:
  assumes "add_flow p f now w = (w', Inr k)" and "world_ok H w"
  shows "built w' f k \<and> distinct (refs k) \<and> world_ok H w' \<and>
    (\<forall>x. if x \<in> set (refs k) then ref_at w x = None else ref_at w' x = ref_at w x)"
proof -
  obtain w1 res where c: "checkTree f [] w = (w1, Inr res)" and b: "buildTree (fp_prefix p) res now f w1 = (w', Inr k)"
    using assms(1) by (auto simp: add_flow_def bindW_Inr assertOpen_def)
  have ok: "w1 = w" "names_ok f" "checked w (custom_refs f) [] res" using checkTree_ok(1) [OF c] by blast+
  then have "free_refs w res (custom_refs f)" by (simp add: checked_def free_refs_def)
  from tree_built(1) [OF b [unfolded ok(1)] assms(2) this ok(2)]
  show ?thesis unfolding tree_done_def fresh_refs_def by (intro conjI allI) (elim conjE, assumption | auto)+
qed

lemma flow_becomes_tree_witness:
  "\<exists>w' k. add_flow (new_TestFlowProducer None) sample_flow 0 [(''q'', sample_queue ''q'')] = (w', Inr k) \<and>
     built w' sample_flow k \<and> distinct (refs k)"
proof -
  from sample_flow_added sample_world_ok show ?thesis using flow_becomes_tree by blast
qed

end
