(* ===== verification/Tq_Flow_Dag.thy ===== *)
theory Tq_Flow_Dag
  imports Tq_Flow_Props
begin

text \<open>
  \<open>TestFlowProducer.addDAG\<close>: the nodes are created in an order in which every node comes after the ones
  that wait for it, and the records that come out are linked as the \<open>deps\<close> of the nodes say.
\<close>

section \<open>The order of creation\<close>

abbreviation ndeps :: "flow_node \<Rightarrow> string list" where
  "ndeps n \<equiv> deps (bare n)"

lemma bare_name [simp]: "node_name (bare n) = node_name n"
  by (simp add: bare_def dag_node.truncate_def)

lemma named_in:
  assumes "distinct (map node_name nodes)" and "n \<in> set nodes"
  shows "named nodes (node_name n) = n"
proof -
  obtain xs ys where s: "nodes = xs @ n # ys" using assms(2) by (meson split_list)
  then have "filter (\<lambda>m. node_name m = node_name n) xs = []" using assms(1) by (simp add: filter_empty_conv) (metis image_eqI)
  then show ?thesis by (simp add: named_def s)
qed

definition creation_order :: "flow_node list \<Rightarrow> dag_node list \<Rightarrow> flow_node list" where
  "creation_order nodes order = map (\<lambda>n. named nodes (node_name n)) (rev order)"

definition dependents_first :: "flow_node list \<Rightarrow> flow_node list \<Rightarrow> bool" where
  "dependents_first nodes ns \<longleftrightarrow> (\<forall>xs n ys. ns = xs @ n # ys \<longrightarrow> set (dependents_of nodes (node_name n)) \<subseteq> set xs)"

lemma creation_order_ok:
  assumes "topoSort (map bare nodes) = Inr order"
  shows "distinct (map node_name nodes)" and "set (creation_order nodes order) = set nodes"
    and "distinct (creation_order nodes order)" and "dependents_first nodes (creation_order nodes order)"
proof -
  let ?ns = "creation_order nodes order"
  have wn: "well_named (map bare nodes)" using assms by (auto simp: topoSort_def andThen_Inr_iff buildGraph_Inr(1) [symmetric])
  then show dn: "distinct (map node_name nodes)" by (simp add: well_named_def comp_def)
  note t = topoSort_sorted [OF assms]
  have "set order = set (map bare nodes)" using t by (intro mset_eq_setD) (rule conjunct1)
  then have set_order: "set order = bare ` set nodes" by simp
  have same: "bare (named nodes (node_name m)) = m" if "m \<in> set order" for m
    using that named_in [OF dn] by (auto simp: set_order)
  have ord: "order = map bare (rev ?ns)" using same by (simp add: creation_order_def rev_map map_idI)
  have "?ns = map (named nodes) (map node_name (rev order))" by (simp add: creation_order_def)
  have img: "set ?ns = (\<lambda>m. named nodes (node_name m)) ` bare ` set nodes" by (simp add: creation_order_def set_order)
  show s: "set ?ns = set nodes" unfolding img using named_in [OF dn] by (force simp: image_image)
  have dnames: "distinct (map node_name ?ns)"
  proof -
    have "mset order = mset (map bare nodes)" using t by (rule conjunct1)
    then have "mset (map node_name order) = mset (map node_name (map bare nodes))" by (simp only: mset_map)
    moreover have "map node_name order = rev (map node_name ?ns)" by (subst ord) (simp add: rev_map)
    ultimately have "mset (map node_name ?ns) = mset (map node_name nodes)" by (simp add: comp_def)
    then show ?thesis using dn by (metis mset_eq_imp_distinct_iff)
  qed
  then show dist: "distinct ?ns" by (simp only: distinct_map)
  show "dependents_first nodes ?ns"
  proof (unfold dependents_first_def, intro allI impI subsetI)
    fix xs n ys d assume ns: "?ns = xs @ n # ys" and "d \<in> set (dependents_of nodes (node_name n))"
    then have d: "d \<in> set nodes" "node_name n \<in> set (ndeps d)" by (auto simp: dependents_of_def)
    have "d \<in> set ?ns" using d(1) s by simp
    moreover have "d \<noteq> n" using wn d by (auto simp: well_named_def)
    moreover have "d \<notin> set ys"
    proof
      assume "d \<in> set ys"
      then obtain y1 y2 where "ys = y1 @ d # y2" by (meson split_list)
      then have "order = map bare (rev y2) @ bare d # map bare (rev y1 @ n # rev xs)" by (subst ord) (simp add: ns)
      with t have "set (ndeps d) \<subseteq> node_name ` set (map bare (rev y2))" by blast
      then have "node_name n \<in> node_name ` set y2" using d(2) by (auto simp: image_image)
      then show False using dnames unfolding ns \<open>ys = y1 @ d # y2\<close> by auto
    qed
    ultimately show "d \<in> set xs" using ns by auto
  qed
qed

section \<open>The records of the nodes\<close>

definition made :: "(string, test_job) jsmap \<Rightarrow> flow_node \<Rightarrow> parent_ref" where
  "made jobs n = ref (fn_queue n) (case jm_get jobs (node_name n) of Some h \<Rightarrow> h_id h | None \<Rightarrow> [])"

lemma node_parents_made: "node_parents nodes jobs n = map (made jobs) (dependents_of nodes (node_name n))"
  by (simp add: node_parents_def made_def)

text \<open>The parents a record names: the first one in its own fields, all of them when there are several.\<close>

definition linked_to :: "parent_ref list \<Rightarrow> job \<Rightarrow> bool" where
  "linked_to ps j \<longleftrightarrow> j_parentId j = (case ps of [] \<Rightarrow> None | p # _ \<Rightarrow> Some (pr_id p)) \<and>
     j_parentQueue j = (case ps of [] \<Rightarrow> None | p # _ \<Rightarrow> Some (pr_queue p)) \<and>
     j_parents j = (if tl ps = [] then [] else ps)"

definition dep_entry :: "string \<Rightarrow> (string, test_job) jsmap \<Rightarrow> flow_node \<Rightarrow> string \<times> parent_ref" where
  "dep_entry prefix jobs e = (deps_member prefix (pr_queue (made jobs e)) (pr_id (made jobs e)), made jobs e)"

definition waits_on :: "flow_node list \<Rightarrow> flow_node \<Rightarrow> flow_node list" where
  "waits_on ds n = filter (\<lambda>e. node_name e \<in> set (ndeps n)) ds"

definition node_rec :: "string \<Rightarrow> flow_node list \<Rightarrow> flow_node list \<Rightarrow> (string, test_job) jsmap \<Rightarrow> flow_node \<Rightarrow> job \<Rightarrow> bool" where
  "node_rec prefix nodes ds jobs n j \<longleftrightarrow> j_name j = node_name n \<and> (j_state j = WaitingChildren \<longleftrightarrow> ndeps n \<noteq> []) \<and>
     j_depsPrefix j = Some prefix \<and> j_deps j = map (dep_entry prefix jobs) (waits_on ds n) \<and>
     linked_to (map (made jobs) (dependents_of nodes (node_name n))) j"

definition node_done where
  "node_done prefix nodes ds jobs w n \<longleftrightarrow> (\<exists>j. ref_at w (made jobs n) = Some j \<and> node_rec prefix nodes ds jobs n j)"

text \<open>The invariant of the loop, with the nodes \<open>ds\<close> created so far.\<close>

definition dag_new :: "reserved \<Rightarrow> world \<Rightarrow> flow_node list \<Rightarrow> (string, test_job) jsmap \<Rightarrow> bool" where
  "dag_new res w0 ds jobs \<longleftrightarrow> inj_on (made jobs) (set ds) \<and> (\<forall>n\<in>set ds. ref_at w0 (made jobs n) = None \<and>
     (made jobs n \<in> taken res \<longrightarrow> made jobs n \<in> set (own_of (fn_queue n) (fn_opts n))))"

definition dag_inv where
  "dag_inv prefix res nodes w0 ds jobs w \<longleftrightarrow> dag_new res w0 ds jobs \<and> (\<forall>n\<in>set ds. node_done prefix nodes ds jobs w n) \<and>
     (\<forall>x. x \<notin> made jobs ` set ds \<longrightarrow> ref_at w x = ref_at w0 x)"

text \<open>What the checks establish about the nodes.\<close>

definition dag_ok :: "reserved \<Rightarrow> world \<Rightarrow> flow_node list \<Rightarrow> bool" where
  "dag_ok res w0 nodes \<longleftrightarrow> distinct (map node_name nodes) \<and> (\<forall>n\<in>set nodes. plain_name (fn_queue n)) \<and>
     (\<forall>n\<in>set nodes. free_refs w0 res (own_of (fn_queue n) (fn_opts n))) \<and>
     (\<forall>n\<in>set nodes. \<forall>m\<in>set nodes. n \<noteq> m \<longrightarrow> set (own_of (fn_queue n) (fn_opts n)) \<inter> set (own_of (fn_queue m) (fn_opts m)) = {})"

lemma names_inj: "dag_ok res w0 nodes \<Longrightarrow> n \<in> set nodes \<Longrightarrow> m \<in> set nodes \<Longrightarrow> node_name n = node_name m \<Longrightarrow> n = m"
  unfolding dag_ok_def distinct_map inj_on_def by blast

lemma made_set: "made (jm_set (node_name m) h jobs) n = (if node_name n = node_name m then ref (fn_queue n) (h_id h) else made jobs n)"
  by (simp add: made_def js_map_simps del: map_of_eq_Some_iff)

lemma made_queue: "pr_queue (made jobs n) = fn_queue n"
  by (simp add: made_def)

lemma linked_to_add_dep [simp]: "linked_to ps (add_dep q i j) = linked_to ps j"
  by (simp add: linked_to_def add_dep_def)

text \<open>A node that waits for the new one gets it as its next dependency.\<close>

lemma add_dep_entry:
  assumes "node_rec prefix nodes ds jobs n j" and "plain_name (pr_queue x)" and "\<forall>e\<in>set ds. plain_name (fn_queue e) \<and> made jobs e \<noteq> x"
  shows "j_deps (add_dep (pr_queue x) (pr_id x) j) = j_deps j @ [(deps_member prefix (pr_queue x) (pr_id x), x)]"
proof -
  have "deps_member prefix (pr_queue x) (pr_id x) \<noteq> fst (dep_entry prefix jobs e)" if "e \<in> set ds" for e
  proof -
    have "made jobs e \<noteq> x" "plain_name (pr_queue (made jobs e))" using assms(3) that by (simp_all add: made_queue)
    then show ?thesis using deps_member_inj [OF assms(2), of "pr_queue (made jobs e)" prefix "pr_id x" "pr_id (made jobs e)"]
      by (auto simp: dep_entry_def)
  qed
  moreover have "fst ` set (j_deps j) = (\<lambda>e. fst (dep_entry prefix jobs e)) ` set (waits_on ds n)" "set (waits_on ds n) \<subseteq> set ds"
    using assms(1) by (simp_all add: node_rec_def image_image waits_on_def)
  ultimately have "deps_member prefix (pr_queue x) (pr_id x) \<notin> fst ` set (j_deps j)" by blast
  then show ?thesis using assms(1) by (cases x) (simp add: add_dep_def node_rec_def jm_set_new)
qed

section \<open>One more node\<close>

text \<open>The new node \<open>m\<close> comes after all that wait for it, and before all it waits for.\<close>

definition next_node :: "flow_node list \<Rightarrow> flow_node list \<Rightarrow> flow_node \<Rightarrow> bool" where
  "next_node nodes ds m \<longleftrightarrow> m \<in> set nodes \<and> set ds \<subseteq> set nodes \<and> m \<notin> set ds \<and>
     (\<forall>n\<in>set (ds @ [m]). set (dependents_of nodes (node_name n)) \<subseteq> set ds) \<and> waits_on (ds @ [m]) m = []"

lemma dag_step:
  assumes "dag_inv prefix res nodes w0 ds jobs w" and "dag_ok res w0 nodes" and "next_node nodes ds m" and "world_ok H w"
    and "add_node prefix res now nodes m jobs w = (w', Inr jobs')"
  shows "world_ok H w' \<and> dag_inv prefix res nodes w0 (ds @ [m]) jobs' w'"
proof -
  let ?ps = "node_parents nodes jobs m"
  obtain h where nn: "newNode (fn_queue m) (node_name m) (fn_data m) (fn_opts m)
      (flowInit prefix (fn_queue m) (ndeps m \<noteq> []) res ?ps) now w = (w', Inr h)"
    and jobs': "jobs' = jm_set (node_name m) h jobs"
    using assms(5) by (auto simp: add_node_def step_Inr)
  let ?x = "ref (fn_queue m) (h_id h)"
  have mem: "m \<in> set nodes" "set ds \<subseteq> set nodes" "m \<notin> set ds" "set (dependents_of nodes (node_name m)) \<subseteq> set ds"
    "\<And>n. n \<in> set (ds @ [m]) \<Longrightarrow> set (dependents_of nodes (node_name n)) \<subseteq> set ds" "waits_on (ds @ [m]) m = []"
    using assms(3) unfolding next_node_def by (blast, blast, blast, simp, blast, blast)
  have dn: "dag_new res w0 ds jobs" and old: "n \<in> set ds \<Longrightarrow> node_done prefix nodes ds jobs w n"
    and fr: "x \<notin> made jobs ` set ds \<Longrightarrow> ref_at w x = ref_at w0 x" for n x
    using assms(1) unfolding dag_inv_def by blast+
  have other: "node_name n \<noteq> node_name m" if "n \<in> set ds" for n
    using names_inj [OF assms(2)] mem that by blast
  have made': "n \<in> set ds \<Longrightarrow> made jobs' n = made jobs n" "made jobs' m = ?x" for n
    using other by (simp_all add: jobs' made_set)
  have own: "free_refs w res (own_of (fn_queue m) (fn_opts m))"
  proof -
    have f: "free_refs w0 res (own_of (fn_queue m) (fn_opts m))" using assms(2) mem(1) by (simp add: dag_ok_def)
    have "x \<notin> made jobs ` set ds" if x: "x \<in> set (own_of (fn_queue m) (fn_opts m))" for x
    proof
      assume "x \<in> made jobs ` set ds"
      then obtain n where n: "n \<in> set ds" "x = made jobs n" by blast
      have "x \<in> taken res" using f x by (auto simp: free_refs_def)
      then have "x \<in> set (own_of (fn_queue n) (fn_opts n))" using dn n by (simp add: dag_new_def)
      moreover have "n \<noteq> m" "n \<in> set nodes" using n mem by blast+
      ultimately show False using assms(2) mem(1) x unfolding dag_ok_def by blast
    qed
    then show ?thesis using f fr by (simp add: free_refs_def)
  qed
  note f = newNode_fresh [OF nn assms(4) own]
  have there: "n \<in> set ds \<Longrightarrow> ref_at w (made jobs n) \<noteq> None" for n using old unfolding node_done_def by blast
  have new: "?x \<notin> made jobs ` set ds" using there f(2) by (metis imageE)
  have "inj_on (made jobs') (set (ds @ [m]))"
  proof -
    have "inj_on (made jobs') (set ds)" using dn made'(1) by (simp add: dag_new_def inj_on_def)
    moreover have "made jobs' m \<notin> made jobs' ` set ds" using new made' by auto
    ultimately show ?thesis using mem(3) by simp
  qed
  moreover have "ref_at w0 (made jobs' n) = None \<and> (made jobs' n \<in> taken res \<longrightarrow> made jobs' n \<in> set (own_of (fn_queue n) (fn_opts n)))"
    if "n \<in> set (ds @ [m])" for n
  proof (cases "n = m")
    case True
    then show ?thesis using f(2,3) fr [OF new] made'(2) by simp
  next
    case False
    then have "n \<in> set ds" using that by simp
    then show ?thesis using dn made'(1) by (simp add: dag_new_def)
  qed
  ultimately have "dag_new res w0 (ds @ [m]) jobs'" unfolding dag_new_def by blast
  moreover have "node_done prefix nodes (ds @ [m]) jobs' w' n" if n: "n \<in> set (ds @ [m])" for n
  proof -
    have par: "map (made jobs') (dependents_of nodes (node_name n)) = map (made jobs) (dependents_of nodes (node_name n))"
      using mem(5) [OF n] made'(1) by (simp add: subset_iff)
    show ?thesis
    proof (cases "n = m")
      case True
      obtain j where j: "ref_at w' ?x = Some j" "flow_record (node_name m) (flowInit prefix (fn_queue m) (ndeps m \<noteq> []) res ?ps) j"
        using f(4) by blast
      have "linked_to ?ps j" using j(2) by (simp add: linked_to_def flow_record_def flowInit_def)
      then have l: "linked_to (map (made jobs') (dependents_of nodes (node_name m))) j"
        using par unfolding True node_parents_made by (simp only:)
      have "node_rec prefix nodes (ds @ [m]) jobs' m j" unfolding node_rec_def
        using j(2) l mem(6) by (simp add: flow_record_def flowInit_def)
      then show ?thesis using j(1) made'(2) by (simp add: node_done_def True)
    next
      case False
      then have nd: "n \<in> set ds" using n by simp
      obtain j where j: "ref_at w (made jobs n) = Some j" "node_rec prefix nodes ds jobs n j"
        using old [OF nd] unfolding node_done_def by blast
      have in_ps: "made jobs n \<in> set ?ps \<longleftrightarrow> node_name m \<in> set (ndeps n)"
      proof -
        have "made jobs n \<in> set ?ps \<longleftrightarrow> n \<in> set (dependents_of nodes (node_name m))"
          unfolding node_parents_made set_map
          by (rule inj_on_image_mem_iff [OF _ nd mem(4)]) (use dn in \<open>simp add: dag_new_def\<close>)
        then show ?thesis using nd mem(2) by (auto simp: dependents_of_def)
      qed
      let ?j = "if node_name m \<in> set (ndeps n) then add_dep (fn_queue m) (h_id h) j else j"
      have "made jobs n \<noteq> ?x" using new imageI [OF nd, of "made jobs"] by metis
      then have "ref_at w' (made jobs n) = Some ?j" using f(5) in_ps j(1) by simp
      moreover have "node_rec prefix nodes (ds @ [m]) jobs' n ?j"
      proof -
        have e: "dep_entry prefix jobs' e = dep_entry prefix jobs e" if "e \<in> set ds" for e
          using made'(1) [OF that] by (simp add: dep_entry_def)
        have same: "map (dep_entry prefix jobs') (waits_on ds n) = map (dep_entry prefix jobs) (waits_on ds n)"
          using e by (simp add: waits_on_def)
        have "made jobs e \<noteq> ?x" if "e \<in> set ds" for e using new imageI [OF that, of "made jobs"] by metis
        then have pl: "plain_name (pr_queue ?x)" "\<forall>e\<in>set ds. plain_name (fn_queue e) \<and> made jobs e \<noteq> ?x"
          using assms(2) mem(1,2) by (auto simp: dag_ok_def)
        have "j_deps ?j = map (dep_entry prefix jobs') (waits_on (ds @ [m]) n)"
          using add_dep_entry [OF j(2) pl] j(2) same made'(2) by (simp add: waits_on_def node_rec_def dep_entry_def)
        moreover have "linked_to (map (made jobs') (dependents_of nodes (node_name n))) ?j"
          unfolding par using j(2) by (simp add: node_rec_def)
        ultimately show ?thesis using j(2) unfolding node_rec_def by simp
      qed
      ultimately show ?thesis using made'(1) [OF nd] by (auto simp: node_done_def)
    qed
  qed
  moreover have "ref_at w' x = ref_at w0 x" if "x \<notin> made jobs' ` set (ds @ [m])" for x
  proof -
    have x: "x \<noteq> ?x" "x \<notin> made jobs ` set ds" using that made' by auto
    then have "x \<notin> set ?ps" using mem(4) by (auto simp: node_parents_made)
    then show ?thesis using f(5) [OF x(1)] fr [OF x(2)] by simp
  qed
  ultimately show ?thesis using f(1) unfolding dag_inv_def by blast
qed

section \<open>All nodes\<close>

lemma next_in_order:
  assumes "dependents_first nodes (ds @ m # ns)" and "distinct (ds @ m # ns)" and "set (ds @ m # ns) = set nodes"
  shows "next_node nodes ds m"
proof -
  have mem: "m \<in> set nodes" "set ds \<subseteq> set nodes" "m \<notin> set ds" using assms(2,3) by auto
  have deps_m: "set (dependents_of nodes (node_name m)) \<subseteq> set ds"
    using assms(1) unfolding dependents_first_def by blast
  have deps_n: "\<exists>xs ys. ds = xs @ n # ys \<and> set (dependents_of nodes (node_name n)) \<subseteq> set xs" if n: "n \<in> set ds" for n
  proof -
    obtain xs ys where "ds = xs @ n # ys" using n by (meson split_list)
    moreover from this have "ds @ m # ns = xs @ n # (ys @ m # ns)" by simp
    then have "set (dependents_of nodes (node_name n)) \<subseteq> set xs" using assms(1) unfolding dependents_first_def by blast
    ultimately show ?thesis by blast
  qed
  have closed: "set (dependents_of nodes (node_name n)) \<subseteq> set ds" if "n \<in> set ds" for n
    using deps_n [OF that] by auto
  have "node_name e \<notin> set (ndeps m)" if "e \<in> set (ds @ [m])" for e
  proof
    assume "node_name e \<in> set (ndeps m)"
    then have "m \<in> set (dependents_of nodes (node_name e))" using mem(1) by (simp add: dependents_of_def)
    then show False using that deps_m closed mem(3) by auto
  qed
  then have "waits_on (ds @ [m]) m = []" by (simp add: waits_on_def filter_empty_conv)
  then show ?thesis using mem deps_m closed unfolding next_node_def by auto
qed

lemma add_nodes_built:
  assumes "add_nodes prefix res now nodes ns jobs w = (w', Inr jobs')" and "dag_inv prefix res nodes w0 ds jobs w"
    and "dag_ok res w0 nodes" and "world_ok H w" and "dependents_first nodes (ds @ ns)" and "distinct (ds @ ns)"
    and "set (ds @ ns) = set nodes"
  shows "world_ok H w' \<and> dag_inv prefix res nodes w0 (ds @ ns) jobs' w'"
  using assms
proof (induction ns arbitrary: ds jobs w)
  case Nil
  then show ?case by (simp add: retW_Inr)
next
  case (Cons m ns)
  obtain w1 jobs1 where a: "add_node prefix res now nodes m jobs w = (w1, Inr jobs1)"
    and rest: "add_nodes prefix res now nodes ns jobs1 w1 = (w', Inr jobs')"
    using Cons.prems(1) by (auto simp: bindW_Inr)
  have nx: "next_node nodes ds m" using next_in_order Cons.prems(5-7) .
  from dag_step [OF Cons.prems(2,3) nx Cons.prems(4) a]
  have s: "world_ok H w1" "dag_inv prefix res nodes w0 (ds @ [m]) jobs1 w1" by blast+
  show ?case using Cons.IH [OF rest s(2) Cons.prems(3) s(1)] Cons.prems(5-7) by simp
qed

lemma check_nodes_ok:
  assumes "check_nodes ns res w = (w', Inr res')"
  shows "w' = w \<and> (\<forall>n\<in>set ns. plain_name (fn_queue n)) \<and> checked w (concat (map (\<lambda>n. own_of (fn_queue n) (fn_opts n)) ns)) res res'"
  using assms
proof (induction ns arbitrary: res w)
  case Nil
  then show ?case by (simp add: retW_Inr checked_def)
next
  case (Cons n ns)
  obtain w1 res1 where a: "checkJob (fn_queue n) (fn_data n) (fn_opts n) res w = (w1, Inr res1)"
    and b: "check_nodes ns res1 w1 = (w', Inr res')"
    using Cons.prems by (auto simp: bindW_Inr)
  note j = checkJob_ok [OF a]
  have "checked w (own_of (fn_queue n) (fn_opts n)) res res1" using reserve_id_taken [OF j(3)] j(4) by (simp add: checked_def)
  then show ?case using Cons.IH [OF b] j(1,2) checked_append by auto
qed

lemma distinct_concat_disjoint:
  "distinct (concat (map g xs)) \<Longrightarrow> x \<in> set xs \<Longrightarrow> y \<in> set xs \<Longrightarrow> x \<noteq> y \<Longrightarrow> set (g x) \<inter> set (g y) = {}"
  by (induction xs) auto

lemma distinct_concat_each: "distinct (concat (map g xs)) \<Longrightarrow> x \<in> set xs \<Longrightarrow> distinct (g x)"
  by (induction xs) auto

lemma checked_dag_ok:
  assumes "distinct (map node_name nodes)" and "check_nodes nodes [] w = (w', Inr res)"
  shows "w' = w" and "dag_ok res w nodes"
proof -
  let ?own = "\<lambda>n. own_of (fn_queue n) (fn_opts n)"
  from check_nodes_ok [OF assms(2)] have c: "w' = w" "\<forall>n\<in>set nodes. plain_name (fn_queue n)"
    "checked w (concat (map ?own nodes)) [] res" by blast+
  show "w' = w" by (rule c(1))
  have d: "distinct (concat (map ?own nodes))" using c(3) by (simp add: checked_def)
  have "free_refs w res (?own n)" if "n \<in> set nodes" for n
    using c(3) that distinct_concat_each [OF d that] by (auto simp: checked_def free_refs_def)
  then show "dag_ok res w nodes"
    using assms(1) c(2) distinct_concat_disjoint [OF d] unfolding dag_ok_def by blast
qed

section \<open>Adding a DAG\<close>

text \<open>The record of a node: it waits for the jobs of its \<open>deps\<close>, each once, and names the nodes that wait for it.\<close>

definition dag_job :: "flow_node list \<Rightarrow> (string, test_job) jsmap \<Rightarrow> flow_node \<Rightarrow> job \<Rightarrow> bool" where
  "dag_job nodes jobs n j \<longleftrightarrow> j_name j = node_name n \<and> (j_state j = WaitingChildren \<longleftrightarrow> ndeps n \<noteq> []) \<and>
     distinct (map snd (j_deps j)) \<and>
     set (map snd (j_deps j)) = made jobs ` {d \<in> set nodes. node_name d \<in> set (ndeps n)} \<and>
     linked_to (map (made jobs) (filter (\<lambda>m. node_name n \<in> set (ndeps m)) nodes)) j"

lemma node_rec_dag_job:
  assumes "node_rec prefix nodes ds jobs n j" and "set ds = set nodes" and "distinct ds" and "inj_on (made jobs) (set ds)"
  shows "dag_job nodes jobs n j"
proof -
  have "map snd (j_deps j) = map (made jobs) (waits_on ds n)" using assms(1) by (simp add: node_rec_def dep_entry_def)
  moreover have "set (waits_on ds n) = {d \<in> set nodes. node_name d \<in> set (ndeps n)}" using assms(2) by (auto simp: waits_on_def)
  moreover have "distinct (map (made jobs) (waits_on ds n))"
    using assms(3) inj_on_subset [OF assms(4), of "set (waits_on ds n)"] by (simp add: distinct_map waits_on_def)
  ultimately have "distinct (map snd (j_deps j))" "set (map snd (j_deps j)) = made jobs ` {d \<in> set nodes. node_name d \<in> set (ndeps n)}"
    by (simp_all only: set_map)
  then show ?thesis using assms(1) unfolding dag_job_def node_rec_def dependents_of_def by blast
qed

text \<open>
  C10: a DAG that \<open>TestFlowProducer.addDAG\<close> accepts becomes one new record per node: a node with \<open>deps\<close> is
  in \<open>waiting-children\<close> and waits for the jobs of exactly those nodes, each counted once, every job names
  the nodes that wait for it as its parents, different nodes have different jobs, and no other record changes.
\<close>

theorem dag_becomes_jobs:
  assumes "addDAG p nodes now w = (w', Inr jobs)" and "world_ok H w"
  shows "world_ok H w' \<and> inj_on (made jobs) (set nodes) \<and>
    (\<forall>n\<in>set nodes. \<exists>j. ref_at w' (made jobs n) = Some j \<and> dag_job nodes jobs n j) \<and>
    (\<forall>x. if x \<in> made jobs ` set nodes then ref_at w x = None else ref_at w' x = ref_at w x)"
proof -
  obtain w1 res order where c: "check_nodes nodes [] w = (w1, Inr res)" and t: "topoSort (map bare nodes) = Inr order"
    and b: "add_nodes (fp_prefix p) res now nodes (creation_order nodes order) [] w1 = (w', Inr jobs)"
    using assms(1) by (auto simp: addDAG_def bindW_Inr assertOpen_def map_sum_Inr creation_order_def)
  note o = creation_order_ok [OF t] and k = checked_dag_ok [OF creation_order_ok(1) [OF t] c]
  let ?ns = "creation_order nodes order"
  have start: "dag_inv (fp_prefix p) res nodes w [] [] w" by (simp add: dag_inv_def dag_new_def)
  have f: "dependents_first nodes ([] @ ?ns)" "distinct ([] @ ?ns)" "set ([] @ ?ns) = set nodes" using o by simp_all
  from add_nodes_built [OF b [unfolded k(1)] start k(2) assms(2) f]
  have r: "world_ok H w'" "dag_new res w ?ns jobs" "\<And>n. n \<in> set ?ns \<Longrightarrow> node_done (fp_prefix p) nodes ?ns jobs w' n"
    "\<And>x. x \<notin> made jobs ` set ?ns \<Longrightarrow> ref_at w' x = ref_at w x"
    unfolding dag_inv_def append_Nil by blast+
  have inj: "inj_on (made jobs) (set ?ns)" using r(2) by (simp add: dag_new_def)
  have "\<exists>j. ref_at w' (made jobs n) = Some j \<and> dag_job nodes jobs n j" if "n \<in> set nodes" for n
    using r(3) [of n] that node_rec_dag_job [OF _ o(2,3) inj] unfolding node_done_def o(2) by blast
  moreover have "ref_at w x = None" if "x \<in> made jobs ` set nodes" for x
    using that r(2) o(2) unfolding dag_new_def by auto
  ultimately show ?thesis using r(1) inj r(4) unfolding o(2) by auto
qed

text \<open>Two nodes, the second waiting for the first.\<close>

definition sample_node :: "string \<Rightarrow> string list \<Rightarrow> flow_node" where
  "sample_node n ds = \<lparr>node_name = n, node_deps = Some ds, fn_queue = ''q'', fn_data = JNull, fn_opts = None\<rparr>"

abbreviation sample_dag :: "flow_node list" where
  "sample_dag \<equiv> [sample_node ''a'' [], sample_node ''b'' [''a'']]"

lemma sample_dag_bare: "map bare sample_dag = [\<lparr>node_name = ''a'', node_deps = Some []\<rparr>, \<lparr>node_name = ''b'', node_deps = Some [''a'']\<rparr>]"
  by (simp add: sample_node_def bare_def dag_node.truncate_def)

lemma sample_dag_sorted:
  "validateDAG (map bare sample_dag) = Inr ()" "topoSort (map bare sample_dag) = Inr (map bare sample_dag)"
  unfolding sample_dag_bare by code_simp+

lemma sample_dag_added: "\<exists>w' jobs. addDAG (new_TestFlowProducer None) sample_dag 0 [(''q'', sample_queue ''q'')] = (w', Inr jobs)"
proof -
  let ?w = "[(''q'', sample_queue ''q'')]" and ?a = "sample_node ''a'' []" and ?b = "sample_node ''b'' [''a'']"
  have c: "check_nodes sample_dag [] ?w = (?w, Inr [])"
    by (simp add: sample_node_def retW_def checkJob_def bindW_def queueOf_def checkFlowJob_def flow_opts_def plain_serializer_def
        customJobId_def reserve_id_def validateQueueName_def bad_queue_name_char_def)
  have r0: "ready_in ''q'' 0 ?w" by (simp add: ready_in_def ready_def)
  obtain w1 hb where b: "newNode ''q'' ''b'' JNull None (flowInit ''glide'' ''q'' True [] []) 0 ?w = (w1, Inr hb)" "ready_in ''q'' 1 w1"
    using newNode_ready [OF r0, of "[]" "''b''" JNull "''glide''" True 0] by auto
  let ?jb = "jm_set ''b'' hb []"
  have pb: "node_parents sample_dag [] ?b = []" "node_parents sample_dag ?jb ?a = [ref ''q'' (h_id hb)]"
    by (simp_all add: node_parents_made dependents_of_def sample_node_def bare_def dag_node.truncate_def deps_def made_def)
  obtain w2 ha where a: "newNode ''q'' ''a'' JNull None (flowInit ''glide'' ''q'' False [] [ref ''q'' (h_id hb)]) 0 w1 = (w2, Inr ha)"
    using newNode_ready [OF b(2), of "[ref ''q'' (h_id hb)]" "''a''" JNull "''glide''" False 0] by auto
  have nb: "add_node ''glide'' [] 0 sample_dag ?b [] ?w = (w1, Inr ?jb)"
    unfolding add_node_def pb using b(1) by (simp add: sample_node_def bare_def dag_node.truncate_def deps_def bindW_def retW_def)
  have na: "add_node ''glide'' [] 0 sample_dag ?a ?jb w1 = (w2, Inr (jm_set ''a'' ha ?jb))"
    unfolding add_node_def pb using a by (simp add: sample_node_def bare_def dag_node.truncate_def deps_def bindW_def retW_def)
  have o: "map (\<lambda>n. named sample_dag (node_name n)) (rev (map bare sample_dag)) = [?b, ?a]"
    by (simp add: named_def sample_node_def)
  have all: "add_nodes ''glide'' [] 0 sample_dag [?b, ?a] [] ?w = (w2, Inr (jm_set ''a'' ha ?jb))"
    by (simp only: add_nodes.simps bindW_def nb na prod.case sum.case retW_def)
  have p: "fp_prefix (new_TestFlowProducer None) = ''glide''" "assertOpen (new_TestFlowProducer None) ?w = (?w, Inr ())"
    by (simp_all add: new_TestFlowProducer_def assertOpen_def)
  have "addDAG (new_TestFlowProducer None) sample_dag 0 ?w = (w2, Inr (jm_set ''a'' ha ?jb))"
    unfolding addDAG_def sample_dag_sorted by (simp only: bindW_def p c o all prod.case sum.case map_sum.simps id_apply)
  then show ?thesis by blast
qed

lemma only_one: "set xs = {x} \<Longrightarrow> distinct xs \<Longrightarrow> xs = [x]"
proof (cases xs)
  case (Cons y ys)
  assume "set xs = {x}" "distinct xs"
  then have "y = x" "set ys \<subseteq> {x}" "x \<notin> set ys" using Cons by auto
  then show ?thesis using Cons by (cases ys) auto
qed simp

lemma dag_becomes_jobs_witness:
  "\<exists>w' jobs. addDAG (new_TestFlowProducer None) sample_dag 0 [(''q'', sample_queue ''q'')] = (w', Inr jobs) \<and>
     (\<exists>j. ref_at w' (made jobs (sample_node ''b'' [''a''])) = Some j \<and> j_state j = WaitingChildren \<and>
        map snd (j_deps j) = [made jobs (sample_node ''a'' [])])"
proof -
  obtain w' jobs where a: "addDAG (new_TestFlowProducer None) sample_dag 0 [(''q'', sample_queue ''q'')] = (w', Inr jobs)"
    using sample_dag_added by blast
  let ?b = "sample_node ''b'' [''a'']"
  from dag_becomes_jobs [OF a sample_world_ok] obtain j where j: "ref_at w' (made jobs ?b) = Some j" "dag_job sample_dag jobs ?b j"
    by auto
  have "{d \<in> set sample_dag. node_name d \<in> set (ndeps ?b)} = {sample_node ''a'' []}"
    by (auto simp: sample_node_def bare_def dag_node.truncate_def deps_def)
  then have "set (map snd (j_deps j)) = {made jobs (sample_node ''a'' [])}" "distinct (map snd (j_deps j))"
    using j(2) by (simp_all only: dag_job_def image_insert image_empty)
  then have "map snd (j_deps j) = [made jobs (sample_node ''a'' [])]"
    by (rule only_one)
  moreover have "j_state j = WaitingChildren"
    using j(2) by (simp add: dag_job_def sample_node_def bare_def dag_node.truncate_def deps_def)
  ultimately have ex: "\<exists>j. ref_at w' (made jobs ?b) = Some j \<and> j_state j = WaitingChildren \<and> map snd (j_deps j) = [made jobs (sample_node ''a'' [])]"
    using j(1) by (intro exI [of _ j] conjI)
  show ?thesis by (rule exI [of _ w'], rule exI [of _ jobs], rule conjI, rule a, rule ex)
qed

end
