(* ===== verification/Sandbox_Pool.thy ===== *)
theory Sandbox_Pool
  imports Js_Values
begin

text \<open>
  The pool of sandbox workers (\<open>src/sandbox/pool.ts\<close>): worker threads or child processes that run
  the jobs of a worker, the runs that wait for a slot, and the messages between them. Workers are
  objects compared by identity and live in a store; a run is the call of \<open>run\<close> for one job.
  The continuation of an awaited slot is a microtask of its own, so a run that has been given a
  worker is \<open>granted\<close> until that continuation starts it.
\<close>

section \<open>State\<close>

type_synonym run_id = nat
type_synonym worker_id = nat

text \<open>
  A worker. \<open>pw_current\<close> is the run whose \<open>currentReject\<close> and \<open>currentCleanup\<close> the worker holds, with
  its invocation id; \<open>pw_listening\<close> says its abort listener is registered and \<open>pw_grace\<close> that its
  grace timer runs.
\<close>

record pool_worker =
  pw_busy :: bool
  pw_terminationError :: "js_error option"
  pw_current :: "(run_id \<times> nat) option"
  pw_listening :: bool
  pw_grace :: bool
  pw_cleaned :: bool

datatype main_to_child = MProcess nat | MAbort nat

datatype run_outcome = Finished js | Thrown js_error

record pool =
  p_max :: nat
  p_closed :: bool
  p_worker :: "worker_id \<Rightarrow> pool_worker"
  p_next :: worker_id
  p_workers :: "worker_id list"
  p_waiters :: "run_id list"
  p_granted :: "(run_id \<times> worker_id) list"
  p_invocation :: nat
  p_submitted :: "run_id list"
  p_aborted :: "run_id list"
  p_discarded :: "run_id list"
  p_outcomes :: "(run_id, run_outcome) jsmap"
  p_sent :: "(worker_id \<times> main_to_child) list"

definition new_SandboxPool :: "nat \<Rightarrow> pool" where
  "new_SandboxPool m =
     \<lparr>p_max = m, p_closed = False,
      p_worker = (\<lambda>_. \<lparr>pw_busy = False, pw_terminationError = None, pw_current = None, pw_listening = False,
        pw_grace = False, pw_cleaned = False\<rparr>),
      p_next = 0, p_workers = [], p_waiters = [], p_granted = [], p_invocation = 0, p_submitted = [],
      p_aborted = [], p_discarded = [], p_outcomes = [], p_sent = []\<rparr>"

definition with_worker :: "worker_id \<Rightarrow> (pool_worker \<Rightarrow> pool_worker) \<Rightarrow> pool \<Rightarrow> pool" where
  "with_worker k f p = p\<lparr>p_worker := (p_worker p)(k := f (p_worker p k))\<rparr>"

text \<open>A promise settles once.\<close>

definition settle_run :: "run_id \<Rightarrow> run_outcome \<Rightarrow> pool \<Rightarrow> pool" where
  "settle_run r out p = (if jm_has (p_outcomes p) r then p else p\<lparr>p_outcomes := p_outcomes p @ [(r, out)]\<rparr>)"

definition aborted_error :: js_error where
  "aborted_error = GlideMQError ''Job aborted''"

definition closed_error :: js_error where
  "closed_error = GlideMQError ''SandboxPool is closed''"

section \<open>Workers and slots\<close>

definition spawn :: "pool \<Rightarrow> pool" where
  "spawn p =
     p\<lparr>p_worker := (p_worker p)(p_next p := \<lparr>pw_busy = False, pw_terminationError = None, pw_current = None,
         pw_listening = False, pw_grace = False, pw_cleaned = False\<rparr>),
       p_workers := p_workers p @ [p_next p], p_next := p_next p + 1\<rparr>"

definition grant :: "run_id \<Rightarrow> worker_id \<Rightarrow> pool \<Rightarrow> pool" where
  "grant r k p = (with_worker k (\<lambda>w. w\<lparr>pw_busy := True\<rparr>) p)\<lparr>p_granted := p_granted p @ [(r, k)]\<rparr>"

definition acquire :: "run_id \<Rightarrow> pool \<Rightarrow> pool" where
  "acquire r p =
     (case List.find (\<lambda>k. \<not> pw_busy (p_worker p k)) (p_workers p) of
        Some k \<Rightarrow> grant r k p
      | None \<Rightarrow>
          if length (p_workers p) < p_max p then grant r (p_next p) (spawn p)
          else p\<lparr>p_waiters := p_waiters p @ [r]\<rparr>)"

definition terminate :: "worker_id \<Rightarrow> js_error \<Rightarrow> pool \<Rightarrow> pool" where
  "terminate k e p = with_worker k (\<lambda>w. w\<lparr>pw_terminationError := Some e\<rparr>) p"

text \<open>Hand the worker to the first waiter, or make it idle; a worker being terminated stays busy.\<close>

definition release :: "worker_id \<Rightarrow> pool \<Rightarrow> pool" where
  "release k p =
     (if pw_terminationError (p_worker p k) \<noteq> None then p
      else (case p_waiters p of
              [] \<Rightarrow> with_worker k (\<lambda>w. w\<lparr>pw_busy := False\<rparr>) p
            | r # rs \<Rightarrow> grant r k (p\<lparr>p_waiters := rs\<rparr>)))"

text \<open>The cleanup of an invocation: timer, message handler and abort listener go.\<close>

definition cleanup :: "worker_id \<Rightarrow> pool \<Rightarrow> pool" where
  "cleanup k p = with_worker k (\<lambda>w. w\<lparr>pw_current := None, pw_listening := False, pw_grace := False\<rparr>) p"

section \<open>Runs\<close>

definition run :: "run_id \<Rightarrow> pool \<Rightarrow> pool" where
  "run r p =
     (let p' = p\<lparr>p_submitted := p_submitted p @ [r]\<rparr> in
      if p_closed p then settle_run r (Thrown closed_error) p'
      else if r \<in> set (p_aborted p) then settle_run r (Thrown aborted_error) p'
      else acquire r p')"

text \<open>
  The continuation of a granted run. \<open>clone\<close> says whether \<open>send\<close> can serialize the job; when it
  throws, the promise is rejected and the rest of the executor does not run.
\<close>

definition begin_run :: "run_id \<Rightarrow> worker_id \<Rightarrow> js_error option \<Rightarrow> pool \<Rightarrow> pool" where
  "begin_run r k clone p =
     (let i = p_invocation p + 1;
          p1 = (with_worker k (\<lambda>w. w\<lparr>pw_current := Some (r, i)\<rparr>) p)\<lparr>p_invocation := i\<rparr>
      in case clone of
           Some e \<Rightarrow> settle_run r (Thrown e) p1
         | None \<Rightarrow> (with_worker k (\<lambda>w. w\<lparr>pw_listening := True\<rparr>) p1)\<lparr>p_sent := p_sent p @ [(k, MProcess i)]\<rparr>)"

definition resume_run :: "run_id \<Rightarrow> worker_id \<Rightarrow> js_error option \<Rightarrow> pool \<Rightarrow> pool" where
  "resume_run r k clone p =
     (let p1 = p\<lparr>p_granted := removeAll (r, k) (p_granted p)\<rparr>
      in if r \<in> set (p_aborted p) then settle_run r (Thrown aborted_error) (release k p1)
         else begin_run r k clone p1)"

text \<open>The signal of a run fires: a waiting run leaves the queue, a running one is told and given time.\<close>

definition abort_worker :: "worker_id \<Rightarrow> nat \<Rightarrow> pool \<Rightarrow> pool" where
  "abort_worker k i p =
     (with_worker k (\<lambda>w. w\<lparr>pw_listening := False, pw_grace := True\<rparr>) p)\<lparr>p_sent := p_sent p @ [(k, MAbort i)]\<rparr>"

definition runs_on :: "run_id \<Rightarrow> pool \<Rightarrow> worker_id \<Rightarrow> bool" where
  "runs_on r p k =
     (pw_listening (p_worker p k) \<and> (case pw_current (p_worker p k) of None \<Rightarrow> False | Some (r', i) \<Rightarrow> r' = r))"

definition fire_abort :: "run_id \<Rightarrow> pool \<Rightarrow> pool" where
  "fire_abort r p =
     (if r \<in> set (p_aborted p) then p
      else (let p1 = p\<lparr>p_aborted := r # p_aborted p\<rparr> in
            if r \<in> set (p_waiters p) then settle_run r (Thrown aborted_error) (p1\<lparr>p_waiters := removeAll r (p_waiters p)\<rparr>)
            else (case List.find (runs_on r p) [0..<p_next p] of
                    None \<Rightarrow> p1
                  | Some k \<Rightarrow> (case pw_current (p_worker p k) of None \<Rightarrow> p1 | Some (r', i) \<Rightarrow> abort_worker k i p1))))"

definition ABORT_GRACE_MS :: nat where
  "ABORT_GRACE_MS = 5000"

definition grace_error :: js_error where
  "grace_error = GlideMQError (''Sandbox worker terminated: job did not settle within '' @ show_nat ABORT_GRACE_MS @ ''ms of abort'')"

definition grace_expires :: "worker_id \<Rightarrow> pool \<Rightarrow> pool" where
  "grace_expires k p =
     (if pw_grace (p_worker p k) then terminate k grace_error (with_worker k (\<lambda>w. w\<lparr>pw_grace := False\<rparr>) p) else p)"

section \<open>Messages of a worker\<close>

record failed_msg =
  fm_error :: string
  fm_errorName :: "string option"
  fm_discarded :: bool
  fm_delayedUntil :: "jsnum option"

datatype child_to_main = MCompleted nat js | MFailed nat failed_msg | MBroken js_error

definition failure_error :: "failed_msg \<Rightarrow> js_error" where
  "failure_error m =
     (if fm_errorName m = Some ''UnrecoverableError'' then UnrecoverableError (fm_error m)
      else if fm_errorName m = Some ''DelayedError''
      then (case fm_delayedUntil m of
              Some (Num t) \<Rightarrow> if 0 \<le> t then DelayedError t else err (fm_error m)
            | _ \<Rightarrow> err (fm_error m))
      else err (fm_error m))"

definition finish_run :: "worker_id \<Rightarrow> run_id \<Rightarrow> run_outcome \<Rightarrow> pool \<Rightarrow> pool" where
  "finish_run k r out p = settle_run r out (release k (cleanup k p))"

text \<open>Only the handler of the current invocation listens, and only for its own id.\<close>

definition onMessage :: "worker_id \<Rightarrow> child_to_main \<Rightarrow> pool \<Rightarrow> pool" where
  "onMessage k m p =
     (case pw_current (p_worker p k) of
        None \<Rightarrow> p
      | Some (r, i) \<Rightarrow>
          (case m of
             MCompleted i' v \<Rightarrow> if i' = i then finish_run k r (Finished v) p else p
           | MFailed i' f \<Rightarrow>
               if i' = i
               then (let p1 = finish_run k r (Thrown (failure_error f)) p
                     in if fm_discarded f then p1\<lparr>p_discarded := r # p_discarded p1\<rparr> else p1)
               else p
           | MBroken e \<Rightarrow> finish_run k r (Thrown e) p))"

text \<open>The exit or error of a worker, once: its run is rejected and a waiter gets a fresh worker.\<close>

definition removeAndCleanup :: "worker_id \<Rightarrow> js_error \<Rightarrow> pool \<Rightarrow> pool" where
  "removeAndCleanup k e p =
     (if pw_cleaned (p_worker p k) then p
      else (let w = p_worker p k;
                p1 = (cleanup k (with_worker k (\<lambda>w. w\<lparr>pw_cleaned := True\<rparr>) p))\<lparr>p_workers := removeAll k (p_workers p)\<rparr>;
                p2 = (case pw_current w of None \<Rightarrow> p1 | Some (r, i) \<Rightarrow> settle_run r (Thrown (or_else (pw_terminationError w) e)) p1)
            in if p_closed p2 then p2
               else (case p_waiters p2 of
                       [] \<Rightarrow> p2
                     | r # rs \<Rightarrow> grant r (p_next p2) (spawn (p2\<lparr>p_waiters := rs\<rparr>)))))"

section \<open>Closing\<close>

definition close_pool :: "pool \<Rightarrow> pool" where
  "close_pool p =
     (if p_closed p then p
      else (fold (\<lambda>r. settle_run r (Thrown closed_error)) (p_waiters p) (p\<lparr>p_closed := True\<rparr>))\<lparr>p_waiters := []\<rparr>)"

text \<open>After every termination has been awaited.\<close>

definition close_done :: "pool \<Rightarrow> pool" where
  "close_done p = (if p_closed p then p\<lparr>p_workers := []\<rparr> else p)"

section \<open>Calls of the processor\<close>

text \<open>
  A call a sandboxed processor makes on its job, and what it does to the real job. After the abort
  the worker no longer owns the job and only logging and discarding remain.
\<close>

datatype proxy_method = PLog string | PProgress js | PData js | PDiscard | PMoveToDelayed jsnum "string option" | PUnknown string

datatype job_effect = LogLine string | SetProgress js | SetData js | SetDiscarded | RequestDelay rat "js option"

definition method_name :: "proxy_method \<Rightarrow> string" where
  "method_name m = (case m of
     PLog s \<Rightarrow> ''log'' | PProgress v \<Rightarrow> ''updateProgress'' | PData v \<Rightarrow> ''updateData'' | PDiscard \<Rightarrow> ''discard''
   | PMoveToDelayed t s \<Rightarrow> ''moveToDelayed'' | PUnknown s \<Rightarrow> s)"

definition request_delay :: "bool \<Rightarrow> js \<Rightarrow> jsnum \<Rightarrow> string option \<Rightarrow> js_error + job_effect" where
  "request_delay active data t nextStep =
     (case t of
        Num q \<Rightarrow>
          if q < 0 then Inl (err ''Timestamp must be a finite Unix millisecond value >= 0'')
          else if \<not> active then Inl (err ''moveToDelayed() can only be used while the job is active in a Worker'')
          else (case nextStep of
                  None \<Rightarrow> Inr (RequestDelay q None)
                | Some s \<Rightarrow>
                    if isPlainStepPayload data then Inr (RequestDelay q (Some (with_step data s)))
                    else Inl (err ''moveToDelayed(nextStep) requires plain-object job data''))
      | _ \<Rightarrow> Inl (err ''Timestamp must be a finite Unix millisecond value >= 0''))"

definition handleProxyRequest :: "bool \<Rightarrow> bool \<Rightarrow> js \<Rightarrow> proxy_method \<Rightarrow> js_error + job_effect" where
  "handleProxyRequest aborted active data m =
     (if aborted \<and> method_name m \<noteq> ''log'' \<and> method_name m \<noteq> ''discard''
      then Inl (err (''Job aborted: '' @ method_name m @ ''() is not allowed after the job's abort signal fired''))
      else (case m of
              PLog s \<Rightarrow> Inr (LogLine s)
            | PProgress v \<Rightarrow> Inr (SetProgress v)
            | PData v \<Rightarrow> Inr (SetData v)
            | PDiscard \<Rightarrow> Inr SetDiscarded
            | PMoveToDelayed t s \<Rightarrow> request_delay active data t s
            | PUnknown s \<Rightarrow> Inl (err (''Unknown proxy method: '' @ s))))"

section \<open>Steps\<close>

text \<open>
  What can happen to a pool. Exits, messages and timers are tasks of the event loop, which runs the
  continuations of granted runs first. A worker answers an invocation it was sent. \<open>ok\<close> restricts
  the jobs to those \<open>send\<close> can serialize.
\<close>

inductive pool_step :: "bool \<Rightarrow> pool \<Rightarrow> pool \<Rightarrow> bool" for ok where
  run: "r \<notin> set (p_submitted p) \<Longrightarrow> pool_step ok p (run r p)"
| resume_run: "(r, k) \<in> set (p_granted p) \<Longrightarrow> ok \<longrightarrow> c = None \<Longrightarrow> pool_step ok p (resume_run r k c p)"
| abort: "pool_step ok p (fire_abort r p)"
| grace: "p_granted p = [] \<Longrightarrow> pool_step ok p (grace_expires k p)"
| completed: "p_granted p = [] \<Longrightarrow> (k, MProcess i) \<in> set (p_sent p) \<Longrightarrow> pool_step ok p (onMessage k (MCompleted i v) p)"
| failed: "p_granted p = [] \<Longrightarrow> (k, MProcess i) \<in> set (p_sent p) \<Longrightarrow> pool_step ok p (onMessage k (MFailed i f) p)"
| broken: "p_granted p = [] \<Longrightarrow> (k, MProcess i) \<in> set (p_sent p) \<Longrightarrow> pool_step ok p (onMessage k (MBroken e) p)"
| exited: "p_granted p = [] \<Longrightarrow> k < p_next p \<Longrightarrow> pool_step ok p (removeAndCleanup k e p)"
| close_pool: "pool_step ok p (close_pool p)"
| close_done: "p_granted p = [] \<Longrightarrow> pool_step ok p (close_done p)"

inductive pool_reachable :: "bool \<Rightarrow> nat \<Rightarrow> pool \<Rightarrow> bool" for ok m where
  start: "pool_reachable ok m (new_SandboxPool m)"
| step: "pool_reachable ok m p \<Longrightarrow> pool_step ok p p' \<Longrightarrow> pool_reachable ok m p'"

inductive_cases pool_stepE: "pool_step ok p p'"

end
