(* ===== verification/Sandbox_Inv.thy ===== *)
theory Sandbox_Inv
  imports Sandbox_Pool
begin

text \<open>
  Invariants of the sandbox pool (\<open>src/sandbox/pool.ts\<close>): the slots never exceed the maximum and no
  slot idles while a run waits; every run is in exactly one place until it settles; every busy
  worker has a reason to be busy.
\<close>

section \<open>The fields of the workers\<close>

definition busy :: "pool \<Rightarrow> worker_id \<Rightarrow> bool" where
  "busy p k = pw_busy (p_worker p k)"

definition term_error :: "pool \<Rightarrow> worker_id \<Rightarrow> js_error option" where
  "term_error p k = pw_terminationError (p_worker p k)"

definition current_run :: "pool \<Rightarrow> worker_id \<Rightarrow> (run_id \<times> nat) option" where
  "current_run p k = pw_current (p_worker p k)"

definition listening :: "pool \<Rightarrow> worker_id \<Rightarrow> bool" where
  "listening p k = pw_listening (p_worker p k)"

definition grace :: "pool \<Rightarrow> worker_id \<Rightarrow> bool" where
  "grace p k = pw_grace (p_worker p k)"

definition cleaned :: "pool \<Rightarrow> worker_id \<Rightarrow> bool" where
  "cleaned p k = pw_cleaned (p_worker p k)"

definition granted_runs :: "pool \<Rightarrow> run_id set" where
  "granted_runs p = fst ` set (p_granted p)"

definition granted_workers :: "pool \<Rightarrow> worker_id set" where
  "granted_workers p = snd ` set (p_granted p)"

lemmas worker_fields = busy_def [symmetric] term_error_def [symmetric] current_run_def [symmetric] listening_def [symmetric]
  grace_def [symmetric] cleaned_def [symmetric]

lemma settle_run_sel [simp]:
  "busy (settle_run r v p) = busy p"
  "term_error (settle_run r v p) = term_error p"
  "current_run (settle_run r v p) = current_run p"
  "listening (settle_run r v p) = listening p"
  "grace (settle_run r v p) = grace p"
  "cleaned (settle_run r v p) = cleaned p"
  "p_max (settle_run r v p) = p_max p"
  "p_closed (settle_run r v p) = p_closed p"
  "p_next (settle_run r v p) = p_next p"
  "p_workers (settle_run r v p) = p_workers p"
  "p_waiters (settle_run r v p) = p_waiters p"
  "p_granted (settle_run r v p) = p_granted p"
  "p_invocation (settle_run r v p) = p_invocation p"
  "p_submitted (settle_run r v p) = p_submitted p"
  "p_aborted (settle_run r v p) = p_aborted p"
  "p_sent (settle_run r v p) = p_sent p"
  "p_discarded (settle_run r v p) = p_discarded p"
  by (simp_all add: settle_run_def busy_def term_error_def current_run_def listening_def grace_def cleaned_def fun_eq_iff)

lemma grant_sel [simp]:
  "busy (grant r k p) = (busy p)(k := True)"
  "term_error (grant r k p) = term_error p"
  "current_run (grant r k p) = current_run p"
  "listening (grant r k p) = listening p"
  "grace (grant r k p) = grace p"
  "cleaned (grant r k p) = cleaned p"
  "p_max (grant r k p) = p_max p"
  "p_closed (grant r k p) = p_closed p"
  "p_next (grant r k p) = p_next p"
  "p_workers (grant r k p) = p_workers p"
  "p_waiters (grant r k p) = p_waiters p"
  "p_granted (grant r k p) = p_granted p @ [(r, k)]"
  "p_invocation (grant r k p) = p_invocation p"
  "p_submitted (grant r k p) = p_submitted p"
  "p_aborted (grant r k p) = p_aborted p"
  "p_outcomes (grant r k p) = p_outcomes p"
  "p_sent (grant r k p) = p_sent p"
  "p_discarded (grant r k p) = p_discarded p"
  by (simp_all add: grant_def with_worker_def busy_def term_error_def current_run_def listening_def grace_def cleaned_def fun_eq_iff)

lemma cleanup_sel [simp]:
  "busy (cleanup k p) = busy p"
  "term_error (cleanup k p) = term_error p"
  "current_run (cleanup k p) = (current_run p)(k := None)"
  "listening (cleanup k p) = (listening p)(k := False)"
  "grace (cleanup k p) = (grace p)(k := False)"
  "cleaned (cleanup k p) = cleaned p"
  "p_max (cleanup k p) = p_max p"
  "p_closed (cleanup k p) = p_closed p"
  "p_next (cleanup k p) = p_next p"
  "p_workers (cleanup k p) = p_workers p"
  "p_waiters (cleanup k p) = p_waiters p"
  "p_granted (cleanup k p) = p_granted p"
  "p_invocation (cleanup k p) = p_invocation p"
  "p_submitted (cleanup k p) = p_submitted p"
  "p_aborted (cleanup k p) = p_aborted p"
  "p_outcomes (cleanup k p) = p_outcomes p"
  "p_sent (cleanup k p) = p_sent p"
  "p_discarded (cleanup k p) = p_discarded p"
  by (simp_all add: cleanup_def with_worker_def busy_def term_error_def current_run_def listening_def grace_def cleaned_def fun_eq_iff)

lemma spawn_sel [simp]:
  "busy (spawn p) = (busy p)(p_next p := False)"
  "term_error (spawn p) = (term_error p)(p_next p := None)"
  "current_run (spawn p) = (current_run p)(p_next p := None)"
  "listening (spawn p) = (listening p)(p_next p := False)"
  "grace (spawn p) = (grace p)(p_next p := False)"
  "cleaned (spawn p) = (cleaned p)(p_next p := False)"
  "p_max (spawn p) = p_max p"
  "p_closed (spawn p) = p_closed p"
  "p_next (spawn p) = p_next p + 1"
  "p_workers (spawn p) = p_workers p @ [p_next p]"
  "p_waiters (spawn p) = p_waiters p"
  "p_granted (spawn p) = p_granted p"
  "p_invocation (spawn p) = p_invocation p"
  "p_submitted (spawn p) = p_submitted p"
  "p_aborted (spawn p) = p_aborted p"
  "p_outcomes (spawn p) = p_outcomes p"
  "p_sent (spawn p) = p_sent p"
  "p_discarded (spawn p) = p_discarded p"
  by (simp_all add: spawn_def busy_def term_error_def current_run_def listening_def grace_def cleaned_def fun_eq_iff)

lemma terminate_sel [simp]:
  "busy (terminate k e p) = busy p"
  "term_error (terminate k e p) = (term_error p)(k := Some e)"
  "current_run (terminate k e p) = current_run p"
  "listening (terminate k e p) = listening p"
  "grace (terminate k e p) = grace p"
  "cleaned (terminate k e p) = cleaned p"
  "p_max (terminate k e p) = p_max p"
  "p_closed (terminate k e p) = p_closed p"
  "p_next (terminate k e p) = p_next p"
  "p_workers (terminate k e p) = p_workers p"
  "p_waiters (terminate k e p) = p_waiters p"
  "p_granted (terminate k e p) = p_granted p"
  "p_invocation (terminate k e p) = p_invocation p"
  "p_submitted (terminate k e p) = p_submitted p"
  "p_aborted (terminate k e p) = p_aborted p"
  "p_outcomes (terminate k e p) = p_outcomes p"
  "p_sent (terminate k e p) = p_sent p"
  "p_discarded (terminate k e p) = p_discarded p"
  by (simp_all add: terminate_def with_worker_def busy_def term_error_def current_run_def listening_def grace_def cleaned_def fun_eq_iff)

lemma idle_sel [simp]:
  "busy (with_worker k (\<lambda>w. w\<lparr>pw_busy := False\<rparr>) p) = (busy p)(k := False)"
  "term_error (with_worker k (\<lambda>w. w\<lparr>pw_busy := False\<rparr>) p) = term_error p"
  "current_run (with_worker k (\<lambda>w. w\<lparr>pw_busy := False\<rparr>) p) = current_run p"
  "listening (with_worker k (\<lambda>w. w\<lparr>pw_busy := False\<rparr>) p) = listening p"
  "grace (with_worker k (\<lambda>w. w\<lparr>pw_busy := False\<rparr>) p) = grace p"
  "cleaned (with_worker k (\<lambda>w. w\<lparr>pw_busy := False\<rparr>) p) = cleaned p"
  "p_max (with_worker k (\<lambda>w. w\<lparr>pw_busy := False\<rparr>) p) = p_max p"
  "p_closed (with_worker k (\<lambda>w. w\<lparr>pw_busy := False\<rparr>) p) = p_closed p"
  "p_next (with_worker k (\<lambda>w. w\<lparr>pw_busy := False\<rparr>) p) = p_next p"
  "p_workers (with_worker k (\<lambda>w. w\<lparr>pw_busy := False\<rparr>) p) = p_workers p"
  "p_waiters (with_worker k (\<lambda>w. w\<lparr>pw_busy := False\<rparr>) p) = p_waiters p"
  "p_granted (with_worker k (\<lambda>w. w\<lparr>pw_busy := False\<rparr>) p) = p_granted p"
  "p_invocation (with_worker k (\<lambda>w. w\<lparr>pw_busy := False\<rparr>) p) = p_invocation p"
  "p_submitted (with_worker k (\<lambda>w. w\<lparr>pw_busy := False\<rparr>) p) = p_submitted p"
  "p_aborted (with_worker k (\<lambda>w. w\<lparr>pw_busy := False\<rparr>) p) = p_aborted p"
  "p_outcomes (with_worker k (\<lambda>w. w\<lparr>pw_busy := False\<rparr>) p) = p_outcomes p"
  "p_sent (with_worker k (\<lambda>w. w\<lparr>pw_busy := False\<rparr>) p) = p_sent p"
  "p_discarded (with_worker k (\<lambda>w. w\<lparr>pw_busy := False\<rparr>) p) = p_discarded p"
  by (simp_all add: with_worker_def busy_def term_error_def current_run_def listening_def grace_def cleaned_def fun_eq_iff)

lemma ungrace_sel [simp]:
  "busy (with_worker k (\<lambda>w. w\<lparr>pw_grace := False\<rparr>) p) = busy p"
  "term_error (with_worker k (\<lambda>w. w\<lparr>pw_grace := False\<rparr>) p) = term_error p"
  "current_run (with_worker k (\<lambda>w. w\<lparr>pw_grace := False\<rparr>) p) = current_run p"
  "listening (with_worker k (\<lambda>w. w\<lparr>pw_grace := False\<rparr>) p) = listening p"
  "grace (with_worker k (\<lambda>w. w\<lparr>pw_grace := False\<rparr>) p) = (grace p)(k := False)"
  "cleaned (with_worker k (\<lambda>w. w\<lparr>pw_grace := False\<rparr>) p) = cleaned p"
  "p_max (with_worker k (\<lambda>w. w\<lparr>pw_grace := False\<rparr>) p) = p_max p"
  "p_closed (with_worker k (\<lambda>w. w\<lparr>pw_grace := False\<rparr>) p) = p_closed p"
  "p_next (with_worker k (\<lambda>w. w\<lparr>pw_grace := False\<rparr>) p) = p_next p"
  "p_workers (with_worker k (\<lambda>w. w\<lparr>pw_grace := False\<rparr>) p) = p_workers p"
  "p_waiters (with_worker k (\<lambda>w. w\<lparr>pw_grace := False\<rparr>) p) = p_waiters p"
  "p_granted (with_worker k (\<lambda>w. w\<lparr>pw_grace := False\<rparr>) p) = p_granted p"
  "p_invocation (with_worker k (\<lambda>w. w\<lparr>pw_grace := False\<rparr>) p) = p_invocation p"
  "p_submitted (with_worker k (\<lambda>w. w\<lparr>pw_grace := False\<rparr>) p) = p_submitted p"
  "p_aborted (with_worker k (\<lambda>w. w\<lparr>pw_grace := False\<rparr>) p) = p_aborted p"
  "p_outcomes (with_worker k (\<lambda>w. w\<lparr>pw_grace := False\<rparr>) p) = p_outcomes p"
  "p_sent (with_worker k (\<lambda>w. w\<lparr>pw_grace := False\<rparr>) p) = p_sent p"
  "p_discarded (with_worker k (\<lambda>w. w\<lparr>pw_grace := False\<rparr>) p) = p_discarded p"
  by (simp_all add: with_worker_def busy_def term_error_def current_run_def listening_def grace_def cleaned_def fun_eq_iff)

lemma clean_sel [simp]:
  "busy (with_worker k (\<lambda>w. w\<lparr>pw_cleaned := True\<rparr>) p) = busy p"
  "term_error (with_worker k (\<lambda>w. w\<lparr>pw_cleaned := True\<rparr>) p) = term_error p"
  "current_run (with_worker k (\<lambda>w. w\<lparr>pw_cleaned := True\<rparr>) p) = current_run p"
  "listening (with_worker k (\<lambda>w. w\<lparr>pw_cleaned := True\<rparr>) p) = listening p"
  "grace (with_worker k (\<lambda>w. w\<lparr>pw_cleaned := True\<rparr>) p) = grace p"
  "cleaned (with_worker k (\<lambda>w. w\<lparr>pw_cleaned := True\<rparr>) p) = (cleaned p)(k := True)"
  "p_max (with_worker k (\<lambda>w. w\<lparr>pw_cleaned := True\<rparr>) p) = p_max p"
  "p_closed (with_worker k (\<lambda>w. w\<lparr>pw_cleaned := True\<rparr>) p) = p_closed p"
  "p_next (with_worker k (\<lambda>w. w\<lparr>pw_cleaned := True\<rparr>) p) = p_next p"
  "p_workers (with_worker k (\<lambda>w. w\<lparr>pw_cleaned := True\<rparr>) p) = p_workers p"
  "p_waiters (with_worker k (\<lambda>w. w\<lparr>pw_cleaned := True\<rparr>) p) = p_waiters p"
  "p_granted (with_worker k (\<lambda>w. w\<lparr>pw_cleaned := True\<rparr>) p) = p_granted p"
  "p_invocation (with_worker k (\<lambda>w. w\<lparr>pw_cleaned := True\<rparr>) p) = p_invocation p"
  "p_submitted (with_worker k (\<lambda>w. w\<lparr>pw_cleaned := True\<rparr>) p) = p_submitted p"
  "p_aborted (with_worker k (\<lambda>w. w\<lparr>pw_cleaned := True\<rparr>) p) = p_aborted p"
  "p_outcomes (with_worker k (\<lambda>w. w\<lparr>pw_cleaned := True\<rparr>) p) = p_outcomes p"
  "p_sent (with_worker k (\<lambda>w. w\<lparr>pw_cleaned := True\<rparr>) p) = p_sent p"
  "p_discarded (with_worker k (\<lambda>w. w\<lparr>pw_cleaned := True\<rparr>) p) = p_discarded p"
  by (simp_all add: with_worker_def busy_def term_error_def current_run_def listening_def grace_def cleaned_def fun_eq_iff)

lemma set_current_sel [simp]:
  "busy (with_worker k (\<lambda>w. w\<lparr>pw_current := c\<rparr>) p) = busy p"
  "term_error (with_worker k (\<lambda>w. w\<lparr>pw_current := c\<rparr>) p) = term_error p"
  "current_run (with_worker k (\<lambda>w. w\<lparr>pw_current := c\<rparr>) p) = (current_run p)(k := c)"
  "listening (with_worker k (\<lambda>w. w\<lparr>pw_current := c\<rparr>) p) = listening p"
  "grace (with_worker k (\<lambda>w. w\<lparr>pw_current := c\<rparr>) p) = grace p"
  "cleaned (with_worker k (\<lambda>w. w\<lparr>pw_current := c\<rparr>) p) = cleaned p"
  "p_max (with_worker k (\<lambda>w. w\<lparr>pw_current := c\<rparr>) p) = p_max p"
  "p_closed (with_worker k (\<lambda>w. w\<lparr>pw_current := c\<rparr>) p) = p_closed p"
  "p_next (with_worker k (\<lambda>w. w\<lparr>pw_current := c\<rparr>) p) = p_next p"
  "p_workers (with_worker k (\<lambda>w. w\<lparr>pw_current := c\<rparr>) p) = p_workers p"
  "p_waiters (with_worker k (\<lambda>w. w\<lparr>pw_current := c\<rparr>) p) = p_waiters p"
  "p_granted (with_worker k (\<lambda>w. w\<lparr>pw_current := c\<rparr>) p) = p_granted p"
  "p_invocation (with_worker k (\<lambda>w. w\<lparr>pw_current := c\<rparr>) p) = p_invocation p"
  "p_submitted (with_worker k (\<lambda>w. w\<lparr>pw_current := c\<rparr>) p) = p_submitted p"
  "p_aborted (with_worker k (\<lambda>w. w\<lparr>pw_current := c\<rparr>) p) = p_aborted p"
  "p_outcomes (with_worker k (\<lambda>w. w\<lparr>pw_current := c\<rparr>) p) = p_outcomes p"
  "p_sent (with_worker k (\<lambda>w. w\<lparr>pw_current := c\<rparr>) p) = p_sent p"
  "p_discarded (with_worker k (\<lambda>w. w\<lparr>pw_current := c\<rparr>) p) = p_discarded p"
  by (simp_all add: with_worker_def busy_def term_error_def current_run_def listening_def grace_def cleaned_def fun_eq_iff)

lemma listen_sel [simp]:
  "busy (with_worker k (\<lambda>w. w\<lparr>pw_listening := True\<rparr>) p) = busy p"
  "term_error (with_worker k (\<lambda>w. w\<lparr>pw_listening := True\<rparr>) p) = term_error p"
  "current_run (with_worker k (\<lambda>w. w\<lparr>pw_listening := True\<rparr>) p) = current_run p"
  "listening (with_worker k (\<lambda>w. w\<lparr>pw_listening := True\<rparr>) p) = (listening p)(k := True)"
  "grace (with_worker k (\<lambda>w. w\<lparr>pw_listening := True\<rparr>) p) = grace p"
  "cleaned (with_worker k (\<lambda>w. w\<lparr>pw_listening := True\<rparr>) p) = cleaned p"
  "p_max (with_worker k (\<lambda>w. w\<lparr>pw_listening := True\<rparr>) p) = p_max p"
  "p_closed (with_worker k (\<lambda>w. w\<lparr>pw_listening := True\<rparr>) p) = p_closed p"
  "p_next (with_worker k (\<lambda>w. w\<lparr>pw_listening := True\<rparr>) p) = p_next p"
  "p_workers (with_worker k (\<lambda>w. w\<lparr>pw_listening := True\<rparr>) p) = p_workers p"
  "p_waiters (with_worker k (\<lambda>w. w\<lparr>pw_listening := True\<rparr>) p) = p_waiters p"
  "p_granted (with_worker k (\<lambda>w. w\<lparr>pw_listening := True\<rparr>) p) = p_granted p"
  "p_invocation (with_worker k (\<lambda>w. w\<lparr>pw_listening := True\<rparr>) p) = p_invocation p"
  "p_submitted (with_worker k (\<lambda>w. w\<lparr>pw_listening := True\<rparr>) p) = p_submitted p"
  "p_aborted (with_worker k (\<lambda>w. w\<lparr>pw_listening := True\<rparr>) p) = p_aborted p"
  "p_outcomes (with_worker k (\<lambda>w. w\<lparr>pw_listening := True\<rparr>) p) = p_outcomes p"
  "p_sent (with_worker k (\<lambda>w. w\<lparr>pw_listening := True\<rparr>) p) = p_sent p"
  "p_discarded (with_worker k (\<lambda>w. w\<lparr>pw_listening := True\<rparr>) p) = p_discarded p"
  by (simp_all add: with_worker_def busy_def term_error_def current_run_def listening_def grace_def cleaned_def fun_eq_iff)

lemma alarm_sel [simp]:
  "busy (with_worker k (\<lambda>w. w\<lparr>pw_listening := False, pw_grace := True\<rparr>) p) = busy p"
  "term_error (with_worker k (\<lambda>w. w\<lparr>pw_listening := False, pw_grace := True\<rparr>) p) = term_error p"
  "current_run (with_worker k (\<lambda>w. w\<lparr>pw_listening := False, pw_grace := True\<rparr>) p) = current_run p"
  "listening (with_worker k (\<lambda>w. w\<lparr>pw_listening := False, pw_grace := True\<rparr>) p) = (listening p)(k := False)"
  "grace (with_worker k (\<lambda>w. w\<lparr>pw_listening := False, pw_grace := True\<rparr>) p) = (grace p)(k := True)"
  "cleaned (with_worker k (\<lambda>w. w\<lparr>pw_listening := False, pw_grace := True\<rparr>) p) = cleaned p"
  "p_max (with_worker k (\<lambda>w. w\<lparr>pw_listening := False, pw_grace := True\<rparr>) p) = p_max p"
  "p_closed (with_worker k (\<lambda>w. w\<lparr>pw_listening := False, pw_grace := True\<rparr>) p) = p_closed p"
  "p_next (with_worker k (\<lambda>w. w\<lparr>pw_listening := False, pw_grace := True\<rparr>) p) = p_next p"
  "p_workers (with_worker k (\<lambda>w. w\<lparr>pw_listening := False, pw_grace := True\<rparr>) p) = p_workers p"
  "p_waiters (with_worker k (\<lambda>w. w\<lparr>pw_listening := False, pw_grace := True\<rparr>) p) = p_waiters p"
  "p_granted (with_worker k (\<lambda>w. w\<lparr>pw_listening := False, pw_grace := True\<rparr>) p) = p_granted p"
  "p_invocation (with_worker k (\<lambda>w. w\<lparr>pw_listening := False, pw_grace := True\<rparr>) p) = p_invocation p"
  "p_submitted (with_worker k (\<lambda>w. w\<lparr>pw_listening := False, pw_grace := True\<rparr>) p) = p_submitted p"
  "p_aborted (with_worker k (\<lambda>w. w\<lparr>pw_listening := False, pw_grace := True\<rparr>) p) = p_aborted p"
  "p_outcomes (with_worker k (\<lambda>w. w\<lparr>pw_listening := False, pw_grace := True\<rparr>) p) = p_outcomes p"
  "p_sent (with_worker k (\<lambda>w. w\<lparr>pw_listening := False, pw_grace := True\<rparr>) p) = p_sent p"
  "p_discarded (with_worker k (\<lambda>w. w\<lparr>pw_listening := False, pw_grace := True\<rparr>) p) = p_discarded p"
  by (simp_all add: with_worker_def busy_def term_error_def current_run_def listening_def grace_def cleaned_def fun_eq_iff)

lemma p_granted_update_sel [simp]:
  "busy (p_granted_update g0 p) = busy p"
  "term_error (p_granted_update g0 p) = term_error p"
  "current_run (p_granted_update g0 p) = current_run p"
  "listening (p_granted_update g0 p) = listening p"
  "grace (p_granted_update g0 p) = grace p"
  "cleaned (p_granted_update g0 p) = cleaned p"
  by (simp_all add: busy_def term_error_def current_run_def listening_def grace_def cleaned_def fun_eq_iff)

lemma p_waiters_update_sel [simp]:
  "busy (p_waiters_update g1 p) = busy p"
  "term_error (p_waiters_update g1 p) = term_error p"
  "current_run (p_waiters_update g1 p) = current_run p"
  "listening (p_waiters_update g1 p) = listening p"
  "grace (p_waiters_update g1 p) = grace p"
  "cleaned (p_waiters_update g1 p) = cleaned p"
  by (simp_all add: busy_def term_error_def current_run_def listening_def grace_def cleaned_def fun_eq_iff)

lemma p_workers_update_sel [simp]:
  "busy (p_workers_update g7 p) = busy p"
  "term_error (p_workers_update g7 p) = term_error p"
  "current_run (p_workers_update g7 p) = current_run p"
  "listening (p_workers_update g7 p) = listening p"
  "grace (p_workers_update g7 p) = grace p"
  "cleaned (p_workers_update g7 p) = cleaned p"
  by (simp_all add: busy_def term_error_def current_run_def listening_def grace_def cleaned_def fun_eq_iff)

lemma p_submitted_update_sel [simp]:
  "busy (p_submitted_update g2 p) = busy p"
  "term_error (p_submitted_update g2 p) = term_error p"
  "current_run (p_submitted_update g2 p) = current_run p"
  "listening (p_submitted_update g2 p) = listening p"
  "grace (p_submitted_update g2 p) = grace p"
  "cleaned (p_submitted_update g2 p) = cleaned p"
  by (simp_all add: busy_def term_error_def current_run_def listening_def grace_def cleaned_def fun_eq_iff)

lemma p_aborted_update_sel [simp]:
  "busy (p_aborted_update g3 p) = busy p"
  "term_error (p_aborted_update g3 p) = term_error p"
  "current_run (p_aborted_update g3 p) = current_run p"
  "listening (p_aborted_update g3 p) = listening p"
  "grace (p_aborted_update g3 p) = grace p"
  "cleaned (p_aborted_update g3 p) = cleaned p"
  by (simp_all add: busy_def term_error_def current_run_def listening_def grace_def cleaned_def fun_eq_iff)

lemma p_outcomes_update_sel [simp]:
  "busy (p_outcomes_update g p) = busy p"
  "term_error (p_outcomes_update g p) = term_error p"
  "current_run (p_outcomes_update g p) = current_run p"
  "listening (p_outcomes_update g p) = listening p"
  "grace (p_outcomes_update g p) = grace p"
  "cleaned (p_outcomes_update g p) = cleaned p"
  by (simp_all add: busy_def term_error_def current_run_def listening_def grace_def cleaned_def fun_eq_iff)

lemma p_sent_update_sel [simp]:
  "busy (p_sent_update g4 p) = busy p"
  "term_error (p_sent_update g4 p) = term_error p"
  "current_run (p_sent_update g4 p) = current_run p"
  "listening (p_sent_update g4 p) = listening p"
  "grace (p_sent_update g4 p) = grace p"
  "cleaned (p_sent_update g4 p) = cleaned p"
  by (simp_all add: busy_def term_error_def current_run_def listening_def grace_def cleaned_def fun_eq_iff)

lemma p_discarded_update_sel [simp]:
  "busy (p_discarded_update g5 p) = busy p"
  "term_error (p_discarded_update g5 p) = term_error p"
  "current_run (p_discarded_update g5 p) = current_run p"
  "listening (p_discarded_update g5 p) = listening p"
  "grace (p_discarded_update g5 p) = grace p"
  "cleaned (p_discarded_update g5 p) = cleaned p"
  by (simp_all add: busy_def term_error_def current_run_def listening_def grace_def cleaned_def fun_eq_iff)

lemma p_closed_update_sel [simp]:
  "busy (p_closed_update g8 p) = busy p"
  "term_error (p_closed_update g8 p) = term_error p"
  "current_run (p_closed_update g8 p) = current_run p"
  "listening (p_closed_update g8 p) = listening p"
  "grace (p_closed_update g8 p) = grace p"
  "cleaned (p_closed_update g8 p) = cleaned p"
  by (simp_all add: busy_def term_error_def current_run_def listening_def grace_def cleaned_def fun_eq_iff)

lemma p_invocation_update_sel [simp]:
  "busy (p_invocation_update g6 p) = busy p"
  "term_error (p_invocation_update g6 p) = term_error p"
  "current_run (p_invocation_update g6 p) = current_run p"
  "listening (p_invocation_update g6 p) = listening p"
  "grace (p_invocation_update g6 p) = grace p"
  "cleaned (p_invocation_update g6 p) = cleaned p"
  by (simp_all add: busy_def term_error_def current_run_def listening_def grace_def cleaned_def fun_eq_iff)

lemma settle_run_has [simp]: "jm_has (p_outcomes (settle_run r v p)) r' \<longleftrightarrow> r' = r \<or> jm_has (p_outcomes p) r'"
  by (auto simp: settle_run_def jm_has_iff)

lemma granted_sel [simp]:
  "granted_runs (grant r k p) = insert r (granted_runs p)" "granted_workers (grant r k p) = insert k (granted_workers p)"
  "granted_runs (p\<lparr>p_granted := g\<rparr>) = fst ` set g" "granted_workers (p\<lparr>p_granted := g\<rparr>) = snd ` set g"
  "granted_runs (settle_run r v p) = granted_runs p" "granted_workers (settle_run r v p) = granted_workers p"
  "granted_runs (cleanup k p) = granted_runs p" "granted_workers (cleanup k p) = granted_workers p"
  "granted_runs (spawn p) = granted_runs p" "granted_workers (spawn p) = granted_workers p"
  "granted_runs (terminate k e p) = granted_runs p" "granted_workers (terminate k e p) = granted_workers p"
  "granted_runs (with_worker k f p) = granted_runs p" "granted_workers (with_worker k f p) = granted_workers p"
  "granted_runs (p_waiters_update g1 p) = granted_runs p" "granted_workers (p_waiters_update g1 p) = granted_workers p"
  "granted_runs (p_submitted_update g2 p) = granted_runs p" "granted_workers (p_submitted_update g2 p) = granted_workers p"
  "granted_runs (p_aborted_update g3 p) = granted_runs p" "granted_workers (p_aborted_update g3 p) = granted_workers p"
  "granted_runs (p_sent_update g4 p) = granted_runs p" "granted_workers (p_sent_update g4 p) = granted_workers p"
  "granted_runs (p_discarded_update g5 p) = granted_runs p" "granted_workers (p_discarded_update g5 p) = granted_workers p"
  "granted_runs (p_invocation_update g6 p) = granted_runs p" "granted_workers (p_invocation_update g6 p) = granted_workers p"
  "granted_runs (p_workers_update g7 p) = granted_runs p" "granted_workers (p_workers_update g7 p) = granted_workers p"
  "granted_runs (p_closed_update g8 p) = granted_runs p" "granted_workers (p_closed_update g8 p) = granted_workers p"
  "granted_runs (p_outcomes_update g9 p) = granted_runs p" "granted_workers (p_outcomes_update g9 p) = granted_workers p"
  by (auto simp: granted_runs_def granted_workers_def with_worker_def)

section \<open>The invariants\<close>

text \<open>
  An operation takes runs and workers out of the pool before it puts them back: \<open>R\<close> are the runs in
  its hands, \<open>K\<close> the workers, and \<open>d\<close> the slots it has to fill again.
\<close>

definition slots_ok :: "worker_id set \<Rightarrow> nat \<Rightarrow> pool \<Rightarrow> bool" where
  "slots_ok K d p \<longleftrightarrow> distinct (p_workers p) \<and>
     (\<forall>k \<in> set (p_workers p). k < p_next p \<and> \<not> cleaned p k) \<and>
     length (p_workers p) + d \<le> p_max p \<and>
     (p_waiters p \<noteq> [] \<longrightarrow> \<not> p_closed p \<and> length (p_workers p) + d = p_max p \<and>
        (\<forall>k \<in> set (p_workers p). k \<notin> K \<longrightarrow> busy p k))"

definition present_ok :: "pool \<Rightarrow> bool" where
  "present_ok p \<longleftrightarrow> (\<forall>k < p_next p. \<not> cleaned p k \<longrightarrow> p_closed p \<or> k \<in> set (p_workers p))"

definition grants_ok :: "worker_id set \<Rightarrow> pool \<Rightarrow> bool" where
  "grants_ok K p \<longleftrightarrow> distinct (map snd (p_granted p)) \<and>
     (\<forall>k \<in> granted_workers p. k \<notin> K \<and> k \<in> set (p_workers p) \<and> busy p k \<and> current_run p k = None \<and>
        term_error p k = None)"

definition current_ok :: "pool \<Rightarrow> bool" where
  "current_ok p \<longleftrightarrow>
     (\<forall>k r i. current_run p k = Some (r, i) \<longrightarrow> busy p k \<and> \<not> cleaned p k \<and> k < p_next p \<and> i \<le> p_invocation p) \<and>
     (\<forall>k. current_run p k = None \<longrightarrow> \<not> listening p k \<and> \<not> grace p k)"

definition busy_ok :: "worker_id set \<Rightarrow> pool \<Rightarrow> bool" where
  "busy_ok K p \<longleftrightarrow> (\<forall>k \<in> set (p_workers p). k \<notin> K \<longrightarrow> k \<notin> granted_workers p \<longrightarrow> current_run p k = None \<longrightarrow>
     term_error p k = None \<longrightarrow> \<not> busy p k)"

text \<open>The runs on a worker.\<close>

definition running_of :: "(worker_id \<Rightarrow> (run_id \<times> nat) option) \<Rightarrow> run_id set" where
  "running_of c = {r. \<exists>k i. c k = Some (r, i)}"

abbreviation running :: "pool \<Rightarrow> run_id set" where
  "running p \<equiv> running_of (current_run p)"

definition term_ok :: "pool \<Rightarrow> bool" where
  "term_ok p \<longleftrightarrow> (\<forall>k. term_error p k \<noteq> None \<longrightarrow> busy p k)"

definition runs_ok :: "pool \<Rightarrow> bool" where
  "runs_ok p \<longleftrightarrow> distinct (p_waiters p) \<and> distinct (map fst (p_granted p)) \<and>
     (\<forall>r \<in> set (p_waiters p). r \<notin> granted_runs p) \<and>
     (\<forall>r \<in> running p. r \<notin> set (p_waiters p) \<and> r \<notin> granted_runs p)"

definition single_ok :: "pool \<Rightarrow> bool" where
  "single_ok p \<longleftrightarrow> (\<forall>k k' r r' i i'. current_run p k = Some (r, i) \<longrightarrow> current_run p k' = Some (r', i') \<longrightarrow> r = r' \<or> i = i' \<longrightarrow> k = k')"

text \<open>A worker that may be given a run.\<close>

definition vacant :: "worker_id \<Rightarrow> pool \<Rightarrow> bool" where
  "vacant k p \<longleftrightarrow> k \<in> set (p_workers p) \<and> k \<notin> granted_workers p \<and> current_run p k = None \<and> term_error p k = None"

definition settled :: "pool \<Rightarrow> run_id \<Rightarrow> bool" where
  "settled p r = jm_has (p_outcomes p) r"

definition life_ok :: "bool \<Rightarrow> run_id set \<Rightarrow> pool \<Rightarrow> bool" where
  "life_ok ok R p \<longleftrightarrow>
     (\<forall>r \<in> set (p_submitted p). r \<notin> R \<longrightarrow> settled p r \<or> r \<in> set (p_waiters p) \<or> r \<in> granted_runs p \<or>
        r \<in> running p) \<and>
     (\<forall>r. r \<in> set (p_waiters p) \<or> r \<in> granted_runs p \<longrightarrow> r \<in> set (p_submitted p) \<and> r \<notin> R \<and> \<not> settled p r) \<and>
     (\<forall>r \<in> running p. r \<in> set (p_submitted p) \<and> r \<notin> R \<and> (ok \<longrightarrow> \<not> settled p r)) \<and>
     (\<forall>r. settled p r \<longrightarrow> r \<in> set (p_submitted p)) \<and>
     R \<subseteq> set (p_submitted p)"

definition pool_inv :: "bool \<Rightarrow> run_id set \<Rightarrow> worker_id set \<Rightarrow> nat \<Rightarrow> pool \<Rightarrow> bool" where
  "pool_inv ok R K d p \<longleftrightarrow> slots_ok K d p \<and> present_ok p \<and> grants_ok K p \<and> current_ok p \<and> busy_ok K p \<and> term_ok p \<and> runs_ok p \<and> single_ok p \<and> life_ok ok R p"

abbreviation pool_ok :: "bool \<Rightarrow> pool \<Rightarrow> bool" where
  "pool_ok ok \<equiv> pool_inv ok {} {} 0"

lemma settled_sel [simp]:
  "settled (settle_run r v p) r' \<longleftrightarrow> r' = r \<or> settled p r'" "settled (grant r k p) = settled p"
  "settled (cleanup k p) = settled p" "settled (spawn p) = settled p" "settled (terminate k e p) = settled p"
  "settled (with_worker k f p) = settled p" "settled (p_granted_update g1 p) = settled p"
  "settled (p_waiters_update g2 p) = settled p" "settled (p_workers_update g3 p) = settled p"
  "settled (p_submitted_update g4 p) = settled p" "settled (p_aborted_update g5 p) = settled p"
  "settled (p_sent_update g6 p) = settled p" "settled (p_discarded_update g7 p) = settled p"
  "settled (p_closed_update g8 p) = settled p" "settled (p_invocation_update g9 p) = settled p"
  by (simp_all add: settled_def fun_eq_iff with_worker_def)

lemmas pool_parts = pool_inv_def slots_ok_def present_ok_def grants_ok_def current_ok_def busy_ok_def term_ok_def runs_ok_def
  single_ok_def life_ok_def

text \<open>Each part of the invariant reads a few fields; the other updates leave it alone.\<close>

lemma slots_ok_frame [simp]:
  "slots_ok K d (settle_run r v p) = slots_ok K d p"
  "slots_ok K d (p_granted_update g0 p) = slots_ok K d p"
  "slots_ok K d (p_submitted_update g2 p) = slots_ok K d p"
  "slots_ok K d (p_aborted_update g3 p) = slots_ok K d p"
  "slots_ok K d (p_sent_update g4 p) = slots_ok K d p"
  "slots_ok K d (p_discarded_update g5 p) = slots_ok K d p"
  "slots_ok K d (p_invocation_update g6 p) = slots_ok K d p"
  "slots_ok K d (with_worker k (\<lambda>w. w\<lparr>pw_current := c\<rparr>) p) = slots_ok K d p"
  "slots_ok K d (with_worker k (\<lambda>w. w\<lparr>pw_listening := True\<rparr>) p) = slots_ok K d p"
  "slots_ok K d (with_worker k (\<lambda>w. w\<lparr>pw_grace := False\<rparr>) p) = slots_ok K d p"
  "slots_ok K d (with_worker k (\<lambda>w. w\<lparr>pw_listening := False, pw_grace := True\<rparr>) p) = slots_ok K d p"
  "slots_ok K d (terminate k e p) = slots_ok K d p"
  "slots_ok K d (cleanup k p) = slots_ok K d p"
  by (simp_all add: slots_ok_def)

lemma present_ok_frame [simp]:
  "present_ok (settle_run r v p) = present_ok p"
  "present_ok (grant r k p) = present_ok p"
  "present_ok (p_granted_update g0 p) = present_ok p"
  "present_ok (p_waiters_update g1 p) = present_ok p"
  "present_ok (p_submitted_update g2 p) = present_ok p"
  "present_ok (p_aborted_update g3 p) = present_ok p"
  "present_ok (p_sent_update g4 p) = present_ok p"
  "present_ok (p_discarded_update g5 p) = present_ok p"
  "present_ok (p_invocation_update g6 p) = present_ok p"
  "present_ok (with_worker k (\<lambda>w. w\<lparr>pw_current := c\<rparr>) p) = present_ok p"
  "present_ok (with_worker k (\<lambda>w. w\<lparr>pw_busy := False\<rparr>) p) = present_ok p"
  "present_ok (with_worker k (\<lambda>w. w\<lparr>pw_listening := True\<rparr>) p) = present_ok p"
  "present_ok (with_worker k (\<lambda>w. w\<lparr>pw_grace := False\<rparr>) p) = present_ok p"
  "present_ok (with_worker k (\<lambda>w. w\<lparr>pw_listening := False, pw_grace := True\<rparr>) p) = present_ok p"
  "present_ok (terminate k e p) = present_ok p"
  "present_ok (cleanup k p) = present_ok p"
  by (simp_all add: present_ok_def)

lemma grants_ok_frame [simp]:
  "grants_ok K (settle_run r v p) = grants_ok K p"
  "grants_ok K (p_waiters_update g1 p) = grants_ok K p"
  "grants_ok K (p_submitted_update g2 p) = grants_ok K p"
  "grants_ok K (p_aborted_update g3 p) = grants_ok K p"
  "grants_ok K (p_sent_update g4 p) = grants_ok K p"
  "grants_ok K (p_discarded_update g5 p) = grants_ok K p"
  "grants_ok K (p_invocation_update g6 p) = grants_ok K p"
  "grants_ok K (with_worker k (\<lambda>w. w\<lparr>pw_listening := True\<rparr>) p) = grants_ok K p"
  "grants_ok K (with_worker k (\<lambda>w. w\<lparr>pw_grace := False\<rparr>) p) = grants_ok K p"
  "grants_ok K (with_worker k (\<lambda>w. w\<lparr>pw_listening := False, pw_grace := True\<rparr>) p) = grants_ok K p"
  "grants_ok K (with_worker k (\<lambda>w. w\<lparr>pw_cleaned := True\<rparr>) p) = grants_ok K p"
  "grants_ok K (p_closed_update g8 p) = grants_ok K p"
  by (simp_all add: grants_ok_def)

lemma current_ok_frame [simp]:
  "current_ok (settle_run r v p) = current_ok p"
  "current_ok (p_granted_update g0 p) = current_ok p"
  "current_ok (p_waiters_update g1 p) = current_ok p"
  "current_ok (p_submitted_update g2 p) = current_ok p"
  "current_ok (p_aborted_update g3 p) = current_ok p"
  "current_ok (p_sent_update g4 p) = current_ok p"
  "current_ok (p_discarded_update g5 p) = current_ok p"
  "current_ok (p_workers_update g7 p) = current_ok p"
  "current_ok (p_closed_update g8 p) = current_ok p"
  "current_ok (terminate k e p) = current_ok p"
  by (simp_all add: current_ok_def)

lemma busy_ok_frame [simp]:
  "busy_ok K (settle_run r v p) = busy_ok K p"
  "busy_ok K (p_waiters_update g1 p) = busy_ok K p"
  "busy_ok K (p_submitted_update g2 p) = busy_ok K p"
  "busy_ok K (p_aborted_update g3 p) = busy_ok K p"
  "busy_ok K (p_sent_update g4 p) = busy_ok K p"
  "busy_ok K (p_discarded_update g5 p) = busy_ok K p"
  "busy_ok K (p_invocation_update g6 p) = busy_ok K p"
  "busy_ok K (with_worker k (\<lambda>w. w\<lparr>pw_listening := True\<rparr>) p) = busy_ok K p"
  "busy_ok K (with_worker k (\<lambda>w. w\<lparr>pw_grace := False\<rparr>) p) = busy_ok K p"
  "busy_ok K (with_worker k (\<lambda>w. w\<lparr>pw_listening := False, pw_grace := True\<rparr>) p) = busy_ok K p"
  "busy_ok K (with_worker k (\<lambda>w. w\<lparr>pw_cleaned := True\<rparr>) p) = busy_ok K p"
  "busy_ok K (p_closed_update g8 p) = busy_ok K p"
  by (simp_all add: busy_ok_def)

lemma term_ok_frame [simp]:
  "term_ok (settle_run r v p) = term_ok p"
  "term_ok (p_granted_update g0 p) = term_ok p"
  "term_ok (p_waiters_update g1 p) = term_ok p"
  "term_ok (p_submitted_update g2 p) = term_ok p"
  "term_ok (p_aborted_update g3 p) = term_ok p"
  "term_ok (p_sent_update g4 p) = term_ok p"
  "term_ok (p_discarded_update g5 p) = term_ok p"
  "term_ok (p_workers_update g7 p) = term_ok p"
  "term_ok (p_closed_update g8 p) = term_ok p"
  "term_ok (p_invocation_update g6 p) = term_ok p"
  "term_ok (with_worker k (\<lambda>w. w\<lparr>pw_listening := True\<rparr>) p) = term_ok p"
  "term_ok (with_worker k (\<lambda>w. w\<lparr>pw_grace := False\<rparr>) p) = term_ok p"
  "term_ok (with_worker k (\<lambda>w. w\<lparr>pw_listening := False, pw_grace := True\<rparr>) p) = term_ok p"
  "term_ok (with_worker k (\<lambda>w. w\<lparr>pw_cleaned := True\<rparr>) p) = term_ok p"
  "term_ok (with_worker k (\<lambda>w. w\<lparr>pw_current := c\<rparr>) p) = term_ok p"
  "term_ok (cleanup k p) = term_ok p"
  by (simp_all add: term_ok_def)

lemma runs_ok_frame [simp]:
  "runs_ok (settle_run r v p) = runs_ok p"
  "runs_ok (p_submitted_update g2 p) = runs_ok p"
  "runs_ok (p_aborted_update g3 p) = runs_ok p"
  "runs_ok (p_sent_update g4 p) = runs_ok p"
  "runs_ok (p_discarded_update g5 p) = runs_ok p"
  "runs_ok (p_workers_update g7 p) = runs_ok p"
  "runs_ok (p_closed_update g8 p) = runs_ok p"
  "runs_ok (p_invocation_update g6 p) = runs_ok p"
  "runs_ok (with_worker k (\<lambda>w. w\<lparr>pw_busy := False\<rparr>) p) = runs_ok p"
  "runs_ok (with_worker k (\<lambda>w. w\<lparr>pw_listening := True\<rparr>) p) = runs_ok p"
  "runs_ok (with_worker k (\<lambda>w. w\<lparr>pw_grace := False\<rparr>) p) = runs_ok p"
  "runs_ok (with_worker k (\<lambda>w. w\<lparr>pw_listening := False, pw_grace := True\<rparr>) p) = runs_ok p"
  "runs_ok (with_worker k (\<lambda>w. w\<lparr>pw_cleaned := True\<rparr>) p) = runs_ok p"
  "runs_ok (terminate k e p) = runs_ok p"
  by (simp_all add: runs_ok_def)

lemma single_ok_frame [simp]:
  "single_ok (settle_run r v p) = single_ok p"
  "single_ok (grant r k p) = single_ok p"
  "single_ok (p_granted_update g0 p) = single_ok p"
  "single_ok (p_waiters_update g1 p) = single_ok p"
  "single_ok (p_submitted_update g2 p) = single_ok p"
  "single_ok (p_aborted_update g3 p) = single_ok p"
  "single_ok (p_sent_update g4 p) = single_ok p"
  "single_ok (p_discarded_update g5 p) = single_ok p"
  "single_ok (p_workers_update g7 p) = single_ok p"
  "single_ok (p_closed_update g8 p) = single_ok p"
  "single_ok (p_invocation_update g6 p) = single_ok p"
  "single_ok (with_worker k (\<lambda>w. w\<lparr>pw_busy := False\<rparr>) p) = single_ok p"
  "single_ok (with_worker k (\<lambda>w. w\<lparr>pw_listening := True\<rparr>) p) = single_ok p"
  "single_ok (with_worker k (\<lambda>w. w\<lparr>pw_grace := False\<rparr>) p) = single_ok p"
  "single_ok (with_worker k (\<lambda>w. w\<lparr>pw_listening := False, pw_grace := True\<rparr>) p) = single_ok p"
  "single_ok (with_worker k (\<lambda>w. w\<lparr>pw_cleaned := True\<rparr>) p) = single_ok p"
  "single_ok (terminate k e p) = single_ok p"
  by (simp_all add: single_ok_def)

lemma life_ok_frame [simp]:
  "life_ok ok R (p_aborted_update g3 p) = life_ok ok R p"
  "life_ok ok R (p_sent_update g4 p) = life_ok ok R p"
  "life_ok ok R (p_discarded_update g5 p) = life_ok ok R p"
  "life_ok ok R (p_workers_update g7 p) = life_ok ok R p"
  "life_ok ok R (p_closed_update g8 p) = life_ok ok R p"
  "life_ok ok R (p_invocation_update g6 p) = life_ok ok R p"
  "life_ok ok R (with_worker k (\<lambda>w. w\<lparr>pw_busy := False\<rparr>) p) = life_ok ok R p"
  "life_ok ok R (with_worker k (\<lambda>w. w\<lparr>pw_listening := True\<rparr>) p) = life_ok ok R p"
  "life_ok ok R (with_worker k (\<lambda>w. w\<lparr>pw_grace := False\<rparr>) p) = life_ok ok R p"
  "life_ok ok R (with_worker k (\<lambda>w. w\<lparr>pw_listening := False, pw_grace := True\<rparr>) p) = life_ok ok R p"
  "life_ok ok R (with_worker k (\<lambda>w. w\<lparr>pw_cleaned := True\<rparr>) p) = life_ok ok R p"
  "life_ok ok R (terminate k e p) = life_ok ok R p"
  by (simp_all add: life_ok_def)

section \<open>Moves\<close>

text \<open>Each operation is made of moves of a run or a worker, and each move keeps the invariants.\<close>

lemma submit_life: "life_ok ok R p \<Longrightarrow> r \<notin> set (p_submitted p) \<Longrightarrow> life_ok ok (insert r R) (p\<lparr>p_submitted := p_submitted p @ [r]\<rparr>)"
  unfolding life_ok_def by (simp (no_asm)) blast

lemma move_submit: "pool_inv ok R K d p \<Longrightarrow> r \<notin> set (p_submitted p) \<Longrightarrow>
  pool_inv ok (insert r R) K d (p\<lparr>p_submitted := p_submitted p @ [r]\<rparr>)"
  unfolding pool_inv_def using submit_life by simp

lemma settle_life: "life_ok ok R p \<Longrightarrow> r \<in> R \<Longrightarrow> life_ok ok (R - {r}) (settle_run r v p)"
  unfolding life_ok_def by (simp (no_asm)) blast

lemma move_settle: "pool_inv ok R K d p \<Longrightarrow> r \<in> R \<Longrightarrow> pool_inv ok (R - {r}) K d (settle_run r v p)"
  unfolding pool_inv_def using settle_life by simp

lemma grant_slots: "slots_ok K d p \<Longrightarrow> slots_ok (K - {k}) d (grant r k p)"
  unfolding slots_ok_def by (simp (no_asm)) auto

lemma grant_grants: "grants_ok K p \<Longrightarrow> k \<in> K \<Longrightarrow> vacant k p \<Longrightarrow> grants_ok (K - {k}) (grant r k p)"
  unfolding grants_ok_def vacant_def by (simp (no_asm) flip: granted_workers_def) blast

lemma grant_current: "current_ok p \<Longrightarrow> current_ok (grant r k p)"
  unfolding current_ok_def by (simp (no_asm)) blast

lemma grant_busy: "busy_ok K p \<Longrightarrow> busy_ok (K - {k}) (grant r k p)"
  unfolding busy_ok_def by auto

lemma grant_term: "term_ok p \<Longrightarrow> term_ok (grant r k p)"
  unfolding term_ok_def by simp

lemma life_ok_held: "life_ok ok R p \<Longrightarrow> r \<in> R \<Longrightarrow>
  r \<in> set (p_submitted p) \<and> r \<notin> set (p_waiters p) \<and> r \<notin> granted_runs p \<and> r \<notin> running p"
  unfolding life_ok_def by blast

lemma grant_runs: "runs_ok p \<Longrightarrow> life_ok ok R p \<Longrightarrow> r \<in> R \<Longrightarrow> runs_ok (grant r k p)"
  using life_ok_held [of ok R p r] unfolding runs_ok_def by (simp (no_asm) flip: granted_runs_def) blast

lemma grant_life: "life_ok ok R p \<Longrightarrow> r \<in> R \<Longrightarrow> \<not> settled p r \<Longrightarrow> life_ok ok (R - {r}) (grant r k p)"
  unfolding life_ok_def by (simp (no_asm)) blast

lemma move_grant: "pool_inv ok R K d p \<Longrightarrow> r \<in> R \<Longrightarrow> \<not> settled p r \<Longrightarrow> k \<in> K \<Longrightarrow> vacant k p \<Longrightarrow>
  pool_inv ok (R - {r}) (K - {k}) d (grant r k p)"
  unfolding pool_inv_def
  by (simp add: grant_slots grant_grants grant_current grant_busy grant_term grant_life) (blast intro: grant_runs)

lemma drop_slots: "slots_ok K d p \<Longrightarrow> p_waiters p \<noteq> [] \<Longrightarrow> slots_ok K d (p\<lparr>p_waiters := ws\<rparr>)"
  unfolding slots_ok_def by (simp (no_asm)) blast

lemma drop_runs: "runs_ok p \<Longrightarrow> runs_ok (p\<lparr>p_waiters := removeAll r (p_waiters p)\<rparr>)"
  unfolding runs_ok_def by (auto intro: distinct_removeAll)

lemma drop_life:
  assumes "life_ok ok R p" and "runs_ok p" and "r \<in> set (p_waiters p)"
  shows "life_ok ok (insert r R) (p\<lparr>p_waiters := removeAll r (p_waiters p)\<rparr>)"
proof -
  have "r \<notin> granted_runs p" "r \<notin> running p"
    using assms(2,3) unfolding runs_ok_def by blast+
  then show ?thesis using assms(1,3) unfolding life_ok_def by (simp (no_asm)) blast
qed

lemma move_drop: "pool_inv ok R K d p \<Longrightarrow> r \<in> set (p_waiters p) \<Longrightarrow>
  pool_inv ok (insert r R) K d (p\<lparr>p_waiters := removeAll r (p_waiters p)\<rparr>)"
  unfolding pool_inv_def using drop_slots drop_runs drop_life by fastforce

lemma waiter_unsettled: "pool_inv ok R K d p \<Longrightarrow> r \<in> set (p_waiters p) \<Longrightarrow> \<not> settled p r \<and> r \<notin> R"
  unfolding pool_inv_def life_ok_def by blast

lemma move_pop:
  assumes "pool_inv ok R K d p" and "p_waiters p = r # rs"
  shows "pool_inv ok (insert r R) K d (p\<lparr>p_waiters := rs\<rparr>)"
proof -
  have "distinct (p_waiters p)" using assms(1) unfolding pool_inv_def runs_ok_def by blast
  then have "removeAll r (p_waiters p) = rs" using assms(2) by simp
  then show ?thesis using move_drop [OF assms(1), of r] assms(2) by simp
qed

lemma move_enqueue:
  assumes "pool_inv ok R K d p" and "r \<in> R" and "\<not> settled p r" and "\<not> p_closed p" and "length (p_workers p) + d = p_max p"
    and "\<forall>k \<in> set (p_workers p). k \<notin> K \<longrightarrow> busy p k"
  shows "pool_inv ok (R - {r}) K d (p\<lparr>p_waiters := p_waiters p @ [r]\<rparr>)"
proof -
  have "slots_ok K d (p\<lparr>p_waiters := p_waiters p @ [r]\<rparr>)" if "slots_ok K d p"
    using that assms(4-6) unfolding slots_ok_def by simp
  moreover have "runs_ok (p\<lparr>p_waiters := p_waiters p @ [r]\<rparr>)" if "runs_ok p" "life_ok ok R p"
    using that(1) life_ok_held [OF that(2) assms(2)] unfolding runs_ok_def by (simp (no_asm)) blast
  moreover have "life_ok ok (R - {r}) (p\<lparr>p_waiters := p_waiters p @ [r]\<rparr>)" if "life_ok ok R p"
    using that assms(2,3) unfolding life_ok_def by (simp (no_asm)) blast
  ultimately show ?thesis using assms(1) unfolding pool_inv_def by simp
qed

lemma granted_keys:
  assumes "distinct (map fst g)" and "distinct (map snd g)" and "(r, k) \<in> set g"
  shows "fst ` set (removeAll (r, k) g) = fst ` set g - {r}" and "snd ` set (removeAll (r, k) g) = snd ` set g - {k}"
    and "distinct (map fst (removeAll (r, k) g))" and "distinct (map snd (removeAll (r, k) g))"
proof -
  have "inj_on fst (set g)" "inj_on snd (set g)" using assms(1,2) by (simp_all add: distinct_map)
  from this [THEN inj_on_image_set_diff, of "set g" "{(r, k)}"]
  show "fst ` set (removeAll (r, k) g) = fst ` set g - {r}" "snd ` set (removeAll (r, k) g) = snd ` set g - {k}"
    using assms(3) by simp_all
  show "distinct (map fst (removeAll (r, k) g))" "distinct (map snd (removeAll (r, k) g))"
    using assms(1,2) unfolding filter_neq_removeAll [symmetric] by (simp_all add: distinct_map_filter)
qed

definition ungrant :: "run_id \<Rightarrow> worker_id \<Rightarrow> pool \<Rightarrow> pool" where
  "ungrant r k p = p\<lparr>p_granted := removeAll (r, k) (p_granted p)\<rparr>"

lemma granted_facts:
  assumes "pool_inv ok R K d p" and "(r, k) \<in> set (p_granted p)"
  shows "\<not> settled p r" and "r \<notin> R" and "k \<notin> K" and "busy p k" and "k \<in> set (p_workers p)" and "current_run p k = None"
    and "term_error p k = None" and "distinct (map fst (p_granted p))" and "distinct (map snd (p_granted p))"
    and "r \<in> granted_runs p" and "k \<in> granted_workers p"
proof -
  note p = assms(1) [unfolded pool_inv_def]
  show m: "r \<in> granted_runs p" "k \<in> granted_workers p" using assms(2) by (force simp: granted_runs_def granted_workers_def)+
  then show "\<not> settled p r" "r \<notin> R" using p unfolding life_ok_def by blast+
  show "k \<notin> K" "busy p k" "k \<in> set (p_workers p)" "current_run p k = None" "term_error p k = None"
    using p m unfolding grants_ok_def by blast+
  show "distinct (map fst (p_granted p))" "distinct (map snd (p_granted p))" using p unfolding grants_ok_def runs_ok_def by blast+
qed

lemma move_ungrant:
  assumes "pool_inv ok R K d p" and "(r, k) \<in> set (p_granted p)"
  shows "pool_inv ok (insert r R) (insert k K) d (ungrant r k p)" and "vacant k (ungrant r k p)"
proof -
  note f = granted_facts [OF assms] note g = granted_keys [OF f(8,9) assms(2)]
  have u: "granted_runs (ungrant r k p) = granted_runs p - {r}" "granted_workers (ungrant r k p) = granted_workers p - {k}"
    "distinct (map fst (p_granted (ungrant r k p)))" "distinct (map snd (p_granted (ungrant r k p)))"
    using g by (simp_all add: ungrant_def granted_runs_def granted_workers_def del: set_removeAll)
  have s: "p_workers (ungrant r k p) = p_workers p" "p_next (ungrant r k p) = p_next p" "p_max (ungrant r k p) = p_max p"
    "p_waiters (ungrant r k p) = p_waiters p" "p_closed (ungrant r k p) = p_closed p" "busy (ungrant r k p) = busy p"
    "current_run (ungrant r k p) = current_run p" "term_error (ungrant r k p) = term_error p" "cleaned (ungrant r k p) = cleaned p"
    "p_submitted (ungrant r k p) = p_submitted p" "settled (ungrant r k p) = settled p"
    by (simp_all add: ungrant_def)
  note p = assms(1) [unfolded pool_inv_def]
  have "slots_ok (insert k K) d (ungrant r k p)" using p unfolding slots_ok_def s by blast
  moreover have "grants_ok (insert k K) (ungrant r k p)" using p u unfolding grants_ok_def s by blast
  moreover have "busy_ok (insert k K) (ungrant r k p)" using p u unfolding busy_ok_def s by blast
  moreover have "runs_ok (ungrant r k p)" using p u unfolding runs_ok_def s by blast
  moreover have "life_ok ok (insert r R) (ungrant r k p)"
  proof -
    have "r \<notin> set (p_waiters p)" "r \<notin> running p"
      using p f(10) unfolding runs_ok_def by blast+
    then show ?thesis using p f(10) u(1) unfolding life_ok_def s u(1) by blast
  qed
  ultimately show "pool_inv ok (insert r R) (insert k K) d (ungrant r k p)"
    using p unfolding pool_inv_def by (simp add: ungrant_def)
  show "vacant k (ungrant r k p)" using f u(2) by (simp add: vacant_def s)
qed

text \<open>A worker in hand becomes idle, or stays busy because it is being terminated.\<close>

lemma move_idle:
  assumes "pool_inv ok R K d p" and "k \<in> K" and "p_waiters p = []" and "current_run p k = None" and "term_error p k = None"
  shows "pool_inv ok R (K - {k}) d (with_worker k (\<lambda>w. w\<lparr>pw_busy := False\<rparr>) p)"
proof -
  note p = assms(1) [unfolded pool_inv_def]
  let ?p = "with_worker k (\<lambda>w. w\<lparr>pw_busy := False\<rparr>) p"
  have "slots_ok (K - {k}) d ?p" using p assms(3) unfolding slots_ok_def by (simp (no_asm)) blast
  moreover have "grants_ok (K - {k}) ?p" using p assms(2) unfolding grants_ok_def by (simp (no_asm)) blast
  moreover have "current_ok ?p" using p assms(4) unfolding current_ok_def by (simp (no_asm)) (metis option.discI)
  moreover have "busy_ok (K - {k}) ?p" using p unfolding busy_ok_def by (simp (no_asm)) blast
  moreover have "term_ok ?p" using p assms(5) unfolding term_ok_def by simp
  ultimately show ?thesis using p unfolding pool_inv_def by simp
qed

lemma move_keep:
  assumes "pool_inv ok R K d p" and "k \<in> K" and "term_error p k \<noteq> None" and "busy p k"
  shows "pool_inv ok R (K - {k}) d p"
proof -
  note p = assms(1) [unfolded pool_inv_def]
  have "slots_ok (K - {k}) d p" using p assms(4) unfolding slots_ok_def by blast
  moreover have "grants_ok (K - {k}) p" using p unfolding grants_ok_def by blast
  moreover have "busy_ok (K - {k}) p" using p assms(3) unfolding busy_ok_def by blast
  ultimately show ?thesis using p unfolding pool_inv_def by simp
qed

text \<open>A run leaves its worker.\<close>

lemma current_facts:
  assumes "pool_inv ok R K d p" and "current_run p k = Some (r, i)"
  shows "busy p k" and "\<not> cleaned p k" and "k < p_next p" and "r \<notin> R" and "r \<in> set (p_submitted p)" and "ok \<Longrightarrow> \<not> settled p r"
    and "r \<notin> set (p_waiters p)" and "r \<notin> granted_runs p" and "k \<notin> granted_workers p" and "i \<le> p_invocation p"
proof -
  note p = assms(1) [unfolded pool_inv_def]
  show "busy p k" "\<not> cleaned p k" "k < p_next p" "i \<le> p_invocation p" using p assms(2) unfolding current_ok_def by blast+
  have "r \<in> running p" using assms(2) unfolding running_of_def by blast
  then show "r \<notin> R" "r \<in> set (p_submitted p)" "ok \<Longrightarrow> \<not> settled p r" "r \<notin> set (p_waiters p)" "r \<notin> granted_runs p"
    using p unfolding life_ok_def runs_ok_def by blast+
  show "k \<notin> granted_workers p" using p assms(2) unfolding grants_ok_def by fastforce
qed

lemma running_of_free:
  assumes "c k = Some (r, i)" and "\<And>k' i'. c k' = Some (r, i') \<Longrightarrow> k' = k"
  shows "running_of (c(k := None)) = running_of c - {r}"
proof -
  have "r' \<in> running_of (c(k := None)) \<longleftrightarrow> r' \<in> running_of c - {r}" for r'
    unfolding running_of_def mem_Collect_eq fun_upd_apply Diff_iff singleton_iff
    by (metis assms option.discI option.inject prod.inject)
  then show ?thesis by blast
qed

lemma running_of_add: "c k = None \<Longrightarrow> running_of (c(k := Some (r, i))) = insert r (running_of c)"
  unfolding running_of_def by (auto split: if_splits) (metis option.discI)

lemma move_cleanup:
  assumes "pool_inv ok R K d p" and "current_run p k = Some (r, i)"
  shows "pool_inv ok (insert r R) (insert k K) d (cleanup k p)"
proof -
  note p = assms(1) [unfolded pool_inv_def] and c = current_facts [OF assms]
  have un: "running_of ((current_run p)(k := None)) = running p - {r}"
    using p assms(2) unfolding single_ok_def by (intro running_of_free) blast+
  have s: "current_run (cleanup k p) k' = (if k' = k then None else current_run p k')" for k' by simp
  have "slots_ok (insert k K) d (cleanup k p)" using p unfolding slots_ok_def by (simp (no_asm)) blast
  moreover have "grants_ok (insert k K) (cleanup k p)" using p c unfolding grants_ok_def by (simp (no_asm)) blast
  moreover have "current_ok (cleanup k p)" using p unfolding current_ok_def by (simp (no_asm)) blast
  moreover have "busy_ok (insert k K) (cleanup k p)" using p unfolding busy_ok_def by (simp (no_asm)) blast
  moreover have "runs_ok (cleanup k p)" using p unfolding runs_ok_def by (simp (no_asm) add: un) blast
  moreover have "single_ok (cleanup k p)" using p unfolding single_ok_def s by (metis option.discI)
  moreover have "life_ok ok (insert r R) (cleanup k p)" using p c unfolding life_ok_def by (simp (no_asm) add: un) blast
  ultimately show ?thesis using p unfolding pool_inv_def by simp
qed

text \<open>A run starts on a worker.\<close>

definition occupy :: "run_id \<Rightarrow> worker_id \<Rightarrow> pool \<Rightarrow> pool" where
  "occupy r k p = (with_worker k (\<lambda>w. w\<lparr>pw_current := Some (r, p_invocation p + 1)\<rparr>) p)\<lparr>p_invocation := p_invocation p + 1\<rparr>"

lemma occupy_sel [simp]:
  "current_run (occupy r k p) = (current_run p)(k := Some (r, p_invocation p + 1))" "p_invocation (occupy r k p) = p_invocation p + 1"
  "busy (occupy r k p) = busy p" "cleaned (occupy r k p) = cleaned p" "listening (occupy r k p) = listening p"
  "grace (occupy r k p) = grace p" "term_error (occupy r k p) = term_error p" "settled (occupy r k p) = settled p"
  "p_workers (occupy r k p) = p_workers p" "p_waiters (occupy r k p) = p_waiters p" "p_granted (occupy r k p) = p_granted p"
  "granted_runs (occupy r k p) = granted_runs p" "granted_workers (occupy r k p) = granted_workers p"
  "p_submitted (occupy r k p) = p_submitted p" "p_next (occupy r k p) = p_next p" "p_closed (occupy r k p) = p_closed p"
  "p_max (occupy r k p) = p_max p" "p_sent (occupy r k p) = p_sent p" "p_aborted (occupy r k p) = p_aborted p"
  by (simp_all add: occupy_def)

lemma move_occupy:
  assumes "pool_inv ok R K d p" and "r \<in> R" and "k \<in> K" and "vacant k p" and "busy p k" and "ok \<longrightarrow> \<not> settled p r"
  shows "pool_inv ok (R - {r}) (K - {k}) d (occupy r k p)"
proof -
  note p = assms(1) [unfolded pool_inv_def] and v = assms(4) [unfolded vacant_def]
  have l: "life_ok ok R p" using p by blast
  note h = life_ok_held [OF l assms(2)]
  have k: "k < p_next p" "\<not> cleaned p k" using p v unfolding slots_ok_def by blast+
  have un: "running_of ((current_run p)(k := Some (r, p_invocation p + 1))) = insert r (running p)"
    using v by (intro running_of_add) blast
  have s: "current_run (occupy r k p) k' = (if k' = k then Some (r, p_invocation p + 1) else current_run p k')" for k' by simp
  have "slots_ok (K - {k}) d (occupy r k p)" using p assms(5) unfolding slots_ok_def by (simp (no_asm)) blast
  moreover have "present_ok (occupy r k p)" using p unfolding present_ok_def by simp
  moreover have "grants_ok (K - {k}) (occupy r k p)" using p v unfolding grants_ok_def by (simp (no_asm)) blast
  moreover have "current_ok (occupy r k p)"
    using p assms(5) k unfolding current_ok_def by (simp (no_asm)) (metis le_SucI)
  moreover have "busy_ok (K - {k}) (occupy r k p)" using p unfolding busy_ok_def by (simp (no_asm)) blast
  moreover have "term_ok (occupy r k p)" using p unfolding term_ok_def by simp
  moreover have "runs_ok (occupy r k p)" using p h unfolding runs_ok_def by (simp (no_asm) add: un [simplified]) blast
  moreover have "single_ok (occupy r k p)"
  proof -
    have "i \<noteq> p_invocation p + 1" if "current_run p k' = Some (r', i)" for k' r' i
      using p that unfolding current_ok_def by (metis add.commute not_less_eq_eq order_refl plus_1_eq_Suc)
    moreover have "r' \<noteq> r" if "current_run p k' = Some (r', i)" for k' r' i
      using h that unfolding running_of_def by blast
    ultimately show ?thesis using p unfolding single_ok_def s by (metis option.inject prod.inject)
  qed
  moreover have "life_ok ok (R - {r}) (occupy r k p)"
    using l h assms(6) unfolding life_ok_def by (simp (no_asm) add: un [simplified]) blast
  ultimately show ?thesis unfolding pool_inv_def by blast
qed

text \<open>Listening, the grace timer and termination concern a worker with a run.\<close>

lemma move_listen:
  assumes "pool_inv ok R K d p" and "current_run p k \<noteq> None"
  shows "pool_inv ok R K d (with_worker k (\<lambda>w. w\<lparr>pw_listening := True\<rparr>) p)"
    and "pool_inv ok R K d (with_worker k (\<lambda>w. w\<lparr>pw_listening := False, pw_grace := True\<rparr>) p)"
    and "pool_inv ok R K d (with_worker k (\<lambda>w. w\<lparr>pw_grace := False\<rparr>) p)"
    and "pool_inv ok R K d (terminate k e p)"
proof -
  note p = assms(1) [unfolded pool_inv_def]
  have k: "k \<notin> granted_workers p" using p assms(2) unfolding grants_ok_def by metis
  have c: "current_ok p" using p by blast
  have "current_ok (with_worker k (\<lambda>w. w\<lparr>pw_listening := True\<rparr>) p)"
    "current_ok (with_worker k (\<lambda>w. w\<lparr>pw_listening := False, pw_grace := True\<rparr>) p)"
    "current_ok (with_worker k (\<lambda>w. w\<lparr>pw_grace := False\<rparr>) p)"
    using c assms(2) unfolding current_ok_def by (elim conjE exE, simp_all)
  moreover have "grants_ok K (terminate k e p)" using p k unfolding grants_ok_def by (simp (no_asm)) blast
  moreover have "term_ok (terminate k e p)" using p assms(2) unfolding term_ok_def current_ok_def by (elim conjE exE) auto
  moreover have "busy_ok K (terminate k e p)" using p unfolding busy_ok_def by (simp (no_asm)) blast
  ultimately show "pool_inv ok R K d (with_worker k (\<lambda>w. w\<lparr>pw_listening := True\<rparr>) p)"
    "pool_inv ok R K d (with_worker k (\<lambda>w. w\<lparr>pw_listening := False, pw_grace := True\<rparr>) p)"
    "pool_inv ok R K d (with_worker k (\<lambda>w. w\<lparr>pw_grace := False\<rparr>) p)"
    "pool_inv ok R K d (terminate k e p)"
    using p unfolding pool_inv_def by simp_all
qed

text \<open>Lists the invariants do not read.\<close>

lemma pool_inv_logs [simp]:
  "pool_inv ok R K d (p\<lparr>p_sent := xs\<rparr>) = pool_inv ok R K d p"
  "pool_inv ok R K d (p\<lparr>p_aborted := ys\<rparr>) = pool_inv ok R K d p"
  "pool_inv ok R K d (p\<lparr>p_discarded := zs\<rparr>) = pool_inv ok R K d p"
  by (simp_all add: pool_inv_def)

text \<open>A worker leaves the pool, and a fresh one comes.\<close>

definition drop_worker :: "worker_id \<Rightarrow> pool \<Rightarrow> pool" where
  "drop_worker k p = (with_worker k (\<lambda>w. w\<lparr>pw_cleaned := True\<rparr>) p)\<lparr>p_workers := removeAll k (p_workers p)\<rparr>"

lemma drop_worker_sel [simp]:
  "cleaned (drop_worker k p) = (cleaned p)(k := True)" "p_workers (drop_worker k p) = removeAll k (p_workers p)"
  "current_run (drop_worker k p) = current_run p" "busy (drop_worker k p) = busy p" "term_error (drop_worker k p) = term_error p"
  "listening (drop_worker k p) = listening p" "grace (drop_worker k p) = grace p" "settled (drop_worker k p) = settled p"
  "granted_runs (drop_worker k p) = granted_runs p" "granted_workers (drop_worker k p) = granted_workers p"
  "p_waiters (drop_worker k p) = p_waiters p" "p_next (drop_worker k p) = p_next p" "p_max (drop_worker k p) = p_max p"
  "p_closed (drop_worker k p) = p_closed p" "p_invocation (drop_worker k p) = p_invocation p"
  "p_granted (drop_worker k p) = p_granted p" "p_submitted (drop_worker k p) = p_submitted p"
  by (simp_all add: drop_worker_def)

lemma move_exit:
  assumes "pool_inv ok R K 0 p" and "current_run p k = None" and "k \<notin> granted_workers p"
  shows "pool_inv ok R (K - {k}) (if k \<in> set (p_workers p) then 1 else 0) (drop_worker k p)"
proof -
  note p = assms(1) [unfolded pool_inv_def]
  have d: "distinct (p_workers p)" using p unfolding slots_ok_def by blast
  then have len: "length (removeAll k (p_workers p)) + (if k \<in> set (p_workers p) then 1 else 0) = length (p_workers p)"
    by (auto simp: distinct_remove1_removeAll [symmetric] length_remove1 dest: length_pos_if_in_set)
  have "slots_ok (K - {k}) (if k \<in> set (p_workers p) then 1 else 0) (drop_worker k p)"
    using p distinct_removeAll [OF d, of k] unfolding slots_ok_def drop_worker_sel len add_0_right by (simp (no_asm)) blast
  moreover have "present_ok (drop_worker k p)" using p unfolding present_ok_def by (simp (no_asm)) blast
  moreover have "grants_ok (K - {k}) (drop_worker k p)" using p assms(3) unfolding grants_ok_def by (simp (no_asm)) blast
  moreover have "current_ok (drop_worker k p)" using p assms(2) unfolding current_ok_def by (simp (no_asm)) (metis option.discI)
  moreover have "busy_ok (K - {k}) (drop_worker k p)" using p unfolding busy_ok_def by (simp (no_asm)) blast
  moreover have "term_ok (drop_worker k p)" using p unfolding term_ok_def by simp
  moreover have "runs_ok (drop_worker k p)" "single_ok (drop_worker k p)" "life_ok ok R (drop_worker k p)"
    using p unfolding runs_ok_def single_ok_def life_ok_def by simp_all
  ultimately show ?thesis unfolding pool_inv_def by blast
qed

lemma move_spawn:
  assumes "pool_inv ok R K d p" and "length (p_workers p) < p_max p" and "p_waiters p = [] \<or> d = 1"
  shows "pool_inv ok R (insert (p_next p) K) 0 (spawn p)" and "vacant (p_next p) (spawn p)"
proof -
  note p = assms(1) [unfolded pool_inv_def]
  have new: "p_next p \<notin> set (p_workers p)" "\<forall>k \<in> set (p_workers p). k < p_next p" using p unfolding slots_ok_def by blast+
  have none: "current_run p (p_next p) = None"
    using p unfolding current_ok_def by (metis less_irrefl option.exhaust prod.exhaust)
  then have same: "(current_run p)(p_next p := None) = current_run p" by auto
  have g: "p_next p \<notin> granted_workers p" using p new unfolding grants_ok_def by blast
  have "slots_ok (insert (p_next p) K) 0 (spawn p)"
    using p assms(2,3) new unfolding slots_ok_def by (simp add: less_Suc_eq) auto
  moreover have "present_ok (spawn p)" using p unfolding present_ok_def by (auto simp: less_Suc_eq)
  moreover have "grants_ok (insert (p_next p) K) (spawn p)" using p g unfolding grants_ok_def by (simp (no_asm)) blast
  moreover have "current_ok (spawn p)"
    using p none unfolding current_ok_def by (simp (no_asm)) (metis less_SucI option.discI)
  moreover have "busy_ok (insert (p_next p) K) (spawn p)" using p unfolding busy_ok_def by (simp (no_asm)) blast
  moreover have "term_ok (spawn p)" using p unfolding term_ok_def by simp
  moreover have "runs_ok (spawn p)" "single_ok (spawn p)" "life_ok ok R (spawn p)"
    using p unfolding runs_ok_def single_ok_def life_ok_def by (simp_all add: same)
  ultimately show "pool_inv ok R (insert (p_next p) K) 0 (spawn p)" unfolding pool_inv_def by blast
  show "vacant (p_next p) (spawn p)" using g by (simp add: vacant_def)
qed

end
