(* ===== verification/Sandbox_Props.thy ===== *)
theory Sandbox_Props
  imports Sandbox_Inv
begin

text \<open>
  The operations of the sandbox pool keep its invariants, and what follows for every reachable
  pool (\<open>src/sandbox/pool.ts\<close>).
\<close>

section \<open>The operations\<close>

lemma pool_inv_parts:
  assumes "pool_inv ok R K d p"
  shows "slots_ok K d p" and "present_ok p" and "grants_ok K p" and "current_ok p" and "busy_ok K p" and "term_ok p"
    and "runs_ok p" and "single_ok p" and "life_ok ok R p"
  using assms unfolding pool_inv_def by simp_all

lemma new_pool_ok: "pool_ok ok (new_SandboxPool m)"
proof -
  have "busy (new_SandboxPool m) = (\<lambda>_. False)" "current_run (new_SandboxPool m) = (\<lambda>_. None)"
    "listening (new_SandboxPool m) = (\<lambda>_. False)" "grace (new_SandboxPool m) = (\<lambda>_. False)"
    "term_error (new_SandboxPool m) = (\<lambda>_. None)" "granted_runs (new_SandboxPool m) = {}"
    "granted_workers (new_SandboxPool m) = {}" "settled (new_SandboxPool m) = (\<lambda>_. False)"
    by (simp_all add: fun_eq_iff new_SandboxPool_def busy_def current_run_def listening_def grace_def term_error_def granted_runs_def
        granted_workers_def settled_def jm_has_def)
  then show ?thesis
    unfolding pool_parts by (simp add: running_of_def) (simp add: new_SandboxPool_def)
qed

lemma move_take:
  assumes "pool_inv ok R K d p" and "k \<notin> granted_workers p"
  shows "pool_inv ok R (insert k K) d p"
proof -
  note p = pool_inv_parts [OF assms(1)]
  have "slots_ok (insert k K) d p" using p(1) unfolding slots_ok_def by blast
  moreover have "grants_ok (insert k K) p" using p(3) assms(2) unfolding grants_ok_def by blast
  moreover have "busy_ok (insert k K) p" using p(5) unfolding busy_ok_def by blast
  ultimately show ?thesis using p unfolding pool_inv_def by blast
qed

lemma acquire_ok:
  assumes "pool_inv ok {r} {} 0 p" and "\<not> p_closed p" and "\<not> settled p r"
  shows "pool_ok ok (acquire r p)"
proof (cases "List.find (\<lambda>k. \<not> pw_busy (p_worker p k)) (p_workers p)")
  note p = pool_inv_parts [OF assms(1)]
  case (Some k)
  then have k: "k \<in> set (p_workers p)" "\<not> busy p k" by (auto simp: find_Some_iff_sorted busy_def dest: find_Some_iff_sorted)
  have "k \<notin> granted_workers p" using p(3) k unfolding grants_ok_def by blast
  moreover have "current_run p k = None" using p(4) k unfolding current_ok_def by (metis option.exhaust prod.exhaust)
  moreover have "term_error p k = None" using p(6) k unfolding term_ok_def by metis
  ultimately have "vacant k p" "pool_inv ok {r} {k} 0 p" using k assms(1) by (simp_all add: vacant_def move_take)
  then have "pool_inv ok ({r} - {r}) ({k} - {k}) 0 (grant r k p)" using assms(3) by (intro move_grant) simp_all
  then show ?thesis using Some by (simp add: acquire_def)
next
  note p = pool_inv_parts [OF assms(1)]
  case None
  then have busy: "\<forall>k \<in> set (p_workers p). busy p k" by (simp add: find_None_iff busy_def)
  show ?thesis
  proof (cases "length (p_workers p) < p_max p")
    case True
    then have "p_waiters p = []" using p(1) unfolding slots_ok_def by auto
    then have "pool_inv ok {r} {p_next p} 0 (spawn p)" "vacant (p_next p) (spawn p)"
      using move_spawn [OF assms(1) True] by simp_all
    then have "pool_inv ok ({r} - {r}) ({p_next p} - {p_next p}) 0 (grant r (p_next p) (spawn p))"
      using assms(3) by (intro move_grant) simp_all
    then show ?thesis using None True by (simp add: acquire_def)
  next
    case False
    then have "length (p_workers p) + 0 = p_max p" using p(1) unfolding slots_ok_def by simp
    then have "pool_inv ok ({r} - {r}) {} 0 (p\<lparr>p_waiters := p_waiters p @ [r]\<rparr>)"
      using assms busy by (intro move_enqueue) simp_all
    then show ?thesis using None False by (simp add: acquire_def)
  qed
qed

lemma release_ok:
  assumes "pool_inv ok R K 0 p" and "k \<in> K" and "busy p k" and "current_run p k = None" and "k \<notin> granted_workers p"
    and "k < p_next p" and "\<not> cleaned p k"
  shows "pool_inv ok R (K - {k}) 0 (release k p)"
proof (cases "term_error p k")
  case Some
  then show ?thesis using move_keep [OF assms(1,2) _ assms(3)] by (simp add: release_def term_error_def)
next
  case None
  show ?thesis
  proof (cases "p_waiters p")
    case Nil
    then show ?thesis using move_idle [OF assms(1,2) _ assms(4)] None by (simp add: release_def term_error_def)
  next
    case (Cons r rs)
    let ?p = "p\<lparr>p_waiters := rs\<rparr>"
    note p = pool_inv_parts [OF assms(1)]
    have "\<not> p_closed p" using p(1) Cons unfolding slots_ok_def by simp
    then have "k \<in> set (p_workers p)" using p(2) assms(6,7) unfolding present_ok_def by blast
    then have "vacant k ?p" using None assms(4,5) by (simp add: vacant_def)
    moreover have "pool_inv ok (insert r R) K 0 ?p" using assms(1) Cons by (rule move_pop)
    moreover have "\<not> settled p r \<and> r \<notin> R" using assms(1) Cons by (intro waiter_unsettled) simp_all
    ultimately have "pool_inv ok (insert r R - {r}) (K - {k}) 0 (grant r k ?p)" using assms(2) by (intro move_grant) simp_all
    then show ?thesis using None Cons \<open>\<not> settled p r \<and> r \<notin> R\<close> by (simp add: release_def term_error_def)
  qed
qed

lemma release_settled [simp]: "settled (release k p) = settled p"
  by (auto simp: release_def split: list.splits)

lemma run_ok:
  assumes "pool_ok ok p" and "r \<notin> set (p_submitted p)"
  shows "pool_ok ok (run r p)"
proof -
  let ?p = "p\<lparr>p_submitted := p_submitted p @ [r]\<rparr>"
  have i: "pool_inv ok {r} {} 0 ?p" using move_submit [OF assms] by simp
  have s: "pool_ok ok (settle_run r v ?p)" for v using move_settle [OF i, of r v] by simp
  have "\<not> settled p r" using pool_inv_parts(9) [OF assms(1)] assms(2) unfolding life_ok_def by blast
  then have "pool_ok ok (acquire r ?p)" if "\<not> p_closed p" using that by (intro acquire_ok [OF i]) simp_all
  then show ?thesis using s by (simp add: run_def Let_def)
qed

lemma settle_running:
  assumes "pool_inv False R K d p" and "r \<in> running p"
  shows "pool_inv False R K d (settle_run r v p)"
proof -
  note p = pool_inv_parts [OF assms(1)]
  have "r \<notin> set (p_waiters p)" "r \<notin> granted_runs p" using p(7) assms(2) unfolding runs_ok_def by blast+
  then have "life_ok False R (settle_run r v p)" using p(9) assms(2) unfolding life_ok_def by (simp (no_asm)) blast
  then show ?thesis using assms(1) unfolding pool_inv_def by simp
qed

lemma begin_run_occupy:
  "begin_run r k c p =
     (case c of
        Some e \<Rightarrow> settle_run r (Thrown e) (occupy r k p)
      | None \<Rightarrow> (with_worker k (\<lambda>w. w\<lparr>pw_listening := True\<rparr>) (occupy r k p))\<lparr>p_sent := p_sent p @ [(k, MProcess (p_invocation p + 1))]\<rparr>)"
  by (simp add: begin_run_def occupy_def Let_def split: option.splits)

lemma resume_run_ok:
  assumes "pool_ok ok p" and "(r, k) \<in> set (p_granted p)" and "ok \<longrightarrow> c = None"
  shows "pool_ok ok (resume_run r k c p)"
proof -
  let ?p = "ungrant r k p"
  note m = move_ungrant [OF assms(1,2)] and f = granted_facts [OF assms(1,2)]
  have sel: "settled ?p = settled p" "busy ?p = busy p" "current_run ?p = current_run p" "p_next ?p = p_next p"
    "cleaned ?p = cleaned p" by (simp_all add: ungrant_def)
  have k: "k < p_next p" "\<not> cleaned p k" using f(5) pool_inv_parts(1) [OF assms(1)] unfolding slots_ok_def by blast+
  show ?thesis
  proof (cases "r \<in> set (p_aborted p)")
    case True
    have "k \<notin> granted_workers ?p" using m(2) unfolding vacant_def by blast
    then have "pool_inv ok {r} ({k} - {k}) 0 (release k ?p)"
      using m(1) f k by (intro release_ok) (simp_all add: sel)
    then have "pool_inv ok ({r} - {r}) {} 0 (settle_run r (Thrown aborted_error) (release k ?p))" by (intro move_settle) simp_all
    then show ?thesis using True by (simp add: resume_run_def Let_def ungrant_def)
  next
    case False
    have "pool_inv ok ({r} - {r}) ({k} - {k}) 0 (occupy r k ?p)" using m f by (intro move_occupy) (simp_all add: sel)
    then have i: "pool_ok ok (occupy r k ?p)" by simp
    have "pool_ok ok (begin_run r k c ?p)"
    proof (cases c)
      case None
      then show ?thesis using move_listen(1) [OF i, of k] by (simp add: begin_run_occupy)
    next
      case (Some e)
      then have "\<not> ok" using assms(3) by auto
      moreover have "r \<in> running (occupy r k ?p)" unfolding running_of_def by (simp, metis)
      ultimately show ?thesis using settle_running [of "{}" "{}" 0 "occupy r k ?p" r] i Some by (simp add: begin_run_occupy)
    qed
    then show ?thesis using False by (simp add: resume_run_def Let_def ungrant_def)
  qed
qed

lemma abort_worker_ok:
  assumes "pool_ok ok p" and "current_run p k \<noteq> None"
  shows "pool_ok ok (abort_worker k i p)"
  using move_listen(2) [OF assms] by (simp add: abort_worker_def)

lemma fire_abort_ok:
  assumes "pool_ok ok p"
  shows "pool_ok ok (fire_abort r p)"
proof -
  let ?p = "p\<lparr>p_aborted := r # p_aborted p\<rparr>"
  have i: "pool_ok ok ?p" using assms by simp
  have w: "pool_ok ok (settle_run r v (?p\<lparr>p_waiters := removeAll r (p_waiters p)\<rparr>))" if "r \<in> set (p_waiters p)" for v
    using move_settle [OF move_drop [OF i, of r], of r v] that by simp
  have "pool_ok ok (abort_worker k j ?p)" if "pw_current (p_worker p k) = Some c" for k j c
    using i that by (intro abort_worker_ok) (simp_all add: current_run_def)
  then show ?thesis using i w by (simp add: fire_abort_def Let_def split: option.splits)
qed

lemma grace_expires_ok:
  assumes "pool_ok ok p"
  shows "pool_ok ok (grace_expires k p)"
proof (cases "grace p k")
  case True
  then have c: "current_run p k \<noteq> None" using pool_inv_parts(4) [OF assms] unfolding current_ok_def by blast
  then have "pool_ok ok (with_worker k (\<lambda>w. w\<lparr>pw_grace := False\<rparr>) p)" by (rule move_listen(3) [OF assms])
  then have "pool_ok ok (terminate k grace_error (with_worker k (\<lambda>w. w\<lparr>pw_grace := False\<rparr>) p))"
    using c by (intro move_listen(4)) simp_all
  then show ?thesis using True by (simp add: grace_expires_def grace_def)
qed (use assms in \<open>simp add: grace_expires_def grace_def\<close>)

lemma finish_run_ok:
  assumes "pool_ok ok p" and "current_run p k = Some (r, i)"
  shows "pool_ok ok (finish_run k r v p)"
proof -
  note c = current_facts [OF assms]
  have "pool_inv ok {r} ({k} - {k}) 0 (release k (cleanup k p))"
    using move_cleanup [OF assms] c by (intro release_ok) simp_all
  then have "pool_inv ok ({r} - {r}) {} 0 (finish_run k r v p)" unfolding finish_run_def by (intro move_settle) simp_all
  then show ?thesis by simp
qed

lemma onMessage_ok: "pool_ok ok p \<Longrightarrow> pool_ok ok (onMessage k m p)"
  by (cases m) (auto simp: onMessage_def finish_run_ok current_run_def Let_def split: option.splits)

lemma removeAndCleanup_ok:
  assumes "pool_ok ok p" and "p_granted p = []" and "k < p_next p"
  shows "pool_ok ok (removeAndCleanup k e p)"
proof (cases "cleaned p k")
  case True
  then show ?thesis using assms by (simp add: removeAndCleanup_def cleaned_def)
next
  case False
  have g: "k \<notin> granted_workers q" if "p_granted q = []" for q using that by (simp add: granted_workers_def)
  define d where "d = (if k \<in> set (p_workers p) then 1 else (0 :: nat))"
  define p1 where "p1 = (cleanup k (with_worker k (\<lambda>w. w\<lparr>pw_cleaned := True\<rparr>) p))\<lparr>p_workers := removeAll k (p_workers p)\<rparr>"
  define p2 where "p2 = (case pw_current (p_worker p k) of None \<Rightarrow> p1
    | Some (r, i) \<Rightarrow> settle_run r (Thrown (or_else (pw_terminationError (p_worker p k)) e)) p1)"
  have eq: "p1 = drop_worker k (cleanup k p)" by (cases "p_worker p k") (simp add: p1_def drop_worker_def cleanup_def with_worker_def)
  have i2: "pool_inv ok {} {} d p2"
  proof (cases "current_run p k")
    case None
    then have "pw_listening (p_worker p k) = False \<and> pw_grace (p_worker p k) = False"
      using pool_inv_parts(4) [OF assms(1)] unfolding current_ok_def listening_def grace_def by blast
    then have "cleanup k p = p" using None by (simp add: cleanup_def with_worker_def current_run_def fun_upd_idem)
    then show ?thesis using move_exit [OF assms(1) None g] assms(2) None eq by (simp add: p2_def d_def current_run_def)
  next
    case (Some c)
    then obtain r i where c: "current_run p k = Some (r, i)" by (cases c) auto
    have "pool_inv ok {r} ({k} - {k}) d p1"
      using move_exit [OF move_cleanup [OF assms(1) c], of k] g [of "cleanup k p"] assms(2) unfolding eq by (simp add: d_def)
    then have "pool_inv ok ({r} - {r}) {} d (settle_run r (Thrown (or_else (pw_terminationError (p_worker p k)) e)) p1)"
      by (intro move_settle) simp_all
    then show ?thesis using c by (simp add: p2_def current_run_def)
  qed
  have drop: "pool_ok ok p2" if "p_waiters p2 = []" using i2 that unfolding pool_inv_def slots_ok_def by simp
  have s2: "p_granted p2 = []" "p_closed p2 = p_closed p" "p_waiters p2 = p_waiters p" "p_workers p2 = removeAll k (p_workers p)"
    "p_max p2 = p_max p" using assms(2) by (simp_all add: p2_def p1_def split: option.splits)
  have main: "removeAndCleanup k e p = (if p_closed p2 then p2 else (case p_waiters p2 of [] \<Rightarrow> p2
      | r # rs \<Rightarrow> grant r (p_next p2) (spawn (p2\<lparr>p_waiters := rs\<rparr>))))"
    using False unfolding removeAndCleanup_def cleaned_def Let_def p2_def p1_def by (simp only: if_False)
  show ?thesis
  proof (cases "p_waiters p2")
    case Nil
    then show ?thesis using drop main by simp
  next
    case (Cons r rs)
    let ?p = "p2\<lparr>p_waiters := rs\<rparr>"
    have sl: "slots_ok {} d p2" using i2 by (simp add: pool_inv_def)
    then have "\<not> p_closed p2" using Cons unfolding slots_ok_def by simp
    then have "d = 1" using pool_inv_parts(2) [OF assms(1)] assms(3) False s2(2) unfolding present_ok_def d_def by auto
    have len: "length (p_workers p2) + d = p_max p2" using sl Cons unfolding slots_ok_def by (elim conjE) simp
    have i: "pool_inv ok {r} {} d ?p" using move_pop [OF i2 Cons] by simp
    have lt: "length (p_workers ?p) < p_max ?p" using len \<open>d = 1\<close> by simp
    note sp = move_spawn [OF i lt disjI2 [OF \<open>d = 1\<close>]]
    have "\<not> settled p2 r" using waiter_unsettled [OF i2, of r] Cons by simp
    then have "pool_inv ok ({r} - {r}) ({p_next p2} - {p_next p2}) 0 (grant r (p_next p2) (spawn ?p))"
      using sp by (intro move_grant) simp_all
    then show ?thesis using main Cons \<open>\<not> p_closed p2\<close> by simp
  qed
qed

lemma settle_all_sel [simp]:
  "settled (fold (\<lambda>r. settle_run r v) rs p) r \<longleftrightarrow> r \<in> set rs \<or> settled p r"
  "current_run (fold (\<lambda>r. settle_run r v) rs p) = current_run p" "busy (fold (\<lambda>r. settle_run r v) rs p) = busy p"
  "term_error (fold (\<lambda>r. settle_run r v) rs p) = term_error p" "cleaned (fold (\<lambda>r. settle_run r v) rs p) = cleaned p"
  "listening (fold (\<lambda>r. settle_run r v) rs p) = listening p" "grace (fold (\<lambda>r. settle_run r v) rs p) = grace p"
  "granted_runs (fold (\<lambda>r. settle_run r v) rs p) = granted_runs p"
  "granted_workers (fold (\<lambda>r. settle_run r v) rs p) = granted_workers p"
  "p_submitted (fold (\<lambda>r. settle_run r v) rs p) = p_submitted p" "p_granted (fold (\<lambda>r. settle_run r v) rs p) = p_granted p"
  "p_workers (fold (\<lambda>r. settle_run r v) rs p) = p_workers p" "p_max (fold (\<lambda>r. settle_run r v) rs p) = p_max p"
  "p_next (fold (\<lambda>r. settle_run r v) rs p) = p_next p" "p_closed (fold (\<lambda>r. settle_run r v) rs p) = p_closed p"
  "p_invocation (fold (\<lambda>r. settle_run r v) rs p) = p_invocation p" "p_sent (fold (\<lambda>r. settle_run r v) rs p) = p_sent p"
  by (induction rs arbitrary: p) auto

lemma close_pool_ok:
  assumes "pool_ok ok p"
  shows "pool_ok ok (close_pool p)"
proof (cases "p_closed p")
  case False
  let ?q = "(fold (\<lambda>r. settle_run r (Thrown closed_error)) (p_waiters p) (p\<lparr>p_closed := True\<rparr>))\<lparr>p_waiters := []\<rparr>"
  note p = pool_inv_parts [OF assms]
  have "slots_ok {} 0 ?q" using p(1) unfolding slots_ok_def by (simp (no_asm)) simp
  moreover have "present_ok ?q" unfolding present_ok_def by simp
  moreover have "grants_ok {} ?q" using p(3) unfolding grants_ok_def by ((simp (no_asm))?, (blast | simp)?)
  moreover have "current_ok ?q" using p(4) unfolding current_ok_def by ((simp (no_asm))?, (blast | simp)?)
  moreover have "busy_ok {} ?q" using p(5) unfolding busy_ok_def by ((simp (no_asm))?, (blast | simp)?)
  moreover have "term_ok ?q" using p(6) unfolding term_ok_def by ((simp (no_asm))?, (blast | simp)?)
  moreover have "runs_ok ?q" using p(7) unfolding runs_ok_def by ((simp (no_asm))?, (blast | simp)?)
  moreover have "single_ok ?q" using p(8) unfolding single_ok_def by ((simp (no_asm))?, (blast | simp)?)
  moreover have "life_ok ok {} ?q" using p(7,9) unfolding life_ok_def runs_ok_def by (simp (no_asm)) blast
  ultimately show ?thesis using False unfolding pool_inv_def by (simp add: close_pool_def)
qed (use assms in \<open>simp add: close_pool_def\<close>)

lemma close_done_ok:
  assumes "pool_ok ok p" and "p_granted p = []"
  shows "pool_ok ok (close_done p)"
proof (cases "p_closed p")
  case True
  let ?q = "p\<lparr>p_workers := []\<rparr>"
  note p = pool_inv_parts [OF assms(1)]
  have g: "granted_workers p = {}" using assms(2) by (simp add: granted_workers_def)
  have "slots_ok {} 0 ?q" using p(1) True unfolding slots_ok_def by simp
  moreover have "present_ok ?q" using True unfolding present_ok_def by simp
  moreover have "grants_ok {} ?q" using p(3) unfolding grants_ok_def by (simp add: g)
  moreover have "busy_ok {} ?q" unfolding busy_ok_def by simp
  ultimately show ?thesis using True p unfolding pool_inv_def by (simp add: close_done_def)
qed (use assms in \<open>simp add: close_done_def\<close>)

lemma pool_step_ok: "pool_step ok p p' \<Longrightarrow> pool_ok ok p \<Longrightarrow> pool_ok ok p'"
  by (erule pool_stepE)
    (auto intro: run_ok resume_run_ok fire_abort_ok grace_expires_ok onMessage_ok removeAndCleanup_ok close_pool_ok close_done_ok)

lemma pool_reachable_ok: "pool_reachable ok m p \<Longrightarrow> pool_ok ok p"
  by (induction rule: pool_reachable.induct) (auto intro: new_pool_ok pool_step_ok)

section \<open>What holds of every pool\<close>

text \<open>A run and the worker that has been given to it.\<close>

definition holds :: "pool \<Rightarrow> run_id \<Rightarrow> worker_id \<Rightarrow> bool" where
  "holds p r k \<longleftrightarrow> (r, k) \<in> set (p_granted p) \<or> (\<exists>i. pw_current (p_worker p k) = Some (r, i))"

lemma p_max_ops [simp]:
  "p_max (acquire r p) = p_max p" "p_max (release k p) = p_max p" "p_max (begin_run r k c p) = p_max p"
  "p_max (finish_run k r v p) = p_max p"
  by (simp_all add: acquire_def release_def begin_run_def finish_run_def Let_def split: option.splits list.splits)

lemma pool_step_max: "pool_step ok p p' \<Longrightarrow> p_max p' = p_max p"
  by (erule pool_stepE)
    (simp_all add: run_def resume_run_def fire_abort_def abort_worker_def grace_expires_def onMessage_def removeAndCleanup_def
      close_pool_def close_done_def Let_def split: option.splits list.splits)

lemma pool_reachable_max: "pool_reachable ok m p \<Longrightarrow> p_max p = m"
  by (induction rule: pool_reachable.induct) (simp_all add: new_SandboxPool_def pool_step_max)

text \<open>
  C35: slots of the sandbox pool. A pool never has more than its maximum of workers; while a run waits
  every slot exists and is busy; no worker is given to two runs and no run to two workers.
\<close>

theorem pool_slots:
  assumes "pool_reachable ok m p"
  shows "length (p_workers p) \<le> m \<and>
         (p_waiters p \<noteq> [] \<longrightarrow> length (p_workers p) = m \<and> (\<forall>k \<in> set (p_workers p). pw_busy (p_worker p k))) \<and>
         (\<forall>k r r'. holds p r k \<and> holds p r' k \<longrightarrow> r = r') \<and>
         (\<forall>r k k'. holds p r k \<and> holds p r k' \<longrightarrow> k = k')"
proof -
  have i: "pool_ok ok p" and m: "p_max p = m" using assms pool_reachable_ok pool_reachable_max by blast+
  note q = pool_inv_parts [OF i]
  have "length (p_workers p) \<le> m"
    "p_waiters p \<noteq> [] \<longrightarrow> length (p_workers p) = m \<and> (\<forall>k \<in> set (p_workers p). pw_busy (p_worker p k))"
    using q(1) m unfolding slots_ok_def busy_def by simp_all
  moreover have h: "holds p r k \<longleftrightarrow> (r, k) \<in> set (p_granted p) \<or> (\<exists>i. current_run p k = Some (r, i))" for r k
    by (simp add: holds_def current_run_def)
  have inj: "inj_on fst (set (p_granted p))" "inj_on snd (set (p_granted p))"
    using q(3,7) unfolding grants_ok_def runs_ok_def by (simp_all add: distinct_map)
  have g: "(r, k) \<in> set (p_granted p) \<Longrightarrow> current_run p k = None \<and> r \<notin> running p" for r k
    using granted_facts [OF i, of r k] q(7) unfolding runs_ok_def by blast
  have c: "current_run p k = Some (r, i) \<Longrightarrow> r \<in> running p" for r k i unfolding running_of_def by blast
  have "r = r'" if "holds p r k" "holds p r' k" for k r r'
    using that g inj_onD [OF inj(2), of "(r, k)" "(r', k)"] unfolding h by (metis option.discI option.inject prod.inject snd_conv)
  moreover have "k = k'" if "holds p r k" "holds p r k'" for k k' r
    using that g c q(8) inj_onD [OF inj(1), of "(r, k)" "(r, k')"] unfolding h single_ok_def by (metis fst_conv prod.inject)
  ultimately show ?thesis by blast
qed

text \<open>
  C36: a busy slot is used. When \<open>send\<close> never throws, every busy worker of the pool has been given a
  run that has not settled, or is being terminated after the grace time of its abort.
\<close>

theorem busy_slot_used:
  assumes "pool_reachable True m p" and "k \<in> set (p_workers p)" and "pw_busy (p_worker p k)"
  shows "pw_terminationError (p_worker p k) \<noteq> None \<or> (\<exists>r. holds p r k \<and> r \<in> set (p_submitted p) \<and> \<not> jm_has (p_outcomes p) r)"
proof -
  have i: "pool_ok True p" using assms(1) by (rule pool_reachable_ok)
  note q = pool_inv_parts [OF i]
  consider "term_error p k \<noteq> None" | "k \<in> granted_workers p" | r i where "current_run p k = Some (r, i)"
    using q(5) assms(2,3) unfolding busy_ok_def busy_def by (metis empty_iff option.exhaust prod.exhaust)
  then show ?thesis
  proof cases
    case 1
    then show ?thesis by (simp add: term_error_def)
  next
    case 2
    then obtain r where "(r, k) \<in> set (p_granted p)" unfolding granted_workers_def by force
    with granted_facts [OF i this] q(9) show ?thesis unfolding holds_def life_ok_def settled_def by blast
  next
    case (3 r j)
    with current_facts [OF i 3] show ?thesis unfolding holds_def settled_def current_run_def by blast
  qed
qed

text \<open>
  C37: no run is lost. A submitted run has settled, waits, or has been given a worker that has not
  exited; so when a closed pool's workers have all exited, every run has settled.
\<close>

theorem no_run_lost:
  assumes "pool_reachable ok m p" and "r \<in> set (p_submitted p)"
  shows "(jm_has (p_outcomes p) r \<or> r \<in> set (p_waiters p) \<or>
            (\<exists>k < p_next p. holds p r k \<and> \<not> pw_cleaned (p_worker p k))) \<and>
         (p_closed p \<and> (\<forall>k < p_next p. pw_cleaned (p_worker p k)) \<longrightarrow> jm_has (p_outcomes p) r)"
proof -
  have i: "pool_ok ok p" using assms(1) by (rule pool_reachable_ok)
  note q = pool_inv_parts [OF i]
  consider "settled p r" | "r \<in> set (p_waiters p)" | "r \<in> granted_runs p" | "r \<in> running p"
    using q(9) assms(2) unfolding life_ok_def by blast
  then have one: "jm_has (p_outcomes p) r \<or> r \<in> set (p_waiters p) \<or>
      (\<exists>k < p_next p. holds p r k \<and> \<not> pw_cleaned (p_worker p k))"
  proof cases
    case 3
    then obtain k where g: "(r, k) \<in> set (p_granted p)" unfolding granted_runs_def by force
    then have "k \<in> set (p_workers p)" using granted_facts [OF i] by blast
    then show ?thesis using g q(1) unfolding holds_def slots_ok_def cleaned_def by blast
  next
    case 4
    then obtain k i' where c: "current_run p k = Some (r, i')" unfolding running_of_def by blast
    show ?thesis using c current_facts [OF i c] unfolding holds_def cleaned_def current_run_def by blast
  qed (simp_all add: settled_def)
  moreover have "p_waiters p = []" if "p_closed p" using q(1) that unfolding slots_ok_def by blast
  ultimately show ?thesis by auto
qed

section \<open>A small pool\<close>

text \<open>One slot: run 0 occupies it, run 1 waits.\<close>

definition full_pool :: "js_error option \<Rightarrow> pool" where
  "full_pool c = run 1 (resume_run 0 0 c (run 0 (new_SandboxPool 1)))"

lemma full_pool_reachable: "pool_reachable (c = None) 1 (full_pool c)"
  unfolding full_pool_def
proof (intro pool_reachable.step [OF _ pool_step.run] pool_reachable.step [OF _ pool_step.resume_run])
  show "pool_reachable (c = None) 1 (new_SandboxPool 1)" by (rule pool_reachable.start)
qed (simp_all add: new_SandboxPool_def run_def acquire_def spawn_def grant_def with_worker_def resume_run_def begin_run_def
    settle_run_def Let_def split: option.splits)

lemma full_pool_eq:
  "p_workers (full_pool c) = [0]" "p_waiters (full_pool c) = [1]" "pw_busy (p_worker (full_pool c) 0)"
  "pw_current (p_worker (full_pool c) 0) = Some (0, 1)" "pw_terminationError (p_worker (full_pool c) 0) = None"
  "p_granted (full_pool c) = []" "p_submitted (full_pool c) = [0, 1]" "p_next (full_pool c) = 1" "\<not> p_closed (full_pool c)"
  "p_outcomes (full_pool c) = (case c of None \<Rightarrow> [] | Some e \<Rightarrow> [(0, Thrown e)])"
  by (cases c; simp add: full_pool_def new_SandboxPool_def run_def acquire_def spawn_def grant_def with_worker_def resume_run_def
      begin_run_def settle_run_def jm_has_def Let_def)+

lemma pool_slots_witness:
  "p_waiters (full_pool None) = [1] \<and> length (p_workers (full_pool None)) = 1 \<and> {k. holds (full_pool None) 0 k} = {0}"
proof -
  have "pool_reachable True 1 (full_pool None)" using full_pool_reachable [of None] by simp
  note th = pool_slots [OF this]
  have "holds (full_pool None) 0 0" using full_pool_eq [of None] by (simp add: holds_def)
  then have "{k. holds (full_pool None) 0 k} = {0}" using th by blast
  moreover have "length (p_workers (full_pool None)) = 1" using th full_pool_eq(2) [of None] by simp
  ultimately show ?thesis using full_pool_eq(2) [of None] by blast
qed

lemma busy_slot_used_witness:
  "\<exists>r. holds (full_pool None) r 0 \<and> \<not> jm_has (p_outcomes (full_pool None)) r"
proof -
  have "pool_reachable True 1 (full_pool None)" using full_pool_reachable [of None] by simp
  from busy_slot_used [OF this, of 0] show ?thesis using full_pool_eq [of None] by auto
qed

lemma no_run_lost_witness: "\<exists>k. holds (full_pool None) 0 k \<and> \<not> pw_cleaned (p_worker (full_pool None) k)"
proof -
  have "pool_reachable True 1 (full_pool None)" using full_pool_reachable [of None] by simp
  from no_run_lost [OF this, of 0] show ?thesis using full_pool_eq [of None] by (auto simp: jm_has_def)
qed


text \<open>
  After the abort of a job its sandboxed processor can only log and discard. Every other call is
  refused, and a call that is accepted is one of the two.
\<close>

lemma aborted_job_is_read_only:
  "(\<exists>e. handleProxyRequest True active data m = Inl e) \<or>
   handleProxyRequest True active data m = Inr SetDiscarded \<or> (\<exists>s. handleProxyRequest True active data m = Inr (LogLine s))"
  by (cases m) (auto simp: handleProxyRequest_def method_name_def)

end
