(* ===== verification/Sandbox_Runner.thy ===== *)
theory Sandbox_Runner
  imports Sandbox_Pool Usage
begin

text \<open>
  The other end of the sandbox pool: the code inside a worker thread or child process
  (\<open>src/sandbox/runner.ts\<close>) and the job it hands to the processor (\<open>src/sandbox/sandbox-job.ts\<close>). The
  processor is the user's code: what it calls, and what it returns or throws, are inputs of the model.
  A promise that settles resumes its caller in a microtask of its own, so a settled call waits in
  \<open>cj_settled\<close> until that continuation runs.
\<close>

section \<open>The job of a sandboxed processor\<close>

record serialized_job =
  sz_id :: string
  sz_name :: string
  sz_data :: js
  sz_opts :: js
  sz_attemptsMade :: nat
  sz_timestamp :: int
  sz_progress :: js
  sz_processedOn :: "int option"
  sz_parentId :: "string option"
  sz_parentQueue :: "string option"
  sz_orderingKey :: "string option"
  sz_orderingSeq :: "int option"
  sz_groupKey :: "string option"
  sz_cost :: "rat option"

text \<open>What a pending call does when its answer arrives; \<open>CDelayed\<close> carries the data computed at the call.\<close>

datatype child_call = CLog | CProgress js | CData js | CDiscard | CDelayed rat "js option"

record child_job =
  cj_job :: serialized_job
  cj_data :: js
  cj_progress :: js
  cj_discarded :: bool
  cj_aborted :: bool
  cj_pending :: "(string, child_call) jsmap"
  cj_settled :: "(child_call \<times> (js_error + js)) list"
  cj_seq :: nat
  cj_invocation :: string

definition new_SandboxJob :: "serialized_job \<Rightarrow> string \<Rightarrow> child_job" where
  "new_SandboxJob s i =
     \<lparr>cj_job = s, cj_data = sz_data s, cj_progress = sz_progress s, cj_discarded = False, cj_aborted = False,
      cj_pending = [], cj_settled = [], cj_seq = 0, cj_invocation = i\<rparr>"

record child_failure =
  cf_error :: string
  cf_stack :: "string option"
  cf_errorName :: string
  cf_discarded :: bool
  cf_delayedUntil :: "rat option"

datatype from_child = CCompleted string js | CFailed string child_failure | CRequest string proxy_method

section \<open>Calls on the job\<close>

definition request_id :: "child_job \<Rightarrow> nat \<Rightarrow> string" where
  "request_id j n = cj_invocation j @ '':'' @ show_nat n"

text \<open>\<open>proxyCall\<close>: after the abort only logging and discarding are sent.\<close>

definition refused :: "child_job \<Rightarrow> proxy_method \<Rightarrow> bool" where
  "refused j m \<longleftrightarrow> cj_aborted j \<and> method_name m \<noteq> ''log'' \<and> method_name m \<noteq> ''discard''"

definition proxyCall :: "proxy_method \<Rightarrow> child_call \<Rightarrow> child_job \<Rightarrow> child_job \<times> (js_error + from_child)" where
  "proxyCall m c j =
     (if refused j m
      then (j, Inl (err (''Job aborted: '' @ method_name m @ ''() is not allowed after the job's abort signal fired'')))
      else (let n = Suc (cj_seq j); i = request_id j n
            in (j\<lparr>cj_seq := n, cj_pending := jm_set i c (cj_pending j)\<rparr>, Inr (CRequest i m))))"

type_synonym 'a sandbox_call = "child_job \<Rightarrow> child_job \<times> (js_error + 'a)"

definition sandbox_log :: "string \<Rightarrow> from_child sandbox_call" where
  "sandbox_log s = proxyCall (PLog s) CLog"

definition sandbox_updateProgress :: "js \<Rightarrow> from_child sandbox_call" where
  "sandbox_updateProgress v = proxyCall (PProgress v) (CProgress v)"

definition sandbox_updateData :: "js \<Rightarrow> from_child sandbox_call" where
  "sandbox_updateData v = proxyCall (PData v) (CData v)"

definition sandbox_discard :: "from_child sandbox_call" where
  "sandbox_discard j = proxyCall PDiscard CDiscard (j\<lparr>cj_discarded := True\<rparr>)"

definition sandbox_moveToDelayed :: "jsnum \<Rightarrow> string option \<Rightarrow> from_child sandbox_call" where
  "sandbox_moveToDelayed t nextStep j =
     (case t of
        Num q \<Rightarrow>
          if q < 0 then (j, Inl (err ''Timestamp must be a finite Unix millisecond value >= 0''))
          else (case nextStep of
                  None \<Rightarrow> proxyCall (PMoveToDelayed (Num (of_int (js_trunc q))) None) (CDelayed (of_int (js_trunc q)) None) j
                | Some s \<Rightarrow>
                    if isPlainStepPayload (cj_data j)
                    then proxyCall (PMoveToDelayed (Num (of_int (js_trunc q))) (Some s)) (CDelayed (of_int (js_trunc q)) (Some (with_step (cj_data j) s))) j
                    else (j, Inl (err ''moveToDelayed(nextStep) requires plain-object job data'')))
      | _ \<Rightarrow> (j, Inl (err ''Timestamp must be a finite Unix millisecond value >= 0'')))"

text \<open>\<open>getState\<close>, \<open>remove\<close>, \<open>retry\<close>, the state tests, \<open>moveToFailed\<close>, \<open>getChildrenValues\<close> and \<open>waitUntilFinished\<close>.\<close>

definition not_available :: "'a sandbox_call" where
  "not_available j = (j, Inl (GlideMQError ''Method not available in sandboxed processor''))"

section \<open>Answers\<close>

definition sandbox_abort :: "child_job \<Rightarrow> child_job" where
  "sandbox_abort j = j\<lparr>cj_aborted := True\<rparr>"

definition handleProxyResponse :: "string \<Rightarrow> js \<Rightarrow> string option \<Rightarrow> child_job \<Rightarrow> child_job" where
  "handleProxyResponse i v e j =
     (case jm_get (cj_pending j) i of
        None \<Rightarrow> j
      | Some c \<Rightarrow>
          j\<lparr>cj_pending := jm_delete i (cj_pending j),
            cj_settled := cj_settled j @ [(c, case nonempty_str e of Some m \<Rightarrow> Inl (err m) | None \<Rightarrow> Inr v)]\<rparr>)"

text \<open>The continuation of a settled call, and what its caller sees.\<close>

definition continue_with :: "child_call \<Rightarrow> js_error + js \<Rightarrow> child_job \<Rightarrow> child_job \<times> (js_error + unit)" where
  "continue_with c res j =
     (case res of
        Inl e \<Rightarrow> (j, if c = CDiscard then Inr () else Inl e)
      | Inr v \<Rightarrow>
          (case c of
             CLog \<Rightarrow> (j, Inr ())
           | CProgress p \<Rightarrow> (j\<lparr>cj_progress := p\<rparr>, Inr ())
           | CData d \<Rightarrow> (j\<lparr>cj_data := d\<rparr>, Inr ())
           | CDiscard \<Rightarrow> (j, Inr ())
           | CDelayed t d \<Rightarrow>
               (case d of None \<Rightarrow> j | Some d' \<Rightarrow> j\<lparr>cj_data := d'\<rparr>, Inl (DelayedError t))))"

definition continue_call :: "unit sandbox_call" where
  "continue_call j =
     (case cj_settled j of
        [] \<Rightarrow> (j, Inr ())
      | (c, res) # rest \<Rightarrow> continue_with c res (j\<lparr>cj_settled := rest\<rparr>))"

section \<open>The runner\<close>

text \<open>Jobs are objects: the processor keeps its own after \<open>activeJobs\<close> has dropped it. \<open>rn_running\<close> are the jobs whose processor has not ended.\<close>

record runner =
  rn_job :: "nat \<Rightarrow> child_job"
  rn_next :: nat
  rn_active :: "(string, nat) jsmap"
  rn_running :: "nat list"
  rn_cached :: bool
  rn_sent :: "from_child list"

definition blank_serialized :: serialized_job where
  "blank_serialized =
     \<lparr>sz_id = [], sz_name = [], sz_data = JUndef, sz_opts = JUndef, sz_attemptsMade = 0, sz_timestamp = 0, sz_progress = JUndef,
      sz_processedOn = None, sz_parentId = None, sz_parentQueue = None, sz_orderingKey = None, sz_orderingSeq = None,
      sz_groupKey = None, sz_cost = None\<rparr>"

definition new_runner :: runner where
  "new_runner =
     \<lparr>rn_job = (\<lambda>_. new_SandboxJob blank_serialized []), rn_next = 0, rn_active = [], rn_running = [], rn_cached = False, rn_sent = []\<rparr>"

definition with_job :: "nat \<Rightarrow> (child_job \<Rightarrow> child_job) \<Rightarrow> runner \<Rightarrow> runner" where
  "with_job r f rn = rn\<lparr>rn_job := (rn_job rn)(r := f (rn_job rn r))\<rparr>"

definition send_up :: "from_child \<Rightarrow> runner \<Rightarrow> runner" where
  "send_up m rn = rn\<lparr>rn_sent := rn_sent rn @ [m]\<rparr>"

text \<open>Every occurrence of a project path is replaced; the paths are tried in their order at each position.\<close>

definition starts_with :: "string \<Rightarrow> string \<Rightarrow> bool" where
  "starts_with s p \<longleftrightarrow> p \<noteq> [] \<and> take (length p) s = p"

function replace_paths :: "string list \<Rightarrow> string \<Rightarrow> string" where
  "replace_paths ps [] = []"
| "replace_paths ps (c # cs) =
     (case List.find (starts_with (c # cs)) ps of
        Some p \<Rightarrow> ''[PROJECT_ROOT]'' @ replace_paths ps (drop (length p) (c # cs))
      | None \<Rightarrow> c # replace_paths ps cs)"
  by pat_completeness auto

termination
proof (relation "measure (\<lambda>(ps, s). length s)")
  fix ps :: "string list" and c cs p assume "List.find (starts_with (c # cs)) ps = Some p"
  then have "p \<noteq> []" by (auto simp: find_Some_iff starts_with_def)
  then show "((ps, drop (length p) (c # cs)), ps, c # cs) \<in> measure (\<lambda>(ps, s). length s)" by (cases p) auto
qed auto

definition sanitizePath :: "string list \<Rightarrow> string option \<Rightarrow> string option" where
  "sanitizePath ps text = (case nonempty_str text of None \<Rightarrow> text | Some t \<Rightarrow> Some (replace_paths ps t))"

text \<open>The stack of the error, or one made on the spot (\<open>synthesized\<close>).\<close>

definition getSanitizedStack :: "string list \<Rightarrow> string option \<Rightarrow> string option \<Rightarrow> string option" where
  "getSanitizedStack ps stack synthesized =
     sanitizePath ps (case nonempty_str stack of None \<Rightarrow> synthesized | Some s \<Rightarrow> Some s)"

definition delayedUntil_of :: "js_error \<Rightarrow> rat option" where
  "delayedUntil_of e = (case e of DelayedError t \<Rightarrow> Some t | _ \<Rightarrow> None)"

record thrown =
  th_error :: js_error
  th_stack :: "string option"
  th_synthesized :: "string option"

definition failure_of :: "string list \<Rightarrow> thrown \<Rightarrow> child_job \<Rightarrow> child_failure" where
  "failure_of ps t j =
     \<lparr>cf_error = or_else (sanitizePath ps (Some (message_of (th_error t)))) ''Unknown error'',
      cf_stack = getSanitizedStack ps (th_stack t) (th_synthesized t), cf_errorName = name_of (th_error t),
      cf_discarded = cj_discarded j, cf_delayedUntil = delayedUntil_of (th_error t)\<rparr>"

text \<open>\<open>loaded\<close> is what importing the file gives: an error, or whether its export is a function.\<close>

definition loadProcessor :: "string \<Rightarrow> js_error + bool \<Rightarrow> runner \<Rightarrow> runner \<times> (js_error + unit)" where
  "loadProcessor path loaded rn =
     (if rn_cached rn then (rn, Inr ())
      else case loaded of
             Inl e \<Rightarrow> (rn, Inl e)
           | Inr is_fun \<Rightarrow>
               if \<not> is_fun then (rn, Inl (err (''Processor file '' @ path @ '' does not export a function'')))
               else (rn\<lparr>rn_cached := True\<rparr>, Inr ()))"

definition start_process :: "string \<Rightarrow> serialized_job \<Rightarrow> runner \<Rightarrow> runner" where
  "start_process i s rn =
     rn\<lparr>rn_job := (rn_job rn)(rn_next rn := new_SandboxJob s i), rn_next := Suc (rn_next rn),
       rn_active := jm_set i (rn_next rn) (rn_active rn), rn_running := rn_running rn @ [rn_next rn]\<rparr>"

text \<open>The end of a processor. \<open>clone\<close> says whether \<open>send\<close> can serialize the result; when it throws, the job fails.\<close>

definition finish_process :: "string list \<Rightarrow> nat \<Rightarrow> thrown + js \<Rightarrow> thrown option \<Rightarrow> runner \<Rightarrow> runner" where
  "finish_process ps r out clone rn =
     (let i = cj_invocation (rn_job rn r);
          rn1 = rn\<lparr>rn_active := jm_delete i (rn_active rn), rn_running := removeAll r (rn_running rn)\<rparr>;
          fail = (\<lambda>t. send_up (CFailed i (failure_of ps t (rn_job rn r))) rn1)
      in case out of
           Inl t \<Rightarrow> fail t
         | Inr v \<Rightarrow> (case clone of None \<Rightarrow> send_up (CCompleted i v) rn1 | Some t \<Rightarrow> fail t))"

text \<open>A file that does not load fails the job like its processor would.\<close>

definition load_and_run :: "string list \<Rightarrow> string \<Rightarrow> nat \<Rightarrow> js_error + bool \<Rightarrow> string option \<Rightarrow> runner \<Rightarrow> runner" where
  "load_and_run ps path r loaded stack rn =
     (case loadProcessor path loaded rn of
        (rn', Inr u) \<Rightarrow> rn'
      | (rn', Inl e) \<Rightarrow> finish_process ps r (Inl \<lparr>th_error = e, th_stack = stack, th_synthesized = None\<rparr>) None rn')"

section \<open>Messages of the pool\<close>

datatype to_child = CProcess string serialized_job | CAbort string | CResponse string js "string option" | CInvalid

definition handleMessage :: "to_child \<Rightarrow> runner \<Rightarrow> runner" where
  "handleMessage m rn =
     (case m of
        CProcess i s \<Rightarrow> start_process i s rn
      | CAbort i \<Rightarrow> (case jm_get (rn_active rn) i of None \<Rightarrow> rn | Some r \<Rightarrow> with_job r sandbox_abort rn)
      | CResponse k v e \<Rightarrow>
          if CHR '':'' \<in> set k
          then (case jm_get (rn_active rn) (takeWhile (\<lambda>c. c \<noteq> CHR '':'') k) of
                  None \<Rightarrow> rn
                | Some r \<Rightarrow> with_job r (handleProxyResponse k v e) rn)
          else rn
      | CInvalid \<Rightarrow> rn)"

text \<open>A call of the processor, and the continuation of one.\<close>

definition call_job :: "nat \<Rightarrow> from_child sandbox_call \<Rightarrow> runner \<Rightarrow> runner \<times> (js_error + unit)" where
  "call_job r f rn =
     (case f (rn_job rn r) of
        (j, Inl e) \<Rightarrow> (with_job r (\<lambda>_. j) rn, Inl e)
      | (j, Inr m) \<Rightarrow> (send_up m (with_job r (\<lambda>_. j) rn), Inr ()))"

definition continue_job :: "nat \<Rightarrow> runner \<Rightarrow> runner \<times> (js_error + unit)" where
  "continue_job r rn = (case continue_call (rn_job rn r) of (j, res) \<Rightarrow> (with_job r (\<lambda>_. j) rn, res))"

section \<open>Steps\<close>

definition sandbox_calls :: "from_child sandbox_call set" where
  "sandbox_calls = range sandbox_log \<union> range sandbox_updateProgress \<union> range sandbox_updateData \<union> {sandbox_discard} \<union>
     {sandbox_moveToDelayed t n | t n. True}"

text \<open>
  The pool numbers its invocations, so an id is a numeral it has not used before. The processor may
  call its job at any time, also after it has ended.
\<close>

inductive runner_step :: "runner \<Rightarrow> runner \<Rightarrow> bool" where
  process: "\<forall>r<rn_next rn. cj_invocation (rn_job rn r) \<noteq> show_nat i \<Longrightarrow> runner_step rn (handleMessage (CProcess (show_nat i) s) rn)"
| load: "r \<in> set (rn_running rn) \<Longrightarrow> runner_step rn (load_and_run ps path r loaded stack rn)"
| abort: "runner_step rn (handleMessage (CAbort i) rn)"
| response: "runner_step rn (handleMessage (CResponse k v e) rn)"
| call: "r < rn_next rn \<Longrightarrow> f \<in> sandbox_calls \<Longrightarrow> runner_step rn (fst (call_job r f rn))"
| continue: "r < rn_next rn \<Longrightarrow> runner_step rn (fst (continue_job r rn))"
| finish: "r \<in> set (rn_running rn) \<Longrightarrow> runner_step rn (finish_process ps r out clone rn)"

inductive runner_reachable :: "runner \<Rightarrow> bool" where
  start: "runner_reachable new_runner"
| step: "runner_reachable rn \<Longrightarrow> runner_step rn rn' \<Longrightarrow> runner_reachable rn'"

end
