(* ===== verification/Sandbox_Runner_Inv.thy ===== *)
theory Sandbox_Runner_Inv
  imports Sandbox_Runner
begin

text \<open>
  The requests a sandboxed processor sends and the answers that come back: ids are never used twice,
  and an answer settles the one call that waits for it.
\<close>

section \<open>Request ids\<close>

lemma digits_no_colon: "is_digits s \<Longrightarrow> CHR '':'' \<notin> set s"
  by (auto simp: is_digits_def list_all_iff is_digit_def less_eq_char_def)

lemma show_nat_no_colon: "CHR '':'' \<notin> set (show_nat n)"
  using is_digits_show_nat digits_no_colon by blast

definition plain_id :: "string \<Rightarrow> bool" where
  "plain_id i \<longleftrightarrow> CHR '':'' \<notin> set i"

lemma take_before_colon: "plain_id i \<Longrightarrow> takeWhile (\<lambda>c. c \<noteq> CHR '':'') (i @ CHR '':'' # s) = i"
  unfolding plain_id_def by (induction i) auto

lemma request_owner: "plain_id (cj_invocation j) \<Longrightarrow> takeWhile (\<lambda>c. c \<noteq> CHR '':'') (request_id j n) = cj_invocation j"
  using take_before_colon [of "cj_invocation j" "show_nat n"] by (simp add: request_id_def)

lemma request_id_inj:
  assumes "plain_id (cj_invocation j)" and "plain_id (cj_invocation j')" and "request_id j n = request_id j' n'"
  shows "cj_invocation j = cj_invocation j' \<and> n = n'"
proof -
  have "cj_invocation j = cj_invocation j'" using request_owner [OF assms(1), of n] request_owner [OF assms(2), of n'] assms(3) by simp
  with assms(3) show ?thesis by (simp add: request_id_def show_nat_inj)
qed

section \<open>Jobs\<close>

definition waiting_ids :: "child_job \<Rightarrow> string set" where
  "waiting_ids j = set (jm_keys (cj_pending j))"

text \<open>The ids a job has used.\<close>

definition used_ids :: "child_job \<Rightarrow> string set" where
  "used_ids j = request_id j ` {1..cj_seq j}"

text \<open>The calls that wait were numbered by the job.\<close>

definition job_ok :: "child_job \<Rightarrow> bool" where
  "job_ok j \<longleftrightarrow> plain_id (cj_invocation j) \<and> waiting_ids j \<subseteq> used_ids j"

lemma used_ids_Suc: "cj_invocation j' = cj_invocation j \<Longrightarrow> cj_seq j' = Suc (cj_seq j) \<Longrightarrow>
    used_ids j' = insert (request_id j (Suc (cj_seq j))) (used_ids j)"
  by (simp add: used_ids_def request_id_def atLeastAtMostSuc_conv)

lemma used_ids_same: "cj_invocation j' = cj_invocation j \<Longrightarrow> cj_seq j' = cj_seq j \<Longrightarrow> used_ids j' = used_ids j"
  by (simp add: used_ids_def request_id_def)

lemma request_id_cong: "cj_invocation j' = cj_invocation j \<Longrightarrow> request_id j' n = request_id j n"
  by (simp add: request_id_def)

lemma proxyCall_cases:
  assumes "proxyCall m c j = (j', res)"
  shows "(\<exists>e. res = Inl e \<and> j' = j) \<or>
    (res = Inr (CRequest (request_id j (Suc (cj_seq j))) m) \<and>
     j' = j\<lparr>cj_seq := Suc (cj_seq j), cj_pending := jm_set (request_id j (Suc (cj_seq j))) c (cj_pending j)\<rparr>)"
  using assms by (auto simp: proxyCall_def Let_def split: if_splits)

text \<open>What any call of the processor does to its job.\<close>

definition job_called :: "child_job \<Rightarrow> child_job \<Rightarrow> (js_error + from_child) \<Rightarrow> bool" where
  "job_called j j' res \<longleftrightarrow> cj_invocation j' = cj_invocation j \<and>
     ((\<exists>e. res = Inl e \<and> cj_seq j' = cj_seq j \<and> cj_pending j' = cj_pending j) \<or>
      (\<exists>m c. res = Inr (CRequest (request_id j (Suc (cj_seq j))) m) \<and> cj_seq j' = Suc (cj_seq j) \<and>
         cj_pending j' = jm_set (request_id j (Suc (cj_seq j))) c (cj_pending j)))"

lemma proxyCall_called: "proxyCall m c j = (j', res) \<Longrightarrow> job_called j j' res"
  using proxyCall_cases by (fastforce simp: job_called_def)

lemma sandbox_call_called:
  assumes "f \<in> sandbox_calls" and "f j = (j', res)"
  shows "job_called j j' res"
proof -
  consider s where "f = sandbox_log s" | v where "f = sandbox_updateProgress v" | v where "f = sandbox_updateData v"
    | "f = sandbox_discard" | t n where "f = sandbox_moveToDelayed t n"
    using assms(1) by (auto simp: sandbox_calls_def)
  then show ?thesis
  proof cases
    case 4
    then have "proxyCall PDiscard CDiscard (j\<lparr>cj_discarded := True\<rparr>) = (j', res)" using assms(2) by (simp add: sandbox_discard_def)
    then have "job_called (j\<lparr>cj_discarded := True\<rparr>) j' res" by (rule proxyCall_called)
    then show ?thesis by (simp add: job_called_def request_id_def)
  next
    case 5
    then show ?thesis using assms(2) proxyCall_called
      by (auto simp: sandbox_moveToDelayed_def job_called_def split: jsnum.splits if_splits option.splits)
  qed (use assms(2) proxyCall_called in \<open>auto simp: sandbox_log_def sandbox_updateProgress_def sandbox_updateData_def\<close>)
qed

lemma job_called_ids:
  assumes "job_called j j' res"
  shows "cj_invocation j' = cj_invocation j \<and>
    ((\<exists>e. res = Inl e \<and> used_ids j' = used_ids j \<and> waiting_ids j' = waiting_ids j) \<or>
     (\<exists>m. res = Inr (CRequest (request_id j (Suc (cj_seq j))) m) \<and>
        used_ids j' = insert (request_id j (Suc (cj_seq j))) (used_ids j) \<and>
        waiting_ids j' = insert (request_id j (Suc (cj_seq j))) (waiting_ids j)))"
  using assms unfolding job_called_def
proof (elim conjE disjE exE)
  fix m c assume "cj_pending j' = jm_set (request_id j (Suc (cj_seq j))) c (cj_pending j)"
  then have "waiting_ids j' = insert (request_id j (Suc (cj_seq j))) (waiting_ids j)"
    unfolding waiting_ids_def by (simp only: jm_keys_set)
  moreover assume "cj_invocation j' = cj_invocation j" "cj_seq j' = Suc (cj_seq j)"
    "res = Inr (CRequest (request_id j (Suc (cj_seq j))) m)"
  ultimately show ?thesis using used_ids_Suc [of j' j] by blast
next
  fix e assume e: "cj_invocation j' = cj_invocation j" "res = Inl e" "cj_seq j' = cj_seq j" "cj_pending j' = cj_pending j"
  have "waiting_ids j' = waiting_ids j" unfolding waiting_ids_def e(4) by (rule refl)
  then show ?thesis using e(1,2) used_ids_same [OF e(1,3)] by blast
qed

lemma job_called_ok: "job_called j j' res \<Longrightarrow> job_ok j \<Longrightarrow> job_ok j'"
proof -
  assume c: "job_called j j' res" and ok: "job_ok j"
  note i = job_called_ids [OF c]
  have p: "plain_id (cj_invocation j')" using i ok by (simp add: job_ok_def)
  from i have "waiting_ids j' \<subseteq> used_ids j'"
  proof (elim conjE disjE exE)
    fix e assume "used_ids j' = used_ids j" "waiting_ids j' = waiting_ids j"
    then show ?thesis using ok by (simp add: job_ok_def)
  next
    fix m assume "used_ids j' = insert (request_id j (Suc (cj_seq j))) (used_ids j)"
      "waiting_ids j' = insert (request_id j (Suc (cj_seq j))) (waiting_ids j)"
    then show ?thesis using ok by (simp only: job_ok_def insert_mono)
  qed
  with p show "job_ok j'" by (simp add: job_ok_def)
qed

lemma response_job:
  "cj_invocation (handleProxyResponse k v e j) = cj_invocation j" "used_ids (handleProxyResponse k v e j) = used_ids j"
  "waiting_ids (handleProxyResponse k v e j) = waiting_ids j - {k}"
proof -
  show "cj_invocation (handleProxyResponse k v e j) = cj_invocation j" "used_ids (handleProxyResponse k v e j) = used_ids j"
    by (auto simp: handleProxyResponse_def intro!: used_ids_same split: option.split)
  show "waiting_ids (handleProxyResponse k v e j) = waiting_ids j - {k}"
  proof (cases "jm_get (cj_pending j) k")
    case None
    then have "k \<notin> waiting_ids j" by (simp add: waiting_ids_def map_of_eq_None_iff)
    then show ?thesis using None by (simp add: handleProxyResponse_def)
  next
    case (Some c)
    then have "cj_pending (handleProxyResponse k v e j) = jm_delete k (cj_pending j)" by (simp add: handleProxyResponse_def del: map_of_eq_Some_iff)
    then show ?thesis unfolding waiting_ids_def by (simp only: jm_keys_delete set_removeAll)
  qed
qed

lemma job_ok_response: "job_ok j \<Longrightarrow> job_ok (handleProxyResponse k v e j)"
  unfolding job_ok_def response_job by (elim conjE) (intro conjI, assumption, rule subset_trans [OF Diff_subset])

lemma continue_job_same:
  assumes "continue_call j = (j', res)"
  shows "cj_invocation j' = cj_invocation j \<and> used_ids j' = used_ids j \<and> waiting_ids j' = waiting_ids j"
proof -
  have "cj_invocation j' = cj_invocation j \<and> cj_seq j' = cj_seq j \<and> cj_pending j' = cj_pending j"
  proof (cases "cj_settled j")
    case Nil
    then show ?thesis using assms by (simp add: continue_call_def)
  next
    case (Cons a rest)
    obtain c r where "a = (c, r)" by (cases a)
    with Cons have "continue_with c r (j\<lparr>cj_settled := rest\<rparr>) = (j', res)" using assms by (simp add: continue_call_def)
    then show ?thesis by (cases r; cases c) (auto simp: continue_with_def split: option.splits)
  qed
  then have c: "cj_invocation j' = cj_invocation j" "cj_seq j' = cj_seq j" "cj_pending j' = cj_pending j" by blast+
  have "waiting_ids j' = waiting_ids j" unfolding waiting_ids_def c(3) by (rule refl)
  then show ?thesis using c(1) used_ids_same [OF c(1,2)] by blast
qed

section \<open>The runner\<close>

definition request_of :: "from_child \<Rightarrow> string list" where
  "request_of m = (case m of CRequest k _ \<Rightarrow> [k] | _ \<Rightarrow> [])"

definition requests :: "runner \<Rightarrow> string list" where
  "requests rn = concat (map request_of (rn_sent rn))"

definition all_used :: "runner \<Rightarrow> string set" where
  "all_used rn = (\<Union>r\<in>{..<rn_next rn}. used_ids (rn_job rn r))"

lemma in_all_used: "x \<in> all_used rn \<longleftrightarrow> (\<exists>r<rn_next rn. x \<in> used_ids (rn_job rn r))"
  unfolding all_used_def by (simp only: UN_iff lessThan_iff Bex_def)

definition rn_jobs_ok :: "runner \<Rightarrow> bool" where
  "rn_jobs_ok rn \<longleftrightarrow> (\<forall>r<rn_next rn. job_ok (rn_job rn r)) \<and> inj_on (\<lambda>r. cj_invocation (rn_job rn r)) {..<rn_next rn}"

definition rn_active_ok :: "runner \<Rightarrow> bool" where
  "rn_active_ok rn \<longleftrightarrow> set (rn_running rn) \<subseteq> {..<rn_next rn} \<and>
     (\<forall>i r. jm_get (rn_active rn) i = Some r \<longleftrightarrow> r \<in> set (rn_running rn) \<and> cj_invocation (rn_job rn r) = i)"

definition rn_requests_ok :: "runner \<Rightarrow> bool" where
  "rn_requests_ok rn \<longleftrightarrow> distinct (requests rn) \<and> set (requests rn) = all_used rn"

definition rn_ok :: "runner \<Rightarrow> bool" where
  "rn_ok rn \<longleftrightarrow> rn_jobs_ok rn \<and> rn_active_ok rn \<and> rn_requests_ok rn"

lemma rn_ok_new: "rn_ok new_runner"
  by (simp add: rn_ok_def rn_jobs_ok_def rn_active_ok_def rn_requests_ok_def new_runner_def requests_def all_used_def)

text \<open>A step that changes one job, keeping what the invariant reads, or sends no request.\<close>

definition same_ids :: "child_job \<Rightarrow> child_job \<Rightarrow> bool" where
  "same_ids j j' \<longleftrightarrow> cj_invocation j' = cj_invocation j \<and> used_ids j' = used_ids j \<and> waiting_ids j' \<subseteq> waiting_ids j"

lemma rn_ok_with_job:
  assumes "rn_ok rn" and "same_ids (rn_job rn r) (f (rn_job rn r))"
  shows "rn_ok (with_job r f rn)"
proof -
  let ?rn = "with_job r f rn"
  have inv: "cj_invocation (rn_job ?rn x) = cj_invocation (rn_job rn x)" and used: "used_ids (rn_job ?rn x) = used_ids (rn_job rn x)"
    and ok: "job_ok (rn_job rn x) \<Longrightarrow> job_ok (rn_job ?rn x)" for x
    using assms(2) by (auto simp: with_job_def same_ids_def job_ok_def)
  have f: "rn_next ?rn = rn_next rn" "rn_active ?rn = rn_active rn" "rn_running ?rn = rn_running rn" "requests ?rn = requests rn"
    by (simp_all add: with_job_def requests_def)
  have "all_used ?rn = all_used rn" by (simp add: all_used_def f used)
  then show ?thesis using assms(1) ok by (simp add: rn_ok_def rn_jobs_ok_def rn_active_ok_def rn_requests_ok_def f inv)
qed

lemma same_ids_refl: "same_ids j j"
  by (simp add: same_ids_def)

lemma same_ids_abort: "same_ids j (sandbox_abort j)"
  by (simp add: same_ids_def sandbox_abort_def used_ids_def request_id_def waiting_ids_def)

lemma same_ids_response: "same_ids j (handleProxyResponse k v e j)"
  unfolding same_ids_def response_job by blast

text \<open>A number a job has not used yet gives an id that no job has used.\<close>

lemma next_id_new:
  assumes "rn_jobs_ok rn" and "r < rn_next rn"
  shows "request_id (rn_job rn r) (Suc (cj_seq (rn_job rn r))) \<notin> all_used rn"
proof
  assume "request_id (rn_job rn r) (Suc (cj_seq (rn_job rn r))) \<in> all_used rn"
  then obtain x n where x: "x < rn_next rn" "n \<le> cj_seq (rn_job rn x)"
    "request_id (rn_job rn r) (Suc (cj_seq (rn_job rn r))) = request_id (rn_job rn x) n"
    by (auto simp: all_used_def used_ids_def)
  have "plain_id (cj_invocation (rn_job rn r))" "plain_id (cj_invocation (rn_job rn x))"
    using assms x(1) by (simp_all add: rn_jobs_ok_def job_ok_def)
  from request_id_inj [OF this x(3)] have "cj_invocation (rn_job rn r) = cj_invocation (rn_job rn x)" "Suc (cj_seq (rn_job rn r)) = n"
    by simp_all
  moreover from this(1) have "r = x" using assms x(1) by (auto simp: rn_jobs_ok_def inj_on_def)
  ultimately show False using x(2) by simp
qed

lemma rn_ok_request:
  assumes "rn_ok rn" and "r < rn_next rn" and "job_called (rn_job rn r) j (Inr (CRequest (request_id (rn_job rn r) (Suc (cj_seq (rn_job rn r)))) m))"
  shows "rn_ok (send_up (CRequest (request_id (rn_job rn r) (Suc (cj_seq (rn_job rn r)))) m) (with_job r (\<lambda>_. j) rn))"
proof -
  let ?k = "request_id (rn_job rn r) (Suc (cj_seq (rn_job rn r)))"
  let ?rn = "send_up (CRequest ?k m) (with_job r (\<lambda>_. j) rn)"
  have parts: "rn_jobs_ok rn" "rn_active_ok rn" "rn_requests_ok rn" using assms(1) by (simp_all add: rn_ok_def)
  have c: "cj_invocation j = cj_invocation (rn_job rn r)" "used_ids j = insert ?k (used_ids (rn_job rn r))"
    using job_called_ids [OF assms(3)] by simp_all
  have jobs: "rn_job ?rn x = (if x = r then j else rn_job rn x)" for x by (simp add: send_up_def with_job_def)
  have f: "rn_next ?rn = rn_next rn" "rn_active ?rn = rn_active rn" "rn_running ?rn = rn_running rn" "requests ?rn = requests rn @ [?k]"
    by (simp_all add: send_up_def with_job_def requests_def request_of_def)
  have inv: "cj_invocation (rn_job ?rn x) = cj_invocation (rn_job rn x)" for x by (simp add: jobs c(1))
  have used: "all_used ?rn = insert ?k (all_used rn)"
  proof -
    have "x \<in> used_ids (rn_job ?rn y) \<longleftrightarrow> x \<in> used_ids (rn_job rn y) \<or> (y = r \<and> x = ?k)" for x y
      unfolding jobs by (cases "y = r") (simp_all only: c(2) if_True if_False insert_iff simp_thms disj_commute)
    then show ?thesis using assms(2) by (intro set_eqI) (simp only: in_all_used insert_iff f, blast)
  qed
  have "job_ok (rn_job ?rn x)" if "x < rn_next rn" for x
    using parts(1) that job_called_ok [OF assms(3)] assms(2) by (simp add: jobs rn_jobs_ok_def)
  then have "rn_jobs_ok ?rn" using parts(1) by (simp add: rn_jobs_ok_def f inv)
  moreover have "rn_active_ok ?rn" using parts(2) by (simp add: rn_active_ok_def f inv)
  moreover have "rn_requests_ok ?rn" using parts(3) next_id_new [OF parts(1) assms(2)] by (simp add: rn_requests_ok_def f used)
  ultimately show ?thesis by (simp add: rn_ok_def)
qed

lemma rn_ok_call:
  assumes "rn_ok rn" and "r < rn_next rn" and "f \<in> sandbox_calls"
  shows "rn_ok (fst (call_job r f rn))"
proof -
  obtain j res where f: "f (rn_job rn r) = (j, res)" by fastforce
  have c: "job_called (rn_job rn r) j res" by (rule sandbox_call_called [OF assms(3) f])
  from job_called_ids [OF c] show ?thesis
  proof (elim conjE disjE exE)
    fix e assume "cj_invocation j = cj_invocation (rn_job rn r)" "res = Inl e" "used_ids j = used_ids (rn_job rn r)"
      "waiting_ids j = waiting_ids (rn_job rn r)"
    then show ?thesis using rn_ok_with_job [OF assms(1), of r "\<lambda>_. j"] f by (simp add: call_job_def same_ids_def)
  next
    fix m assume m: "res = Inr (CRequest (request_id (rn_job rn r) (Suc (cj_seq (rn_job rn r)))) m)"
    show ?thesis using rn_ok_request [OF assms(1,2) c [unfolded m]] f m by (simp add: call_job_def)
  qed
qed

lemma rn_ok_continue: "rn_ok rn \<Longrightarrow> rn_ok (fst (continue_job r rn))"
proof -
  assume ok: "rn_ok rn"
  obtain j res where f: "continue_call (rn_job rn r) = (j, res)" by fastforce
  have "same_ids (rn_job rn r) j" using continue_job_same [OF f] by (simp add: same_ids_def)
  then show ?thesis using rn_ok_with_job [OF ok, of r "\<lambda>_. j"] f by (simp add: continue_job_def)
qed

lemma rn_ok_start:
  assumes "rn_ok rn" and "plain_id i" and "\<forall>r<rn_next rn. cj_invocation (rn_job rn r) \<noteq> i"
  shows "rn_ok (start_process i s rn)"
proof -
  let ?rn = "start_process i s rn"
  have parts: "rn_jobs_ok rn" "rn_active_ok rn" "rn_requests_ok rn" using assms(1) by (simp_all add: rn_ok_def)
  have f: "rn_next ?rn = Suc (rn_next rn)" "rn_active ?rn = jm_set i (rn_next rn) (rn_active rn)"
    "rn_running ?rn = rn_running rn @ [rn_next rn]" "requests ?rn = requests rn"
    "rn_job ?rn x = (if x = rn_next rn then new_SandboxJob s i else rn_job rn x)" for x
    by (simp_all add: start_process_def requests_def)
  have new: "cj_invocation (new_SandboxJob s i) = i" "used_ids (new_SandboxJob s i) = {}" "waiting_ids (new_SandboxJob s i) = {}"
    by (simp_all add: new_SandboxJob_def used_ids_def waiting_ids_def)
  have "all_used ?rn = all_used rn" 
  proof (intro set_eqI)
    fix x
    have "x \<in> used_ids (rn_job ?rn y) \<longleftrightarrow> y \<noteq> rn_next rn \<and> x \<in> used_ids (rn_job rn y)" for y
      by (simp add: f new)
    then show "x \<in> all_used ?rn \<longleftrightarrow> x \<in> all_used rn" unfolding in_all_used f(1) less_Suc_eq by blast
  qed
  then have "rn_requests_ok ?rn" using parts(3) by (simp add: rn_requests_ok_def f)
  moreover have "rn_jobs_ok ?rn"
  proof -
    have "job_ok (rn_job ?rn x)" if "x < Suc (rn_next rn)" for x
      using that parts(1) assms(2) by (auto simp: f new job_ok_def rn_jobs_ok_def less_Suc_eq)
    moreover have "inj_on (\<lambda>r. cj_invocation (rn_job ?rn r)) {..<Suc (rn_next rn)}"
      using parts(1) assms(3) by (auto simp: f new inj_on_def rn_jobs_ok_def less_Suc_eq)
    ultimately show ?thesis by (simp add: rn_jobs_ok_def f(1))
  qed
  moreover have "rn_active_ok ?rn"
  proof -
    have run: "set (rn_running rn) \<subseteq> {..<rn_next rn}" using parts(2) by (simp add: rn_active_ok_def)
    have "jm_get (rn_active ?rn) k = Some r \<longleftrightarrow> r \<in> set (rn_running ?rn) \<and> cj_invocation (rn_job ?rn r) = k" for k r
    proof (cases "r = rn_next rn")
      case True
      have "jm_get (rn_active rn) k \<noteq> Some (rn_next rn)" using parts(2) run unfolding rn_active_ok_def by auto
      then show ?thesis using True by (simp add: f new js_map_simps del: map_of_eq_Some_iff)
    next
      case False
      have "r \<in> set (rn_running rn) \<Longrightarrow> cj_invocation (rn_job rn r) \<noteq> i" using run assms(3) by auto
      then show ?thesis using False parts(2) unfolding rn_active_ok_def f
        by (auto simp: js_map_simps simp del: map_of_eq_Some_iff split: if_splits)
    qed
    then show ?thesis using run unfolding rn_active_ok_def by (auto simp: f)
  qed
  ultimately show ?thesis by (simp add: rn_ok_def)
qed

lemma rn_ok_finish:
  assumes "rn_ok rn" and "r \<in> set (rn_running rn)"
  shows "rn_ok (finish_process ps r out clone rn)"
proof -
  let ?i = "cj_invocation (rn_job rn r)"
  have parts: "rn_jobs_ok rn" "rn_active_ok rn" "rn_requests_ok rn" using assms(1) by (simp_all add: rn_ok_def)
  obtain m where m: "finish_process ps r out clone rn =
      send_up m (rn\<lparr>rn_active := jm_delete ?i (rn_active rn), rn_running := removeAll r (rn_running rn)\<rparr>)" "request_of m = []"
    by (cases out; cases clone) (auto simp: finish_process_def Let_def request_of_def)
  let ?rn = "send_up m (rn\<lparr>rn_active := jm_delete ?i (rn_active rn), rn_running := removeAll r (rn_running rn)\<rparr>)"
  have f: "rn_next ?rn = rn_next rn" "rn_active ?rn = jm_delete ?i (rn_active rn)" "rn_running ?rn = removeAll r (rn_running rn)"
    "requests ?rn = requests rn" "rn_job ?rn = rn_job rn" "all_used ?rn = all_used rn"
    using m(2) by (simp_all add: send_up_def requests_def all_used_def)
  have run: "set (rn_running rn) \<subseteq> {..<rn_next rn}" using parts(2) by (simp add: rn_active_ok_def)
  have one: "x = r" if "x \<in> set (rn_running rn)" "cj_invocation (rn_job rn x) = ?i" for x
    using that assms(2) run parts(1) unfolding rn_jobs_ok_def inj_on_def by blast
  have "jm_get (rn_active ?rn) k = Some x \<longleftrightarrow> x \<in> set (rn_running ?rn) \<and> cj_invocation (rn_job ?rn x) = k" for k x
    using parts(2) one unfolding rn_active_ok_def f by (auto simp: js_map_simps simp del: map_of_eq_Some_iff split: if_splits)
  then have "rn_active_ok ?rn" using run unfolding rn_active_ok_def by (auto simp: f)
  moreover have "rn_jobs_ok ?rn" using parts(1) unfolding rn_jobs_ok_def f .
  moreover have "rn_requests_ok ?rn" using parts(3) unfolding rn_requests_ok_def f .
  ultimately show ?thesis unfolding m(1) by (simp add: rn_ok_def)
qed

lemma rn_ok_cached: "rn_ok (rn\<lparr>rn_cached := b\<rparr>) = rn_ok rn"
  by (simp add: rn_ok_def rn_jobs_ok_def rn_active_ok_def rn_requests_ok_def requests_def all_used_def)

lemma rn_ok_load: "rn_ok rn \<Longrightarrow> r \<in> set (rn_running rn) \<Longrightarrow> rn_ok (load_and_run ps path r loaded stack rn)"
  by (auto simp: load_and_run_def loadProcessor_def rn_ok_cached rn_ok_finish split: sum.splits)

lemma rn_ok_message:
  assumes "rn_ok rn" and "\<And>i s. m = CProcess i s \<Longrightarrow> plain_id i \<and> (\<forall>r<rn_next rn. cj_invocation (rn_job rn r) \<noteq> i)"
  shows "rn_ok (handleMessage m rn)"
proof (cases m)
  case (CProcess i s)
  then show ?thesis using assms rn_ok_start by (simp add: handleMessage_def)
next
  case (CAbort i)
  then show ?thesis using assms(1) by (auto simp: handleMessage_def intro!: rn_ok_with_job same_ids_abort split: option.split)
next
  case (CResponse k v e)
  then show ?thesis using assms(1) by (auto simp: handleMessage_def intro!: rn_ok_with_job same_ids_response split: option.split)
qed (use assms(1) in \<open>simp add: handleMessage_def\<close>)

theorem runner_ok: "runner_reachable rn \<Longrightarrow> rn_ok rn"
proof (induction rule: runner_reachable.induct)
  case start
  show ?case by (rule rn_ok_new)
next
  case (step rn rn')
  from step(2,3) show ?case
  proof cases
    case (process i s)
    then show ?thesis using step.IH show_nat_no_colon by (auto intro!: rn_ok_message simp: plain_id_def)
  qed (use step.IH in \<open>auto intro: rn_ok_message rn_ok_load rn_ok_call rn_ok_continue rn_ok_finish\<close>)
qed

section \<open>Answers find their calls\<close>

text \<open>
  C39: inside a sandbox worker no request id is used twice, an answer settles exactly the call that
  waits under its id when that call's job is running and leaves every other job alone, and an answer
  to anything else is ignored.
\<close>

theorem response_settles_its_call:
  assumes "runner_reachable rn"
  shows "distinct (requests rn) \<and>
    (\<forall>r k c v e. r \<in> set (rn_running rn) \<and> jm_get (cj_pending (rn_job rn r)) k = Some c \<longrightarrow>
       handleMessage (CResponse k v e) rn = with_job r (handleProxyResponse k v e) rn) \<and>
    (\<forall>k v e. (\<forall>r\<in>set (rn_running rn). jm_get (cj_pending (rn_job rn r)) k = None) \<longrightarrow>
       handleMessage (CResponse k v e) rn = rn)"
proof -
  have ok: "rn_ok rn" using assms by (rule runner_ok)
  have act: "jm_get (rn_active rn) i = Some r \<longleftrightarrow> r \<in> set (rn_running rn) \<and> cj_invocation (rn_job rn r) = i" for i r
    using ok unfolding rn_ok_def rn_active_ok_def by blast
  have mine: "CHR '':'' \<in> set k \<and> jm_get (rn_active rn) (takeWhile (\<lambda>c. c \<noteq> CHR '':'') k) = Some r"
    if r: "r \<in> set (rn_running rn)" and k: "jm_get (cj_pending (rn_job rn r)) k = Some c" for r k c
  proof -
    have "r < rn_next rn" using ok r unfolding rn_ok_def rn_active_ok_def by blast
    then have j: "job_ok (rn_job rn r)" using ok by (simp add: rn_ok_def rn_jobs_ok_def)
    have "k \<in> waiting_ids (rn_job rn r)" using k unfolding waiting_ids_def by (metis domI dom_map_of_conv_image_fst list.set_map)
    then obtain n where n: "k = request_id (rn_job rn r) n" using j unfolding job_ok_def used_ids_def by blast
    have "takeWhile (\<lambda>c. c \<noteq> CHR '':'') k = cj_invocation (rn_job rn r)" unfolding n using j by (intro request_owner) (simp add: job_ok_def)
    then show ?thesis using act r n by (simp add: request_id_def)
  qed
  have none: "with_job r (handleProxyResponse k v e) rn = rn" if "jm_get (cj_pending (rn_job rn r)) k = None" for r k v e
    using that by (simp add: with_job_def handleProxyResponse_def)
  have "distinct (requests rn)" using ok by (simp add: rn_ok_def rn_requests_ok_def)
  moreover have "handleMessage (CResponse k v e) rn = with_job r (handleProxyResponse k v e) rn"
    if "r \<in> set (rn_running rn)" "jm_get (cj_pending (rn_job rn r)) k = Some c" for r k c v e
    using mine [OF that] by (simp add: handleMessage_def del: map_of_eq_Some_iff)
  moreover have "handleMessage (CResponse k v e) rn = rn"
    if all: "\<forall>r\<in>set (rn_running rn). jm_get (cj_pending (rn_job rn r)) k = None" for k v e
  proof (cases "jm_get (rn_active rn) (takeWhile (\<lambda>c. c \<noteq> CHR '':'') k)")
    case (Some r)
    then have "r \<in> set (rn_running rn)" using act by blast
    then show ?thesis using all none Some by (simp add: handleMessage_def del: map_of_eq_Some_iff)
  qed (simp add: handleMessage_def)
  ultimately show ?thesis by blast
qed

text \<open>A job that has logged one line and waits for the answer.\<close>

definition logging_runner :: runner where
  "logging_runner = fst (call_job 0 (sandbox_log ''hi'') (handleMessage (CProcess (show_nat 1) blank_serialized) new_runner))"

lemma logging_runner_reachable: "runner_reachable logging_runner"
proof -
  have "runner_reachable (handleMessage (CProcess (show_nat 1) blank_serialized) new_runner)"
    by (rule runner_reachable.step [OF runner_reachable.start runner_step.process]) (simp add: new_runner_def)
  then show ?thesis unfolding logging_runner_def
    by (rule runner_reachable.step [OF _ runner_step.call]) (auto simp: handleMessage_def start_process_def new_runner_def sandbox_calls_def)
qed

lemma response_settles_its_call_witness:
  "requests logging_runner = [''1:1''] \<and>
   handleMessage (CResponse ''1:1'' JUndef None) logging_runner = with_job 0 (handleProxyResponse ''1:1'' JUndef None) logging_runner"
proof -
  have s: "show_nat 1 = ''1''" "show_nat (Suc 0) = ''1''" by code_simp+
  have r: "requests logging_runner = [''1:1'']" "0 \<in> set (rn_running logging_runner)"
    "jm_get (cj_pending (rn_job logging_runner 0)) ''1:1'' = Some CLog"
    by (simp_all add: logging_runner_def call_job_def sandbox_log_def proxyCall_def refused_def handleMessage_def start_process_def
        new_runner_def new_SandboxJob_def Let_def request_id_def s requests_def send_up_def with_job_def request_of_def)
  show ?thesis using response_settles_its_call [OF logging_runner_reachable] r by blast
qed

end
