(* ===== verification/Text_Numbers.thy ===== *)
theory Text_Numbers
  imports Numbers Strings
begin

text \<open>
  Numbers and their text: \<open>x.toString()\<close> and \<open>Number(s)\<close>. Arguments of server calls are text, and
  replies come back as text or integers. Finite numbers are exact here, so the shortest digits that
  identify a double are the digits of the decimal itself, at most 17 of them.
\<close>

section \<open>From numbers to text\<close>

definition show_int :: "int \<Rightarrow> string" where
  "show_int n = (if n < 0 then CHR ''-'' # show_nat (nat (- n)) else show_nat (nat n))"

text \<open>The number of zeros after the point, below one; a double has fewer than 330.\<close>

fun lead_zeros :: "nat \<Rightarrow> rat \<Rightarrow> nat" where
  "lead_zeros 0 q = 0"
| "lead_zeros (Suc f) q = (if q * 10 \<ge> 1 then 0 else Suc (lead_zeros f (q * 10)))"

text \<open>\<open>10 ^ (n - 1) \<le> q < 10 ^ n\<close> for the exponent \<open>n\<close> of a positive number.\<close>

definition dec_exponent :: "rat \<Rightarrow> int" where
  "dec_exponent q = (if q \<ge> 1 then int (length (show_nat (nat \<lfloor>q\<rfloor>))) else - int (lead_zeros 330 q))"

definition shift10 :: "rat \<Rightarrow> int \<Rightarrow> rat" where
  "shift10 q j = (if j \<ge> 0 then q * 10 ^ nat j else q / 10 ^ nat (- j))"

definition significand :: "rat \<Rightarrow> nat \<times> nat" where
  "significand q =
     (let n = dec_exponent q in
      case find (\<lambda>k. is_integral (shift10 q (int k - n))) [1..<18] of
        Some k \<Rightarrow> (k, nat \<lfloor>shift10 q (int k - n)\<rfloor>)
      | None \<Rightarrow> (17, nat (js_round (shift10 q (17 - n)))))"

definition strip_zeros :: "string \<Rightarrow> string" where
  "strip_zeros s = rev (dropWhile (\<lambda>c. c = CHR ''0'') (rev s))"

text \<open>The layouts of \<open>Number::toString\<close>: an integer, a decimal fraction, or with an exponent.\<close>

definition show_positive :: "rat \<Rightarrow> string" where
  "show_positive q =
     (let (k0, m) = significand q; d = show_nat m;
          n = dec_exponent q + int (length d) - int k0; s = strip_zeros d; k = int (length s)
      in if k \<le> n \<and> n \<le> 21 then s @ replicate (nat (n - k)) CHR ''0''
         else if 0 < n \<and> n \<le> 21 then take (nat n) s @ ''.'' @ drop (nat n) s
         else if -6 < n \<and> n \<le> 0 then ''0.'' @ replicate (nat (- n)) CHR ''0'' @ s
         else (let e = n - 1; x = ''e'' @ (if e < 0 then ''-'' else ''+'') @ show_nat (nat \<bar>e\<bar>)
               in if k = 1 then s @ x else take 1 s @ ''.'' @ drop 1 s @ x))"

definition num_text :: "jsnum \<Rightarrow> string" where
  "num_text x =
     (case x of
        NaN \<Rightarrow> ''NaN'' | PInf \<Rightarrow> ''Infinity'' | NInf \<Rightarrow> ''-Infinity''
      | Num q \<Rightarrow>
          if is_integral q \<and> \<bar>q\<bar> < 10 ^ 17 then show_int \<lfloor>q\<rfloor>
          else if q < 0 then CHR ''-'' # show_positive (- q) else show_positive q)"

lemma num_text_int: "\<bar>n\<bar> < 10 ^ 17 \<Longrightarrow> num_text (Num (of_int n)) = show_int n"
proof -
  assume n: "\<bar>n\<bar> < 10 ^ 17"
  have "\<bar>of_int n :: rat\<bar> = of_int \<bar>n\<bar>" by simp
  also have "\<dots> < of_int (10 ^ 17)" using n by (simp only: of_int_less_iff)
  finally show ?thesis by (simp add: num_text_def)
qed

section \<open>From text to numbers\<close>

text \<open>The text after the digits at its front, and these digits.\<close>

definition digits_front :: "string \<Rightarrow> string \<times> string" where
  "digits_front s = (takeWhile is_digit s, dropWhile is_digit s)"

text \<open>The exponent part of a decimal literal: \<open>None\<close> when the text is no exponent.\<close>

definition parse_exponent :: "string \<Rightarrow> int option" where
  "parse_exponent s =
     (case s of
        [] \<Rightarrow> Some 0
      | c # r \<Rightarrow>
          if c \<noteq> CHR ''e'' \<and> c \<noteq> CHR ''E'' then None
          else (case r of
                  [] \<Rightarrow> None
                | d # r' \<Rightarrow>
                    if d = CHR ''-'' then (if is_digits r' then Some (- int (parse_nat r')) else None)
                    else if d = CHR ''+'' then (if is_digits r' then Some (int (parse_nat r')) else None)
                    else if is_digits r then Some (int (parse_nat r)) else None))"

definition parse_decimal :: "string \<Rightarrow> rat option" where
  "parse_decimal s =
     (let (a, r) = digits_front s;
          (b, r') = (case r of c # t \<Rightarrow> if c = CHR ''.'' then digits_front t else ([], r) | [] \<Rightarrow> ([], []))
      in if a = [] \<and> b = [] then None
         else map_option (\<lambda>e. shift10 (of_nat (parse_nat (a @ b))) (e - int (length b))) (parse_exponent r'))"

definition digit_of :: "char \<Rightarrow> nat option" where
  "digit_of c =
     (let u = to_upper_char c; n = (of_char u :: nat)
      in if is_digit c then Some (digit_val c)
         else if CHR ''A'' \<le> u \<and> u \<le> CHR ''Z'' then Some (n - 55) else None)"

definition parse_radix :: "nat \<Rightarrow> string \<Rightarrow> rat option" where
  "parse_radix b s =
     (if s \<noteq> [] \<and> list_all (\<lambda>c. case digit_of c of Some d \<Rightarrow> d < b | None \<Rightarrow> False) s
      then Some (of_nat (foldl (\<lambda>n c. n * b + (case digit_of c of Some d \<Rightarrow> d | None \<Rightarrow> 0)) 0 s)) else None)"

definition num_of_option :: "rat option \<Rightarrow> jsnum" where
  "num_of_option x = (case x of Some q \<Rightarrow> Num q | None \<Rightarrow> NaN)"

definition parse_signed :: "string \<Rightarrow> jsnum" where
  "parse_signed s =
     (let (neg, t) = (case s of c # r \<Rightarrow> if c = CHR ''-'' then (True, r) else if c = CHR ''+'' then (False, r) else (False, s)
                      | [] \<Rightarrow> (False, []))
      in if t = ''Infinity'' then (if neg then NInf else PInf)
         else num_of_option (map_option (\<lambda>q. if neg then - q else q) (parse_decimal t)))"

text \<open>\<open>Number(s)\<close> of a string.\<close>

definition text_num :: "string \<Rightarrow> jsnum" where
  "text_num s =
     (let t = trim s in
      if t = [] then Num 0
      else (case t of
              c # d # r \<Rightarrow>
                if c = CHR ''0'' \<and> (d = CHR ''x'' \<or> d = CHR ''X'') then num_of_option (parse_radix 16 r)
                else if c = CHR ''0'' \<and> (d = CHR ''o'' \<or> d = CHR ''O'') then num_of_option (parse_radix 8 r)
                else if c = CHR ''0'' \<and> (d = CHR ''b'' \<or> d = CHR ''B'') then num_of_option (parse_radix 2 r)
                else parse_signed t
            | _ \<Rightarrow> parse_signed t))"

section \<open>Integers survive\<close>

lemma is_digits_set: "is_digits s \<Longrightarrow> c \<in> set s \<Longrightarrow> is_digit c"
  by (auto simp: is_digits_def list_all_iff)

lemma digit_not_space: "is_digit c \<Longrightarrow> \<not> is_space c"
  by (auto simp: is_digit_def is_space_def less_eq_char_def Let_def)

lemma trim_left_id: "s \<noteq> [] \<Longrightarrow> \<not> is_space (hd s) \<Longrightarrow> trim_left s = s"
  by (cases s) (simp_all add: trim_left_def)

lemma trim_no_space: "s \<noteq> [] \<Longrightarrow> \<not> is_space (hd s) \<Longrightarrow> \<not> is_space (last s) \<Longrightarrow> trim s = s"
  using trim_left_id [of s] trim_left_id [of "rev s"] by (simp add: trim_def hd_rev)

lemma parse_decimal_digits: "is_digits s \<Longrightarrow> parse_decimal s = Some (of_nat (parse_nat s))"
proof -
  assume s: "is_digits s"
  have "takeWhile is_digit s = s" "dropWhile is_digit s = []"
    using is_digits_set [OF s] by (simp_all add: takeWhile_eq_all_conv dropWhile_eq_Nil_conv)
  then have "digits_front s = (s, [])" by (simp add: digits_front_def)
  moreover have "s \<noteq> []" using s by (simp add: is_digits_def)
  ultimately show ?thesis
    by (simp add: parse_decimal_def parse_exponent_def shift10_def)
qed

lemma digit_not_special:
  "is_digit c \<Longrightarrow> c \<noteq> CHR ''-'' \<and> c \<noteq> CHR ''+'' \<and> c \<noteq> CHR ''x'' \<and> c \<noteq> CHR ''X'' \<and> c \<noteq> CHR ''o'' \<and> c \<noteq> CHR ''O''
     \<and> c \<noteq> CHR ''b'' \<and> c \<noteq> CHR ''B'' \<and> c \<noteq> CHR ''I''"
  by (auto simp: is_digit_def less_eq_char_def)

lemma parse_signed_digits: "is_digits s \<Longrightarrow> parse_signed s = Num (of_nat (parse_nat s))"
proof -
  assume s: "is_digits s"
  then obtain c r where cr: "s = c # r" "is_digit c" by (cases s) (auto simp: is_digits_def)
  have "s \<noteq> ''Infinity''" using cr digit_not_special [OF cr(2)] by auto
  then show ?thesis
    using s cr digit_not_special [OF cr(2)] parse_decimal_digits [OF s]
    by (simp add: parse_signed_def num_of_option_def)
qed

lemma parse_signed_minus: "is_digits s \<Longrightarrow> parse_signed (CHR ''-'' # s) = Num (- of_nat (parse_nat s))"
proof -
  assume s: "is_digits s"
  then obtain c r where cr: "s = c # r" "is_digit c" by (cases s) (auto simp: is_digits_def)
  have "s \<noteq> ''Infinity''" using cr digit_not_special [OF cr(2)] by auto
  then show ?thesis
    using parse_decimal_digits [OF s] by (simp add: parse_signed_def num_of_option_def)
qed

lemma trim_digits: "is_digits s \<Longrightarrow> trim s = s \<and> trim (CHR ''-'' # s) = CHR ''-'' # s"
proof -
  assume s: "is_digits s"
  then have ne: "s \<noteq> []" and h: "\<not> is_space (hd s)" and l: "\<not> is_space (last s)"
    using is_digits_set [OF s] digit_not_space by (auto simp: is_digits_def)
  have m: "\<not> is_space CHR ''-''" by (simp add: is_space_def Let_def)
  show ?thesis using ne h l m by (auto intro!: trim_no_space)
qed

text \<open>Text that \<open>Number\<close> reads as a decimal literal.\<close>

lemma text_num_signed:
  assumes "trim s = s" and "s \<noteq> []"
    and "\<And>c d r. s = c # d # r \<Longrightarrow> is_digit d \<or> c \<noteq> CHR ''0''"
  shows "text_num s = parse_signed s"
proof (cases s)
  case (Cons c r)
  show ?thesis
  proof (cases r)
    case Nil
    with Cons assms(1) show ?thesis by (simp add: text_num_def)
  next
    case (Cons d t)
    have s: "s = c # d # t" using \<open>s = c # r\<close> Cons by simp
    have d: "c \<noteq> CHR ''0'' \<or> (d \<noteq> CHR ''x'' \<and> d \<noteq> CHR ''X'' \<and> d \<noteq> CHR ''o'' \<and> d \<noteq> CHR ''O'' \<and> d \<noteq> CHR ''b'' \<and> d \<noteq> CHR ''B'')"
      using assms(3) [OF s] digit_not_special [of d] by blast
    show ?thesis
      unfolding text_num_def Let_def assms(1) using d by (auto simp: s simp del: split_paired_Ex)
  qed
qed (use assms(2) in simp)

lemma text_num_digits: "is_digits s \<Longrightarrow> text_num s = Num (of_nat (parse_nat s))"
proof -
  assume s: "is_digits s"
  have "text_num s = parse_signed s"
  proof (rule text_num_signed)
    show "trim s = s" using trim_digits [OF s] by simp
    show "s \<noteq> []" using s by (simp add: is_digits_def)
    show "is_digit d \<or> c \<noteq> CHR ''0''" if "s = c # d # r" for c d r using is_digits_set [OF s, of d] that by simp
  qed
  then show ?thesis using parse_signed_digits [OF s] by simp
qed

lemma text_num_minus: "is_digits s \<Longrightarrow> text_num (CHR ''-'' # s) = Num (- of_nat (parse_nat s))"
proof -
  assume s: "is_digits s"
  have "text_num (CHR ''-'' # s) = parse_signed (CHR ''-'' # s)"
    by (rule text_num_signed) (use trim_digits [OF s] in auto)
  then show ?thesis using parse_signed_minus [OF s] by simp
qed

lemma text_num_show_int [simp]: "text_num (show_int n) = Num (of_int n)"
proof (cases "n < 0")
  case True
  then show ?thesis
    by (simp add: show_int_def text_num_minus is_digits_show_nat parse_show_nat)
next
  case False
  then show ?thesis
    by (simp add: show_int_def text_num_digits is_digits_show_nat parse_show_nat)
qed

lemma show_int_inj: "show_int m = show_int n \<longleftrightarrow> m = n"
  by (metis text_num_show_int jsnum.inject of_int_eq_iff)

end
