(* ===== verification/Client_Calls.thy ===== *)
theory Client_Calls
  imports Text_Numbers Js_Values "HOL-Library.Sublist"
begin

text \<open>
  What a client exchanges with Valkey: commands, replies, failures, and the keys of a queue
  (\<open>src/utils.ts\<close>). An asynchronous function that awaits calls is a program: it returns, throws, or
  asks one command and goes on with the answer. \<open>run_client\<close> runs a program against a server.
\<close>

section \<open>Replies\<close>

text \<open>Replies of Lua functions: \<open>false\<close> and \<open>nil\<close> arrive as null, numbers as integers, tables as arrays.\<close>

datatype reply = RNull | RInt int | RStr string | RArr "reply list"

text \<open>\<open>String(r)\<close>; inside an array null is the empty text.\<close>

fun reply_text :: "reply \<Rightarrow> string"
  and item_texts :: "reply list \<Rightarrow> string list"
where
  "reply_text RNull = ''null''"
| "reply_text (RInt n) = show_int n"
| "reply_text (RStr s) = s"
| "reply_text (RArr rs) = join '','' (item_texts rs)"
| "item_texts [] = []"
| "item_texts (r # rs) = (if r = RNull then [] else reply_text r) # item_texts rs"

definition reply_num :: "reply \<Rightarrow> jsnum" where
  "reply_num r =
     (case r of RNull \<Rightarrow> Num 0 | RInt n \<Rightarrow> Num (of_int n) | RStr s \<Rightarrow> text_num s | RArr _ \<Rightarrow> text_num (reply_text r))"

text \<open>\<open>String(rs[i])\<close>: reading past the end gives \<open>undefined\<close>.\<close>

definition text_at :: "reply list \<Rightarrow> nat \<Rightarrow> string" where
  "text_at rs i = (if i < length rs then reply_text (rs ! i) else ''undefined'')"

definition num_at :: "reply list \<Rightarrow> nat \<Rightarrow> jsnum" where
  "num_at rs i = (if i < length rs then reply_num (rs ! i) else NaN)"

text \<open>\<open>x || 0\<close>.\<close>

definition num_or_zero :: "jsnum \<Rightarrow> jsnum" where
  "num_or_zero x = (if x = NaN then Num 0 else x)"

definition reply_count :: "reply \<Rightarrow> jsnum" where
  "reply_count r = num_or_zero (reply_num r)"

definition reply_is_one :: "reply \<Rightarrow> bool" where
  "reply_is_one r \<longleftrightarrow> reply_num r = Num 1"

text \<open>\<open>Array.isArray(r) ? r.map(String) : []\<close>.\<close>

definition reply_texts :: "reply \<Rightarrow> string list" where
  "reply_texts r = (case r of RArr rs \<Rightarrow> map reply_text rs | _ \<Rightarrow> [])"

text \<open>
  Fields and values in turn, written into an object without a prototype: a repeated field keeps
  its place. A trailing field without a value is dropped.
\<close>

fun pairs_of :: "reply list \<Rightarrow> (string \<times> string) list" where
  "pairs_of (f # v # rs) = (reply_text f, reply_text v) # pairs_of rs"
| "pairs_of _ = []"

definition hash_of :: "reply list \<Rightarrow> (string, string) jsmap" where
  "hash_of rs = fold (\<lambda>(f, v). jm_set f v) (pairs_of rs) []"

text \<open>A text in single quotes, for messages.\<close>

definition in_quotes :: "string \<Rightarrow> string" where
  "in_quotes s = CHR 0x27 # s @ [CHR 0x27]"

section \<open>Commands and failures\<close>

datatype command =
    FCall string "string list" "string list"
  | IncrBy string int
  | SAdd string "string list"
  | SRem string "string list"
  | XClaim string string string int "string list"

text \<open>A rejected call: the client library's \<open>RequestError\<close>, or any other error.\<close>

datatype call_failure = RequestFailure string | OtherFailure js_error

definition failure_message :: "call_failure \<Rightarrow> string" where
  "failure_message e = (case e of RequestFailure m \<Rightarrow> m | OtherFailure e' \<Rightarrow> message_of e')"

text \<open>\<open>/function not found|function not loaded/i\<close>, with single spaces.\<close>

definition isFunctionNotFound :: "call_failure \<Rightarrow> bool" where
  "isFunctionNotFound e =
     (let m = to_upper (failure_message e)
      in sublist ''FUNCTION NOT FOUND'' m \<or> sublist ''FUNCTION NOT LOADED'' m)"

text \<open>\<open>/function\s+not\s+found/i\<close>: the words in this order with white space between them.\<close>

fun match_words :: "string list \<Rightarrow> string \<Rightarrow> bool" where
  "match_words [] s = True"
| "match_words (w # ws) s =
     (prefix w s \<and>
      (let r = drop (length w) s in
       ws = [] \<or> (r \<noteq> [] \<and> is_space (hd r) \<and> match_words ws (dropWhile is_space r))))"

definition lacks_function :: "call_failure \<Rightarrow> bool" where
  "lacks_function e =
     (case e of
        RequestFailure m \<Rightarrow> list_ex (match_words [''FUNCTION'', ''NOT'', ''FOUND'']) (suffixes (to_upper m))
      | OtherFailure _ \<Rightarrow> False)"

section \<open>Client programs\<close>

datatype 'a client = Return 'a | Throw call_failure | Ask command "call_failure + reply \<Rightarrow> 'a client"

primrec bindC :: "'a client \<Rightarrow> ('a \<Rightarrow> 'b client) \<Rightarrow> 'b client" where
  "bindC (Return x) f = f x"
| "bindC (Throw e) f = Throw e"
| "bindC (Ask c k) f = Ask c (\<lambda>r. bindC (k r) f)"

primrec run_client :: "('s \<Rightarrow> command \<Rightarrow> 's \<times> (call_failure + reply)) \<Rightarrow> 'a client \<Rightarrow> 's \<Rightarrow> 's \<times> (call_failure + 'a)" where
  "run_client srv (Return x) s = (s, Inr x)"
| "run_client srv (Throw e) s = (s, Inl e)"
| "run_client srv (Ask c k) s = (case srv s c of (s', r) \<Rightarrow> run_client srv (k r) s')"

text \<open>\<open>try { p } catch (e) { h(e) }\<close>.\<close>

primrec tryC :: "'a client \<Rightarrow> (call_failure \<Rightarrow> 'a client) \<Rightarrow> 'a client" where
  "tryC (Return x) h = Return x"
| "tryC (Throw e) h = h e"
| "tryC (Ask c k) h = Ask c (\<lambda>r. tryC (k r) h)"

definition ask :: "command \<Rightarrow> reply client" where
  "ask c = Ask c (\<lambda>r. case r of Inl e \<Rightarrow> Throw e | Inr v \<Rightarrow> Return v)"

abbreviation fcall :: "string \<Rightarrow> string list \<Rightarrow> string list \<Rightarrow> reply client" where
  "fcall f ks as \<equiv> ask (FCall f ks as)"

definition mapC :: "('a \<Rightarrow> 'b) \<Rightarrow> 'a client \<Rightarrow> 'b client" where
  "mapC f p = bindC p (\<lambda>x. Return (f x))"

lemma bindC_assoc: "bindC (bindC p f) g = bindC p (\<lambda>x. bindC (f x) g)"
  by (induction p) simp_all

lemma run_bindC:
  "run_client srv (bindC p f) s =
     (case run_client srv p s of (s', Inl e) \<Rightarrow> (s', Inl e) | (s', Inr x) \<Rightarrow> run_client srv (f x) s')"
  by (induction p arbitrary: s) (simp_all split: prod.splits)

lemma run_tryC:
  "run_client srv (tryC p h) s =
     (case run_client srv p s of (s', Inl e) \<Rightarrow> run_client srv (h e) s' | (s', Inr x) \<Rightarrow> (s', Inr x))"
  by (induction p arbitrary: s) (simp_all split: prod.splits)

lemma run_ask [simp]: "run_client srv (ask c) s = srv s c"
  by (simp add: ask_def split: prod.splits sum.splits)

lemma run_mapC [simp]:
  "run_client srv (mapC f p) s = (case run_client srv p s of (s', r) \<Rightarrow> (s', map_sum id f r))"
  by (simp add: mapC_def run_bindC split: prod.splits sum.splits)

section \<open>Keys of a queue\<close>

definition keyPrefix :: "string \<Rightarrow> string \<Rightarrow> string" where
  "keyPrefix pre queueName = pre @ '':{'' @ queueName @ ''}''"

definition usageQueuesKey :: "string \<Rightarrow> string" where
  "usageQueuesKey pre = pre @ '':usage:queues''"

record queue_keys =
  k_name :: string
  k_usageQueues :: string
  k_id :: string
  k_stream :: string
  k_scheduled :: string
  k_completed :: string
  k_failed :: string
  k_events :: string
  k_meta :: string
  k_dedup :: string
  k_rate :: string
  k_schedulers :: string
  k_ordering :: string
  k_job :: "string \<Rightarrow> string"
  k_log :: "string \<Rightarrow> string"
  k_deps :: "string \<Rightarrow> string"
  k_ratelimited :: string
  k_metricsCompleted :: string
  k_lifo :: string
  k_priority :: string
  k_listActive :: string
  k_listActiveIds :: string
  k_metricsFailed :: string
  k_group :: "string \<Rightarrow> string"
  k_groupq :: "string \<Rightarrow> string"
  k_parents :: "string \<Rightarrow> string"
  k_jstream :: "string \<Rightarrow> string"
  k_xqPending :: string
  k_worker :: "string \<Rightarrow> string"
  k_suspended :: string
  k_signals :: "string \<Rightarrow> string"
  k_budget :: "string \<Rightarrow> string"
  k_tpm :: string
  k_usageBucket :: "jsnum \<Rightarrow> string"

definition buildKeys :: "string \<Rightarrow> string \<Rightarrow> queue_keys" where
  "buildKeys queueName pre =
     (let p = keyPrefix pre queueName in
      \<lparr>k_name = queueName,
       k_usageQueues = usageQueuesKey pre,
       k_id = p @ '':id'',
       k_stream = p @ '':stream'',
       k_scheduled = p @ '':scheduled'',
       k_completed = p @ '':completed'',
       k_failed = p @ '':failed'',
       k_events = p @ '':events'',
       k_meta = p @ '':meta'',
       k_dedup = p @ '':dedup'',
       k_rate = p @ '':rate'',
       k_schedulers = p @ '':schedulers'',
       k_ordering = p @ '':ordering'',
       k_job = (\<lambda>i. p @ '':job:'' @ i),
       k_log = (\<lambda>i. p @ '':log:'' @ i),
       k_deps = (\<lambda>i. p @ '':deps:'' @ i),
       k_ratelimited = p @ '':ratelimited'',
       k_metricsCompleted = p @ '':metrics:completed'',
       k_lifo = p @ '':lifo'',
       k_priority = p @ '':priority'',
       k_listActive = p @ '':list-active'',
       k_listActiveIds = p @ '':list-active-ids'',
       k_metricsFailed = p @ '':metrics:failed'',
       k_group = (\<lambda>g. p @ '':group:'' @ g),
       k_groupq = (\<lambda>g. p @ '':groupq:'' @ g),
       k_parents = (\<lambda>i. p @ '':parents:'' @ i),
       k_jstream = (\<lambda>i. p @ '':jstream:'' @ i),
       k_xqPending = p @ '':xq-pending'',
       k_worker = (\<lambda>i. p @ '':w:'' @ i),
       k_suspended = p @ '':suspended'',
       k_signals = (\<lambda>i. p @ '':signals:'' @ i),
       k_budget = (\<lambda>i. p @ '':budget:'' @ i),
       k_tpm = p @ '':tpm'',
       k_usageBucket = (\<lambda>t. p @ '':usage:'' @ num_text t)\<rparr>)"

definition is_glob_special :: "char \<Rightarrow> bool" where
  "is_glob_special c \<longleftrightarrow> c \<in> {CHR ''*'', CHR ''?'', CHR ''['', CHR '']'', CHR 0x5C}"

definition escapeGlob :: "string \<Rightarrow> string" where
  "escapeGlob s = concat (map (\<lambda>c. if is_glob_special c then [CHR 0x5C, c] else [c]) s)"

definition keyPrefixPattern :: "string \<Rightarrow> string \<Rightarrow> string" where
  "keyPrefixPattern pre queueName = escapeGlob pre @ '':{'' @ escapeGlob queueName @ ''}''"

section \<open>Notifications for parents in other queues\<close>

text \<open>
  \<open>JSON.parse\<close> and \<open>JSON.stringify\<close> are arguments; a text that is no JSON is thrown as \<open>SyntaxError\<close>.
\<close>

definition encodeCrossQueueParentNotify :: "(js \<Rightarrow> string) \<Rightarrow> string \<Rightarrow> string \<Rightarrow> string \<Rightarrow> string" where
  "encodeCrossQueueParentNotify stringify parentQueue parentId depsMember =
     stringify (JArr [JStr parentQueue, JStr parentId, JStr depsMember])"

definition parseCrossQueueParentNotification :: "(string \<Rightarrow> js_error + js) \<Rightarrow> string \<Rightarrow> (string \<times> string \<times> string) option" where
  "parseCrossQueueParentNotification json member =
     (case json member of
        Inr (JArr [JStr a, JStr b, JStr c]) \<Rightarrow> Some (a, b, c)
      | Inr _ \<Rightarrow> None
      | Inl _ \<Rightarrow> (case split_on (CHR 0x09) member of [a, b, c] \<Rightarrow> Some (a, b, c) | _ \<Rightarrow> None))"

end
