(* ===== verification/Server_Calls.thy ===== *)
theory Server_Calls
  imports Client_Calls Usage
begin

text \<open>
  The typed wrappers around the server's functions (\<open>src/functions/index.ts\<close>): the keys and
  arguments each sends, the reply each expects, and what it does with older servers. A wrapper that
  casts a reply returns the reply. Parameters with a default in the source are always given here,
  \<open>json\<close> is \<open>JSON.parse\<close> and \<open>stringify\<close> is \<open>JSON.stringify\<close>.
\<close>

type_synonym json_parse = "string \<Rightarrow> js_error + js"

definition flag :: "bool \<Rightarrow> string" where
  "flag b = (if b then ''1'' else ''0'')"

definition liftC :: "js_error + 'a \<Rightarrow> 'a client" where
  "liftC r = (case r of Inl e \<Rightarrow> Throw (OtherFailure e) | Inr x \<Rightarrow> Return x)"

definition CONSUMER_GROUP :: string where
  "CONSUMER_GROUP = ''workers''"

section \<open>Adding jobs\<close>

text \<open>The parameters of \<open>addJob\<close> and \<open>dedup\<close>, with the defaults of the optional ones.\<close>

record job_args =
  a_jobName :: string
  a_data :: string
  a_opts :: string
  a_timestamp :: jsnum
  a_delay :: jsnum
  a_priority :: jsnum
  a_parentId :: string
  a_maxAttempts :: jsnum
  a_orderingKey :: string
  a_groupConcurrency :: jsnum
  a_groupRateMax :: jsnum
  a_groupRateDuration :: jsnum
  a_tbCapacity :: jsnum
  a_tbRefillRate :: jsnum
  a_jobCost :: jsnum
  a_ttl :: jsnum
  a_customJobId :: string
  a_lifo :: jsnum
  a_parentQueue :: string
  a_parentDepsKey :: string
  a_schedulerName :: string
  a_skipEvents :: bool
  a_budgetKey :: string

text \<open>The arguments from the name to the parent queue, which both functions send in this order.\<close>

definition job_arg_list :: "job_args \<Rightarrow> string list" where
  "job_arg_list a =
     [a_jobName a, a_data a, a_opts a, num_text (a_timestamp a), num_text (a_delay a), num_text (a_priority a),
      a_parentId a, num_text (a_maxAttempts a), a_orderingKey a, num_text (a_groupConcurrency a),
      num_text (a_groupRateMax a), num_text (a_groupRateDuration a), num_text (a_tbCapacity a),
      num_text (a_tbRefillRate a), num_text (a_jobCost a), num_text (a_ttl a), a_customJobId a,
      num_text (a_lifo a), a_parentQueue a]"

definition addJobArgs :: "queue_keys \<Rightarrow> job_args \<Rightarrow> string list \<times> string list" where
  "addJobArgs k a =
     ([k_id k, k_stream k, k_scheduled k, k_events k] @ (if a_parentDepsKey a = [] then [] else [a_parentDepsKey a]),
      job_arg_list a @ [a_schedulerName a, flag (a_skipEvents a)]
        @ (if a_budgetKey a = [] then [] else [a_budgetKey a]))"

definition addJob :: "queue_keys \<Rightarrow> job_args \<Rightarrow> reply client" where
  "addJob k a = (case addJobArgs k a of (ks, as) \<Rightarrow> fcall ''glidemq_addJob'' ks as)"

definition dedup :: "queue_keys \<Rightarrow> string \<Rightarrow> jsnum \<Rightarrow> string \<Rightarrow> job_args \<Rightarrow> reply client" where
  "dedup k dedupId ttlMs mode a =
     fcall ''glidemq_dedup''
       ([k_dedup k, k_id k, k_stream k, k_scheduled k, k_events k]
          @ (if a_parentDepsKey a = [] then [] else [a_parentDepsKey a]))
       ([dedupId, num_text ttlMs, mode] @ job_arg_list a @ [flag (a_skipEvents a)])"

section \<open>Promotion and locks\<close>

definition promote_call :: "queue_keys \<Rightarrow> jsnum \<Rightarrow> reply client" where
  "promote_call k timestamp = fcall ''glidemq_promote'' [k_scheduled k, k_stream k, k_events k] [num_text timestamp]"

definition due_of :: "reply \<Rightarrow> rat option" where
  "due_of r = (case reply_num r of Num q \<Rightarrow> if q < 0 then None else Some q | _ \<Rightarrow> None)"

definition nextDueAt :: "queue_keys \<Rightarrow> rat option client" where
  "nextDueAt k = mapC due_of (fcall ''glidemq_nextDue'' [k_scheduled k, k_ratelimited k] [])"

definition tryLock :: "string \<Rightarrow> string \<Rightarrow> jsnum \<Rightarrow> bool client" where
  "tryLock lockKey token ttlMs = mapC reply_is_one (fcall ''glidemq_tryLock'' [lockKey] [token, num_text ttlMs])"

definition unlock :: "string \<Rightarrow> string \<Rightarrow> bool client" where
  "unlock lockKey token = mapC reply_is_one (fcall ''glidemq_unlock'' [lockKey] [token])"

definition renewLock :: "string \<Rightarrow> string \<Rightarrow> jsnum \<Rightarrow> bool client" where
  "renewLock lockKey token ttlMs = mapC reply_is_one (fcall ''glidemq_renewLock'' [lockKey] [token, num_text ttlMs])"

section \<open>Markers and their payloads\<close>

definition PARENT_NOTIFICATIONS_MARKER :: string where
  "PARENT_NOTIFICATIONS_MARKER = ''__glidemq_parent_notifications__''"

definition FAILED_ACTIVATIONS_MARKER :: string where
  "FAILED_ACTIVATIONS_MARKER = ''__glidemq_failed_activations__''"

definition LISTS_EMPTY_MARKER :: string where
  "LISTS_EMPTY_MARKER = ''__glidemq_lists_empty__''"

definition COMPLETE_REVOKED_MARKER :: string where
  "COMPLETE_REVOKED_MARKER = ''__glidemq_complete_revoked__''"

lemmas markers = PARENT_NOTIFICATIONS_MARKER_def FAILED_ACTIVATIONS_MARKER_def LISTS_EMPTY_MARKER_def

text \<open>\<open>String(v)\<close> of a parsed JSON value.\<close>

fun js_text :: "js \<Rightarrow> string"
  and js_texts :: "js list \<Rightarrow> string list"
where
  "js_text JUndef = ''undefined''"
| "js_text JNull = ''null''"
| "js_text (JBool b) = (if b then ''true'' else ''false'')"
| "js_text (JNum x) = num_text x"
| "js_text (JStr s) = s"
| "js_text (JArr vs) = join '','' (js_texts vs)"
| "js_text (JObj _) = ''[object Object]''"
| "js_text (JInst _) = ''[object Object]''"
| "js_texts [] = []"
| "js_texts (v # vs) = (if v = JNull \<or> v = JUndef then [] else js_text v) # js_texts vs"

record failed_activation =
  fa_jobId :: string
  fa_reason :: string

definition activation_of :: "js \<Rightarrow> failed_activation option" where
  "activation_of v =
     (case js_field v ''id'' of
        JStr i \<Rightarrow>
          Some \<lparr>fa_jobId = i,
                fa_reason = (case js_field v ''reason'' of JUndef \<Rightarrow> [] | JNull \<Rightarrow> [] | r \<Rightarrow> js_text r)\<rparr>
      | _ \<Rightarrow> None)"

definition parseFailedActivations :: "json_parse \<Rightarrow> reply \<Rightarrow> failed_activation list" where
  "parseFailedActivations json raw =
     (case raw of
        RStr s \<Rightarrow> if s = [] then []
                  else (case json s of Inr (JArr vs) \<Rightarrow> List.map_filter activation_of vs | _ \<Rightarrow> [])
      | _ \<Rightarrow> [])"

definition is_js_str :: "js \<Rightarrow> bool" where
  "is_js_str v = (case v of JStr _ \<Rightarrow> True | _ \<Rightarrow> False)"

definition parseParentNotifications :: "json_parse \<Rightarrow> reply \<Rightarrow> string list" where
  "parseParentNotifications json raw =
     (case raw of
        RStr s \<Rightarrow> if s = [] then []
                  else (case json s of Inr (JArr vs) \<Rightarrow> if list_all is_js_str vs then map js_text vs else [] | _ \<Rightarrow> [])
      | _ \<Rightarrow> [])"

section \<open>Completing a job\<close>

definition isCompleteJobRevoked :: "string list \<Rightarrow> bool" where
  "isCompleteJobRevoked result \<longleftrightarrow> result = [COMPLETE_REVOKED_MARKER]"

text \<open>Mode, count and age.\<close>

definition encodeRetention :: "retention \<Rightarrow> string \<times> rat \<times> rat" where
  "encodeRetention opt =
     (case opt of
        Remove \<Rightarrow> (''true'', 0, 0)
      | KeepCount n \<Rightarrow> (''count'', n, 0)
      | KeepAge age count \<Rightarrow> (''age_count'', or_else count 0, or_else age 0)
      | Keep \<Rightarrow> (''0'', 0, 0))"

definition retention_args :: "retention \<Rightarrow> string list" where
  "retention_args opt = (case encodeRetention opt of (mode, count, age) \<Rightarrow> [mode, num_text (Num count), num_text (Num age)])"

record parent_info =
  pi_depsMember :: string
  pi_parentId :: string
  pi_parentKeys :: queue_keys

definition parent_keys :: "parent_info option \<Rightarrow> string list" where
  "parent_keys p =
     (case p of
        None \<Rightarrow> []
      | Some i \<Rightarrow> (let pk = pi_parentKeys i in
          [k_deps pk (pi_parentId i), k_job pk (pi_parentId i), k_stream pk, k_events pk]))"

definition parent_args :: "parent_info option \<Rightarrow> string list" where
  "parent_args p = (case p of None \<Rightarrow> [[], []] | Some i \<Rightarrow> [pi_depsMember i, pi_parentId i])"

definition completeJobCall ::
  "queue_keys \<Rightarrow> string \<Rightarrow> string \<Rightarrow> string \<Rightarrow> jsnum \<Rightarrow> string \<Rightarrow> retention \<Rightarrow> parent_info option
     \<Rightarrow> bool \<Rightarrow> bool \<Rightarrow> bool \<Rightarrow> string list \<times> string list" where
  "completeJobCall k jid entry value ts grp keep pinfo bc se sm =
     ([k_stream k, k_completed k, k_events k, k_job k jid, k_metricsCompleted k] @ parent_keys pinfo,
      [jid, entry, value, num_text ts, grp] @ retention_args keep
        @ parent_args pinfo @ [flag bc, flag se, flag sm])"

definition parseCompleteJobResult :: "json_parse \<Rightarrow> reply \<Rightarrow> string list" where
  "parseCompleteJobResult json raw =
     (if reply_text raw = ''REVOKED'' then [COMPLETE_REVOKED_MARKER] else parseParentNotifications json raw)"

definition completeJob ::
  "json_parse \<Rightarrow> queue_keys \<Rightarrow> string \<Rightarrow> string \<Rightarrow> string \<Rightarrow> jsnum \<Rightarrow> string \<Rightarrow> retention \<Rightarrow> parent_info option
     \<Rightarrow> bool \<Rightarrow> bool \<Rightarrow> bool \<Rightarrow> string list client" where
  "completeJob json k jid entry value ts grp keep pinfo bc se sm =
     (case completeJobCall k jid entry value ts grp keep pinfo bc
             se sm of
        (ks, as) \<Rightarrow> mapC (parseCompleteJobResult json) (fcall ''glidemq_complete'' ks as))"

section \<open>Completing or failing a job and fetching the next\<close>

datatype chain_next = NoNext | NextRevoked | CurrentRevoked | NextHash "(string, string) jsmap"

text \<open>
  \<open>CompleteAndFetchResult\<close>: the completed id and the ids of the next job are strings, except that an
  older server's JSON is passed on unchecked.
\<close>

record chain_result =
  ch_completed :: js
  ch_next :: chain_next
  ch_nextJobId :: js
  ch_nextEntryId :: js
  ch_parentNotifications :: "string list"
  ch_failedActivations :: "failed_activation list"
  ch_listsEmpty :: bool

text \<open>The markers at the end of a reply, each with one payload, read backwards from position \<open>end\<close>.\<close>

record chain_tail =
  ct_parentNotifications :: "string list"
  ct_failedActivations :: "failed_activation list"
  ct_listsEmpty :: bool

definition no_tail :: chain_tail where
  "no_tail = \<lparr>ct_parentNotifications = [], ct_failedActivations = [], ct_listsEmpty = False\<rparr>"

fun read_tail :: "json_parse \<Rightarrow> reply list \<Rightarrow> nat \<Rightarrow> chain_tail \<Rightarrow> nat \<times> chain_tail" where
  "read_tail json raw (Suc (Suc e)) t =
     (let marker = text_at raw e; payload = raw ! Suc e in
      if marker = PARENT_NOTIFICATIONS_MARKER
      then read_tail json raw e (t\<lparr>ct_parentNotifications := parseParentNotifications json payload\<rparr>)
      else if marker = FAILED_ACTIVATIONS_MARKER
      then read_tail json raw e (t\<lparr>ct_failedActivations := parseFailedActivations json payload\<rparr>)
      else if marker = LISTS_EMPTY_MARKER
      then read_tail json raw e (t\<lparr>ct_listsEmpty := (reply_text payload = ''1'')\<rparr>)
      else (Suc (Suc e), t))"
| "read_tail json raw e t = (e, t)"

definition parseChainReply :: "json_parse \<Rightarrow> reply list \<Rightarrow> string \<Rightarrow> string \<Rightarrow> js_error + chain_result" where
  "parseChainReply json raw jid func =
     (let (e, t) = read_tail json raw (length raw) no_tail;
          tag = text_at raw 0;
          completed = JStr (if 1 < length raw \<and> raw ! 1 \<noteq> RNull then reply_text (raw ! 1) else jid)
      in if tag = ''NEXT_NONE''
         then Inr \<lparr>ch_completed = completed, ch_next = NoNext, ch_nextJobId = JUndef, ch_nextEntryId = JUndef,
                   ch_parentNotifications = ct_parentNotifications t, ch_failedActivations = ct_failedActivations t,
                   ch_listsEmpty = ct_listsEmpty t\<rparr>
         else if tag = ''CURRENT_REVOKED''
         then Inr \<lparr>ch_completed = completed, ch_next = CurrentRevoked, ch_nextJobId = JUndef, ch_nextEntryId = JUndef,
                   ch_parentNotifications = [], ch_failedActivations = [], ch_listsEmpty = False\<rparr>
         else if tag = ''NEXT_REVOKED''
         then Inr \<lparr>ch_completed = completed, ch_next = NextRevoked,
                   ch_nextJobId = JStr (text_at raw 2), ch_nextEntryId = JStr (text_at raw 3),
                   ch_parentNotifications = ct_parentNotifications t, ch_failedActivations = ct_failedActivations t,
                   ch_listsEmpty = False\<rparr>
         else if tag = ''NEXT_HASH''
         then Inr \<lparr>ch_completed = completed, ch_next = NextHash (hash_of (drop 4 (take e raw))),
                   ch_nextJobId = JStr (text_at raw 2), ch_nextEntryId = JStr (text_at raw 3),
                   ch_parentNotifications = ct_parentNotifications t, ch_failedActivations = ct_failedActivations t,
                   ch_listsEmpty = False\<rparr>
         else Inl (err (''Unexpected '' @ func @ '' tag: '' @ tag)))"

text \<open>The JSON of an older server: the fields and values of the next job in turn, in one array.\<close>

fun js_pairs :: "js list \<Rightarrow> (string \<times> string) list" where
  "js_pairs (f # v # vs) = (js_text f, js_text v) # js_pairs vs"
| "js_pairs [f] = [(js_text f, ''undefined'')]"
| "js_pairs [] = []"

definition js_elements :: "js \<Rightarrow> js list" where
  "js_elements v = (case v of JArr vs \<Rightarrow> vs | JStr s \<Rightarrow> map (\<lambda>c. JStr [c]) s | _ \<Rightarrow> [])"

definition js_hash :: "js list \<Rightarrow> (string, string) jsmap" where
  "js_hash vs = fold (\<lambda>(f, v). jm_set f v) (js_pairs vs) []"

definition js_truthy :: "js \<Rightarrow> bool" where
  "js_truthy v =
     (case v of JUndef \<Rightarrow> False | JNull \<Rightarrow> False | JBool b \<Rightarrow> b | JNum x \<Rightarrow> x \<noteq> NaN \<and> x \<noteq> Num 0 | JStr s \<Rightarrow> s \<noteq> [] | _ \<Rightarrow> True)"

definition legacy_chain_reply :: "js \<Rightarrow> js_error + chain_result" where
  "legacy_chain_reply parsed =
     (if parsed = JNull \<or> parsed = JUndef
      then Inl (PlainError ''TypeError'' (''Cannot read properties of '' @ js_text parsed @ '' (reading '' @ in_quotes ''next'' @ '')'') None)
      else (let next = js_field parsed ''next'';
                r = \<lparr>ch_completed = js_field parsed ''completed'', ch_next = NoNext, ch_nextJobId = JUndef,
                     ch_nextEntryId = JUndef, ch_parentNotifications = [], ch_failedActivations = [], ch_listsEmpty = False\<rparr>
            in if \<not> js_truthy next then Inr r
               else Inr (r\<lparr>ch_next := (if next = JStr ''REVOKED'' then NextRevoked else NextHash (js_hash (js_elements next))),
                           ch_nextJobId := js_field parsed ''nextJobId'',
                           ch_nextEntryId := js_field parsed ''nextEntryId''\<rparr>)))"

record chain_hints =
  h_orderingKey :: "string option"
  h_orderingSeq :: "jsnum option"
  h_groupKey :: "string option"

text \<open>\<open>__\<close> says the key is known to be absent, the empty text that it is unknown.\<close>

definition hint_args :: "chain_hints option \<Rightarrow> string list" where
  "hint_args h =
     (case h of
        None \<Rightarrow> [''__'', [], ''__'']
      | Some x \<Rightarrow>
          [or_else (h_orderingKey x) ''__'',
           (case h_orderingSeq x of Some (Num q) \<Rightarrow> num_text (Num (of_int (js_trunc q))) | _ \<Rightarrow> []),
           or_else (h_groupKey x) ''__''])"

definition chain_reply_of :: "json_parse \<Rightarrow> string \<Rightarrow> reply \<Rightarrow> js_error + chain_result" where
  "chain_reply_of json jid raw =
     (case raw of
        RArr rs \<Rightarrow> parseChainReply json rs jid ''glidemq_completeAndFetchNext''
      | _ \<Rightarrow> andThen (json (reply_text raw)) legacy_chain_reply)"

definition completeAndFetchNext ::
  "json_parse \<Rightarrow> queue_keys \<Rightarrow> string \<Rightarrow> string \<Rightarrow> string \<Rightarrow> jsnum \<Rightarrow> string \<Rightarrow> string \<Rightarrow> retention
     \<Rightarrow> parent_info option \<Rightarrow> chain_hints option \<Rightarrow> bool \<Rightarrow> jsnum option \<Rightarrow> bool \<Rightarrow> bool \<Rightarrow> bool
     \<Rightarrow> chain_result client" where
  "completeAndFetchNext json k jid entry value ts grp consumer keep pinfo hints bc processed hasParents se sm =
     bindC
       (fcall ''glidemq_completeAndFetchNext''
          ([k_stream k, k_completed k, k_events k, k_job k jid, k_metricsCompleted k] @ parent_keys pinfo)
          ([jid, entry, value, num_text ts, grp, consumer] @ retention_args keep @ parent_args pinfo
             @ hint_args hints @ [flag bc, (case processed of Some t \<Rightarrow> num_text t | None \<Rightarrow> []), flag hasParents, flag se, flag sm]))
       (\<lambda>raw. liftC (chain_reply_of json jid raw))"

record fail_and_fetch_result = chain_result +
  ch_failResult :: string

definition fail_and_fetch_of :: "json_parse \<Rightarrow> string \<Rightarrow> reply \<Rightarrow> js_error + fail_and_fetch_result" where
  "fail_and_fetch_of json jid raw =
     (case raw of
        RArr (r # rs) \<Rightarrow>
          if rs = [] then Inl (err (''Unexpected glidemq_failAndFetchNext reply: '' @ reply_text raw))
          else andThen (parseChainReply json rs jid ''glidemq_failAndFetchNext'')
                 (\<lambda>c. Inr (chain_result.extend c (fail_and_fetch_result.fields (reply_text r))))
      | _ \<Rightarrow> Inl (err (''Unexpected glidemq_failAndFetchNext reply: '' @ reply_text raw)))"

definition failAndFetchNext ::
  "json_parse \<Rightarrow> queue_keys \<Rightarrow> string \<Rightarrow> string \<Rightarrow> string \<Rightarrow> jsnum \<Rightarrow> jsnum \<Rightarrow> jsnum \<Rightarrow> string \<Rightarrow> string
     \<Rightarrow> retention \<Rightarrow> bool \<Rightarrow> bool \<Rightarrow> fail_and_fetch_result client" where
  "failAndFetchNext json k jid entry reason ts att boff grp consumer keep se sm =
     bindC
       (fcall ''glidemq_failAndFetchNext''
          [k_stream k, k_failed k, k_scheduled k, k_events k, k_job k jid, k_metricsFailed k]
          ([jid, entry, reason, num_text ts, num_text att, num_text boff, grp] @ retention_args keep
             @ [''0'', flag se, flag sm, consumer]))
       (\<lambda>raw. liftC (fail_and_fetch_of json jid raw))"

text \<open>The optional arguments of \<open>glidemq_fail\<close>: only as many as are needed.\<close>

definition fail_flags :: "bool \<Rightarrow> bool \<Rightarrow> bool \<Rightarrow> bool \<Rightarrow> string list" where
  "fail_flags bc se sm requeueOnly =
     (if requeueOnly then [flag bc, flag se, flag sm, ''1'']
      else if se \<or> sm then [flag bc, flag se, flag sm]
      else if bc then [''1''] else [])"

definition failJobCall ::
  "queue_keys \<Rightarrow> string \<Rightarrow> string \<Rightarrow> string \<Rightarrow> jsnum \<Rightarrow> jsnum \<Rightarrow> jsnum \<Rightarrow> string \<Rightarrow> retention
     \<Rightarrow> bool \<Rightarrow> bool \<Rightarrow> bool \<Rightarrow> bool \<Rightarrow> string list \<times> string list" where
  "failJobCall k jid entry reason ts att boff grp keep bc se sm requeueOnly =
     ([k_stream k, k_failed k, k_scheduled k, k_events k, k_job k jid, k_metricsFailed k],
      [jid, entry, reason, num_text ts, num_text att, num_text boff, grp] @ retention_args keep
        @ fail_flags bc se sm requeueOnly)"

definition failJob ::
  "queue_keys \<Rightarrow> string \<Rightarrow> string \<Rightarrow> string \<Rightarrow> jsnum \<Rightarrow> jsnum \<Rightarrow> jsnum \<Rightarrow> string \<Rightarrow> retention
     \<Rightarrow> bool \<Rightarrow> bool \<Rightarrow> bool \<Rightarrow> bool \<Rightarrow> reply client" where
  "failJob k jid entry reason ts att boff grp keep bc se sm requeueOnly =
     (case failJobCall k jid entry reason ts att boff grp keep bc se sm requeueOnly of
        (ks, as) \<Rightarrow> fcall ''glidemq_fail'' ks as)"

end
