(* ===== verification/Server_Chain.thy ===== *)
theory Server_Chain
  imports Server_Calls
begin

text \<open>
  The replies of the chain functions on both sides: how the Lua library ends them
  (\<open>finishChainReply\<close> in \<open>src/functions/glidemq.lua\<close>) and that \<open>parseChainReply\<close> reads back what was
  written. The markers stand at the end, each before one payload, behind the fields of a job.
\<close>

section \<open>The server's side\<close>

text \<open>What the fetch phases return for the job \<open>jid\<close>; the field list is a job's hash.\<close>

datatype chain_outcome =
    OutNone
  | OutRevoked string string
  | OutHash string string "(string \<times> string) list"

definition field_replies :: "(string \<times> string) list \<Rightarrow> reply list" where
  "field_replies fvs = concat (map (\<lambda>(f, v). [RStr f, RStr v]) fvs)"

definition chain_head :: "string \<Rightarrow> chain_outcome \<Rightarrow> reply list" where
  "chain_head jid out =
     (case out of
        OutNone \<Rightarrow> [RStr ''NEXT_NONE'', RStr jid]
      | OutRevoked n e \<Rightarrow> [RStr ''NEXT_REVOKED'', RStr jid, RStr n, RStr e]
      | OutHash n e fvs \<Rightarrow> [RStr ''NEXT_HASH'', RStr jid, RStr n, RStr e] @ field_replies fvs)"

definition activation_js :: "failed_activation \<Rightarrow> js" where
  "activation_js f = JObj [(''id'', JStr (fa_jobId f)), (''reason'', JStr (fa_reason f))]"

definition marked :: "string \<Rightarrow> string \<Rightarrow> reply list" where
  "marked m payload = [RStr m, RStr payload]"

definition appendParentNotifications :: "(js \<Rightarrow> string) \<Rightarrow> reply list \<Rightarrow> string list \<Rightarrow> reply list" where
  "appendParentNotifications encode result notifications =
     (if notifications = [] then result
      else result @ marked PARENT_NOTIFICATIONS_MARKER (encode (JArr (map JStr notifications))))"

definition finishChainReply ::
  "(js \<Rightarrow> string) \<Rightarrow> reply list \<Rightarrow> failed_activation list \<Rightarrow> bool \<Rightarrow> string list \<Rightarrow> reply list" where
  "finishChainReply encode result failures listsEmpty notifications =
     appendParentNotifications encode
       (result @ (if failures = [] then [] else marked FAILED_ACTIVATIONS_MARKER (encode (JArr (map activation_js failures))))
          @ (if listsEmpty then marked LISTS_EMPTY_MARKER ''1'' else []))
       notifications"

section \<open>Reading from the end\<close>

lemma text_at_append: "i < length xs \<Longrightarrow> text_at (xs @ ys) i = text_at xs i"
  by (simp add: text_at_def nth_append)

lemma read_tail_append:
  "e \<le> length xs \<Longrightarrow> read_tail json (xs @ ys) e t = read_tail json xs e t"
proof (induction json xs e t rule: read_tail.induct)
  case (1 json xs e t)
  then show ?case by (simp add: text_at_append nth_append Let_def)
qed simp_all

text \<open>One marker with its payload.\<close>

definition note_marker :: "json_parse \<Rightarrow> string \<Rightarrow> reply \<Rightarrow> chain_tail \<Rightarrow> chain_tail" where
  "note_marker json m p t =
     (if m = PARENT_NOTIFICATIONS_MARKER then t\<lparr>ct_parentNotifications := parseParentNotifications json p\<rparr>
      else if m = FAILED_ACTIVATIONS_MARKER then t\<lparr>ct_failedActivations := parseFailedActivations json p\<rparr>
      else t\<lparr>ct_listsEmpty := (reply_text p = ''1'')\<rparr>)"

definition is_marker :: "string \<Rightarrow> bool" where
  "is_marker m \<longleftrightarrow> m = PARENT_NOTIFICATIONS_MARKER \<or> m = FAILED_ACTIVATIONS_MARKER \<or> m = LISTS_EMPTY_MARKER"

lemma read_tail_step:
  "read_tail json xs (Suc (Suc e)) t =
     (if is_marker (text_at xs e) then read_tail json xs e (note_marker json (text_at xs e) (xs ! Suc e) t)
      else (Suc (Suc e), t))"
  by (simp add: is_marker_def note_marker_def Let_def)

lemma read_tail_marked:
  assumes "is_marker m"
  shows "read_tail json (xs @ marked m p) (length (xs @ marked m p)) t =
    read_tail json xs (length xs) (note_marker json m (RStr p) t)"
proof -
  let ?xs = "xs @ [RStr m, RStr p]"
  have m: "text_at ?xs (length xs) = m" "?xs ! Suc (length xs) = RStr p"
    by (simp_all add: text_at_def nth_append)
  have "length ?xs = Suc (Suc (length xs))" by simp
  then have "read_tail json ?xs (length ?xs) t = read_tail json ?xs (length xs) (note_marker json m (RStr p) t)"
    using assms by (simp only: read_tail_step m if_True)
  then show ?thesis by (simp only: marked_def read_tail_append [OF order_refl])
qed

lemma read_tail_stop:
  assumes "\<And>n. length xs = Suc (Suc n) \<Longrightarrow> \<not> is_marker (text_at xs n)"
  shows "read_tail json xs (length xs) t = (length xs, t)"
proof (cases "length xs = 0 \<or> length xs = Suc 0")
  case False
  then obtain n where n: "length xs = Suc (Suc n)" by (cases "length xs"; cases "length xs - 1") auto
  show ?thesis using assms [OF n] unfolding n read_tail_step by simp
qed auto

text \<open>All markers of a finished reply, each of them optional.\<close>

definition optionally :: "bool \<Rightarrow> string \<Rightarrow> string \<Rightarrow> reply list" where
  "optionally b m p = (if b then marked m p else [])"

lemma read_optionally:
  "is_marker m \<Longrightarrow> read_tail json (xs @ optionally b m p) (length (xs @ optionally b m p)) t =
     read_tail json xs (length xs) (if b then note_marker json m (RStr p) t else t)"
  using read_tail_marked [of m json xs p t] by (simp add: optionally_def)

lemma finishChainReply_parts:
  "finishChainReply encode xs fs le ns =
     ((xs @ optionally (fs \<noteq> []) FAILED_ACTIVATIONS_MARKER (encode (JArr (map activation_js fs))))
        @ optionally le LISTS_EMPTY_MARKER ''1'')
        @ optionally (ns \<noteq> []) PARENT_NOTIFICATIONS_MARKER (encode (JArr (map JStr ns)))"
  by (simp add: finishChainReply_def appendParentNotifications_def optionally_def)

lemma marker_is_marker [simp]:
  "is_marker FAILED_ACTIVATIONS_MARKER" "is_marker LISTS_EMPTY_MARKER" "is_marker PARENT_NOTIFICATIONS_MARKER"
  by (simp_all add: is_marker_def)

lemma read_finished:
  assumes "\<And>t. read_tail json xs (length xs) t = (length xs, t)"
  shows "read_tail json (finishChainReply encode xs fs le ns) (length (finishChainReply encode xs fs le ns)) t =
    (length xs,
     (let t1 = (if ns \<noteq> [] then note_marker json PARENT_NOTIFICATIONS_MARKER (RStr (encode (JArr (map JStr ns)))) t else t);
          t2 = (if le then note_marker json LISTS_EMPTY_MARKER (RStr ''1'') t1 else t1)
      in if fs \<noteq> [] then note_marker json FAILED_ACTIVATIONS_MARKER (RStr (encode (JArr (map activation_js fs)))) t2 else t2))"
  unfolding finishChainReply_parts
  by (simp only: read_optionally marker_is_marker assms Let_def)

section \<open>Payloads\<close>

lemma parse_notifications:
  assumes "json (encode (JArr (map JStr ns))) = Inr (JArr (map JStr ns))" and "json [] = Inl e"
  shows "parseParentNotifications json (RStr (encode (JArr (map JStr ns)))) = ns"
proof -
  have "encode (JArr (map JStr ns)) \<noteq> []" using assms by auto
  moreover have "map js_text (map JStr ns) = ns" by (induction ns) simp_all
  ultimately show ?thesis
    using assms(1) by (simp add: parseParentNotifications_def is_js_str_def list_all_iff)
qed

lemma activation_of_js [simp]: "activation_of (activation_js f) = Some f"
  by (simp add: activation_of_def activation_js_def js_field_def js_fields_def)

lemma parse_activations:
  assumes "json (encode (JArr (map activation_js fs))) = Inr (JArr (map activation_js fs))" and "json [] = Inl e"
  shows "parseFailedActivations json (RStr (encode (JArr (map activation_js fs)))) = fs"
proof -
  have "encode (JArr (map activation_js fs)) \<noteq> []" using assms by auto
  moreover have "List.map_filter activation_of (map activation_js fs) = fs"
    by (induction fs) (simp_all add: List.map_filter_simps)
  ultimately show ?thesis
    using assms(1) by (simp add: parseFailedActivations_def)
qed

lemma pairs_field_replies [simp]: "pairs_of (field_replies fvs) = fvs"
  by (induction fvs) (auto simp: field_replies_def)

lemma length_field_replies: "length (field_replies fvs) = 2 * length fvs"
  by (induction fvs) (auto simp: field_replies_def)

lemma fold_set_distinct:
  "distinct (map fst (m @ fvs)) \<Longrightarrow> fold (\<lambda>(f, v). jm_set f v) fvs m = m @ fvs"
proof (induction fvs arbitrary: m)
  case (Cons x fvs)
  obtain f v where x: "x = (f, v)" by (cases x)
  have "jm_set f v m = m @ [(f, v)]"
    using Cons.prems x by (intro jm_keys_set_new) auto
  with Cons.IH [of "m @ [(f, v)]"] Cons.prems x show ?case by simp
qed simp

lemma hash_field_replies: "distinct (map fst fvs) \<Longrightarrow> hash_of (field_replies fvs) = fvs"
  using fold_set_distinct [of "[]" fvs] by (simp add: hash_of_def)

text \<open>A job's hash has no field, and no job an id, that is the text of a marker.\<close>

definition readable_outcome :: "chain_outcome \<Rightarrow> bool" where
  "readable_outcome out =
     (case out of
        OutNone \<Rightarrow> True
      | OutRevoked n e \<Rightarrow> \<not> is_marker n
      | OutHash n e fvs \<Rightarrow> \<not> is_marker n \<and> distinct (map fst fvs) \<and> (\<forall>f \<in> fst ` set fvs. \<not> is_marker f))"

lemma tags_not_markers:
  "\<not> is_marker ''NEXT_NONE''" "\<not> is_marker ''NEXT_REVOKED''" "\<not> is_marker ''NEXT_HASH''"
  by (simp_all add: is_marker_def markers)

lemma field_name_at_end:
  "fvs \<noteq> [] \<Longrightarrow> text_at (xs @ field_replies fvs) (length xs + 2 * length fvs - 2) = fst (last fvs)"
proof (induction fvs arbitrary: xs)
  case (Cons x fvs)
  obtain f v where x: "x = (f, v)" by (cases x)
  have s: "xs @ field_replies (x # fvs) = (xs @ [RStr f, RStr v]) @ field_replies fvs"
    by (simp add: x field_replies_def)
  show ?case
  proof (cases "fvs = []")
    case True
    then show ?thesis by (simp add: x field_replies_def text_at_def nth_append)
  next
    case False
    with Cons.IH [of "xs @ [RStr f, RStr v]"] show ?thesis unfolding s by simp
  qed
qed simp

lemma head_stops:
  assumes "readable_outcome out"
  shows "read_tail json (chain_head jid out) (length (chain_head jid out)) t = (length (chain_head jid out), t)"
proof (rule read_tail_stop)
  fix n assume n: "length (chain_head jid out) = Suc (Suc n)"
  show "\<not> is_marker (text_at (chain_head jid out) n)"
  proof (cases out)
    case (OutHash m e fvs)
    show ?thesis
    proof (cases "fvs = []")
      case False
      have "n = length [RStr ''NEXT_HASH'', RStr jid, RStr m, RStr e] + 2 * length fvs - 2"
        using n by (simp add: OutHash chain_head_def length_field_replies)
      then have "text_at (chain_head jid out) n = fst (last fvs)"
        using field_name_at_end [OF False, of "[RStr ''NEXT_HASH'', RStr jid, RStr m, RStr e]"]
        by (simp only: OutHash chain_head_def chain_outcome.case)
      then show ?thesis using assms False by (auto simp: OutHash readable_outcome_def)
    qed (use assms n OutHash in \<open>auto simp: chain_head_def readable_outcome_def text_at_def field_replies_def\<close>)
  qed (use assms n tags_not_markers in \<open>auto simp: chain_head_def readable_outcome_def text_at_def\<close>)
qed

section \<open>The round trip\<close>

definition expected_result :: "string \<Rightarrow> chain_outcome \<Rightarrow> failed_activation list \<Rightarrow> bool \<Rightarrow> string list \<Rightarrow> chain_result" where
  "expected_result jid out fs le ns =
     \<lparr>ch_completed = JStr jid,
      ch_next = (case out of OutNone \<Rightarrow> NoNext | OutRevoked _ _ \<Rightarrow> NextRevoked | OutHash _ _ fvs \<Rightarrow> NextHash fvs),
      ch_nextJobId = (case out of OutNone \<Rightarrow> JUndef | OutRevoked n _ \<Rightarrow> JStr n | OutHash n _ _ \<Rightarrow> JStr n),
      ch_nextEntryId = (case out of OutNone \<Rightarrow> JUndef | OutRevoked _ e \<Rightarrow> JStr e | OutHash _ e _ \<Rightarrow> JStr e),
      ch_parentNotifications = ns, ch_failedActivations = fs, ch_listsEmpty = (le \<and> out = OutNone)\<rparr>"

lemma parse_finished:
  assumes "readable_outcome out"
    and "json (encode (JArr (map JStr ns))) = Inr (JArr (map JStr ns))"
    and "json (encode (JArr (map activation_js fs))) = Inr (JArr (map activation_js fs))"
    and "json [] = Inl e"
  shows "parseChainReply json (finishChainReply encode (chain_head jid out) fs le ns) other func =
    Inr (expected_result jid out fs le ns)"
proof -
  let ?h = "chain_head jid out"
  let ?r = "finishChainReply encode ?h fs le ns"
  define t where "t = \<lparr>ct_parentNotifications = ns, ct_failedActivations = fs, ct_listsEmpty = le\<rparr>"
  have tail: "read_tail json ?r (length ?r) no_tail = (length ?h, t)"
    using read_finished [OF head_stops [OF assms(1)], of json encode jid fs le ns no_tail]
      parse_notifications [where json = json and encode = encode and ns = ns, OF assms(2,4)]
      parse_activations [where json = json and encode = encode and fs = fs, OF assms(3,4)]
    by (simp add: note_marker_def no_tail_def t_def markers Let_def)
  obtain rest where r: "?r = ?h @ rest"
    unfolding finishChainReply_parts by (simp only: append_assoc)
  have take: "take (length ?h) ?r = ?h" by (simp add: r)
  show ?thesis
    unfolding parseChainReply_def tail take
    using assms(1) unfolding r
    by (cases out) (auto simp: chain_head_def text_at_def t_def expected_result_def hash_field_replies
        readable_outcome_def Let_def)
qed

lemma finished_not_empty: "finishChainReply encode (chain_head jid out) fs le ns \<noteq> []"
  by (cases out) (simp_all add: finishChainReply_parts chain_head_def)

text \<open>
  C13: what the server writes at the end of a chain call is what the client reads: the completed job,
  the next job with its fields, the parents to notify and the jobs that failed at activation, for
  every outcome and every combination of trailing markers, and in front of them the outcome of the
  failed job when the call was \<open>failAndFetchNext\<close>. The flag for empty lists only counts when there is
  no next job. The JSON functions are only assumed to be inverse on the two payloads.
\<close>

theorem chain_reply_roundtrip:
  assumes "readable_outcome out"
    and "json (encode (JArr (map JStr ns))) = Inr (JArr (map JStr ns))"
    and "json (encode (JArr (map activation_js fs))) = Inr (JArr (map activation_js fs))"
    and "json [] = Inl e"
  shows "chain_reply_of json other (RArr (finishChainReply encode (chain_head jid out) fs le ns)) =
      Inr (expected_result jid out fs le ns)
    \<and> fail_and_fetch_of json other (RArr (RStr res # finishChainReply encode (chain_head jid out) fs le ns)) =
      Inr (chain_result.extend (expected_result jid out fs le ns) (fail_and_fetch_result.fields res))"
  using parse_finished [where json = json and encode = encode, OF assms] finished_not_empty
  by (simp add: chain_reply_of_def fail_and_fetch_of_def)

lemma chain_reply_roundtrip_witness:
  "let ns = [''[\"q\",\"4\",\"glide:{c}:7\"]'']; fs = [\<lparr>fa_jobId = ''9'', fa_reason = ''cost exceeds token bucket capacity''\<rparr>];
       encode = (\<lambda>v. if v = JArr (map JStr ns) then ''n'' else ''f'');
       json = (\<lambda>s. if s = ''n'' then Inr (JArr (map JStr ns)) else if s = ''f'' then Inr (JArr (map activation_js fs))
                  else Inl (err ''Unexpected end of JSON input''));
       out = OutHash ''8'' ''1-0'' [(''id'', ''8''), (''data'', ''{}'')]
   in chain_reply_of json ''0'' (RArr (finishChainReply encode (chain_head ''7'' out) fs False ns)) =
        Inr (expected_result ''7'' out fs False ns)"
proof -
  let ?ns = "[''[\"q\",\"4\",\"glide:{c}:7\"]'']"
  let ?fs = "[\<lparr>fa_jobId = ''9'', fa_reason = ''cost exceeds token bucket capacity''\<rparr>]"
  let ?encode = "\<lambda>v. if v = JArr (map JStr ?ns) then ''n'' else ''f''"
  let ?json = "\<lambda>s. if s = ''n'' then Inr (JArr (map JStr ?ns)) else if s = ''f'' then Inr (JArr (map activation_js ?fs))
    else Inl (err ''Unexpected end of JSON input'')"
  let ?out = "OutHash ''8'' ''1-0'' [(''id'', ''8''), (''data'', ''{}'')]"
  have "readable_outcome ?out" by (simp add: readable_outcome_def is_marker_def markers)
  moreover have "?json (?encode (JArr (map activation_js ?fs))) = Inr (JArr (map activation_js ?fs))"
    by (simp add: activation_js_def)
  ultimately show ?thesis
    using chain_reply_roundtrip [of ?out ?json ?encode ?ns ?fs] by (simp add: Let_def)
qed

end
