(* ===== verification/Server_Ops.thy ===== *)
theory Server_Ops
  imports Server_Calls
begin

text \<open>
  The remaining wrappers of \<open>src/functions/index.ts\<close>: stalled jobs, list pops, activation, rate
  limits, changes of single jobs, flows, schedulers, suspension and budgets.
\<close>

section \<open>Broadcast trimming and stalled jobs\<close>

text \<open>Trimmed and unread entries.\<close>

definition trim_result_of :: "reply \<Rightarrow> jsnum \<times> jsnum" where
  "trim_result_of r =
     (case r of RArr rs \<Rightarrow> (num_or_zero (num_at rs 0), num_or_zero (num_at rs 1)) | _ \<Rightarrow> (reply_count r, Num 0))"

definition trimBroadcast :: "queue_keys \<Rightarrow> jsnum \<Rightarrow> jsnum \<Rightarrow> (jsnum \<times> jsnum) client" where
  "trimBroadcast k maxLen ts =
     mapC trim_result_of
       (fcall ''glidemq_trimBroadcast'' [k_stream k, k_completed k, k_failed k, k_scheduled k] [num_text maxLen, num_text ts])"

definition trunc_num :: "jsnum \<Rightarrow> jsnum" where
  "trunc_num x = (case x of Num q \<Rightarrow> Num (of_int (js_trunc q)) | _ \<Rightarrow> x)"

record stall_args =
  s_consumer :: string
  s_minIdleMs :: jsnum
  s_maxStalledCount :: jsnum
  s_timestamp :: jsnum
  s_group :: string
  s_broadcastMode :: bool
  s_workerLockDuration :: jsnum
  s_idleConsumerMs :: jsnum

definition stall_arg_list :: "queue_keys \<Rightarrow> stall_args \<Rightarrow> string list" where
  "stall_arg_list k a =
     [s_group a, s_consumer a, num_text (s_minIdleMs a), num_text (s_maxStalledCount a), num_text (s_timestamp a),
      k_failed k, flag (s_broadcastMode a), num_text (s_workerLockDuration a)]"

definition idle_arg :: "stall_args \<Rightarrow> string list" where
  "idle_arg a = (if s_idleConsumerMs a > Num 0 then [num_text (trunc_num (s_idleConsumerMs a))] else [])"

definition reclaimStalled :: "queue_keys \<Rightarrow> stall_args \<Rightarrow> reply client" where
  "reclaimStalled k a =
     fcall ''glidemq_reclaimStalled'' [k_stream k, k_events k]
       (stall_arg_list k a @ (if s_idleConsumerMs a > Num 0 then [''0'', ''0''] else []) @ idle_arg a)"

definition removeIdleConsumer :: "queue_keys \<Rightarrow> string \<Rightarrow> string \<Rightarrow> bool client" where
  "removeIdleConsumer k grp consumer =
     tryC (mapC reply_is_one (fcall ''glidemq_removeIdleConsumer'' [k_stream k] [grp, consumer]))
       (\<lambda>e. if isFunctionNotFound e then Return False else Throw e)"

record reclaim_result =
  rc_count :: jsnum
  rc_stalledIds :: "string list"
  rc_redispatch :: "(string \<times> string) list"

text \<open>Three forms: a count, a count with ids, and a count with a list of ids and a list of entries.\<close>

definition parseReclaimStalledResult :: "reply \<Rightarrow> reclaim_result" where
  "parseReclaimStalledResult raw =
     (case raw of
        RArr (c # RArr ids # rest) \<Rightarrow>
          \<lparr>rc_count = reply_count c, rc_stalledIds = map reply_text ids,
           rc_redispatch = (case rest of RArr ps # _ \<Rightarrow> pairs_of ps | _ \<Rightarrow> [])\<rparr>
      | RArr (c # ids) \<Rightarrow> \<lparr>rc_count = reply_count c, rc_stalledIds = map reply_text ids, rc_redispatch = []\<rparr>
      | RArr [] \<Rightarrow> \<lparr>rc_count = Num 0, rc_stalledIds = [], rc_redispatch = []\<rparr>
      | _ \<Rightarrow> \<lparr>rc_count = reply_count raw, rc_stalledIds = [], rc_redispatch = []\<rparr>)"

definition reclaimStalledWithIds :: "queue_keys \<Rightarrow> stall_args \<Rightarrow> bool \<Rightarrow> reclaim_result client" where
  "reclaimStalledWithIds k a redispatch =
     mapC parseReclaimStalledResult
       (fcall ''glidemq_reclaimStalled'' [k_stream k, k_events k]
          (stall_arg_list k a @ [''1'', flag (s_broadcastMode a \<and> redispatch)] @ idle_arg a))"

definition list_stall_args :: "queue_keys \<Rightarrow> jsnum \<Rightarrow> jsnum \<Rightarrow> jsnum \<Rightarrow> jsnum \<Rightarrow> string list" where
  "list_stall_args k minIdle maxStalled ts lockMs =
     [num_text minIdle, num_text maxStalled, num_text ts, k_failed k, num_text lockMs]"

definition reclaimStalledListJobs :: "queue_keys \<Rightarrow> jsnum \<Rightarrow> jsnum \<Rightarrow> jsnum \<Rightarrow> jsnum \<Rightarrow> reply client" where
  "reclaimStalledListJobs k minIdle maxStalled ts lockMs =
     fcall ''glidemq_reclaimStalledListJobs'' [k_stream k, k_events k] (list_stall_args k minIdle maxStalled ts lockMs)"

definition reclaimStalledListJobsWithIds :: "queue_keys \<Rightarrow> jsnum \<Rightarrow> jsnum \<Rightarrow> jsnum \<Rightarrow> jsnum \<Rightarrow> reclaim_result client" where
  "reclaimStalledListJobsWithIds k minIdle maxStalled ts lockMs =
     mapC parseReclaimStalledResult
       (fcall ''glidemq_reclaimStalledListJobs'' [k_stream k, k_events k]
          (list_stall_args k minIdle maxStalled ts lockMs @ [''1'']))"

section \<open>Pause, limits and list pops\<close>

definition pause_call :: "queue_keys \<Rightarrow> unit client" where
  "pause_call k = mapC (\<lambda>_. ()) (fcall ''glidemq_pause'' [k_meta k, k_events k] [])"

definition resume_call :: "queue_keys \<Rightarrow> unit client" where
  "resume_call k = mapC (\<lambda>_. ()) (fcall ''glidemq_resume'' [k_meta k, k_events k] [])"

definition rateLimit_call :: "queue_keys \<Rightarrow> jsnum \<Rightarrow> jsnum \<Rightarrow> jsnum \<Rightarrow> reply client" where
  "rateLimit_call k maxPerWindow windowDuration ts =
     fcall ''glidemq_rateLimit'' [k_rate k, k_meta k] [num_text maxPerWindow, num_text windowDuration, num_text ts]"

definition checkConcurrency :: "queue_keys \<Rightarrow> string \<Rightarrow> reply client" where
  "checkConcurrency k grp = fcall ''glidemq_checkConcurrency'' [k_meta k, k_stream k, k_listActive k] [grp]"

text \<open>\<open>Math.max(1, Math.min(Math.floor(count) || 1, 1000))\<close>.\<close>

definition safeCount :: "jsnum \<Rightarrow> int" where
  "safeCount c =
     (case c of NaN \<Rightarrow> 1 | PInf \<Rightarrow> 1000 | NInf \<Rightarrow> 1
      | Num q \<Rightarrow> max 1 (min (if \<lfloor>q\<rfloor> = 0 then 1 else \<lfloor>q\<rfloor>) 1000))"

definition rpopAndReserve :: "queue_keys \<Rightarrow> string \<Rightarrow> string \<Rightarrow> jsnum \<Rightarrow> string list client" where
  "rpopAndReserve k listKey grp count =
     mapC reply_texts
       (fcall ''glidemq_rpopAndReserve'' [k_meta k, k_stream k, k_listActive k, listKey] [grp, show_int (safeCount count)])"

definition popped_count :: "reply \<Rightarrow> nat" where
  "popped_count r = (case r of RArr rs \<Rightarrow> length rs | _ \<Rightarrow> 0)"

definition popLists :: "queue_keys \<Rightarrow> jsnum \<Rightarrow> string list client" where
  "popLists k count =
     (let ks = [k_priority k, k_lifo k, k_listActive k]; as = [show_int (safeCount count)] in
      mapC reply_texts
        (tryC (fcall ''glidemq_popListsReserve'' ks as)
           (\<lambda>e. if lacks_function e
                 then bindC (fcall ''glidemq_popLists'' ks as)
                        (\<lambda>r. if popped_count r > 0
                              then bindC (ask (IncrBy (k_listActive k) (int (popped_count r)))) (\<lambda>_. Return r)
                              else Return r)
                 else Throw e)))"

section \<open>Activation\<close>

definition moveToActiveCall ::
  "queue_keys \<Rightarrow> string \<Rightarrow> jsnum \<Rightarrow> string \<Rightarrow> string \<Rightarrow> string \<Rightarrow> bool \<Rightarrow> bool \<Rightarrow> string list \<times> string list" where
  "moveToActiveCall k jid ts streamKey entry grp bc enforce =
     (if streamKey = [] then ([k_job k jid], [num_text ts])
      else ([k_job k jid, streamKey],
            [num_text ts, entry, grp, jid] @ (if bc then [''1''] else if enforce then [''0''] else [])
              @ (if enforce then [''1''] else [])))"

datatype activation = ActiveHash "(string, string) jsmap" | ActiveStatus string | NoJob

definition activation_statuses :: "string list" where
  "activation_statuses =
     [''REVOKED'', ''PAUSED'', ''EXPIRED'', ''GROUP_FULL'', ''GROUP_RATE_LIMITED'', ''GROUP_TOKEN_LIMITED'', ''GROUP_ORDERED'',
      ''ERR:COST_EXCEEDS_CAPACITY'', ''STALE'', ''GLOBAL_FULL'']"

text \<open>The last case is the JSON array of an older server.\<close>

definition parseMoveToActiveResult :: "json_parse \<Rightarrow> reply \<Rightarrow> js_error + activation" where
  "parseMoveToActiveResult json result =
     (case result of
        RArr rs \<Rightarrow> Inr (if rs = [] then NoJob else ActiveHash (hash_of rs))
      | _ \<Rightarrow> (let str = reply_text result in
          if str = [] \<or> str = ''null'' then Inr NoJob
          else if str \<in> set activation_statuses then Inr (ActiveStatus str)
          else andThen (json str)
                 (\<lambda>v. if v = JNull \<or> v = JUndef
                       then Inl (PlainError ''TypeError'' (''Cannot read properties of '' @ js_text v @ '' (reading '' @ in_quotes ''length'' @ '')'') None)
                       else Inr (ActiveHash (js_hash (js_elements v))))))"

definition moveToActive ::
  "json_parse \<Rightarrow> queue_keys \<Rightarrow> string \<Rightarrow> jsnum \<Rightarrow> string \<Rightarrow> string \<Rightarrow> string \<Rightarrow> bool \<Rightarrow> bool \<Rightarrow> activation client" where
  "moveToActive json k jid ts streamKey entry grp bc enforce =
     (case moveToActiveCall k jid ts streamKey entry grp bc enforce of
        (ks, as) \<Rightarrow> bindC (fcall ''glidemq_moveToActive'' ks as) (\<lambda>r. liftC (parseMoveToActiveResult json r)))"

section \<open>Groups and deferred jobs\<close>

definition promoteRateLimited :: "queue_keys \<Rightarrow> jsnum \<Rightarrow> jsnum client" where
  "promoteRateLimited k ts =
     mapC reply_count (fcall ''glidemq_promoteRateLimited'' [k_ratelimited k, k_stream k] [num_text ts])"

definition rateLimitGroup ::
  "queue_keys \<Rightarrow> string \<Rightarrow> string \<Rightarrow> jsnum \<Rightarrow> jsnum \<Rightarrow> string \<Rightarrow> string \<Rightarrow> string \<Rightarrow> string \<Rightarrow> bool \<Rightarrow> string client" where
  "rateLimitGroup k jid entry duration ts grp currentJob requeuePosition mode bc =
     mapC reply_text
       (fcall ''glidemq_rateLimitGroup'' [k_job k jid, k_stream k]
          [jid, entry, grp, num_text duration, num_text ts, flag bc, currentJob, requeuePosition, mode])"

definition rateLimitGroupExternal :: "queue_keys \<Rightarrow> string \<Rightarrow> jsnum \<Rightarrow> jsnum \<Rightarrow> string \<Rightarrow> jsnum client" where
  "rateLimitGroupExternal k groupKey duration ts mode =
     mapC reply_count
       (fcall ''glidemq_rateLimitGroupExternal'' [k_ratelimited k, k_events k] [groupKey, num_text duration, num_text ts, mode])"

record defer_opts =
  d_pausedRestore :: bool
  d_undoGroupClaim :: bool
  d_consumer :: string

text \<open>Absent options are false, an absent consumer is the empty text.\<close>

definition deferActive :: "queue_keys \<Rightarrow> string \<Rightarrow> string \<Rightarrow> string \<Rightarrow> bool \<Rightarrow> defer_opts \<Rightarrow> unit client" where
  "deferActive k jid entry grp bc d =
     mapC (\<lambda>_. ())
       (fcall ''glidemq_deferActive'' [k_stream k, k_job k jid, k_listActive k]
          ([jid, entry, grp, flag bc, flag (d_pausedRestore d), flag (d_undoGroupClaim d)]
             @ (if d_consumer d = [] then [] else [d_consumer d])))"

definition claims_of :: "reply \<Rightarrow> (string, (string \<times> string) list) jsmap" where
  "claims_of raw =
     (case raw of
        RArr es \<Rightarrow>
          fold (\<lambda>e m. case e of RArr (i # RArr fs # _) \<Rightarrow> jm_set (reply_text i) (pairs_of fs) m | _ \<Rightarrow> m) es []
      | _ \<Rightarrow> [])"

text \<open>Without the function the reply of \<open>XCLAIM\<close> is passed on (\<open>Inl\<close>).\<close>

definition recoverBroadcastClaims ::
  "queue_keys \<Rightarrow> string \<Rightarrow> string \<Rightarrow> string list \<Rightarrow> (reply + (string, (string \<times> string) list) jsmap) client" where
  "recoverBroadcastClaims k grp consumer entryIds =
     Ask (FCall ''glidemq_recoverBroadcastClaims'' [k_stream k] ([grp, consumer] @ entryIds))
       (\<lambda>r. case r of
          Inl e \<Rightarrow> if isFunctionNotFound e then mapC Inl (ask (XClaim (k_stream k) grp consumer 0 entryIds)) else Throw e
        | Inr raw \<Rightarrow> Return (Inr (claims_of raw)))"

section \<open>Removing and retrying jobs\<close>

definition completeChild :: "queue_keys \<Rightarrow> string \<Rightarrow> string \<Rightarrow> reply client" where
  "completeChild pk parentId depsMember =
     fcall ''glidemq_completeChild'' [k_deps pk parentId, k_job pk parentId, k_stream pk, k_events pk] [depsMember, parentId]"

text \<open>
  \<open>removeJob\<close> tells the parents of a removed child in other queues; a notification that was delivered
  leaves \<open>xq-pending\<close>, one that failed stays for the scheduler.
\<close>

fun notify_parents :: "json_parse \<Rightarrow> queue_keys \<Rightarrow> string \<Rightarrow> string list \<Rightarrow> unit client" where
  "notify_parents json k pre [] = Return ()"
| "notify_parents json k pre (m # ms) =
     (case parseCrossQueueParentNotification json m of
        None \<Rightarrow> notify_parents json k pre ms
      | Some (parentQueue, parentId, depsMember) \<Rightarrow>
          bindC
            (tryC (bindC (completeChild (buildKeys parentQueue pre) parentId depsMember)
                     (\<lambda>_. mapC (\<lambda>_. ()) (ask (SRem (k_xqPending k) [m]))))
               (\<lambda>_. Return ()))
            (\<lambda>_. notify_parents json k pre ms))"

definition removeJob_call :: "json_parse \<Rightarrow> queue_keys \<Rightarrow> string \<Rightarrow> jsnum client" where
  "removeJob_call json k jid =
     bindC
       (fcall ''glidemq_removeJob''
          [k_job k jid, k_stream k, k_scheduled k, k_completed k, k_failed k, k_events k, k_log k jid] [jid])
       (\<lambda>r. case r of
          RStr s \<Rightarrow>
            (let sfx = '':{'' @ k_name k @ ''}:id'' in
             if \<not> suffix sfx (k_id k) then Return (Num 1)
             else bindC (notify_parents json k (take (length (k_id k) - length sfx) (k_id k)) (parseParentNotifications json r))
                    (\<lambda>_. Return (Num 1)))
        | _ \<Rightarrow> Return (reply_count r))"

definition cleanJobs :: "queue_keys \<Rightarrow> string \<Rightarrow> rat \<Rightarrow> jsnum \<Rightarrow> rat \<Rightarrow> string list client" where
  "cleanJobs k type grace limit ts =
     (if type \<noteq> ''completed'' \<and> type \<noteq> ''failed''
      then Throw (OtherFailure (PlainError ''TypeError'' (''clean type must be '' @ in_quotes ''completed'' @ '' or '' @ in_quotes ''failed'' @ '', got '' @ in_quotes type) None))
      else mapC reply_texts
             (fcall ''glidemq_clean'' [if type = ''completed'' then k_completed k else k_failed k, k_events k, k_id k]
                [num_text (Num (ts - grace)), num_text limit]))"

definition drainQueue :: "queue_keys \<Rightarrow> bool \<Rightarrow> string \<Rightarrow> jsnum client" where
  "drainQueue k delayed grp =
     mapC reply_count
       (fcall ''glidemq_drain'' [k_stream k, k_scheduled k, k_events k, k_id k, k_lifo k, k_priority k] [flag delayed, grp])"

definition retryJobs_call :: "queue_keys \<Rightarrow> jsnum \<Rightarrow> jsnum \<Rightarrow> jsnum client" where
  "retryJobs_call k count ts =
     mapC reply_count
       (fcall ''glidemq_retryJobs'' [k_failed k, k_scheduled k, k_events k, k_id k] [num_text count, num_text ts])"

text \<open>Type and data of the optional event; without one both are empty.\<close>

definition updateJobFields :: "queue_keys \<Rightarrow> string \<Rightarrow> (string \<times> string) list \<Rightarrow> (string \<times> string) option \<Rightarrow> bool client" where
  "updateJobFields k jid fs event =
     mapC reply_is_one
       (fcall ''glidemq_updateJobFields'' [k_job k jid, k_events k]
          ([jid] @ (case event of Some (t, d) \<Rightarrow> [t, d] | None \<Rightarrow> [[], []]) @ concat (map (\<lambda>(f, v). [f, v]) fs)))"

definition retryJob :: "queue_keys \<Rightarrow> string \<Rightarrow> jsnum \<Rightarrow> string client" where
  "retryJob k jid ts =
     mapC reply_text (fcall ''glidemq_retryJob'' [k_job k jid, k_failed k, k_scheduled k] [jid, num_text ts])"

definition revokeJob :: "queue_keys \<Rightarrow> string \<Rightarrow> jsnum \<Rightarrow> string \<Rightarrow> reply client" where
  "revokeJob k jid ts grp =
     fcall ''glidemq_revoke'' [k_job k jid, k_stream k, k_scheduled k, k_failed k, k_events k] [jid, num_text ts, grp]"

definition changePriority_call :: "queue_keys \<Rightarrow> string \<Rightarrow> jsnum \<Rightarrow> string \<Rightarrow> reply client" where
  "changePriority_call k jid newPriority grp =
     fcall ''glidemq_changePriority'' [k_job k jid, k_stream k, k_scheduled k, k_events k] [jid, num_text newPriority, grp]"

definition changeDelay_call :: "queue_keys \<Rightarrow> string \<Rightarrow> jsnum \<Rightarrow> jsnum \<Rightarrow> string \<Rightarrow> reply client" where
  "changeDelay_call k jid newDelay clock grp =
     fcall ''glidemq_changeDelay'' [k_job k jid, k_stream k, k_scheduled k, k_events k]
       [jid, num_text newDelay, num_text clock, grp]"

definition promoteJob :: "queue_keys \<Rightarrow> string \<Rightarrow> reply client" where
  "promoteJob k jid = fcall ''glidemq_promoteJob'' [k_job k jid, k_stream k, k_scheduled k, k_events k] [jid]"

definition moveActiveToDelayed ::
  "queue_keys \<Rightarrow> string \<Rightarrow> string \<Rightarrow> jsnum \<Rightarrow> string option \<Rightarrow> jsnum \<Rightarrow> string \<Rightarrow> bool \<Rightarrow> reply client" where
  "moveActiveToDelayed k jid entry delayedUntil serialized ts grp bc =
     fcall ''glidemq_moveActiveToDelayed'' [k_job k jid, k_stream k, k_scheduled k, k_events k]
       ([jid, entry, num_text ts, num_text delayedUntil, grp, or_else serialized []] @ (if bc then [''1''] else []))"

definition moveToWaitingChildren_call :: "queue_keys \<Rightarrow> string \<Rightarrow> string \<Rightarrow> string \<Rightarrow> jsnum \<Rightarrow> bool \<Rightarrow> reply client" where
  "moveToWaitingChildren_call k jid entry grp ts bc =
     fcall ''glidemq_moveToWaitingChildren'' [k_job k jid, k_stream k, k_events k]
       ([jid, entry, grp, num_text ts] @ (if bc then [''1''] else []))"

definition searchByName :: "string \<Rightarrow> string \<Rightarrow> string \<Rightarrow> jsnum \<Rightarrow> string \<Rightarrow> string list client" where
  "searchByName stateKey stateType nameFilter limit pre =
     mapC reply_texts (fcall ''glidemq_searchByName'' [stateKey] [stateType, nameFilter, num_text limit, pre])"

section \<open>Flows\<close>

record flow_child =
  fc_name :: string
  fc_data :: string
  fc_opts :: string
  fc_delay :: jsnum
  fc_priority :: jsnum
  fc_maxAttempts :: jsnum
  fc_keys :: queue_keys
  fc_queuePrefix :: string
  fc_parentQueueName :: string
  fc_customId :: string

record flow_parent =
  fp_name :: string
  fp_data :: string
  fp_opts :: string
  fp_timestamp :: jsnum
  fp_delay :: jsnum
  fp_priority :: jsnum
  fp_maxAttempts :: jsnum
  fp_customId :: string

definition child_args :: "flow_child \<Rightarrow> string list" where
  "child_args c =
     [fc_name c, fc_data c, fc_opts c, num_text (fc_delay c), num_text (fc_priority c), num_text (fc_maxAttempts c),
      fc_queuePrefix c, fc_parentQueueName c, fc_customId c]"

definition job_keys :: "queue_keys \<Rightarrow> string list" where
  "job_keys k = [k_id k, k_stream k, k_scheduled k, k_events k]"

definition addFlow ::
  "json_parse \<Rightarrow> queue_keys \<Rightarrow> flow_parent \<Rightarrow> flow_child list \<Rightarrow> string list \<Rightarrow> string \<Rightarrow> js client" where
  "addFlow json pk p children extraDeps budgetKey =
     bindC
       (fcall ''glidemq_addFlow'' (job_keys pk @ concat (map (\<lambda>c. job_keys (fc_keys c)) children))
          ([fp_name p, fp_data p, fp_opts p, num_text (fp_timestamp p), num_text (fp_delay p), num_text (fp_priority p),
            num_text (fp_maxAttempts p), show_nat (length children), fp_customId p]
             @ concat (map child_args children) @ [show_nat (length extraDeps)] @ extraDeps
             @ (if budgetKey = [] then [] else [budgetKey])))
       (\<lambda>r. liftC (json (reply_text r)))"

definition registerChildDep :: "queue_keys \<Rightarrow> string \<Rightarrow> string \<Rightarrow> unit client" where
  "registerChildDep pk parentId depsMember =
     tryC (mapC (\<lambda>_. ())
             (fcall ''glidemq_registerChildDep'' [k_deps pk parentId, k_job pk parentId, k_stream pk, k_events pk]
                [depsMember, parentId]))
       (\<lambda>e. if lacks_function e then mapC (\<lambda>_. ()) (ask (SAdd (k_deps pk parentId) [depsMember])) else Throw e)"

definition registerParent :: "queue_keys \<Rightarrow> string \<Rightarrow> string \<Rightarrow> string \<Rightarrow> queue_keys \<Rightarrow> string \<Rightarrow> reply client" where
  "registerParent ck childJobId parentId parentQueue pk depsMember =
     fcall ''glidemq_registerParent''
       [k_job ck childJobId, k_parents ck childJobId, k_deps pk parentId, k_job pk parentId, k_stream pk, k_events pk]
       [childJobId, parentId, parentQueue, depsMember]"

section \<open>Schedulers\<close>

definition casSchedulerEntry :: "queue_keys \<Rightarrow> string \<Rightarrow> string \<Rightarrow> string \<Rightarrow> bool client" where
  "casSchedulerEntry k name expected val =
     mapC reply_is_one (fcall ''glidemq_casSchedulerEntry'' [k_schedulers k] [name, expected, val])"

definition await_status :: "reply \<Rightarrow> string" where
  "await_status r =
     (if reply_num r = Num 1 then ''parked'' else if reply_num r = Num 0 then ''finished'' else ''changed'')"

text \<open>The key of the job is made from the key of the ids, \<open>k.id.slice(0, -2)\<close>.\<close>

definition schedulerAwaitInflight :: "queue_keys \<Rightarrow> string \<Rightarrow> string \<Rightarrow> string \<Rightarrow> string client" where
  "schedulerAwaitInflight k name expected jid =
     tryC (mapC await_status
             (fcall ''glidemq_schedulerAwaitInflight''
                [k_schedulers k, take (length (k_id k) - 2) (k_id k) @ ''job:'' @ jid] [name, expected]))
       (\<lambda>e. if isFunctionNotFound e then Return ''finished'' else Throw e)"

section \<open>Repairing counters\<close>

text \<open>The optional bounds of the scan: pages and keys per page.\<close>

definition healListActive :: "queue_keys \<Rightarrow> (jsnum option \<times> jsnum option) option \<Rightarrow> jsnum client" where
  "healListActive k scan =
     mapC reply_count
       (fcall ''glidemq_healListActive'' [k_id k]
          (case scan of None \<Rightarrow> [] | Some (maxIter, count) \<Rightarrow> [num_text (or_else maxIter (Num 500)), num_text (or_else count (Num 100))]))"

definition healEarlyDeps :: "queue_keys \<Rightarrow> jsnum \<Rightarrow> jsnum client" where
  "healEarlyDeps k maxParents =
     tryC (mapC reply_count (fcall ''glidemq_healEarlyDeps'' [k_id k] [num_text maxParents]))
       (\<lambda>e. if isFunctionNotFound e then Return (Num 0) else Throw e)"

definition getActiveListJobIds :: "queue_keys \<Rightarrow> jsnum \<Rightarrow> jsnum \<Rightarrow> string list client" where
  "getActiveListJobIds k first last' =
     mapC reply_texts (fcall ''glidemq_getActiveListJobIds'' [k_id k] [num_text first, num_text last'])"

section \<open>Suspension\<close>

definition suspendJob ::
  "queue_keys \<Rightarrow> string \<Rightarrow> string \<Rightarrow> string \<Rightarrow> jsnum \<Rightarrow> string option \<Rightarrow> jsnum option \<Rightarrow> bool \<Rightarrow> reply client" where
  "suspendJob k jid entry grp ts reason timeLimit bc =
     fcall ''glidemq_suspend'' [k_job k jid, k_stream k, k_events k, k_suspended k]
       ([jid, entry, grp, num_text ts, or_else reason [], num_text (num_or_zero (or_else timeLimit (Num 0)))]
          @ (if bc then [''1''] else []))"

definition signalJob :: "queue_keys \<Rightarrow> string \<Rightarrow> string \<Rightarrow> string \<Rightarrow> jsnum \<Rightarrow> reply client" where
  "signalJob k jid signalName signalData ts =
     fcall ''glidemq_signal'' [k_job k jid, k_stream k, k_events k, k_suspended k, k_signals k jid]
       [jid, signalName, signalData, num_text ts]"

definition sweepSuspended :: "queue_keys \<Rightarrow> jsnum \<Rightarrow> string \<Rightarrow> jsnum client" where
  "sweepSuspended k ts pre =
     mapC reply_count
       (fcall ''glidemq_sweepSuspended'' [k_suspended k, k_events k, k_failed k, k_metricsFailed k] [num_text ts, pre])"

section \<open>Budgets\<close>

definition updateFlowBudget_call :: "string \<Rightarrow> (string \<times> string option) list \<Rightarrow> reply client" where
  "updateFlowBudget_call budgetKey fs =
     fcall ''glidemq_updateFlowBudget'' [budgetKey] (concat (map (\<lambda>(f, v). [f, or_else v []]) fs))"

definition checkBudget_call :: "string \<Rightarrow> reply client" where
  "checkBudget_call budgetKey = fcall ''glidemq_checkBudget'' [budgetKey] []"

definition recordUsageAndCheckBudget ::
  "(js \<Rightarrow> string) \<Rightarrow> string \<Rightarrow> js \<Rightarrow> js \<Rightarrow> jsnum \<Rightarrow> jsnum \<Rightarrow> js \<Rightarrow> js \<Rightarrow> reply client" where
  "recordUsageAndCheckBudget stringify budgetKey tokens costs weightedTotal totalCost maxTokens maxCosts =
     fcall ''glidemq_recordUsageAndCheckBudget'' [budgetKey]
       [stringify tokens, stringify costs, num_text weightedTotal, num_text totalCost, stringify maxTokens, stringify maxCosts]"

end
