(* ===== verification/Server_Lists.thy ===== *)
theory Server_Lists
  imports Server_Ops
begin

text \<open>
  Taking jobs from the priority and LIFO lists, from the client to the server: the wrappers \<open>popLists\<close>
  and \<open>rpopAndReserve\<close> run against the Lua functions they call (\<open>src/functions/glidemq.lua\<close>), of a library
  that has the reserving pop and of an older one that has not.
\<close>

section \<open>The server's state\<close>

text \<open>
  What the list functions read and write: counters, lists from left to right, hash fields, sets, and
  the number of pending entries of a stream's group.
\<close>

record valkey =
  vk_counters :: "string \<Rightarrow> int"
  vk_lists :: "string \<Rightarrow> string list"
  vk_hashes :: "string \<Rightarrow> string \<Rightarrow> string option"
  vk_sets :: "string \<Rightarrow> string set"
  vk_pending :: "string \<Rightarrow> string \<Rightarrow> nat"

text \<open>\<open>tonumber(s) or d\<close>.\<close>

definition lua_number :: "rat \<Rightarrow> string option \<Rightarrow> rat" where
  "lua_number d s = (case s of None \<Rightarrow> d | Some t \<Rightarrow> (case text_num t of Num q \<Rightarrow> q | _ \<Rightarrow> d))"

text \<open>\<open>RPOP\<close> until \<open>n\<close> are taken or the list is empty: what was taken, and what is left.\<close>

primrec rpop_upto :: "nat \<Rightarrow> string list \<Rightarrow> string list \<times> string list" where
  "rpop_upto 0 xs = ([], xs)"
| "rpop_upto (Suc n) xs =
     (if xs = [] then ([], []) else (case rpop_upto n (butlast xs) of (ps, r) \<Rightarrow> (last xs # ps, r)))"

lemma rpop_upto: "rpop_upto n xs = (take n (rev xs), take (length xs - n) xs)"
proof (induction n arbitrary: xs)
  case (Suc n)
  show ?case
  proof (cases xs rule: rev_cases)
    case (snoc ys y)
    then show ?thesis by (simp add: Suc.IH)
  qed simp
qed simp

definition incrListActive :: "string \<Rightarrow> string list \<Rightarrow> valkey \<Rightarrow> valkey" where
  "incrListActive key ids s =
     s\<lparr>vk_counters := (vk_counters s)(key := vk_counters s key + int (length ids)),
       vk_sets := (vk_sets s)(key @ ''-ids'' := vk_sets s (key @ ''-ids'') \<union> set ids)\<rparr>"

definition isQueuePaused :: "string \<Rightarrow> valkey \<Rightarrow> bool" where
  "isQueuePaused pre s \<longleftrightarrow> vk_hashes s (pre @ ''meta'') ''paused'' = Some ''1''"

section \<open>The Lua functions\<close>

definition pop_one_list :: "string \<Rightarrow> nat \<Rightarrow> valkey \<Rightarrow> valkey \<times> string list" where
  "pop_one_list key n s =
     (case rpop_upto n (vk_lists s key) of (ids, rest) \<Rightarrow> (s\<lparr>vk_lists := (vk_lists s)(key := rest)\<rparr>, ids))"

text \<open>The priority list first, the LIFO list only when nothing came from it; nothing while paused.\<close>

definition pop_lists :: "string \<Rightarrow> string \<Rightarrow> string \<Rightarrow> valkey \<Rightarrow> valkey \<times> string list" where
  "pop_lists pk lk count s =
     (let n = nat \<lfloor>lua_number 1 (Some count)\<rfloor> in
      if isQueuePaused (take (length pk - 8) pk) s then (s, [])
      else (case pop_one_list pk n s of
              (s1, ids) \<Rightarrow> if ids \<noteq> [] then (s1, ids) else pop_one_list lk n s1))"

definition ids_reply :: "string list \<Rightarrow> reply" where
  "ids_reply ids = RArr (map RStr ids)"

definition lua_popLists :: "string \<Rightarrow> string \<Rightarrow> string \<Rightarrow> valkey \<Rightarrow> valkey \<times> reply" where
  "lua_popLists pk lk count s = (case pop_lists pk lk count s of (s', ids) \<Rightarrow> (s', ids_reply ids))"

definition lua_popListsReserve :: "string \<Rightarrow> string \<Rightarrow> string \<Rightarrow> string \<Rightarrow> valkey \<Rightarrow> valkey \<times> reply" where
  "lua_popListsReserve pk lk ak count s =
     (case pop_lists pk lk count s of
        (s', ids) \<Rightarrow> (if ids \<noteq> [] \<and> ak \<noteq> [] then incrListActive ak ids s' else s', ids_reply ids))"

definition global_limit :: "string \<Rightarrow> valkey \<Rightarrow> rat" where
  "global_limit mk s = lua_number 0 (vk_hashes s mk ''globalConcurrency'')"

definition free_capacity :: "string \<Rightarrow> string \<Rightarrow> string \<Rightarrow> string \<Rightarrow> valkey \<Rightarrow> rat" where
  "free_capacity mk sk ak grp s = global_limit mk s - of_nat (vk_pending s sk grp) - of_int (vk_counters s ak)"

definition lua_checkConcurrency :: "string \<Rightarrow> string \<Rightarrow> string \<Rightarrow> string \<Rightarrow> valkey \<Rightarrow> valkey \<times> reply" where
  "lua_checkConcurrency mk sk ak grp s =
     (s, RInt (if global_limit mk s \<le> 0 then -1
               else if free_capacity mk sk ak grp s \<le> 0 then 0 else js_trunc (free_capacity mk sk ak grp s)))"

definition lua_rpopAndReserve ::
  "string \<Rightarrow> string \<Rightarrow> string \<Rightarrow> string \<Rightarrow> string \<Rightarrow> string \<Rightarrow> valkey \<Rightarrow> valkey \<times> reply" where
  "lua_rpopAndReserve mk sk ak lk grp count s =
     (let requested = lua_number 1 (Some count); limit = global_limit mk s; free = free_capacity mk sk ak grp s in
      if vk_hashes s mk ''paused'' = Some ''1'' then (s, RArr [])
      else if limit > 0 \<and> free \<le> 0 then (s, RArr [])
      else (let maxPop = (if limit > 0 \<and> free < requested then free else requested) in
            case pop_one_list lk (nat \<lfloor>maxPop\<rfloor>) s of
              (s', ids) \<Rightarrow> (if ids \<noteq> [] then incrListActive ak ids s' else s', ids_reply ids)))"

text \<open>
  A server with the given functions of the library, for the commands the pops send. A missing function
  is reported the way Valkey does.
\<close>

definition param :: "string list \<Rightarrow> nat \<Rightarrow> string" where
  "param xs i = (if i < length xs then xs ! i else [])"

definition list_call :: "string \<Rightarrow> string list \<Rightarrow> string list \<Rightarrow> (valkey \<Rightarrow> valkey \<times> reply) option" where
  "list_call f ks as =
     (if f = ''glidemq_popLists'' then Some (lua_popLists (param ks 0) (param ks 1) (param as 0))
      else if f = ''glidemq_popListsReserve'' then Some (lua_popListsReserve (param ks 0) (param ks 1) (param ks 2) (param as 0))
      else if f = ''glidemq_checkConcurrency''
      then Some (lua_checkConcurrency (param ks 0) (param ks 1) (param ks 2) (param as 0))
      else if f = ''glidemq_rpopAndReserve''
      then Some (lua_rpopAndReserve (param ks 0) (param ks 1) (param ks 2) (param ks 3) (param as 0) (param as 1))
      else None)"

definition serve_lists :: "string list \<Rightarrow> valkey \<Rightarrow> command \<Rightarrow> valkey \<times> (call_failure + reply)" where
  "serve_lists lib s c =
     (case c of
        FCall f ks as \<Rightarrow>
          (case (if f \<in> set lib then list_call f ks as else None) of
             Some g \<Rightarrow> (case g s of (s', r) \<Rightarrow> (s', Inr r))
           | None \<Rightarrow> (s, Inl (RequestFailure ''ERR Function not found'')))
      | IncrBy k n \<Rightarrow> (s\<lparr>vk_counters := (vk_counters s)(k := vk_counters s k + n)\<rparr>, Inr (RInt (vk_counters s k + n)))
      | _ \<Rightarrow> (s, Inl (RequestFailure ''ERR unknown command'')))"

section \<open>The pop of both lists\<close>

lemma safeCount_range: "1 \<le> safeCount c \<and> safeCount c \<le> 1000"
  by (auto simp: safeCount_def split: jsnum.splits)

lemma lua_number_show [simp]: "lua_number d (Some (show_int n)) = of_int n"
  by (simp add: lua_number_def)

lemma reply_texts_ids [simp]: "reply_texts (ids_reply ids) = ids"
  by (induction ids) (simp_all add: reply_texts_def ids_reply_def)

lemma popped_ids [simp]: "popped_count (ids_reply ids) = length ids"
  by (simp add: popped_count_def ids_reply_def)

lemma not_found_lacks: "lacks_function (RequestFailure ''ERR Function not found'')"
  by code_simp

lemma serve_IncrBy:
  "serve_lists lib s (IncrBy k n) =
     (s\<lparr>vk_counters := (vk_counters s)(k := vk_counters s k + n)\<rparr>, Inr (RInt (vk_counters s k + n)))"
  by (simp add: serve_lists_def)

text \<open>What a pop takes, and the state after it.\<close>

definition taken :: "queue_keys \<Rightarrow> nat \<Rightarrow> valkey \<Rightarrow> string list" where
  "taken k n s =
     (if vk_hashes s (k_meta k) ''paused'' = Some ''1'' then []
      else if vk_lists s (k_priority k) \<noteq> [] then take n (rev (vk_lists s (k_priority k)))
      else take n (rev (vk_lists s (k_lifo k))))"

definition without_taken :: "queue_keys \<Rightarrow> nat \<Rightarrow> valkey \<Rightarrow> string \<Rightarrow> string list" where
  "without_taken k n s =
     (if vk_hashes s (k_meta k) ''paused'' = Some ''1'' then vk_lists s
      else (let key = (if vk_lists s (k_priority k) \<noteq> [] then k_priority k else k_lifo k)
            in (vk_lists s)(key := take (length (vk_lists s key) - n) (vk_lists s key))))"

lemma meta_of_priority:
  "take (length (k_priority (buildKeys q pre)) - 8) (k_priority (buildKeys q pre)) @ ''meta'' = k_meta (buildKeys q pre)"
  by (simp add: buildKeys_def Let_def)

lemma priority_not_lifo: "k_lifo (buildKeys q pre) \<noteq> k_priority (buildKeys q pre)"
  by (simp add: buildKeys_def Let_def)

lemma pop_lists_taken:
  assumes "k = buildKeys q pre" and "n > 0"
  shows "pop_lists (k_priority k) (k_lifo k) (show_int (int n)) s =
    (s\<lparr>vk_lists := without_taken k n s\<rparr>, taken k n s)"
  using assms(2) priority_not_lifo [of q pre]
  by (auto simp: pop_lists_def isQueuePaused_def meta_of_priority assms(1) pop_one_list_def rpop_upto
      taken_def without_taken_def Let_def fun_upd_idem)

definition counted :: "queue_keys \<Rightarrow> nat \<Rightarrow> valkey \<Rightarrow> string \<Rightarrow> int" where
  "counted k n s = (vk_counters s)(k_listActive k := vk_counters s (k_listActive k) + int (length (taken k n s)))"

definition claimed :: "queue_keys \<Rightarrow> nat \<Rightarrow> valkey \<Rightarrow> string \<Rightarrow> string set" where
  "claimed k n s =
     (let key = k_listActive k @ ''-ids'' in (vk_sets s)(key := vk_sets s key \<union> set (taken k n s)))"

lemma nothing_taken:
  "taken k n s = [] \<Longrightarrow> counted k n s = vk_counters s \<and> claimed k n s = vk_sets s"
  by (simp add: counted_def claimed_def Let_def fun_upd_idem)

lemma listActive_nonempty: "k_listActive (buildKeys q pre) \<noteq> []"
  by (simp add: buildKeys_def Let_def)

lemma reserve_taken:
  assumes "k = buildKeys q pre" and "n > 0"
  shows "lua_popListsReserve (k_priority k) (k_lifo k) (k_listActive k) (show_int (int n)) s =
    (s\<lparr>vk_lists := without_taken k n s, vk_counters := counted k n s, vk_sets := claimed k n s\<rparr>, ids_reply (taken k n s))"
proof -
  have "k_listActive k \<noteq> []" using listActive_nonempty by (simp add: assms(1))
  then show ?thesis
    using nothing_taken [of k n s]
    by (auto simp: lua_popListsReserve_def pop_lists_taken [OF assms] incrListActive_def counted_def claimed_def Let_def)
qed

lemma safeCount_nat: "show_int (safeCount c) = show_int (int (nat (safeCount c)))"
  using safeCount_range [of c] by simp

lemma serve_known:
  "f \<in> set lib \<Longrightarrow> list_call f ks as = Some g \<Longrightarrow>
     serve_lists lib s (FCall f ks as) = (case g s of (s', r) \<Rightarrow> (s', Inr r))"
  by (simp add: serve_lists_def)

lemma serve_missing:
  "f \<notin> set lib \<Longrightarrow> serve_lists lib s (FCall f ks as) = (s, Inl (RequestFailure ''ERR Function not found''))"
  by (simp add: serve_lists_def)

text \<open>
  What \<open>popLists\<close> relies on: the reserving pop, or its absence and the older pop, and \<open>INCRBY\<close>.
\<close>

locale pop_server =
  fixes srv :: "valkey \<Rightarrow> command \<Rightarrow> valkey \<times> (call_failure + reply)"
    and reserves :: bool
    and k :: queue_keys
  assumes reserving: "reserves \<Longrightarrow> 0 < n \<Longrightarrow>
      srv s (FCall ''glidemq_popListsReserve'' [k_priority k, k_lifo k, k_listActive k] [show_int (int n)]) =
        (s\<lparr>vk_lists := without_taken k n s, vk_counters := counted k n s, vk_sets := claimed k n s\<rparr>, Inr (ids_reply (taken k n s)))"
    and missing: "\<not> reserves \<Longrightarrow> \<exists>e. lacks_function e \<and> (\<forall>ks as. srv s (FCall ''glidemq_popListsReserve'' ks as) = (s, Inl e))"
    and older: "0 < n \<Longrightarrow>
      srv s (FCall ''glidemq_popLists'' [k_priority k, k_lifo k, k_listActive k] [show_int (int n)]) =
        (s\<lparr>vk_lists := without_taken k n s\<rparr>, Inr (ids_reply (taken k n s)))"
    and counting: "srv s (IncrBy key d) =
        (s\<lparr>vk_counters := (vk_counters s)(key := vk_counters s key + d)\<rparr>, Inr (RInt (vk_counters s key + d)))"
begin

lemma popLists_run:
  assumes "n = nat (safeCount count)"
  shows "run_client srv (popLists k count) s =
      (s\<lparr>vk_lists := without_taken k n s, vk_counters := counted k n s,
         vk_sets := (if reserves then claimed k n s else vk_sets s)\<rparr>, Inr (taken k n s))"
proof -
  have n: "0 < n" using safeCount_range [of count] by (simp add: assms)
  have c: "show_int (safeCount count) = show_int (int n)" by (simp add: assms safeCount_nat)
  show ?thesis
  proof (cases reserves)
    case True
    then show ?thesis by (simp add: popLists_def c run_tryC reserving n Let_def)
  next
    case False
    then obtain e where "lacks_function e" "\<And>ks as. srv s (FCall ''glidemq_popListsReserve'' ks as) = (s, Inl e)"
      using missing by blast
    with False show ?thesis
      using nothing_taken [of k n s]
      by (simp add: popLists_def c run_tryC run_bindC older n counting counted_def Let_def)
  qed
qed

end

text \<open>A server with the older pop, with or without the reserving one.\<close>

lemma serve_lists_cong: "set lib = set lib' \<Longrightarrow> serve_lists lib = serve_lists lib'"
  by (intro ext) (simp add: serve_lists_def split: command.split)

interpretation lists: pop_server "serve_lists (''glidemq_popLists'' # lib)" "''glidemq_popListsReserve'' \<in> set lib" "buildKeys q pre"
  for lib q pre
proof (unfold_locales, goal_cases)
  case (1 n s)
  then show ?case by (simp add: serve_known list_call_def param_def reserve_taken [OF refl])
next
  case (2 s)
  then show ?case using not_found_lacks by (auto simp: serve_missing)
next
  case (3 n s)
  then show ?case by (simp add: serve_known list_call_def param_def lua_popLists_def pop_lists_taken [OF refl])
next
  case (4 s key d)
  show ?case by (rule serve_IncrBy)
qed

text \<open>
  C14: \<open>popLists\<close> hands out the newest entries of the priority list, or of the LIFO list when that one
  is empty, at most a thousand and none while the queue is paused; it takes exactly these from the list,
  and the counter of active list jobs grows by their number. Jobs, lists and counter are the same whether
  the library reserves in the pop or is an older one and the client counts afterwards; the set of claims
  is only kept by the newer one.
\<close>

theorem popLists_pops:
  assumes "''glidemq_popLists'' \<in> set lib"
  shows "let k = buildKeys q pre; n = nat (safeCount count) in
    run_client (serve_lists lib) (popLists k count) s =
      (s\<lparr>vk_lists := without_taken k n s, vk_counters := counted k n s,
         vk_sets := (if ''glidemq_popListsReserve'' \<in> set lib then claimed k n s else vk_sets s)\<rparr>,
       Inr (taken k n s))
    \<and> length (taken k n s) \<le> n \<and> n \<le> 1000"
proof -
  have lib: "serve_lists lib = serve_lists (''glidemq_popLists'' # lib)" using assms by (intro serve_lists_cong) auto
  show ?thesis
    using safeCount_range [of count] lists.popLists_run [OF refl, of lib q pre count s]
    by (simp add: lib Let_def taken_def nat_le_iff)
qed

lemma popLists_pops_witness:
  "let k = buildKeys ''q'' ''glide'';
       s = \<lparr>vk_counters = (\<lambda>_. 0), vk_lists = (\<lambda>_. [])(k_lifo k := [''1'', ''2'', ''3'']), vk_hashes = (\<lambda>_ _. None),
            vk_sets = (\<lambda>_. {}), vk_pending = (\<lambda>_ _. 0)\<rparr>
   in snd (run_client (serve_lists [''glidemq_popLists'']) (popLists k (Num 2)) s) = Inr [''3'', ''2'']"
proof -
  have c: "safeCount (Num 2) = 2" by (simp add: safeCount_def)
  show ?thesis
    using popLists_pops [of "[''glidemq_popLists'']" "''q''" "''glide''" "Num 2"] priority_not_lifo [of "''q''" "''glide''"]
    by (simp add: Let_def c taken_def numeral_2_eq_2)
qed

section \<open>The pop under a global limit\<close>

lemma pop_one_list_length: "pop_one_list lk n s = (s', ids) \<Longrightarrow> length ids \<le> n"
  by (auto simp: pop_one_list_def rpop_upto)

lemma pop_one_list_state: "pop_one_list lk n s = (s', ids) \<Longrightarrow>
  vk_counters s' = vk_counters s \<and> vk_hashes s' = vk_hashes s \<and> vk_pending s' = vk_pending s"
  by (auto simp: pop_one_list_def rpop_upto)

lemma pop_one_list_bound:
  "pop_one_list lk (nat \<lfloor>m\<rfloor>) s = (s', ids) \<Longrightarrow> 0 \<le> m \<Longrightarrow> (of_nat (length ids) :: rat) \<le> m"
proof -
  assume "pop_one_list lk (nat \<lfloor>m\<rfloor>) s = (s', ids)" and m: "0 \<le> m"
  then have "length ids \<le> nat \<lfloor>m\<rfloor>" by (rule_tac pop_one_list_length)
  then have "int (length ids) \<le> \<lfloor>m\<rfloor>" using m by (simp add: le_nat_iff)
  then show ?thesis by (simp add: le_floor_iff)
qed

text \<open>Either nothing changes, or the jobs come off the list and the counter grows by their number.\<close>

lemma lua_rpopAndReserve_cases:
  assumes "lua_rpopAndReserve mk sk ak lk grp (show_int c) s = (s', rep)" and "c \<ge> 0"
  obtains "s' = s" and "rep = ids_reply []"
  | ids s2 where "ids \<noteq> []" and "rep = ids_reply ids" and "s' = incrListActive ak ids s2"
      and "vk_counters s2 = vk_counters s" and "vk_hashes s2 = vk_hashes s" and "vk_pending s2 = vk_pending s"
      and "vk_hashes s mk ''paused'' \<noteq> Some ''1''" and "of_nat (length ids) \<le> (of_int c :: rat)"
      and "global_limit mk s > 0 \<Longrightarrow> of_nat (length ids) \<le> free_capacity mk sk ak grp s"
  | s2 where "rep = ids_reply []" and "s' = s2"
      and "vk_counters s2 = vk_counters s" and "vk_hashes s2 = vk_hashes s" and "vk_pending s2 = vk_pending s"
proof (cases "vk_hashes s mk ''paused'' = Some ''1'' \<or> (global_limit mk s > 0 \<and> free_capacity mk sk ak grp s \<le> 0)")
  case True
  then have "lua_rpopAndReserve mk sk ak lk grp (show_int c) s = (s, RArr [])"
    by (auto simp: lua_rpopAndReserve_def Let_def)
  with assms(1) that(1) show ?thesis by (simp add: ids_reply_def)
next
  case False
  define m where "m = (if global_limit mk s > 0 \<and> free_capacity mk sk ak grp s < of_int c then free_capacity mk sk ak grp s else of_int c)"
  have m: "0 \<le> m" "m \<le> of_int c" "global_limit mk s > 0 \<Longrightarrow> m \<le> free_capacity mk sk ak grp s"
    using False assms(2) by (auto simp: m_def)
  obtain s2 ids where pop: "pop_one_list lk (nat \<lfloor>m\<rfloor>) s = (s2, ids)" by (rule prod.exhaust)
  have "lua_rpopAndReserve mk sk ak lk grp (show_int c) s = (if ids \<noteq> [] then incrListActive ak ids s2 else s2, ids_reply ids)"
    using False pop by (auto simp: lua_rpopAndReserve_def Let_def m_def)
  then have r: "rep = ids_reply ids" "s' = (if ids \<noteq> [] then incrListActive ak ids s2 else s2)"
    using assms(1) by simp_all
  note st = pop_one_list_state [OF pop]
  have len: "of_nat (length ids) \<le> m" by (rule pop_one_list_bound [OF pop m(1)])
  show ?thesis
  proof (cases "ids = []")
    case True
    with r st that(3) show ?thesis by simp
  next
    case ids: False
    show ?thesis
    proof (rule that(2) [OF ids r(1)])
      show "s' = incrListActive ak ids s2" using r(2) ids by simp
      show "of_nat (length ids) \<le> (of_int c :: rat)" using len m(2) by (rule order_trans)
      show "of_nat (length ids) \<le> free_capacity mk sk ak grp s" if "global_limit mk s > 0"
        using len m(3) [OF that] by (rule order_trans)
    qed (use st False in simp_all)
  qed
qed

text \<open>
  C15: \<open>rpopAndReserve\<close> never claims past the global limit: with a limit set it returns at most as many
  jobs as the limit leaves beside the pending entries and the active list jobs, counts each of them as
  active before it answers, and returns none when nothing is left or the queue is paused.
\<close>

theorem rpop_within_limit:
  assumes "''glidemq_rpopAndReserve'' \<in> set lib"
    and "run_client (serve_lists lib) (rpopAndReserve k lk grp count) s = (s', r)"
  shows "\<exists>ids. r = Inr ids \<and> length ids \<le> nat (safeCount count)
    \<and> vk_counters s' = (vk_counters s)(k_listActive k := vk_counters s (k_listActive k) + int (length ids))
    \<and> (ids \<noteq> [] \<longrightarrow> vk_hashes s (k_meta k) ''paused'' \<noteq> Some ''1'')
    \<and> (ids \<noteq> [] \<and> global_limit (k_meta k) s > 0 \<longrightarrow>
         of_nat (vk_pending s' (k_stream k) grp) + of_int (vk_counters s' (k_listActive k)) \<le> global_limit (k_meta k) s')"
proof -
  let ?mk = "k_meta k" and ?ak = "k_listActive k" and ?n = "safeCount count"
  have n1: "?n \<ge> 0" using safeCount_range [of count] by simp
  obtain s1 rep where srv: "lua_rpopAndReserve ?mk (k_stream k) ?ak lk grp (show_int ?n) s = (s1, rep)" by (rule prod.exhaust)
  have run: "s' = s1" "r = Inr (reply_texts rep)"
    using assms srv by (auto simp: rpopAndReserve_def serve_known list_call_def param_def)
  from srv n1 show ?thesis
  proof (cases rule: lua_rpopAndReserve_cases)
    case 1
    then show ?thesis by (simp add: run fun_upd_idem)
  next
    case (2 ids s2)
    have "(of_int (int (length ids)) :: rat) \<le> of_int ?n" using 2(8) by simp
    then have "int (length ids) \<le> ?n" by (simp only: of_int_le_iff)
    then have "length ids \<le> nat ?n" by linarith
    moreover have "global_limit ?mk s1 = global_limit ?mk s" by (simp add: 2 global_limit_def incrListActive_def)
    moreover have "vk_counters s1 = (vk_counters s)(?ak := vk_counters s ?ak + int (length ids))" "vk_pending s1 = vk_pending s"
      by (simp_all add: 2 incrListActive_def)
    moreover have "of_nat (vk_pending s (k_stream k) grp) + (of_int (vk_counters s ?ak) + of_nat (length ids)) \<le> global_limit ?mk s"
      if "global_limit ?mk s > 0" using 2(9) [OF that] by (simp add: free_capacity_def)
    ultimately show ?thesis
      unfolding run using 2(2,7) by (intro exI [of _ ids]) simp
  next
    case (3 s2)
    then show ?thesis by (simp add: run fun_upd_idem)
  qed
qed

lemma rpop_within_limit_witness:
  "\<exists>s' ids. run_client (serve_lists [''glidemq_rpopAndReserve''])
       (rpopAndReserve (buildKeys ''q'' ''glide'') ''glide:{q}:lifo'' ''workers'' (Num 5))
       \<lparr>vk_counters = (\<lambda>_. 1), vk_lists = (\<lambda>_. [''1'', ''2'', ''3'']),
        vk_hashes = (\<lambda>_ f. if f = ''globalConcurrency'' then Some ''3'' else None),
        vk_sets = (\<lambda>_. {}), vk_pending = (\<lambda>_ _. 1)\<rparr> = (s', Inr ids) \<and> length ids \<le> 5"
  (is "\<exists>s' ids. ?run = (s', Inr ids) \<and> length ids \<le> 5")
proof -
  obtain s' r where run: "?run = (s', r)" by (metis surj_pair)
  have c: "safeCount (Num 5) = 5" by (simp add: safeCount_def)
  from rpop_within_limit [OF _ run] obtain ids where "r = Inr ids" "length ids \<le> nat (safeCount (Num 5))" by auto
  with run show ?thesis unfolding c by auto
qed

end
