(* ===== verification/Server_Locks.thy ===== *)
theory Server_Locks
  imports Server_Lists
begin

text \<open>
  The locks that serialize scheduler ticks, suspend sweeps and usage reports: \<open>tryLock\<close>, \<open>unlock\<close> and
  \<open>renewLock\<close> of the client run against their Lua functions (\<open>src/functions/glidemq.lua\<close>). A lock is a
  key that holds its owner's token until it expires.
\<close>

section \<open>The server\<close>

record lock_server =
  lk_clock :: int
  lk_entries :: "string \<Rightarrow> (string \<times> int) option"

text \<open>\<open>GET\<close>: an expired key is gone.\<close>

definition holder :: "lock_server \<Rightarrow> string \<Rightarrow> string option" where
  "holder s key =
     (case lk_entries s key of Some (t, e) \<Rightarrow> if lk_clock s < e then Some t else None | None \<Rightarrow> None)"

definition put_lock :: "string \<Rightarrow> string \<Rightarrow> int \<Rightarrow> lock_server \<Rightarrow> lock_server" where
  "put_lock key token life s = s\<lparr>lk_entries := (lk_entries s)(key := Some (token, lk_clock s + life))\<rparr>"

definition drop_lock :: "string \<Rightarrow> lock_server \<Rightarrow> lock_server" where
  "drop_lock key s = s\<lparr>lk_entries := (lk_entries s)(key := None)\<rparr>"

text \<open>The time to live must be an integer; \<open>SET\<close> also rejects one that is not positive.\<close>

definition lua_tryLock :: "string \<Rightarrow> string \<Rightarrow> string \<Rightarrow> lock_server \<Rightarrow> lock_server \<times> (call_failure + reply)" where
  "lua_tryLock key token life s =
     (let q = lua_number 1000 (Some life) in
      if \<not> is_integral q then (s, Inl (RequestFailure ''ERR value is not an integer or out of range''))
      else if q \<le> 0 then (s, Inl (RequestFailure ''ERR invalid expire time''))
      else if holder s key \<noteq> None then (s, Inr (RInt 0))
      else (put_lock key token \<lfloor>q\<rfloor> s, Inr (RInt 1)))"

definition lua_unlock :: "string \<Rightarrow> string \<Rightarrow> lock_server \<Rightarrow> lock_server \<times> (call_failure + reply)" where
  "lua_unlock key token s =
     (if holder s key = Some token then (drop_lock key s, Inr (RInt 1)) else (s, Inr (RInt 0)))"

text \<open>\<open>PEXPIRE\<close> with a time that is not positive deletes the key.\<close>

definition lua_renewLock :: "string \<Rightarrow> string \<Rightarrow> string \<Rightarrow> lock_server \<Rightarrow> lock_server \<times> (call_failure + reply)" where
  "lua_renewLock key token life s =
     (let q = lua_number 1000 (Some life) in
      if holder s key \<noteq> Some token then (s, Inr (RInt 0))
      else if \<not> is_integral q then (s, Inl (RequestFailure ''ERR value is not an integer or out of range''))
      else (if q \<le> 0 then drop_lock key s else put_lock key token \<lfloor>q\<rfloor> s, Inr (RInt 1)))"

definition serve_locks :: "lock_server \<Rightarrow> command \<Rightarrow> lock_server \<times> (call_failure + reply)" where
  "serve_locks s c =
     (case c of
        FCall f ks as \<Rightarrow>
          if f = ''glidemq_tryLock'' then lua_tryLock (param ks 0) (param as 0) (param as 1) s
          else if f = ''glidemq_unlock'' then lua_unlock (param ks 0) (param as 0) s
          else if f = ''glidemq_renewLock'' then lua_renewLock (param ks 0) (param as 0) (param as 1) s
          else (s, Inl (RequestFailure ''ERR Function not found''))
      | _ \<Rightarrow> (s, Inl (RequestFailure ''ERR unknown command'')))"

section \<open>Steps of clients\<close>

text \<open>A client takes, renews or releases a lock with its token, or time passes.\<close>

datatype lock_step = Take string string jsnum | Release string string | Renew string string jsnum | Pass nat

definition lock_step :: "lock_step \<Rightarrow> lock_server \<Rightarrow> lock_server \<times> (call_failure + bool)" where
  "lock_step st s =
     (case st of
        Take key t life \<Rightarrow> run_client serve_locks (tryLock key t life) s
      | Release key t \<Rightarrow> run_client serve_locks (unlock key t) s
      | Renew key t life \<Rightarrow> run_client serve_locks (renewLock key t life) s
      | Pass d \<Rightarrow> (s\<lparr>lk_clock := lk_clock s + int d\<rparr>, Inr False))"

primrec lock_run :: "lock_step list \<Rightarrow> lock_server \<Rightarrow> lock_server \<times> (lock_step \<times> (call_failure + bool)) list" where
  "lock_run [] s = (s, [])"
| "lock_run (st # sts) s =
     (case lock_step st s of (s1, r) \<Rightarrow> (case lock_run sts s1 of (s2, rs) \<Rightarrow> (s2, (st, r) # rs)))"

primrec elapsed :: "lock_step list \<Rightarrow> nat" where
  "elapsed [] = 0"
| "elapsed (st # sts) = (case st of Pass d \<Rightarrow> d | _ \<Rightarrow> 0) + elapsed sts"

text \<open>The key a step is about, and its token.\<close>

definition step_key :: "lock_step \<Rightarrow> (string \<times> string) option" where
  "step_key st = (case st of Take k t _ \<Rightarrow> Some (k, t) | Release k t \<Rightarrow> Some (k, t) | Renew k t _ \<Rightarrow> Some (k, t) | Pass _ \<Rightarrow> None)"

section \<open>What a call does to a lock\<close>

lemma reply_is_one_RInt [simp]: "reply_is_one (RInt n) \<longleftrightarrow> n = 1"
  by (simp add: reply_is_one_def reply_num_def)

lemma run_lock_calls:
  "run_client serve_locks (tryLock key t life) s = map_prod id (map_sum id reply_is_one) (lua_tryLock key t (num_text life) s)"
  "run_client serve_locks (unlock key t) s = map_prod id (map_sum id reply_is_one) (lua_unlock key t s)"
  "run_client serve_locks (renewLock key t life) s = map_prod id (map_sum id reply_is_one) (lua_renewLock key t (num_text life) s)"
  by (simp_all add: tryLock_def unlock_def renewLock_def serve_locks_def param_def split: prod.splits)

lemma lock_entries_simps [simp]:
  "lk_clock (put_lock k t d s) = lk_clock s" "lk_clock (drop_lock k s) = lk_clock s"
  "lk_entries (put_lock k t d s) k' = (if k' = k then Some (t, lk_clock s + d) else lk_entries s k')"
  "lk_entries (drop_lock k s) k' = (if k' = k then None else lk_entries s k')"
  by (simp_all add: put_lock_def drop_lock_def)

text \<open>While \<open>a\<close> holds \<open>key\<close>, a step of another token on it fails, and only the clock moves.\<close>

lemma foreign_step:
  assumes held: "lk_entries s key = Some (a, e)" and later: "elapsed [st] < e - lk_clock s"
    and foreign: "\<And>t. step_key st = Some (key, t) \<Longrightarrow> t \<noteq> a"
    and step: "lock_step st s = (s1, r)"
  shows "lk_entries s1 key = Some (a, e) \<and> lk_clock s1 = lk_clock s + int (elapsed [st])
    \<and> (\<forall>t. step_key st = Some (key, t) \<longrightarrow> r \<noteq> Inr True)"
proof -
  have h: "holder s key = Some a" using held later by (simp add: holder_def)
  show ?thesis
  proof (cases st)
    case (Take k t life)
    with h held step show ?thesis
      by (cases "k = key") (auto simp: lock_step_def run_lock_calls lua_tryLock_def step_key_def Let_def split: if_splits)
  next
    case (Release k t)
    with h held step foreign show ?thesis
      by (cases "k = key") (auto simp: lock_step_def run_lock_calls lua_unlock_def step_key_def split: if_splits)
  next
    case (Renew k t life)
    with h held step foreign show ?thesis
      by (cases "k = key") (auto simp: lock_step_def run_lock_calls lua_renewLock_def step_key_def Let_def split: if_splits)
  next
    case (Pass d)
    with held step show ?thesis by (auto simp: lock_step_def step_key_def)
  qed
qed

lemma foreign_run:
  assumes "lk_entries s key = Some (a, e)" and "int (elapsed sts) < e - lk_clock s"
    and "\<forall>st \<in> set sts. \<forall>t. step_key st = Some (key, t) \<longrightarrow> t \<noteq> a"
    and "lock_run sts s = (s', rs)"
  shows "lk_entries s' key = Some (a, e) \<and> lk_clock s' = lk_clock s + int (elapsed sts)
    \<and> (\<forall>(st, r) \<in> set rs. \<forall>t. step_key st = Some (key, t) \<longrightarrow> r \<noteq> Inr True)"
  using assms
proof (induction sts arbitrary: s rs)
  case (Cons st sts)
  obtain s1 r where step: "lock_step st s = (s1, r)" by (rule prod.exhaust)
  obtain rs1 where run: "lock_run sts s1 = (s', rs1)" and rs: "rs = (st, r) # rs1"
    using Cons.prems(4) step by (auto split: prod.splits)
  have one: "lk_entries s1 key = Some (a, e) \<and> lk_clock s1 = lk_clock s + int (elapsed [st])
      \<and> (\<forall>t. step_key st = Some (key, t) \<longrightarrow> r \<noteq> Inr True)"
    using Cons.prems(2,3) by (intro foreign_step [OF Cons.prems(1) _ _ step]) auto
  have "int (elapsed sts) < e - lk_clock s1" using one Cons.prems(2) by simp
  with Cons.IH [OF _ _ _ run] one Cons.prems(3) rs show ?case by auto
qed simp

lemma take_fresh:
  assumes "holder s key = None" and "0 < d" and "d < 10 ^ 17"
  shows "run_client serve_locks (tryLock key b (Num (of_int d))) s = (put_lock key b d s, Inr True)"
  using assms by (simp add: run_lock_calls lua_tryLock_def num_text_int Let_def)

lemma take_held: "holder s key = Some a \<Longrightarrow> run_client serve_locks (tryLock key b life) s \<noteq> (s', Inr True)"
  by (auto simp: run_lock_calls lua_tryLock_def Let_def)

text \<open>
  C16: a lock excludes: from the call that took it until its time to live is over, whatever other tokens
  do on the key (taking, renewing, releasing) and however the calls interleave, none of their calls
  succeeds, and the holder's release still does and leaves the key free for the next.
\<close>

theorem lock_excludes:
  assumes "run_client serve_locks (tryLock key a (Num (of_int life))) s = (s0, Inr True)" and "\<bar>life\<bar> < 10 ^ 17"
    and "lock_run steps s0 = (s1, results)" and "int (elapsed steps) < life"
    and "\<forall>st \<in> set steps. \<forall>t. step_key st = Some (key, t) \<longrightarrow> t \<noteq> a"
  shows "(\<forall>(st, r) \<in> set results. \<forall>t. step_key st = Some (key, t) \<longrightarrow> r \<noteq> Inr True)
    \<and> (\<exists>s2. run_client serve_locks (unlock key a) s1 = (s2, Inr True) \<and> holder s2 key = None)"
proof -
  have "lk_entries s0 key = Some (a, lk_clock s0 + life)"
    using assms(1,2) by (auto simp: run_lock_calls lua_tryLock_def num_text_int Let_def split: if_splits)
  note run = foreign_run [OF this _ assms(5,3)]
  have "holder s1 key = Some a" using run assms(4) by (simp add: holder_def)
  then show ?thesis using run assms(4) by (auto simp: run_lock_calls lua_unlock_def holder_def)
qed

lemma lock_excludes_witness:
  "let s0 = fst (run_client serve_locks (tryLock ''k'' ''a'' (Num 5)) \<lparr>lk_clock = 100, lk_entries = (\<lambda>_. None)\<rparr>)
   in snd (run_client serve_locks (unlock ''k'' ''a'')
        (fst (lock_run [Pass 2, Take ''k'' ''b'' (Num 5), Release ''k'' ''b'', Pass 2] s0))) = Inr True"
proof -
  let ?s = "\<lparr>lk_clock = 100, lk_entries = (\<lambda>_. None)\<rparr>"
  let ?steps = "[Pass 2, Take ''k'' ''b'' (Num 5), Release ''k'' ''b'', Pass 2]"
  have t: "run_client serve_locks (tryLock ''k'' ''a'' (Num (of_int 5))) ?s = (put_lock ''k'' ''a'' 5 ?s, Inr True)"
    by (rule take_fresh) (simp_all add: holder_def)
  obtain s1 results where run: "lock_run ?steps (put_lock ''k'' ''a'' 5 ?s) = (s1, results)" by (rule prod.exhaust)
  have "\<exists>s2. run_client serve_locks (unlock ''k'' ''a'') s1 = (s2, Inr True) \<and> holder s2 ''k'' = None"
    by (rule conjunct2 [OF lock_excludes [OF t _ run]]) (simp_all add: step_key_def)
  with t run show ?thesis by (auto simp: Let_def)
qed

text \<open>A lock that is not renewed is free again when its time is over.\<close>

lemma lock_expires:
  assumes "run_client serve_locks (tryLock key a (Num (of_int life))) s = (s0, Inr True)" and "\<bar>life\<bar> < 10 ^ 17"
    and "life \<le> int d"
  shows "holder (fst (lock_step (Pass d) s0)) key = None"
proof -
  have "lk_entries s0 key = Some (a, lk_clock s0 + life)"
    using assms(1,2) by (auto simp: run_lock_calls lua_tryLock_def num_text_int Let_def split: if_splits)
  then show ?thesis using assms(3) by (simp add: lock_step_def holder_def)
qed

end
