(* ===== verification/Spec2Isabelle.thy ===== *)
theory Spec2Isabelle
  imports Validation Scores Usage Subject Calendar Cron_Search Cron_Tz Schedule Dag Tq_Order Tq_Budget Tq_Props Tq_Liveness
    Tq_Slots Tq_Rate Tq_Attempts Tq_Parents Tq_Vector Tq_Wait Tq_Lost Tq_Flow_Dag Sandbox_Props
    Sandbox_Runner_Inv Server_Chain Server_Locks
begin

text \<open>
  A verification development for glide-mq, a message queue over Valkey streams. Modelled are
  the functions the client computes itself, the whole in-memory testing mode, the sandbox for processors,
  and every call of the server's functions, with the parts of the Lua library the calls are checked
  against. The classes that combine these calls into queues and workers over Valkey are not.

  The program and its model.

  \<^item> \<open>src/utils.ts\<close>, \<open>src/types.ts\<close>: option validation (\<open>Validation\<close>), priority scores, backoff and
    reconnect delays (\<open>Scores\<close>), cron patterns (\<open>Calendar\<close>, \<open>Cron_Pattern\<close>, \<open>Cron_Search\<close>, \<open>Cron_Tz\<close>),
    scheduler run times (\<open>Schedule\<close>), subject patterns (\<open>Subject\<close>) and usage accounting (\<open>Usage\<close>). Each
    function of the source is a function of the same name; \<open>throw\<close> is \<open>Inl\<close>, a value \<open>Inr\<close>. Queue,
    worker, producer, proxy and testing mode all call these.
  \<^item> \<open>src/dag-utils.ts\<close>: building the graph and Kahn's algorithm (\<open>Dag_Kahn\<close>), the search that reports
    a cycle (\<open>Dag_Cycle\<close>), \<open>validateDAG\<close> and \<open>topoSort\<close> (\<open>Dag\<close>).
  \<^item> \<open>src/testing.ts\<close>: \<open>TestQueue\<close>, \<open>TestJob\<close> and \<open>TestWorker\<close>. \<open>Tq_State\<close> has the state: the record \<open>tq\<close> is
    a \<open>TestQueue\<close>, \<open>job\<close> a \<open>TestJobRecord\<close>, and since records and option objects are shared and
    compared by identity they live in stores (\<open>q_rec\<close>, \<open>q_opts\<close>) under references. Timers are map entries
    with their due time, emitted events a log, microtasks of wake-ups the event \<open>EvWake\<close>.
    \<open>Tq_Dispatch\<close> is the waiting queue with priorities, LIFO and delays; \<open>Tq_Add\<close> adds jobs, \<open>Tq_Query\<close>
    lists and searches them, \<open>Tq_Vector\<close> searches their vectors, \<open>Tq_Wait\<close> waits for them, \<open>Tq_Ops\<close> has
    the operations on many jobs, \<open>Tq_Job\<close> the methods of a handle, \<open>Tq_Budget\<close> flow budgets, \<open>Tq_Sched\<close>
    schedulers. \<open>Tq_World\<close> is the static registry of open queues: parents and children, flow jobs,
    dead-letter queues, usage summaries. \<open>Tq_Worker\<close> and \<open>Tq_Run\<close> are the worker: its limits, the end of a
    job, retries, batches and the dispatch loop. The result of a processor is an input of the model.
  \<^item> \<open>src/testing-flow.ts\<close>, \<open>src/testing-workflows.ts\<close>, \<open>src/workflows.ts\<close>: trees and DAGs of jobs over the
    registry (\<open>Tq_Flow\<close>), and the flows that chain, group and chord build (\<open>Workflows\<close>).
  \<^item> \<open>src/sandbox/pool.ts\<close>: \<open>Sandbox_Pool\<close>. Workers are objects in a store, the continuation of an awaited
    slot is a step of its own, exits, messages and timers are steps with their data as input.
  \<^item> \<open>src/sandbox/runner.ts\<close>, \<open>src/sandbox/sandbox-job.ts\<close>: \<open>Sandbox_Runner\<close>, the other end of the pool's
    messages. The jobs of a worker are objects in a store; a settled call resumes in a step of its own.

  \<^item> \<open>src/functions/index.ts\<close> and the keys of \<open>src/utils.ts\<close>: \<open>Client_Calls\<close> has replies, failures, keys and
    client programs, which ask one command after the other and go on with the answer; \<open>Server_Calls\<close> and
    \<open>Server_Ops\<close> have the wrapper of every function of the library. Of \<open>src/functions/glidemq.lua\<close> the end of a
    chain reply (\<open>Server_Chain\<close>), the list pops (\<open>Server_Lists\<close>) and the locks (\<open>Server_Locks\<close>) are modelled.

  \<open>Prelude\<close>, \<open>Numbers\<close>, \<open>Text_Numbers\<close>, \<open>Strings\<close> and \<open>Js_Values\<close> carry the JavaScript side:
  insertion-ordered maps (the locale \<open>ordered_map\<close> has their laws), numbers as NaN, infinities and exact rationals with rounding where
  it matters, UTF-16 text, JSON values and errors.

  What is proved.

  \<^item> Pure functions: \<open>Scores\<close>, \<open>Usage\<close>, \<open>Validation\<close>, \<open>Subject\<close>, \<open>Schedule\<close> state what each function computes,
    on errors too; the cron theories show that the search finds the first match, that the zone search is
    sound, and that it is the shifted UTC search in a zone with a fixed offset.
  \<^item> DAGs: \<open>topoSort\<close> gives a topological permutation exactly for well-formed acyclic submissions, and a
    reported cycle is one.
  \<^item> The testing mode as a state machine: \<open>Tq_Machine\<close> has the steps (calls in any order, timers, microtasks,
    ends of processors, time), \<open>Tq_Inv\<close> to \<open>Tq_Inv_Run\<close> the invariant of a queue, of the registry and of a
    worker under every step, \<open>Tq_Props\<close> that no job is stranded, \<open>Tq_Slots\<close> that a worker stays within its
    capacity, \<open>Tq_Liveness\<close> that a dispatch pass ends and why. \<open>Tq_Lost\<close> shows the one call the steps
    restrict, and that it loses a job without the restriction.
  \<^item> Parts of it in detail: \<open>Tq_Take\<close> and \<open>Tq_Order\<close> (the order of dispatch), \<open>Tq_Rate\<close> (the limiter's
    bound), \<open>Tq_Attempts\<close> (retries), \<open>Tq_Parents\<close> (the last child releases its parent), \<open>Tq_Budget\<close> (the
    exceeded flag), \<open>Tq_Wait\<close> (what ends a wait), \<open>Tq_Vector\<close> (the nearest vectors).
  \<^item> Flows: \<open>Tq_Flow_Inv\<close> has what one new node does to the records of all queues, \<open>Tq_Flow_Tree\<close> and
    \<open>Tq_Flow_Build\<close> the links of a tree while it is built, \<open>Tq_Flow_Props\<close> that an accepted flow becomes its
    tree, \<open>Tq_Flow_Dag\<close> that an accepted DAG becomes its jobs.
  \<^item> The sandbox pool: \<open>Sandbox_Inv\<close> proves its invariants by moves of single runs and workers, \<open>Sandbox_Props\<close>
    the slots, that no run is lost, and the slot a job that cannot be serialized costs. \<open>Sandbox_Runner_Inv\<close>:
    inside a worker every answer finds its call.
  \<^item> Client and server: \<open>Server_Chain\<close> that a chain reply is read back as it was written, \<open>Server_Lists\<close> what the
    pops hand out and count with new and old libraries and that the global limit holds, \<open>Server_Locks\<close> that a
    lock excludes.

  Fuel and bounds. The dispatch loop of a worker (\<open>process_available\<close>) runs on fuel; \<open>Tq_Liveness\<close> shows that
  \<open>enough_fuel\<close>, six units for every entry of the waiting queue and two more, lets it end on every reachable
  state. Id generation retries 1000 times, as the code does. The search horizon of cron patterns and the
  scan bounds are the source's constants. All other loops are structural or carry a termination proof.

  Not modelled: the connection, the rest of the Lua library and the classes that call it (\<open>queue.ts\<close>,
  \<open>base-worker.ts\<close>, \<open>flow-producer.ts\<close>, \<open>job.ts\<close>, \<open>producer.ts\<close>, \<open>scheduler.ts\<close>), whose decisions are made on the
  server; the HTTP routing of the proxy; the user's processors, loggers and telemetry. \<open>Intl\<close>, the
  serializers and random numbers are parameters with the laws they are used with. In numbers other
  than the priority scores the rounding of doubles is left out. One budget object shared by several queues
  of a flow is not modelled, because a queue's budgets are values in its own map.
\<close>

end
